(* ===== verification/GoBase.thy ===== *)
theory GoBase
  imports Main "HOL-Library.Word" "HOL-Library.AList"
begin

unbundle bit_operations_syntax

text \<open>
  What the components share: bytes and machine integers, the big-endian codecs of Go's
  \<^verbatim>\<open>encoding/binary\<close> package, the part of \<^verbatim>\<open>time.Time\<close> the storage layer uses, and
  generic facts on lists and association lists.

  Conventions. A \<^verbatim>\<open>uint64\<close> or \<^verbatim>\<open>int64\<close> is a \<open>64 word\<close>; signed comparisons are written
  with \<open>sint\<close>. A \<^verbatim>\<open>time.Time\<close> is its distance from the Unix epoch in nanoseconds, an
  unbounded \<open>int\<close>; Go's zero time lies in year 1. An \<^verbatim>\<open>error\<close> return is the left injection
  of a sum, a panic is \<open>None\<close>.
\<close>

type_synonym byte = "8 word"
type_synonym u64 = "64 word"

named_theorems codec_simps \<open>rewriting an encoder followed by its decoder\<close>

section \<open>Big-endian byte sequences\<close>

text \<open>\<^verbatim>\<open>binary.BigEndian.PutUint64\<close> and \<^verbatim>\<open>binary.BigEndian.Uint64\<close> of the Go standard
  library.\<close>

definition be64 :: "u64 \<Rightarrow> byte list" where
  "be64 v = [ucast (drop_bit 56 v), ucast (drop_bit 48 v), ucast (drop_bit 40 v),
             ucast (drop_bit 32 v), ucast (drop_bit 24 v), ucast (drop_bit 16 v),
             ucast (drop_bit 8 v), ucast v]"

fun horner :: "u64 \<Rightarrow> byte list \<Rightarrow> u64" where
  "horner acc [] = acc"
| "horner acc (b # bs) = horner (push_bit 8 acc OR ucast b) bs"

definition be64_read :: "byte list \<Rightarrow> u64" where
  "be64_read bs = horner 0 (take 8 bs)"

lemma join_byte:
  "push_bit 8 (drop_bit (k + 8) v) OR ucast (ucast (drop_bit k v) :: byte) = drop_bit k (v :: u64)"
proof (rule bit_word_eqI)
  fix n
  assume "n < LENGTH(64)"
  then show "bit (push_bit 8 (drop_bit (k + 8) v) OR ucast (ucast (drop_bit k v) :: byte)) n
      \<longleftrightarrow> bit (drop_bit k v) n"
    by (cases "n < 8") (auto simp: bit_simps ac_simps)
qed

lemmas join_bytes =
  join_byte [of 48, simplified] join_byte [of 40, simplified] join_byte [of 32, simplified]
  join_byte [of 24, simplified] join_byte [of 16, simplified] join_byte [of 8, simplified]
  join_byte [of 0, simplified]

lemma top_byte: "ucast (ucast (drop_bit 56 v) :: byte) = drop_bit 56 (v :: u64)"
  by (rule bit_word_eqI) (auto simp: bit_simps dest: bit_imp_le_length)

lemma length_be64 [simp]: "length (be64 v) = 8"
  by (simp add: be64_def)

lemma be64_not_Nil [simp]: "be64 v \<noteq> []"
  by (simp add: be64_def)

lemma horner_be64: "horner 0 (be64 v) = v"
  by (simp add: be64_def top_byte join_bytes)

lemma be64_read_append [simp, codec_simps]: "be64_read (be64 v @ xs) = v"
  by (simp add: be64_read_def horner_be64)

lemma be64_read_be64 [simp, codec_simps]: "be64_read (be64 v) = v"
  using be64_read_append [of v "[]"] by simp

lemma be64_inject [simp]: "be64 v = be64 w \<longleftrightarrow> v = w"
  by (metis be64_read_be64)

subsection \<open>Lexicographic order of keys\<close>

text \<open>Byte-wise key order, \<^verbatim>\<open>bytes.Compare(a, b) < 0\<close>: the order in which the key-value store
  iterates.\<close>

fun bytes_less :: "byte list \<Rightarrow> byte list \<Rightarrow> bool" where
  "bytes_less _ [] = False"
| "bytes_less [] (_ # _) = True"
| "bytes_less (a # as) (b # bs) = (a < b \<or> a = b \<and> bytes_less as bs)"

lemma bytes_less_irrefl [simp]: "\<not> bytes_less xs xs"
  by (induction xs) auto

lemma bytes_less_append_same [simp]: "bytes_less (xs @ ys) (xs @ zs) = bytes_less ys zs"
  by (induction xs) auto

lemma bytes_less_append:
  "length xs = length ys \<Longrightarrow>
     bytes_less (xs @ us) (ys @ vs) \<longleftrightarrow> bytes_less xs ys \<or> xs = ys \<and> bytes_less us vs"
proof (induction xs ys rule: list_induct2)
  case Nil
  then show ?case by (cases vs) auto
next
  case (Cons x xs y ys)
  then show ?case by auto
qed

lemma horner_uint:
  "uint acc < 2 ^ (64 - 8 * length bs) \<Longrightarrow> length bs \<le> 8 \<Longrightarrow>
     uint (horner acc bs) = foldl (\<lambda>a b. a * 256 + uint b) (uint acc) bs"
proof (induction bs arbitrary: acc)
  case Nil
  then show ?case by simp
next
  case (Cons b bs)
  have disj: "push_bit 8 acc AND ucast b = (0 :: u64)"
    by (rule bit_word_eqI) (auto simp: bit_simps dest: bit_imp_le_length)
  have le: "(2::int) ^ (64 - 8 * length (b # bs)) \<le> 2 ^ 56"
    by (rule power_increasing) auto
  have p: "uint (push_bit 8 acc) = uint acc * 256"
    using Cons.prems(1) le
    by (simp add: push_bit_eq_mult uint_word_ariths)
  have b: "uint (ucast b :: u64) = uint b" "uint b < 256"
    using uint_lt2p [of b] by (simp_all add: unsigned_ucast_eq take_bit_int_eq_self)
  have eq: "push_bit 8 acc OR ucast b = push_bit 8 acc + (ucast b :: u64)"
    using disj by (simp add: disjunctive_add_eq_or)
  have pow: "(2::int) ^ (64 - 8 * length (b # bs)) * 256 = 2 ^ (64 - 8 * length bs)"
  proof -
    have "64 - 8 * length bs = (64 - 8 * length (b # bs)) + 8"
      using Cons.prems(2) by simp
    then show ?thesis by (simp only: power_add) simp
  qed
  have small: "uint acc * 256 + uint b < 2 ^ (64 - 8 * length bs)"
    using Cons.prems(1) b(2) pow by linarith
  have le2: "(2::int) ^ (64 - 8 * length bs) \<le> 2 ^ 64"
    by (rule power_increasing) auto
  have "uint (push_bit 8 acc OR ucast b) = uint acc * 256 + uint b"
    using small le2 by (simp add: eq uint_word_ariths p b(1))
  then show ?case
    using Cons.IH [of "push_bit 8 acc OR ucast b"] Cons.prems(2) small by simp
qed

lemma foldl_less:
  fixes x y :: int
  assumes "length as = length bs" "x < y"
  shows "foldl (\<lambda>a b. a * 256 + uint (b :: byte)) x as < foldl (\<lambda>a b. a * 256 + uint b) y bs"
  using assms
proof (induction as bs arbitrary: x y rule: list_induct2)
  case Nil
  then show ?case by simp
next
  case (Cons a as b bs)
  have "uint a < 256" "0 \<le> uint b"
    using uint_lt2p [of a] by simp_all
  then have "x * 256 + uint a < y * 256 + uint b"
    using Cons.prems by linarith
  then show ?case using Cons.IH by simp
qed

lemma bytes_less_foldl:
  assumes "length as = length bs"
  shows "bytes_less as bs \<longleftrightarrow>
    foldl (\<lambda>a b. a * 256 + uint (b :: byte)) x as < foldl (\<lambda>a b. a * 256 + uint b) x bs"
  using assms
proof (induction as bs arbitrary: x rule: list_induct2)
  case Nil
  then show ?case by simp
next
  case (Cons a as b bs)
  show ?case
  proof (cases a b rule: linorder_cases)
    case less
    then have "x * 256 + uint a < x * 256 + uint b"
      by (simp add: word_less_def)
    then show ?thesis using less foldl_less [OF Cons.hyps] by simp
  next
    case equal
    then show ?thesis using Cons.IH by simp
  next
    case greater
    then have "x * 256 + uint b < x * 256 + uint a"
      by (simp add: word_less_def)
    then show ?thesis
      using greater foldl_less [OF Cons.hyps [symmetric], of "x * 256 + uint b" "x * 256 + uint a"] by auto
  qed
qed

text \<open>Big-endian encoding keeps the unsigned order.\<close>

lemma bytes_less_be64: "bytes_less (be64 v) (be64 w) \<longleftrightarrow> v < w"
proof -
  have "uint v = foldl (\<lambda>a b. a * 256 + uint b) 0 (be64 v)" for v
    using horner_uint [of 0 "be64 v"] by (simp add: horner_be64)
  then show ?thesis
    using bytes_less_foldl [of "be64 v" "be64 w" 0] by (simp add: word_less_def)
qed

section \<open>Times\<close>

text \<open>
  \<^verbatim>\<open>time.Time{}\<close> is 1 January of year 1. \<^verbatim>\<open>UnixNano\<close> computes in \<^verbatim>\<open>int64\<close>, so it wraps for
  times outside the years 1678 to 2262: the zero time reads as some instant of 1754.
\<close>

type_synonym go_time = int

definition zero_time :: go_time where
  "zero_time = - 62135596800 * 10 ^ 9"

definition unix_nano :: "go_time \<Rightarrow> u64" where
  "unix_nano t = word_of_int t"

definition time_unix :: "u64 \<Rightarrow> go_time" where
  "time_unix n = sint n"

definition in_nano_range :: "go_time \<Rightarrow> bool" where
  "in_nano_range t \<longleftrightarrow> - (2 ^ 63) \<le> t \<and> t < 2 ^ 63"

lemma time_unix_unix_nano [simp]: "in_nano_range t \<Longrightarrow> time_unix (unix_nano t) = t"
  by (simp add: time_unix_def unix_nano_def in_nano_range_def signed_of_int
      signed_take_bit_int_eq_self)

lemma unix_nano_time_unix [simp]: "unix_nano (time_unix n) = n"
  by (simp add: time_unix_def unix_nano_def)

lemma in_nano_range_time_unix [simp, intro]: "in_nano_range (time_unix n)"
  using sint_ge [of n] sint_lt [of n] by (simp add: in_nano_range_def time_unix_def)

lemma sint_unix_nano: "in_nano_range t \<Longrightarrow> sint (unix_nano t) = t"
  using time_unix_unix_nano [of t] by (simp add: time_unix_def)

lemma zero_time_out_of_range: "\<not> in_nano_range zero_time"
  by (simp add: in_nano_range_def zero_time_def)

section \<open>The sign bit\<close>

text \<open>Flipping the sign bit, \<^verbatim>\<open>x ^ (1 << 63)\<close>, turns the signed order into the unsigned
  one.\<close>

definition top_bit :: u64 where
  "top_bit = push_bit 63 1"

lemma bit_top_bit: "bit top_bit n \<longleftrightarrow> n = 63"
  unfolding top_bit_def by (subst bit_push_bit_iff) auto

lemma top_bit_double: "top_bit + top_bit = 0"
  by (simp add: top_bit_def push_bit_eq_mult)

lemma xor_top_bit: "v XOR top_bit = v + top_bit"
proof (cases "bit v 63")
  case False
  have "v AND top_bit = 0"
    by (rule bit_word_eqI) (use False in \<open>auto simp: bit_simps bit_top_bit\<close>)
  then show ?thesis by (simp add: disjunctive_add_eq_xor)
next
  case True
  let ?y = "v XOR top_bit"
  have "?y AND top_bit = 0"
    by (rule bit_word_eqI) (use True in \<open>auto simp: bit_simps bit_top_bit\<close>)
  moreover have "v = ?y OR top_bit"
    by (rule bit_word_eqI) (use True in \<open>auto simp: bit_simps bit_top_bit\<close>)
  ultimately have "v = ?y + top_bit" by (metis disjunctive_add_eq_or)
  then have "v + top_bit = ?y + (top_bit + top_bit)" by (metis add.assoc)
  then show ?thesis by (simp add: top_bit_double)
qed

lemma uint_xor_top_bit: "uint (v XOR top_bit) = sint v + 2 ^ 63"
proof -
  have t: "top_bit = word_of_int (2 ^ 63)"
    by (simp add: top_bit_def push_bit_eq_mult)
  have "v + top_bit = word_of_int (sint v + 2 ^ 63)"
    unfolding t by (simp only: of_int_add of_int_sint scast_id)
  moreover have "0 \<le> sint v + 2 ^ 63" "sint v + 2 ^ 63 < 2 ^ 64"
    using sint_ge [of v] sint_lt [of v] by simp_all
  ultimately show ?thesis
    by (simp only: xor_top_bit unsigned_of_int) (simp add: take_bit_int_eq_self)
qed

lemma xor_top_bit_twice [simp]: "(v XOR top_bit) XOR top_bit = v"
  by (simp add: xor.assoc)

lemma xor_top_bit_less: "v XOR top_bit < w XOR top_bit \<longleftrightarrow> sint v < sint w"
  by (simp add: word_less_def uint_xor_top_bit)

lemma xor_top_bit_inject [simp]: "v XOR top_bit = w XOR top_bit \<longleftrightarrow> v = w"
  by (metis xor_top_bit_twice)

end
