(* ===== verification/MvccVersion.thy ===== *)
theory MvccVersion
  imports GoBase "HOL-Library.Product_Lexorder"
begin

text \<open>
  Versions of the multi-version store: database prefixes of identifiers
  (\<^verbatim>\<open>pkg/storage/wal_ids.go\<close>), \<^verbatim>\<open>MVCCVersion\<close> and its order (\<^verbatim>\<open>pkg/storage/types.go\<close>), the
  byte encodings of version keys and heads (\<^verbatim>\<open>badger_helpers.go\<close>, \<^verbatim>\<open>badger_mvcc.go\<close>), and the
  per-namespace allocator of commit versions (\<^verbatim>\<open>badger_mvcc_per_namespace.go\<close>, \<^verbatim>\<open>badger.go\<close>).
\<close>

section \<open>Database prefixes\<close>

text \<open>\<^verbatim>\<open>strings.IndexByte\<close>; \<open>None\<close> is -1.\<close>

fun IndexByte :: "string \<Rightarrow> char \<Rightarrow> nat option" where
  "IndexByte [] c = None"
| "IndexByte (x # xs) c = (if x = c then Some 0 else map_option Suc (IndexByte xs c))"

definition ParseDatabasePrefix :: "string \<Rightarrow> (string \<times> string) option" where
  "ParseDatabasePrefix ident =
     (case IndexByte ident (CHR '':'') of
        None \<Rightarrow> None
      | Some idx \<Rightarrow>
          if idx \<le> 0 \<or> int idx \<ge> int (length ident) - 1 then None
          else Some (take idx ident, drop (idx + 1) ident))"

definition has_prefix :: "string \<Rightarrow> string \<Rightarrow> bool" where
  "has_prefix s p \<longleftrightarrow> take (length p) s = p"

definition StripDatabasePrefix :: "string \<Rightarrow> string \<Rightarrow> string" where
  "StripDatabasePrefix dbName ident =
     (if dbName = [] \<or> ident = [] then ident
      else let prefix = dbName @ '':''
           in if has_prefix ident prefix then drop (length prefix) ident else ident)"

definition EnsureDatabasePrefix :: "string \<Rightarrow> string \<Rightarrow> string" where
  "EnsureDatabasePrefix dbName ident =
     (if dbName = [] \<or> ident = [] then ident
      else case ParseDatabasePrefix ident of
             Some _ \<Rightarrow> ident
           | None \<Rightarrow> dbName @ '':'' @ ident)"

text \<open>\<^verbatim>\<open>namespaceForNodeID\<close> and \<^verbatim>\<open>namespaceForEdgeID\<close>: the empty string without a prefix.\<close>

definition namespaceForID :: "string \<Rightarrow> string" where
  "namespaceForID ident = (case ParseDatabasePrefix ident of None \<Rightarrow> [] | Some (ns, _) \<Rightarrow> ns)"

lemma IndexByte_append: "c \<notin> set xs \<Longrightarrow> IndexByte (xs @ c # ys) c = Some (length xs)"
  by (induction xs) auto

lemma IndexByte_Some:
  "IndexByte s c = Some i \<Longrightarrow> i < length s \<and> s ! i = c \<and> c \<notin> set (take i s)"
  by (induction s arbitrary: i) (auto split: if_splits)

lemma ParseDatabasePrefix_append:
  "ns \<noteq> [] \<Longrightarrow> CHR '':'' \<notin> set ns \<Longrightarrow> raw \<noteq> [] \<Longrightarrow>
     ParseDatabasePrefix (ns @ '':'' @ raw) = Some (ns, raw)"
  by (cases raw) (simp_all add: ParseDatabasePrefix_def IndexByte_append)

lemma ParseDatabasePrefix_Some:
  assumes "ParseDatabasePrefix ident = Some (ns, raw)"
  shows "ident = ns @ '':'' @ raw \<and> ns \<noteq> [] \<and> CHR '':'' \<notin> set ns \<and> raw \<noteq> []"
proof -
  obtain i where i: "IndexByte ident (CHR '':'') = Some i" "0 < i" "i + 1 < length ident"
    and ns: "ns = take i ident" "raw = drop (i + 1) ident"
    using assms by (auto simp: ParseDatabasePrefix_def split: option.splits if_splits)
  from IndexByte_Some [OF i(1)] have "ident = take i ident @ CHR '':'' # drop (i + 1) ident"
    by (metis Suc_eq_plus1 id_take_nth_drop)
  then show ?thesis
    using i ns IndexByte_Some [OF i(1)] by auto
qed

section \<open>Versions and their order\<close>

text \<open>
  \<^verbatim>\<open>MVCCVersion\<close> is a struct of two fields; it is a datatype with the fields as selectors so
  that it can be an instance of the order classes.
\<close>

datatype mvcc_version = MVCCVersion (CommitTimestamp: go_time) (CommitSequence: u64)

definition zero_version :: mvcc_version where
  "zero_version = MVCCVersion zero_time 0"

definition IsZero :: "mvcc_version \<Rightarrow> bool" where
  "IsZero v \<longleftrightarrow> CommitTimestamp v = zero_time \<and> CommitSequence v = 0"

definition Compare :: "mvcc_version \<Rightarrow> mvcc_version \<Rightarrow> int" where
  "Compare v other =
     (let vTime = unix_nano (CommitTimestamp v); oTime = unix_nano (CommitTimestamp other)
      in if sint vTime < sint oTime then -1
         else if sint vTime > sint oTime then 1
         else if CommitSequence v < CommitSequence other then -1
         else if CommitSequence v > CommitSequence other then 1
         else 0)"

text \<open>The versions that come out of a key or of the allocator: their time fits \<^verbatim>\<open>UnixNano\<close>.\<close>

definition norm_version :: "mvcc_version \<Rightarrow> bool" where
  "norm_version v \<longleftrightarrow> in_nano_range (CommitTimestamp v)"

instantiation mvcc_version :: linorder
begin

definition less_eq_mvcc_version :: "mvcc_version \<Rightarrow> mvcc_version \<Rightarrow> bool" where
  "v \<le> w \<longleftrightarrow> (CommitTimestamp v, CommitSequence v) \<le> (CommitTimestamp w, CommitSequence w)"

definition less_mvcc_version :: "mvcc_version \<Rightarrow> mvcc_version \<Rightarrow> bool" where
  "v < w \<longleftrightarrow> (CommitTimestamp v, CommitSequence v) < (CommitTimestamp w, CommitSequence w)"

instance
  by standard (auto simp: less_eq_mvcc_version_def less_mvcc_version_def intro: mvcc_version.expand)

end

lemma Compare_norm:
  assumes "norm_version v" "norm_version w"
  shows Compare_less: "Compare v w < 0 \<longleftrightarrow> v < w"
    and Compare_eq: "Compare v w = 0 \<longleftrightarrow> v = w"
    and Compare_greater: "0 < Compare v w \<longleftrightarrow> w < v"
  using assms
  by (auto simp: Compare_def Let_def norm_version_def sint_unix_nano less_mvcc_version_def
      intro: mvcc_version.expand)

lemma Compare_ge_iff: "norm_version v \<Longrightarrow> norm_version w \<Longrightarrow> 0 \<le> Compare v w \<longleftrightarrow> w \<le> v"
  using Compare_less [of v w] by (auto simp: not_less [symmetric])

lemma Compare_le_iff: "norm_version v \<Longrightarrow> norm_version w \<Longrightarrow> Compare v w \<le> 0 \<longleftrightarrow> v \<le> w"
  using Compare_greater [of v w] by (auto simp: not_less [symmetric])

lemmas Compare_simps = Compare_less Compare_eq Compare_greater Compare_ge_iff Compare_le_iff

lemma norm_version_not_zero: "norm_version v \<Longrightarrow> \<not> IsZero v"
  using zero_time_out_of_range by (auto simp: norm_version_def IsZero_def)

lemma Compare_refl [simp]: "Compare v v = 0"
  by (simp add: Compare_def)

lemma Compare_sym: "Compare v w = - Compare w v"
  by (auto simp: Compare_def Let_def)

text \<open>\<^verbatim>\<open>maxMVCCVersion\<close>: the largest time and the largest sequence.\<close>

definition maxMVCCVersion :: mvcc_version where
  "maxMVCCVersion = MVCCVersion (time_unix (drop_bit 1 (NOT 0))) (NOT 0)"

lemma maxMVCCVersion_eq: "maxMVCCVersion = MVCCVersion (2 ^ 63 - 1) (- 1)"
  by (simp add: maxMVCCVersion_def time_unix_def mask_eq_exp_minus_1)

lemma norm_maxMVCCVersion [simp]: "norm_version maxMVCCVersion"
  by (simp add: maxMVCCVersion_def norm_version_def)

lemma le_maxMVCCVersion: "norm_version v \<Longrightarrow> v \<le> maxMVCCVersion"
  by (auto simp: maxMVCCVersion_eq less_eq_mvcc_version_def norm_version_def in_nano_range_def)

section \<open>Version keys\<close>

definition encodeNumID :: "u64 \<Rightarrow> byte list" where
  "encodeNumID num = be64 num"

definition encodeMVCCSortVersion :: "mvcc_version \<Rightarrow> byte list" where
  "encodeMVCCSortVersion version =
     be64 (unix_nano (CommitTimestamp version) XOR top_bit) @ be64 (CommitSequence version)"

datatype codec_error = InvalidLength nat | Truncated nat | MissingFloor nat | InvalidKey | LegacyError

definition decodeMVCCSortVersion :: "byte list \<Rightarrow> codec_error + mvcc_version" where
  "decodeMVCCSortVersion encoded =
     (if length encoded \<noteq> 16 then Inl (InvalidLength (length encoded))
      else Inr (MVCCVersion (time_unix (be64_read (take 8 encoded) XOR top_bit))
                            (be64_read (drop 8 encoded))))"

definition prefixMVCCNode :: byte where "prefixMVCCNode = 0x0C"
definition prefixMVCCEdge :: byte where "prefixMVCCEdge = 0x0D"
definition prefixMVCCNodeHead :: byte where "prefixMVCCNodeHead = 0x0E"
definition prefixMVCCEdgeHead :: byte where "prefixMVCCEdgeHead = 0x0F"
definition prefixMVCCOutgoingAdj :: byte where "prefixMVCCOutgoingAdj = 0x23"
definition prefixMVCCIncomingAdj :: byte where "prefixMVCCIncomingAdj = 0x24"

definition mvccNodeVersionPrefix :: "u64 \<Rightarrow> byte list" where
  "mvccNodeVersionPrefix numID = prefixMVCCNode # encodeNumID numID"

definition mvccNodeVersionKey :: "u64 \<Rightarrow> mvcc_version \<Rightarrow> byte list" where
  "mvccNodeVersionKey numID version = mvccNodeVersionPrefix numID @ encodeMVCCSortVersion version"

definition mvccEdgeVersionPrefix :: "u64 \<Rightarrow> byte list" where
  "mvccEdgeVersionPrefix numID = prefixMVCCEdge # encodeNumID numID"

definition mvccEdgeVersionKey :: "u64 \<Rightarrow> mvcc_version \<Rightarrow> byte list" where
  "mvccEdgeVersionKey numID version = mvccEdgeVersionPrefix numID @ encodeMVCCSortVersion version"

definition extractMVCCVersionFromKey :: "byte list \<Rightarrow> codec_error + mvcc_version" where
  "extractMVCCVersionFromKey key =
     (if length key < 17 then Inl (InvalidLength (length key))
      else decodeMVCCSortVersion (drop (length key - 16) key))"

definition extractNodeNumIDAndMVCCVersionFromVersionKey ::
    "byte list \<Rightarrow> codec_error + u64 \<times> mvcc_version" where
  "extractNodeNumIDAndMVCCVersionFromVersionKey key =
     (if length key \<noteq> 1 + 8 + 16 \<or> hd key \<noteq> prefixMVCCNode then Inl InvalidKey
      else case decodeMVCCSortVersion (drop 9 key) of
             Inl e \<Rightarrow> Inl e
           | Inr version \<Rightarrow> Inr (be64_read (take 8 (drop 1 key)), version))"

definition extractMVCCLogicalKeyAndVersion ::
    "byte list \<Rightarrow> codec_error + byte list \<times> mvcc_version" where
  "extractMVCCLogicalKeyAndVersion key =
     (if length key = 1 + 8 + 16
      then (case decodeMVCCSortVersion (drop 9 key) of
              Inl _ \<Rightarrow> Inr (take 9 key, zero_version)
            | Inr version \<Rightarrow> Inr (take 9 key, version))
      else if length key = 1 + 8 + 8 + 16
           \<and> (hd key = prefixMVCCOutgoingAdj \<or> hd key = prefixMVCCIncomingAdj)
      then (case decodeMVCCSortVersion (drop 17 key) of
              Inl _ \<Rightarrow> Inr (take 17 key, zero_version)
            | Inr version \<Rightarrow> Inr (take 17 key, version))
      else Inl (InvalidLength (length key)))"

lemma length_encodeMVCCSortVersion [simp]: "length (encodeMVCCSortVersion v) = 16"
  by (simp add: encodeMVCCSortVersion_def)

lemma decode_encode_sort_version [codec_simps]:
  "norm_version v \<Longrightarrow> decodeMVCCSortVersion (encodeMVCCSortVersion v) = Inr v"
  by (cases v) (simp add: decodeMVCCSortVersion_def encodeMVCCSortVersion_def norm_version_def)

text \<open>Any version survives up to the wrap of its time.\<close>

lemma decode_encode_sort_version_wrap:
  "decodeMVCCSortVersion (encodeMVCCSortVersion v) =
     Inr (MVCCVersion (time_unix (unix_nano (CommitTimestamp v))) (CommitSequence v))"
  by (simp add: decodeMVCCSortVersion_def encodeMVCCSortVersion_def)

lemma encodeMVCCSortVersion_order:
  "bytes_less (encodeMVCCSortVersion v) (encodeMVCCSortVersion w) \<longleftrightarrow> Compare v w < 0"
  by (auto simp: encodeMVCCSortVersion_def bytes_less_append bytes_less_be64 xor_top_bit_less
      Compare_def Let_def dest: signed_word_eqI)

section \<open>Heads\<close>

record mvcc_head =
  Version :: mvcc_version
  Tombstoned :: bool
  FloorVersion :: mvcc_version

definition mvccHeadCompactVersion :: byte where "mvccHeadCompactVersion = 1"
definition mvccHeadFlagTombstoned :: byte where "mvccHeadFlagTombstoned = 1"
definition mvccHeadFlagHasFloor :: byte where "mvccHeadFlagHasFloor = 2"

definition normalizeMVCCHead :: "mvcc_head \<Rightarrow> mvcc_head" where
  "normalizeMVCCHead head =
     (if IsZero (FloorVersion head) then head\<lparr>FloorVersion := Version head\<rparr> else head)"

definition encodeMVCCHead :: "mvcc_head \<Rightarrow> byte list" where
  "encodeMVCCHead head0 =
     (let head = normalizeMVCCHead head0;
          flags = (if Tombstoned head then mvccHeadFlagTombstoned else 0);
          hasFloor = (Compare (FloorVersion head) (Version head) \<noteq> 0);
          flags' = (if hasFloor then flags OR mvccHeadFlagHasFloor else flags)
      in [mvccHeadCompactVersion, flags']
         @ be64 (unix_nano (CommitTimestamp (Version head))) @ be64 (CommitSequence (Version head))
         @ (if hasFloor
            then be64 (unix_nano (CommitTimestamp (FloorVersion head)))
                 @ be64 (CommitSequence (FloorVersion head))
            else []))"

text \<open>The fallback for old data directories is MessagePack, a library: it is the parameter
  \<open>legacy\<close>.\<close>

definition decodeMVCCHead ::
    "(byte list \<Rightarrow> codec_error + mvcc_head) \<Rightarrow> byte list \<Rightarrow> codec_error + mvcc_head" where
  "decodeMVCCHead legacy data =
     (if length data \<ge> 1 \<and> data ! 0 = mvccHeadCompactVersion then
        if length data < 18 then Inl (Truncated (length data))
        else
          let flags = data ! 1;
              version = MVCCVersion (time_unix (be64_read (take 8 (drop 2 data))))
                          (be64_read (take 8 (drop 10 data)));
              tombstoned = (flags AND mvccHeadFlagTombstoned \<noteq> 0)
          in if flags AND mvccHeadFlagHasFloor \<noteq> 0 then
               if length data < 34 then Inl (MissingFloor (length data))
               else Inr (normalizeMVCCHead
                      \<lparr>Version = version, Tombstoned = tombstoned,
                       FloorVersion = MVCCVersion (time_unix (be64_read (take 8 (drop 18 data))))
                                        (be64_read (take 8 (drop 26 data)))\<rparr>)
             else Inr (normalizeMVCCHead
                    \<lparr>Version = version, Tombstoned = tombstoned, FloorVersion = zero_version\<rparr>)
      else case legacy data of
             Inl e \<Rightarrow> Inl e
           | Inr head \<Rightarrow> Inr (normalizeMVCCHead head))"

definition norm_head :: "mvcc_head \<Rightarrow> bool" where
  "norm_head head \<longleftrightarrow> norm_version (Version head)
     \<and> (IsZero (FloorVersion head) \<or> norm_version (FloorVersion head))"

lemma normalizeMVCCHead_idem [simp]:
  "normalizeMVCCHead (normalizeMVCCHead head) = normalizeMVCCHead head"
  by (simp add: normalizeMVCCHead_def)

lemma normalizeMVCCHead_floor:
  "norm_head head \<Longrightarrow> norm_version (FloorVersion (normalizeMVCCHead head))"
  by (auto simp: norm_head_def normalizeMVCCHead_def)

lemma normalizeMVCCHead_fields [simp]:
  "Version (normalizeMVCCHead head) = Version head"
  "Tombstoned (normalizeMVCCHead head) = Tombstoned head"
  by (simp_all add: normalizeMVCCHead_def)

lemma IsZero_zero_version [simp]: "IsZero zero_version"
  by (simp add: IsZero_def zero_version_def)

lemma decode_encode_head [codec_simps]:
  assumes "norm_head head"
  shows "decodeMVCCHead legacy (encodeMVCCHead head) = Inr (normalizeMVCCHead head)"
proof -
  let ?h = "normalizeMVCCHead head"
  have v: "norm_version (Version head)" "norm_version (FloorVersion ?h)"
    using assms normalizeMVCCHead_floor [OF assms] by (auto simp: norm_head_def)
  then have nz: "\<not> IsZero (FloorVersion ?h)"
    by (auto dest: norm_version_not_zero)
  have t: "time_unix (unix_nano (CommitTimestamp (Version head))) = CommitTimestamp (Version head)"
    "time_unix (unix_nano (CommitTimestamp (FloorVersion ?h))) = CommitTimestamp (FloorVersion ?h)"
    using v by (simp_all add: norm_version_def)
  show ?thesis
  proof (cases "Compare (FloorVersion ?h) (Version head) = 0")
    case True
    then have "FloorVersion ?h = Version head"
      using v by (simp add: Compare_eq)
    then show ?thesis
      using t by (auto simp: encodeMVCCHead_def decodeMVCCHead_def Let_def True
          mvccHeadCompactVersion_def mvccHeadFlagTombstoned_def mvccHeadFlagHasFloor_def
          normalizeMVCCHead_def split: if_splits)
  next
    case False
    then show ?thesis
      using t nz by (auto simp: encodeMVCCHead_def decodeMVCCHead_def Let_def False
          mvccHeadCompactVersion_def mvccHeadFlagTombstoned_def mvccHeadFlagHasFloor_def
          normalizeMVCCHead_def split: if_splits)
  qed
qed

section \<open>The commit-version allocator of a namespace\<close>

text \<open>
  \<^verbatim>\<open>namespaceMVCCState\<close> without its cached key. The two atomics are read and written in one
  step here; the loops of \<^verbatim>\<open>nextSequence\<close> and \<^verbatim>\<open>reserveCommitTimestamp\<close> retry until their
  compare-and-swap meets an unchanged value, so each call takes effect at one point.
\<close>

record ns_state =
  seq :: u64
  highWaterNanos :: u64

definition maxMVCCCommitSequence :: u64 where
  "maxMVCCCommitSequence = NOT 0"

definition nextSequence :: "ns_state \<Rightarrow> u64 \<times> bool \<times> ns_state" where
  "nextSequence s =
     (let cur = seq s
      in if cur = maxMVCCCommitSequence then (cur, True, s)
         else let next = cur + 1 in (next, False, s\<lparr>seq := next\<rparr>))"

datatype alloc_error = ErrExhausted

definition reserveCommitTimestamp ::
    "ns_state \<Rightarrow> go_time \<Rightarrow> bool \<Rightarrow> alloc_error + go_time \<times> ns_state" where
  "reserveCommitTimestamp s commitTime forceAdvance =
     (let stampNanos = unix_nano commitTime; cur = highWaterNanos s
      in if forceAdvance then
           if cur = drop_bit 1 (NOT 0) then Inl ErrExhausted
           else let next = (if sint stampNanos \<le> sint cur then cur + 1 else stampNanos)
                in Inr (time_unix next, s\<lparr>highWaterNanos := next\<rparr>)
         else if sint stampNanos \<le> sint cur then Inr (commitTime, s)
         else Inr (time_unix stampNanos, s\<lparr>highWaterNanos := stampNanos\<rparr>))"

definition allocateMVCCVersion ::
    "ns_state \<Rightarrow> go_time \<Rightarrow> (alloc_error + mvcc_version) \<times> ns_state" where
  "allocateMVCCVersion s commitTime =
     (let (sq, saturated, s1) = nextSequence s
      in case reserveCommitTimestamp s1 commitTime saturated of
           Inl e \<Rightarrow> (Inl e, s1)
         | Inr (commitStamp, s2) \<Rightarrow> (Inr (MVCCVersion commitStamp sq), s2))"

text \<open>\<^verbatim>\<open>snapshotIsolationConflict\<close>: was the head committed after the snapshot was taken?\<close>

definition snapshotIsolationConflict :: "mvcc_version \<Rightarrow> mvcc_version \<Rightarrow> bool" where
  "snapshotIsolationConflict readTS headVersion =
     (if CommitSequence headVersion \<noteq> CommitSequence readTS
      then CommitSequence headVersion > CommitSequence readTS
      else if CommitSequence headVersion = maxMVCCCommitSequence
      then CommitTimestamp headVersion > CommitTimestamp readTS
      else False)"

text \<open>\<^verbatim>\<open>snapshotNamespaceVersions\<close> for one namespace: the version a transaction begins at.\<close>

definition snapshotNamespaceVersion :: "ns_state \<Rightarrow> go_time \<Rightarrow> mvcc_version" where
  "snapshotNamespaceVersion s now =
     (let highWater = highWaterNanos s;
          ts = (if sint highWater > sint (unix_nano now) then time_unix highWater else now)
      in MVCCVersion ts (seq s))"

fun allocate_all :: "ns_state \<Rightarrow> go_time list \<Rightarrow> mvcc_version list" where
  "allocate_all s [] = []"
| "allocate_all s (t # ts) =
     (case allocateMVCCVersion s t of
        (Inl _, s') \<Rightarrow> allocate_all s' ts
      | (Inr v, s') \<Rightarrow> v # allocate_all s' ts)"

text \<open>The allocator is ahead of a version: everything it mints next conflicts with it.\<close>

definition alloc_ahead :: "ns_state \<Rightarrow> mvcc_version \<Rightarrow> bool" where
  "alloc_ahead s v \<longleftrightarrow> CommitSequence v \<le> seq s
     \<and> (CommitSequence v = maxMVCCCommitSequence \<longrightarrow> CommitTimestamp v \<le> sint (highWaterNanos s))"

lemma max_seq_greatest: "x \<le> maxMVCCCommitSequence"
  by (simp add: maxMVCCCommitSequence_def)

lemma word_less_plus_one: "x \<noteq> maxMVCCCommitSequence \<Longrightarrow> x < x + 1"
  using inc_less_eq_self_iff_eq [of x] by (auto simp: maxMVCCCommitSequence_def not_le [symmetric])

lemma sint_plus_one: "cur \<noteq> drop_bit 1 (NOT 0) \<Longrightarrow> sint (cur + 1) = sint (cur :: u64) + 1"
proof -
  assume "cur \<noteq> drop_bit 1 (NOT 0)"
  then have "sint cur \<noteq> 2 ^ 63 - 1"
    by (metis (no_types) maxMVCCVersion_def maxMVCCVersion_eq mvcc_version.inject signed_word_eqI
        time_unix_def)
  then have r: "- (2 ^ 63) \<le> sint cur + 1" "sint cur + 1 < 2 ^ 63"
    using sint_ge [of cur] sint_lt [of cur] by simp_all
  have "cur + 1 = word_of_int (sint cur + 1)"
    by (simp only: of_int_add of_int_sint scast_id of_int_1)
  then show ?thesis
    using r by (simp only: signed_of_int) (simp add: signed_take_bit_int_eq_self)
qed

lemma allocate_success:
  assumes "allocateMVCCVersion s t = (Inr v, s')" "in_nano_range t" "alloc_ahead s w"
  shows "snapshotIsolationConflict w v \<and> alloc_ahead s' v \<and> alloc_ahead s' w"
proof (cases "seq s = maxMVCCCommitSequence")
  case True
  let ?cur = "highWaterNanos s"
  have cur: "?cur \<noteq> drop_bit 1 (NOT 0)" and
    v: "v = MVCCVersion (sint (highWaterNanos s')) (seq s)" and
    s': "s' = s\<lparr>highWaterNanos :=
      (if sint (unix_nano t) \<le> sint ?cur then ?cur + 1 else unix_nano t)\<rparr>"
    using assms(1) True
    by (auto simp: allocateMVCCVersion_def nextSequence_def reserveCommitTimestamp_def Let_def
        time_unix_def split: if_splits)
  have less: "sint ?cur < sint (highWaterNanos s')"
    using sint_plus_one [OF cur] by (simp add: s')
  then show ?thesis
    using assms(3) True v s' max_seq_greatest [of "CommitSequence w"]
    by (auto simp: alloc_ahead_def snapshotIsolationConflict_def)
next
  case False
  have v: "CommitSequence v = seq s + 1" "seq s' = seq s + 1"
    "CommitTimestamp v \<le> sint (highWaterNanos s')"
    "sint (highWaterNanos s) \<le> sint (highWaterNanos s')"
    using assms(1,2) False
    by (auto simp: allocateMVCCVersion_def nextSequence_def reserveCommitTimestamp_def Let_def
        time_unix_def sint_unix_nano split: if_splits)
  then show ?thesis
    using assms(3) word_less_plus_one [OF False]
    by (auto simp: alloc_ahead_def snapshotIsolationConflict_def)
qed

lemma allocate_failure:
  "allocateMVCCVersion s t = (Inl e, s') \<Longrightarrow> s' = s"
  by (auto simp: allocateMVCCVersion_def nextSequence_def reserveCommitTimestamp_def Let_def
      split: if_splits)

lemma allocate_all_ahead:
  assumes "\<forall>t \<in> set ts. in_nano_range t" "alloc_ahead s w" "v \<in> set (allocate_all s ts)"
  shows "snapshotIsolationConflict w v"
  using assms
proof (induction ts arbitrary: s)
  case Nil
  then show ?case by simp
next
  case (Cons t ts)
  obtain r s' where a: "allocateMVCCVersion s t = (r, s')" by fastforce
  show ?case
  proof (cases r)
    case (Inl e)
    then show ?thesis using Cons a allocate_failure [of s t e s'] by auto
  next
    case (Inr u)
    then show ?thesis
      using Cons a allocate_success [of s t u s' w] by auto
  qed
qed

text \<open>
  Claim C14. Whatever the clock readings, of two versions a namespace allocates the later one
  always counts as committed after the earlier one in the snapshot-isolation check, also once the
  64-bit sequence is exhausted.
\<close>

theorem allocate_all_conflict_order:
  assumes "\<forall>t \<in> set ts. in_nano_range t"
  shows "sorted_wrt snapshotIsolationConflict (allocate_all s ts)"
  using assms
proof (induction ts arbitrary: s)
  case Nil
  then show ?case by simp
next
  case (Cons t ts)
  obtain r s' where a: "allocateMVCCVersion s t = (r, s')" by fastforce
  show ?case
  proof (cases r)
    case (Inl e)
    then show ?thesis using Cons a by simp
  next
    case (Inr v)
    have "alloc_ahead s (MVCCVersion (sint (highWaterNanos s)) 0)"
      by (simp add: alloc_ahead_def)
    then have "alloc_ahead s' v"
      using allocate_success [of s t v s'] a Inr Cons.prems by auto
    then have "\<forall>w \<in> set (allocate_all s' ts). snapshotIsolationConflict v w"
      using allocate_all_ahead Cons.prems by auto
    then show ?thesis using Cons a Inr by simp
  qed
qed

theorem allocate_all_conflict_order_witness:
  "sorted_wrt snapshotIsolationConflict (allocate_all \<lparr>seq = - 3, highWaterNanos = 7\<rparr> [9, 3, 2, 8])
   \<and> length (allocate_all \<lparr>seq = - 3, highWaterNanos = 7\<rparr> [9, 3, 2, 8]) = 4"
  using allocate_all_conflict_order [of "[9, 3, 2, 8]" "\<lparr>seq = - 3, highWaterNanos = 7\<rparr>"]
  by (simp add: in_nano_range_def) code_simp

text \<open>
  Claim C15. The key-value store iterates the version keys of an entity in \<^verbatim>\<open>Compare\<close> order, and
  the keys of different entities never interleave.
\<close>

theorem mvccNodeVersionKey_order:
  "bytes_less (mvccNodeVersionKey n v) (mvccNodeVersionKey m w) \<longleftrightarrow>
     n < m \<or> n = m \<and> Compare v w < 0"
  by (simp add: mvccNodeVersionKey_def mvccNodeVersionPrefix_def encodeNumID_def
      bytes_less_append bytes_less_be64 encodeMVCCSortVersion_order)

text \<open>
  Every version key parses back to the entity and the version it was built from, by the
  entity-level and by the generic parser.
\<close>

theorem extract_mvccNodeVersionKey:
  assumes "norm_version v"
  shows "extractNodeNumIDAndMVCCVersionFromVersionKey (mvccNodeVersionKey n v) = Inr (n, v)
    \<and> extractMVCCVersionFromKey (mvccNodeVersionKey n v) = Inr v
    \<and> extractMVCCLogicalKeyAndVersion (mvccNodeVersionKey n v) = Inr (mvccNodeVersionPrefix n, v)
    \<and> extractMVCCLogicalKeyAndVersion (mvccEdgeVersionKey n v) = Inr (mvccEdgeVersionPrefix n, v)"
  using assms
  by (simp add: extractNodeNumIDAndMVCCVersionFromVersionKey_def extractMVCCVersionFromKey_def
      extractMVCCLogicalKeyAndVersion_def mvccNodeVersionKey_def mvccNodeVersionPrefix_def
      mvccEdgeVersionKey_def mvccEdgeVersionPrefix_def encodeNumID_def codec_simps)

theorem extract_mvccNodeVersionKey_witness:
  "extractMVCCVersionFromKey (mvccNodeVersionKey 7 (MVCCVersion (- 5) 9)) = Inr (MVCCVersion (- 5) 9)"
  using extract_mvccNodeVersionKey [of "MVCCVersion (- 5) 9" 7]
  by (simp add: norm_version_def in_nano_range_def)

text \<open>
  A head written and read back is the head with its floor filled in, with no use of the
  fallback decoder.
\<close>

theorem decodeMVCCHead_encodeMVCCHead:
  assumes "norm_head head"
  shows "decodeMVCCHead legacy (encodeMVCCHead head) = Inr (normalizeMVCCHead head)"
  using assms by (rule decode_encode_head)

theorem decodeMVCCHead_encodeMVCCHead_witness:
  "decodeMVCCHead (\<lambda>_. Inl LegacyError)
     (encodeMVCCHead \<lparr>Version = MVCCVersion 20 3, Tombstoned = True, FloorVersion = MVCCVersion 10 2\<rparr>)
   = Inr \<lparr>Version = MVCCVersion 20 3, Tombstoned = True, FloorVersion = MVCCVersion 10 2\<rparr>"
  using decodeMVCCHead_encodeMVCCHead
    [of "\<lparr>Version = MVCCVersion 20 3, Tombstoned = True, FloorVersion = MVCCVersion 10 2\<rparr>"]
  by (simp add: norm_head_def norm_version_def in_nano_range_def normalizeMVCCHead_def IsZero_def
      zero_time_def)

text \<open>
  Prefixing an identifier is idempotent, and stripping the prefix gives the identifier back,
  for the database names and identifiers without a colon of their own.
\<close>

theorem Strip_EnsureDatabasePrefix:
  assumes "CHR '':'' \<notin> set db" "ParseDatabasePrefix ident = None"
  shows "StripDatabasePrefix db (EnsureDatabasePrefix db ident) = ident
    \<and> EnsureDatabasePrefix db (EnsureDatabasePrefix db ident) = EnsureDatabasePrefix db ident
    \<and> (db \<noteq> [] \<longrightarrow> ident \<noteq> [] \<longrightarrow> namespaceForID (EnsureDatabasePrefix db ident) = db)"
  using assms
  by (auto simp: StripDatabasePrefix_def EnsureDatabasePrefix_def has_prefix_def namespaceForID_def
      ParseDatabasePrefix_append [simplified])

theorem Strip_EnsureDatabasePrefix_witness:
  "StripDatabasePrefix ''neo4j'' (EnsureDatabasePrefix ''neo4j'' ''n1'') = ''n1''"
  using Strip_EnsureDatabasePrefix [of "''neo4j''" "''n1''"]
  by (simp add: ParseDatabasePrefix_def)

text \<open>
  Before the sequence is exhausted the time of a version is the caller's clock reading, not
  the high-water mark: when the clock steps back, the version allocated later is the smaller one
  in \<^verbatim>\<open>Compare\<close> order, hence also in key order.
\<close>

theorem allocated_version_can_regress:
  "\<exists>s v w. allocate_all s [200, 100] = [v, w] \<and> Compare w v < 0
     \<and> bytes_less (mvccNodeVersionKey n w) (mvccNodeVersionKey n v)"
proof -
  have "allocate_all \<lparr>seq = 0, highWaterNanos = 0\<rparr> [200, 100]
      = [MVCCVersion 200 1, MVCCVersion 100 2]"
    by code_simp
  moreover have "Compare (MVCCVersion 100 2) (MVCCVersion 200 1) < 0"
    by code_simp
  ultimately show ?thesis
    unfolding mvccNodeVersionKey_def mvccNodeVersionPrefix_def
    by (intro exI conjI) (auto simp: encodeMVCCSortVersion_order)
qed

end
