(* ===== verification/GraphStore.thy ===== *)
theory GraphStore
  imports MvccVersion
begin

text \<open>
  The data of the storage layer: nodes and edges (\<^verbatim>\<open>pkg/storage/types.go\<close>, copied by
  \<^verbatim>\<open>transaction.go\<close>), the errors of the package, the key space of the key-value store with one
  constructor per key prefix of \<^verbatim>\<open>badger.go\<close>, and the transactions of the key-value store.

  The key-value store itself (Badger) is a library. What the code relies on is modelled here: a
  committed state maps keys to values, each with the commit timestamp of the transaction that wrote
  it (\<^verbatim>\<open>item.Version()\<close>); a transaction reads the state it began at, overlaid with its own writes
  (\<^verbatim>\<open>Get\<close>, \<^verbatim>\<open>Set\<close>, \<^verbatim>\<open>Delete\<close> and iterators); its commit applies the writes to the
  then-current state at once. Whether the store accepts a commit is a parameter of the definitions
  that commit. Keys carry the string identifiers; the dictionary that shortens an identifier to a
  64-bit number inside keys (\<^verbatim>\<open>id_dictionary.go\<close>) is injective on live identifiers, so a lookup that
  finds no number is a key that is absent here.
\<close>

section \<open>Nodes and edges\<close>

datatype gvalue = VNil | VBool bool | VInt u64 | VFloat u64 | VString string
  | VList "gvalue list" | VMap "(string \<times> gvalue) list"

record node =
  nID :: string
  nLabels :: "string list"
  nProperties :: "(string \<times> gvalue) list option"
  nCreatedAt :: go_time
  nUpdatedAt :: go_time
  nNamedEmbeddings :: "(string \<times> 32 word list) list option"
  nChunkEmbeddings :: "32 word list list"
  nEmbedMeta :: "(string \<times> gvalue) list option"
  nEmbeddingsStoredSeparately :: bool
  nVisibilitySuppressed :: bool

record edge =
  eID :: string
  eStartNode :: string
  eEndNode :: string
  eType :: string
  eProperties :: "(string \<times> gvalue) list option"
  eCreatedAt :: go_time
  eUpdatedAt :: go_time
  eConfidence :: u64
  eAutoGenerated :: bool
  eVisibilitySuppressed :: bool

text \<open>A new value is built field by field; a field the code does not mention is Go's zero.\<close>

definition copyNode :: "node \<Rightarrow> node" where
  "copyNode n =
     \<lparr>nID = nID n, nLabels = nLabels n, nProperties = nProperties n,
      nCreatedAt = nCreatedAt n, nUpdatedAt = nUpdatedAt n,
      nNamedEmbeddings = nNamedEmbeddings n, nChunkEmbeddings = nChunkEmbeddings n,
      nEmbedMeta = nEmbedMeta n,
      nEmbeddingsStoredSeparately = nEmbeddingsStoredSeparately n,
      nVisibilitySuppressed = False\<rparr>"

definition copyEdge :: "edge \<Rightarrow> edge" where
  "copyEdge e =
     \<lparr>eID = eID e, eStartNode = eStartNode e, eEndNode = eEndNode e, eType = eType e,
      eProperties = eProperties e, eCreatedAt = eCreatedAt e, eUpdatedAt = eUpdatedAt e,
      eConfidence = eConfidence e, eAutoGenerated = eAutoGenerated e,
      eVisibilitySuppressed = eVisibilitySuppressed e\<rparr>"

definition mvccSnapshotNode :: "node \<Rightarrow> node" where
  "mvccSnapshotNode n =
     (copyNode n)\<lparr>nChunkEmbeddings := [], nNamedEmbeddings := None,
                  nEmbeddingsStoredSeparately := False\<rparr>"

text \<open>A row of the store is a node or an edge; the two halves of the source that treat them alike
  share their definitions here.\<close>

datatype ent = N string | E string
datatype body = BN node | BE edge

fun body_ent :: "body \<Rightarrow> ent" where
  "body_ent (BN n) = N (nID n)"
| "body_ent (BE e) = E (eID e)"

fun copyBody :: "body \<Rightarrow> body" where
  "copyBody (BN n) = BN (copyNode n)"
| "copyBody (BE e) = BE (copyEdge e)"

text \<open>What an archived record keeps of a body.\<close>

fun archived :: "body \<Rightarrow> body" where
  "archived (BN n) = BN (mvccSnapshotNode n)"
| "archived (BE e) = BE (copyEdge e)"

text \<open>What a reader of an archived record gets: a copy of what was kept.\<close>

definition history_body :: "body \<Rightarrow> body" where
  "history_body b = copyBody (archived b)"

lemma copyEdge_id [simp]: "copyEdge e = e"
  by (simp add: copyEdge_def)

lemma copyNode_fields [simp]:
  "nID (copyNode n) = nID n" "nLabels (copyNode n) = nLabels n"
  "nProperties (copyNode n) = nProperties n" "nVisibilitySuppressed (copyNode n) = False"
  by (simp_all add: copyNode_def)

lemma copyNode_copyNode [simp]: "copyNode (copyNode n) = copyNode n"
  by (simp add: copyNode_def)

lemma body_ent_copyBody [simp]: "body_ent (copyBody b) = body_ent b"
  by (cases b) simp_all

lemma body_ent_archived [simp]: "body_ent (archived b) = body_ent b"
  by (cases b) (simp_all add: mvccSnapshotNode_def)

lemma history_body_eq: "history_body b = archived b"
  by (cases b) (simp_all add: history_body_def mvccSnapshotNode_def copyNode_def)

lemma archived_archived [simp]: "archived (archived b) = archived b"
  by (cases b) (simp_all add: mvccSnapshotNode_def copyNode_def)

section \<open>Errors\<close>

datatype storage_error =
    ErrNotFound | ErrAlreadyExists | ErrConflict | ErrInvalidID | ErrInvalidData | ErrInvalidEdge
  | ErrStorageClosed | ErrCrossNamespaceTransaction | ErrNotVisibleAtSnapshot
  | ErrTransactionClosed | ErrMVCCSnapshotGracefulCancel | ErrMVCCSnapshotHardExpired
  | ErrNamespaceRequired | ErrStartNodeMissing string | ErrEndNodeMissing string
  | ErrConstraintViolation string | ErrCommitNamespaceMissing | ErrAllocate alloc_error
  | ErrLabelCountUnderflow string | ErrMVCCResourcePressure | ErrMetadataTooLarge nat | ErrDecode
  | ErrCommitFailed

section \<open>Keys and values\<close>

datatype key =
    Primary ent                              \<comment> \<open>0x01, 0x02\<close>
  | LabelIndex string string                 \<comment> \<open>0x03: label, node\<close>
  | OutgoingIndex string string              \<comment> \<open>0x04: node, edge\<close>
  | IncomingIndex string string              \<comment> \<open>0x05: node, edge\<close>
  | EdgeTypeIndex string string              \<comment> \<open>0x06: type, edge\<close>
  | PendingEmbed string                      \<comment> \<open>0x07\<close>
  | VersionKey ent mvcc_version              \<comment> \<open>0x0C, 0x0D\<close>
  | HeadKey ent                              \<comment> \<open>0x0E, 0x0F\<close>
  | LabelCount string string                 \<comment> \<open>0x10 0x07: namespace, label\<close>
  | EdgeBetweenIndex string string string string  \<comment> \<open>0x18: start, end, type, edge\<close>
  | EdgeBetweenHead string string string     \<comment> \<open>0x19: start, end, type\<close>
  | OutgoingAdj string string mvcc_version   \<comment> \<open>0x23: node, edge, version\<close>
  | IncomingAdj string string mvcc_version   \<comment> \<open>0x24: node, edge, version\<close>

datatype val =
    Body body
  | Head mvcc_head
  | Record "body option" bool                \<comment> \<open>archived body, tombstoned\<close>
  | Adjacency bool                           \<comment> \<open>tombstoned\<close>
  | Count int
  | Ident string
  | Marker

text \<open>The version inside a key has passed through its 16-byte encoding.\<close>

definition keyVersion :: "mvcc_version \<Rightarrow> mvcc_version" where
  "keyVersion v = MVCCVersion (time_unix (unix_nano (CommitTimestamp v))) (CommitSequence v)"

lemma keyVersion_norm [simp]: "norm_version v \<Longrightarrow> keyVersion v = v"
  by (cases v) (simp add: keyVersion_def norm_version_def)

lemma norm_keyVersion [simp]: "norm_version (keyVersion v)"
  by (simp add: keyVersion_def norm_version_def)

lemma keyVersion_decode: "decodeMVCCSortVersion (encodeMVCCSortVersion v) = Inr (keyVersion v)"
  by (simp add: decode_encode_sort_version_wrap keyVersion_def)

lemma Compare_keyVersion [simp]:
  "Compare (keyVersion v) w = Compare v w" "Compare v (keyVersion w) = Compare v w"
  by (simp_all add: Compare_def keyVersion_def Let_def)

section \<open>The key-value store\<close>

type_synonym kv = "(key \<times> nat \<times> val) list"

record db =
  kv :: kv
  commitTs :: nat

record btxn =
  base :: kv
  readTs :: nat
  writes :: "(key \<times> val option) list"   \<comment> \<open>newest first; \<open>None\<close> is a delete\<close>
  readKeys :: "key list"                    \<comment> \<open>the keys enrolled for conflict detection\<close>

definition kv_get :: "kv \<Rightarrow> key \<Rightarrow> val option" where
  "kv_get s k = map_option snd (map_of s k)"

definition kv_version :: "kv \<Rightarrow> key \<Rightarrow> nat option" where
  "kv_version s k = map_option fst (map_of s k)"

definition begin_txn :: "db \<Rightarrow> btxn" where
  "begin_txn d = \<lparr>base = kv d, readTs = commitTs d, writes = [], readKeys = []\<rparr>"

definition txn_get :: "btxn \<Rightarrow> key \<Rightarrow> val option" where
  "txn_get t k = (case map_of (writes t) k of Some w \<Rightarrow> w | None \<Rightarrow> kv_get (base t) k)"

definition txn_set :: "btxn \<Rightarrow> key \<Rightarrow> val \<Rightarrow> btxn" where
  "txn_set t k v = t\<lparr>writes := (k, Some v) # writes t\<rparr>"

definition txn_delete :: "btxn \<Rightarrow> key \<Rightarrow> btxn" where
  "txn_delete t k = t\<lparr>writes := (k, None) # writes t\<rparr>"

text \<open>A read of an updating transaction enrolls the key, found or not, unless the transaction has
  written it itself; the store looks at the enrolled keys when the transaction commits. The
  statements that read through the transaction in order to enroll say so with this function.\<close>

definition txn_track :: "btxn \<Rightarrow> key list \<Rightarrow> btxn" where
  "txn_track t ks = t\<lparr>readKeys := filter (\<lambda>k. map_of (writes t) k = None) ks @ readKeys t\<rparr>"

text \<open>The keys an iterator of the transaction meets.\<close>

definition txn_keys :: "btxn \<Rightarrow> key list" where
  "txn_keys t = filter (\<lambda>k. txn_get t k \<noteq> None) (remdups (map fst (writes t) @ map fst (base t)))"

definition txn_version :: "btxn \<Rightarrow> key \<Rightarrow> nat" where
  "txn_version t k = (case map_of (writes t) k of
     Some _ \<Rightarrow> readTs t
   | None \<Rightarrow> (case kv_version (base t) k of Some n \<Rightarrow> n | None \<Rightarrow> 0))"

fun apply_writes :: "nat \<Rightarrow> (key \<times> val option) list \<Rightarrow> kv \<Rightarrow> kv" where
  "apply_writes n [] s = s"
| "apply_writes n ((k, Some v) # ws) s = AList.update k (n, v) (apply_writes n ws s)"
| "apply_writes n ((k, None) # ws) s = AList.delete k (apply_writes n ws s)"

definition db_commit :: "db \<Rightarrow> (key \<times> val option) list \<Rightarrow> db" where
  "db_commit d ws = \<lparr>kv = apply_writes (Suc (commitTs d)) ws (kv d), commitTs = Suc (commitTs d)\<rparr>"

lemma kv_get_apply_writes:
  "kv_get (apply_writes n ws s) k = (case map_of ws k of Some w \<Rightarrow> w | None \<Rightarrow> kv_get s k)"
  by (induction n ws s rule: apply_writes.induct) (auto simp: kv_get_def update_conv' delete_conv')

lemma kv_version_apply_writes:
  "kv_version (apply_writes n ws s) k =
     (case map_of ws k of Some (Some _) \<Rightarrow> Some n | Some None \<Rightarrow> None | None \<Rightarrow> kv_version s k)"
  by (induction n ws s rule: apply_writes.induct) (auto simp: kv_version_def update_conv' delete_conv')

lemma txn_get_begin [simp]: "txn_get (begin_txn d) k = kv_get (kv d) k"
  by (simp add: txn_get_def begin_txn_def)

lemma txn_get_set [simp]: "txn_get (txn_set t k v) k' = (if k' = k then Some v else txn_get t k')"
  by (simp add: txn_get_def txn_set_def split: option.splits)

lemma txn_get_delete [simp]: "txn_get (txn_delete t k) k' = (if k' = k then None else txn_get t k')"
  by (simp add: txn_get_def txn_delete_def split: option.splits)

lemma set_txn_keys: "set (txn_keys t) = {k. txn_get t k \<noteq> None}"
proof -
  have "k \<in> fst ` set (writes t) \<union> fst ` set (base t)" if "txn_get t k \<noteq> None" for k
    using that map_of_eq_None_iff [of "writes t" k] map_of_eq_None_iff [of "base t" k]
    by (auto simp: txn_get_def kv_get_def split: option.splits)
  then show ?thesis by (auto simp: txn_keys_def)
qed

lemma txn_get_commit:
  "kv_get (kv (db_commit d (writes t))) k =
     (case map_of (writes t) k of Some w \<Rightarrow> w | None \<Rightarrow> kv_get (kv d) k)"
  by (simp add: db_commit_def kv_get_apply_writes)

text \<open>A commit on the state the transaction began at makes its view the current state.\<close>

lemma commit_unchanged:
  "base t = kv d \<Longrightarrow> kv_get (kv (db_commit d (writes t))) k = txn_get t k"
  by (simp add: txn_get_commit txn_get_def split: option.splits)

lemma txn_base_readTs [simp]:
  "base (txn_set t k v) = base t" "base (txn_delete t k) = base t"
  "readTs (txn_set t k v) = readTs t" "readTs (txn_delete t k) = readTs t"
  "readKeys (txn_set t k v) = readKeys t" "readKeys (txn_delete t k) = readKeys t"
  by (simp_all add: txn_set_def txn_delete_def)

lemma txn_track_fields [simp]:
  "base (txn_track t ks) = base t" "readTs (txn_track t ks) = readTs t" "writes (txn_track t ks) = writes t"
  by (simp_all add: txn_track_def)

lemma txn_get_track [simp]: "txn_get (txn_track t ks) = txn_get t"
  by (auto simp: fun_eq_iff txn_get_def split: option.splits)

lemma txn_keys_track [simp]: "txn_keys (txn_track t ks) = txn_keys t"
  by (simp add: txn_keys_def)

lemma set_readKeys_track [simp]:
  "set (readKeys (txn_track t ks)) = {k \<in> set ks. map_of (writes t) k = None} \<union> set (readKeys t)"
  by (auto simp: txn_track_def)

end
