(* ===== verification/MvccStore.thy ===== *)
theory MvccStore
  imports GraphStore
begin

text \<open>
  The multi-version store (\<^verbatim>\<open>pkg/storage/badger_mvcc.go\<close>): the head of each row, its archived
  versions, reads at a version, the archival of superseded bodies, the materialization of a commit,
  and pruning. The primary key of a row holds its current body; a version record holds a body at the
  version it was superseded from, or a tombstone.
\<close>

section \<open>The engine's state\<close>

record retention_policy =
  MaxVersionsPerKey :: int
  TTL :: int

definition normalizeRetentionPolicy :: "retention_policy \<Rightarrow> retention_policy" where
  "normalizeRetentionPolicy p =
     p\<lparr>MaxVersionsPerKey := (if MaxVersionsPerKey p < 0 then 0 else MaxVersionsPerKey p),
       TTL := (if TTL p < 0 then 0 else TTL p)\<rparr>"

definition RetainsHistory :: "retention_policy \<Rightarrow> bool" where
  "RetainsHistory p \<longleftrightarrow> MaxVersionsPerKey p > 0"

text \<open>
  The part of \<^verbatim>\<open>BadgerEngine\<close> the store uses. \<open>lifecycleEnabled\<close> says that a lifecycle controller
  is installed and enabled.
\<close>

record engine =
  edb :: db
  retentionPolicy :: retention_policy
  activeReaders :: int
  lifecycleEnabled :: bool
  mvccByNamespace :: "(string \<times> ns_state) list"
  engineClosed :: bool

definition retentionRetainsHistory :: "engine \<Rightarrow> bool" where
  "retentionRetainsHistory b = RetainsHistory (normalizeRetentionPolicy (retentionPolicy b))"

definition mustArchiveForHistory :: "engine \<Rightarrow> bool" where
  "mustArchiveForHistory b = (if retentionRetainsHistory b then True else activeReaders b > 0)"

section \<open>Rows in a transaction of the key-value store\<close>

definition nodeOf :: "val option \<Rightarrow> storage_error + body" where
  "nodeOf v = (case v of None \<Rightarrow> Inl ErrNotFound | Some (Body b) \<Rightarrow> Inr b | Some _ \<Rightarrow> Inl ErrDecode)"

definition readPrimary :: "btxn \<Rightarrow> ent \<Rightarrow> storage_error + body" where
  "readPrimary t x = nodeOf (txn_get t (Primary x))"

definition loadHeadInTxn :: "btxn \<Rightarrow> ent \<Rightarrow> storage_error + mvcc_head" where
  "loadHeadInTxn t x = (case txn_get t (HeadKey x) of
     None \<Rightarrow> Inl ErrNotFound
   | Some (Head h) \<Rightarrow> Inr h
   | Some _ \<Rightarrow> Inl ErrDecode)"

definition loadNodeMVCCHeadInTxn :: "btxn \<Rightarrow> string \<Rightarrow> storage_error + mvcc_head" where
  "loadNodeMVCCHeadInTxn t nodeId = loadHeadInTxn t (N nodeId)"

definition loadEdgeMVCCHeadInTxn :: "btxn \<Rightarrow> string \<Rightarrow> storage_error + mvcc_head" where
  "loadEdgeMVCCHeadInTxn t edgeId = loadHeadInTxn t (E edgeId)"

text \<open>\<^verbatim>\<open>loadNodeMVCCHead\<close> and \<^verbatim>\<open>loadEdgeMVCCHead\<close> read through a fresh transaction: the committed
  state, not the caller's writes.\<close>

definition loadHead :: "db \<Rightarrow> ent \<Rightarrow> storage_error + mvcc_head" where
  "loadHead d x = loadHeadInTxn (begin_txn d) x"

definition loadNodeMVCCHead :: "db \<Rightarrow> string \<Rightarrow> storage_error + mvcc_head" where
  "loadNodeMVCCHead d nodeId = loadHead d (N nodeId)"

definition loadEdgeMVCCHead :: "db \<Rightarrow> string \<Rightarrow> storage_error + mvcc_head" where
  "loadEdgeMVCCHead d edgeId = loadHead d (E edgeId)"

text \<open>A head is stored encoded; reading it back gives the normalized head.\<close>

definition writeHeadWithFloorInTxn :: "btxn \<Rightarrow> ent \<Rightarrow> mvcc_version \<Rightarrow> bool \<Rightarrow> mvcc_version \<Rightarrow> btxn" where
  "writeHeadWithFloorInTxn t x version tombstoned floorVersion =
     txn_set t (HeadKey x)
       (Head (normalizeMVCCHead
          \<lparr>Version = version, Tombstoned = tombstoned, FloorVersion = floorVersion\<rparr>))"

definition writeNodeMVCCHeadWithFloorInTxn ::
    "btxn \<Rightarrow> string \<Rightarrow> mvcc_version \<Rightarrow> bool \<Rightarrow> mvcc_version \<Rightarrow> btxn" where
  "writeNodeMVCCHeadWithFloorInTxn t nodeId = writeHeadWithFloorInTxn t (N nodeId)"

definition writeEdgeMVCCHeadWithFloorInTxn ::
    "btxn \<Rightarrow> string \<Rightarrow> mvcc_version \<Rightarrow> bool \<Rightarrow> mvcc_version \<Rightarrow> btxn" where
  "writeEdgeMVCCHeadWithFloorInTxn t edgeId = writeHeadWithFloorInTxn t (E edgeId)"

definition writeHeadInTxn ::
    "db \<Rightarrow> btxn \<Rightarrow> ent \<Rightarrow> mvcc_version \<Rightarrow> bool \<Rightarrow> storage_error + btxn" where
  "writeHeadInTxn d t x version tombstoned =
     (case loadHead d x of
        Inr existing \<Rightarrow> Inr (writeHeadWithFloorInTxn t x version tombstoned (FloorVersion existing))
      | Inl e \<Rightarrow> if e \<noteq> ErrNotFound then Inl e
                 else Inr (writeHeadWithFloorInTxn t x version tombstoned version))"

definition writeNodeMVCCHeadInTxn ::
    "db \<Rightarrow> btxn \<Rightarrow> string \<Rightarrow> mvcc_version \<Rightarrow> bool \<Rightarrow> storage_error + btxn" where
  "writeNodeMVCCHeadInTxn d t nodeId = writeHeadInTxn d t (N nodeId)"

definition writeEdgeMVCCHeadInTxn ::
    "db \<Rightarrow> btxn \<Rightarrow> string \<Rightarrow> mvcc_version \<Rightarrow> bool \<Rightarrow> storage_error + btxn" where
  "writeEdgeMVCCHeadInTxn d t edgeId = writeHeadInTxn d t (E edgeId)"

definition writeNodeMVCCHeadForFreshCreateInTxn :: "btxn \<Rightarrow> string \<Rightarrow> mvcc_version \<Rightarrow> btxn" where
  "writeNodeMVCCHeadForFreshCreateInTxn t nodeId version =
     writeNodeMVCCHeadWithFloorInTxn t nodeId version False version"

definition writeEdgeMVCCHeadForFreshCreateInTxn :: "btxn \<Rightarrow> string \<Rightarrow> mvcc_version \<Rightarrow> btxn" where
  "writeEdgeMVCCHeadForFreshCreateInTxn t edgeId version =
     writeEdgeMVCCHeadWithFloorInTxn t edgeId version False version"

section \<open>Version records\<close>

definition writeVersionInTxn :: "btxn \<Rightarrow> body \<Rightarrow> mvcc_version \<Rightarrow> btxn" where
  "writeVersionInTxn t b version =
     txn_set t (VersionKey (body_ent b) (keyVersion version)) (Record (Some (archived b)) False)"

definition writeNodeMVCCVersionInTxn :: "btxn \<Rightarrow> node \<Rightarrow> mvcc_version \<Rightarrow> btxn" where
  "writeNodeMVCCVersionInTxn t node version = writeVersionInTxn t (BN node) version"

definition writeEdgeMVCCVersionInTxn :: "btxn \<Rightarrow> edge \<Rightarrow> mvcc_version \<Rightarrow> btxn" where
  "writeEdgeMVCCVersionInTxn t edge version = writeVersionInTxn t (BE edge) version"

definition writeTombstoneInTxn :: "btxn \<Rightarrow> ent \<Rightarrow> mvcc_version \<Rightarrow> btxn" where
  "writeTombstoneInTxn t x version = txn_set t (VersionKey x (keyVersion version)) (Record None True)"

definition writeNodeMVCCTombstoneInTxn :: "btxn \<Rightarrow> string \<Rightarrow> mvcc_version \<Rightarrow> btxn" where
  "writeNodeMVCCTombstoneInTxn t nodeId = writeTombstoneInTxn t (N nodeId)"

definition writeEdgeMVCCTombstoneInTxn :: "btxn \<Rightarrow> string \<Rightarrow> mvcc_version \<Rightarrow> btxn" where
  "writeEdgeMVCCTombstoneInTxn t edgeId = writeTombstoneInTxn t (E edgeId)"

definition recordOf :: "val option \<Rightarrow> storage_error + body option \<times> bool" where
  "recordOf v = (case v of
     None \<Rightarrow> Inl ErrNotFound
   | Some (Record b tomb) \<Rightarrow> Inr (b, tomb)
   | Some _ \<Rightarrow> Inl ErrDecode)"

definition loadRecordExactInTxn ::
    "btxn \<Rightarrow> ent \<Rightarrow> mvcc_version \<Rightarrow> storage_error + body option \<times> bool" where
  "loadRecordExactInTxn t x version = recordOf (txn_get t (VersionKey x (keyVersion version)))"

definition loadNodeMVCCRecordExactInTxn ::
    "btxn \<Rightarrow> string \<Rightarrow> mvcc_version \<Rightarrow> storage_error + body option \<times> bool" where
  "loadNodeMVCCRecordExactInTxn t nodeId = loadRecordExactInTxn t (N nodeId)"

definition loadEdgeMVCCRecordExactInTxn ::
    "btxn \<Rightarrow> string \<Rightarrow> mvcc_version \<Rightarrow> storage_error + body option \<times> bool" where
  "loadEdgeMVCCRecordExactInTxn t edgeId = loadRecordExactInTxn t (E edgeId)"

text \<open>The versions of a row in the keyspace, and the last one at or before a bound: a reverse
  iterator that seeks the bound's key.\<close>

definition versionsOf :: "btxn \<Rightarrow> ent \<Rightarrow> mvcc_version list" where
  "versionsOf t x =
     concat (map (\<lambda>k. case k of VersionKey y v \<Rightarrow> if y = x then [v] else [] | _ \<Rightarrow> []) (txn_keys t))"

fun seekLast :: "mvcc_version \<Rightarrow> mvcc_version list \<Rightarrow> mvcc_version option" where
  "seekLast bound [] = None"
| "seekLast bound (w # ws) =
     (if Compare w bound > 0 then seekLast bound ws
      else case seekLast bound ws of
             None \<Rightarrow> Some w
           | Some u \<Rightarrow> if Compare u w < 0 then Some w else Some u)"

definition loadRecordAtOrBeforeInTxn ::
    "btxn \<Rightarrow> ent \<Rightarrow> mvcc_version \<Rightarrow> storage_error + (body option \<times> bool) \<times> mvcc_version" where
  "loadRecordAtOrBeforeInTxn t x version =
     (case seekLast version (versionsOf t x) of
        None \<Rightarrow> Inl ErrNotFound
      | Some parsedVersion \<Rightarrow>
          (case recordOf (txn_get t (VersionKey x parsedVersion)) of
             Inl e \<Rightarrow> Inl e
           | Inr record \<Rightarrow> Inr (record, parsedVersion)))"

definition loadNodeMVCCRecordAtOrBeforeInTxn ::
    "btxn \<Rightarrow> string \<Rightarrow> mvcc_version \<Rightarrow> storage_error + (body option \<times> bool) \<times> mvcc_version" where
  "loadNodeMVCCRecordAtOrBeforeInTxn t nodeId = loadRecordAtOrBeforeInTxn t (N nodeId)"

definition loadEdgeMVCCRecordAtOrBeforeInTxn ::
    "btxn \<Rightarrow> string \<Rightarrow> mvcc_version \<Rightarrow> storage_error + (body option \<times> bool) \<times> mvcc_version" where
  "loadEdgeMVCCRecordAtOrBeforeInTxn t edgeId = loadRecordAtOrBeforeInTxn t (E edgeId)"

section \<open>Reads at a version\<close>

text \<open>
  \<open>decayed\<close> stands for \<^verbatim>\<open>filterNodeByDecay\<close> and \<^verbatim>\<open>filterEdgeByDecay\<close> at the scoring time of the
  read: whether the knowledge policy hides a body.
\<close>

definition hide_decayed :: "(body \<Rightarrow> bool) \<Rightarrow> storage_error + body \<Rightarrow> storage_error + body" where
  "hide_decayed decayed r =
     (case r of Inl e \<Rightarrow> Inl e | Inr b \<Rightarrow> if decayed b then Inl ErrNotFound else Inr b)"

definition visibleAtInTxn ::
    "(body \<Rightarrow> bool) \<Rightarrow> btxn \<Rightarrow> ent \<Rightarrow> mvcc_version \<Rightarrow> storage_error + body" where
  "visibleAtInTxn decayed t x version =
     (case loadHeadInTxn t x of
        Inl e \<Rightarrow> Inl e
      | Inr head \<Rightarrow>
          if Compare version (FloorVersion head) < 0 then Inl ErrNotVisibleAtSnapshot
          else
            let live = (if Compare version (Version head) \<ge> 0 \<and> \<not> Tombstoned head
                        then readPrimary t x else Inl ErrNotFound)
            in case live of
                 Inr b \<Rightarrow> if decayed b then Inl ErrNotFound else Inr b
               | Inl e \<Rightarrow>
                   if e \<noteq> ErrNotFound then Inl e
                   else if Tombstoned head \<and> Compare version (Version head) \<ge> 0 then Inl ErrNotFound
                   else
                     let first =
                           (if Compare version (Version head) \<ge> 0
                            then loadRecordExactInTxn t x (Version head)
                            else if Compare version (FloorVersion head) = 0
                            then loadRecordExactInTxn t x (FloorVersion head)
                            else map_sum id fst (loadRecordAtOrBeforeInTxn t x version));
                         second =
                           (if first = Inl ErrNotFound \<and> Compare version (Version head) \<ge> 0
                            then map_sum id fst (loadRecordAtOrBeforeInTxn t x (Version head))
                            else first)
                     in case second of
                          Inl e' \<Rightarrow> Inl e'
                        | Inr (None, _) \<Rightarrow> Inl ErrNotFound
                        | Inr (Some b, tombstoned) \<Rightarrow>
                            if tombstoned then Inl ErrNotFound
                            else let b' = copyBody b
                                 in if decayed b' then Inl ErrNotFound else Inr b')"

definition getNodeVisibleAt :: "(body \<Rightarrow> bool) \<Rightarrow> btxn \<Rightarrow> string \<Rightarrow> mvcc_version \<Rightarrow> storage_error + body" where
  "getNodeVisibleAt decayed t nodeId version = visibleAtInTxn decayed t (N nodeId) version"

definition getEdgeVisibleAtInTxn ::
    "(body \<Rightarrow> bool) \<Rightarrow> btxn \<Rightarrow> string \<Rightarrow> mvcc_version \<Rightarrow> storage_error + body" where
  "getEdgeVisibleAtInTxn decayed t edgeId version = visibleAtInTxn decayed t (E edgeId) version"

section \<open>Archiving superseded bodies\<close>

definition archiveBodyInTxn :: "engine \<Rightarrow> btxn \<Rightarrow> ent \<Rightarrow> body option \<Rightarrow> mvcc_version \<Rightarrow> btxn" where
  "archiveBodyInTxn b t x body atVersion =
     (if \<not> mustArchiveForHistory b then t
      else case body of
             None \<Rightarrow> t
           | Some bd \<Rightarrow>
               if txn_get t (VersionKey x (keyVersion atVersion)) \<noteq> None then t
               else writeVersionInTxn t bd atVersion)"

definition archiveNodeBodyInTxn ::
    "engine \<Rightarrow> btxn \<Rightarrow> string \<Rightarrow> node option \<Rightarrow> mvcc_version \<Rightarrow> btxn" where
  "archiveNodeBodyInTxn b t nodeId body = archiveBodyInTxn b t (N nodeId) (map_option BN body)"

definition archiveEdgeBodyInTxn ::
    "engine \<Rightarrow> btxn \<Rightarrow> string \<Rightarrow> edge option \<Rightarrow> mvcc_version \<Rightarrow> btxn" where
  "archiveEdgeBodyInTxn b t edgeId body = archiveBodyInTxn b t (E edgeId) (map_option BE body)"

definition archivePrimaryIntoMVCCVersionInTxn ::
    "engine \<Rightarrow> btxn \<Rightarrow> ent \<Rightarrow> mvcc_version \<Rightarrow> storage_error + btxn" where
  "archivePrimaryIntoMVCCVersionInTxn b t x oldVersion =
     (if \<not> mustArchiveForHistory b then Inr t
      else case txn_get t (Primary x) of
             None \<Rightarrow> Inr t
           | Some v \<Rightarrow>
               if txn_get t (VersionKey x (keyVersion oldVersion)) \<noteq> None then Inr t
               else (case nodeOf (Some v) of
                       Inl e \<Rightarrow> Inl e
                     | Inr bd \<Rightarrow> Inr (writeVersionInTxn t bd oldVersion)))"

definition archiveNodePrimaryIntoMVCCVersionInTxn ::
    "engine \<Rightarrow> btxn \<Rightarrow> string \<Rightarrow> mvcc_version \<Rightarrow> storage_error + btxn" where
  "archiveNodePrimaryIntoMVCCVersionInTxn b t nodeId =
     archivePrimaryIntoMVCCVersionInTxn b t (N nodeId)"

definition archiveEdgePrimaryIntoMVCCVersionInTxn ::
    "engine \<Rightarrow> btxn \<Rightarrow> string \<Rightarrow> mvcc_version \<Rightarrow> storage_error + btxn" where
  "archiveEdgePrimaryIntoMVCCVersionInTxn b t edgeId =
     archivePrimaryIntoMVCCVersionInTxn b t (E edgeId)"

definition archiveOnUpdateInTxn :: "engine \<Rightarrow> btxn \<Rightarrow> ent \<Rightarrow> storage_error + btxn" where
  "archiveOnUpdateInTxn b t x =
     (if \<not> mustArchiveForHistory b then Inr t
      else case loadHeadInTxn t x of
             Inl e \<Rightarrow> if e = ErrNotFound then Inr t else Inl e
           | Inr existing \<Rightarrow>
               if Tombstoned existing then Inr t
               else archivePrimaryIntoMVCCVersionInTxn b t x (Version existing))"

definition archiveNodeOnUpdateInTxn :: "engine \<Rightarrow> btxn \<Rightarrow> string \<Rightarrow> storage_error + btxn" where
  "archiveNodeOnUpdateInTxn b t nodeId = archiveOnUpdateInTxn b t (N nodeId)"

definition archiveEdgeOnUpdateInTxn :: "engine \<Rightarrow> btxn \<Rightarrow> string \<Rightarrow> storage_error + btxn" where
  "archiveEdgeOnUpdateInTxn b t edgeId = archiveOnUpdateInTxn b t (E edgeId)"

section \<open>Adjacency versions\<close>

definition writeEdgeAdjacencyInTxn :: "btxn \<Rightarrow> edge \<Rightarrow> mvcc_version \<Rightarrow> bool \<Rightarrow> btxn" where
  "writeEdgeAdjacencyInTxn t e version tombstoned =
     txn_set
       (txn_set t (OutgoingAdj (eStartNode e) (eID e) (keyVersion version)) (Adjacency tombstoned))
       (IncomingAdj (eEndNode e) (eID e) (keyVersion version)) (Adjacency tombstoned)"

definition writeEdgeAdjacencyDeltaInTxn ::
    "btxn \<Rightarrow> edge option \<Rightarrow> edge option \<Rightarrow> mvcc_version \<Rightarrow> btxn" where
  "writeEdgeAdjacencyDeltaInTxn t oldEdge newEdge version =
     (let t1 = (case oldEdge of None \<Rightarrow> t | Some e \<Rightarrow> writeEdgeAdjacencyInTxn t e version True)
      in case newEdge of None \<Rightarrow> t1 | Some e \<Rightarrow> writeEdgeAdjacencyInTxn t1 e version False)"

definition edgeOf :: "body \<Rightarrow> storage_error + edge" where
  "edgeOf b = (case b of BE e \<Rightarrow> Inr e | BN _ \<Rightarrow> Inl ErrDecode)"

definition loadEdgeForAdjacencyTombstoneInTxn :: "btxn \<Rightarrow> string \<Rightarrow> storage_error + edge" where
  "loadEdgeForAdjacencyTombstoneInTxn t edgeId =
     (case txn_get t (Primary (E edgeId)) of
        Some v \<Rightarrow> (case nodeOf (Some v) of Inl e \<Rightarrow> Inl e | Inr b \<Rightarrow> edgeOf b)
      | None \<Rightarrow>
          (case loadEdgeMVCCHeadInTxn t edgeId of
             Inl e \<Rightarrow> Inl e
           | Inr head \<Rightarrow>
               (case loadEdgeMVCCRecordAtOrBeforeInTxn t edgeId (Version head) of
                  Inl e \<Rightarrow> Inl e
                | Inr ((None, _), _) \<Rightarrow> Inl ErrNotFound
                | Inr ((Some b, tombstoned), _) \<Rightarrow>
                    if tombstoned then Inl ErrNotFound else edgeOf (copyBody b))))"

section \<open>Materializing a commit\<close>

datatype op_type = OpCreateNode | OpUpdateNode | OpDeleteNode
  | OpCreateEdge | OpUpdateEdge | OpDeleteEdge | OpUpdateEmbedding

record operation =
  opType :: op_type
  opNodeID :: string
  opNode :: "node option"
  opOldNode :: "node option"
  opEdgesDeleted :: nat
  opDeletedEdgeIDs :: "string list"
  opEdgeID :: string
  opEdge :: "edge option"
  opOldEdge :: "edge option"
  opFreshID :: bool

definition no_op :: "op_type \<Rightarrow> operation" where
  "no_op ty = \<lparr>opType = ty, opNodeID = [], opNode = None, opOldNode = None, opEdgesDeleted = 0,
     opDeletedEdgeIDs = [], opEdgeID = [], opEdge = None, opOldEdge = None, opFreshID = False\<rparr>"

text \<open>The archival of \<^verbatim>\<open>op.OldNode\<close> and \<^verbatim>\<open>op.OldEdge\<close>: the head is read from the committed state,
  the record is written to the transaction.\<close>

definition archiveOldInTxn ::
    "engine \<Rightarrow> btxn \<Rightarrow> ent \<Rightarrow> body option \<Rightarrow> storage_error + btxn" where
  "archiveOldInTxn b t x old =
     (if mustArchiveForHistory b \<and> old \<noteq> None then
        (case loadHead (edb b) x of
           Inr head \<Rightarrow> if \<not> Tombstoned head then Inr (archiveBodyInTxn b t x old (Version head))
                       else Inr t
         | Inl e \<Rightarrow> if e \<noteq> ErrNotFound then Inl e else Inr t)
      else Inr t)"

text \<open>The cascade of a node deletion.\<close>

fun tombstoneEdgesInTxn ::
    "db \<Rightarrow> btxn \<Rightarrow> mvcc_version \<Rightarrow> string list \<Rightarrow> storage_error + btxn" where
  "tombstoneEdgesInTxn d t version [] = Inr t"
| "tombstoneEdgesInTxn d t version (edgeId # ids) =
     (case (case loadEdgeForAdjacencyTombstoneInTxn t edgeId of
              Inr e \<Rightarrow> Inr (writeEdgeAdjacencyDeltaInTxn t (Some e) None version)
            | Inl er \<Rightarrow> if er \<noteq> ErrNotFound then Inl er else Inr t) of
        Inl er \<Rightarrow> Inl er
      | Inr t1 \<Rightarrow>
          (case writeEdgeMVCCHeadInTxn d (writeEdgeMVCCTombstoneInTxn t1 edgeId version) edgeId version True of
             Inl er \<Rightarrow> Inl er
           | Inr t2 \<Rightarrow> tombstoneEdgesInTxn d t2 version ids))"

definition materializeOp ::
    "engine \<Rightarrow> mvcc_version \<Rightarrow> operation \<Rightarrow> btxn \<Rightarrow> storage_error + btxn" where
  "materializeOp b version op t =
     (case opType op of
        OpCreateNode \<Rightarrow>
          (case opNode op of
             None \<Rightarrow> Inr t
           | Some node \<Rightarrow>
               if opFreshID op then Inr (writeNodeMVCCHeadForFreshCreateInTxn t (nID node) version)
               else writeNodeMVCCHeadInTxn (edb b) t (nID node) version False)
      | OpUpdateNode \<Rightarrow>
          (case opNode op of
             None \<Rightarrow> Inr t
           | Some node \<Rightarrow>
               (case archiveOldInTxn b t (N (nID node)) (map_option BN (opOldNode op)) of
                  Inl e \<Rightarrow> Inl e
                | Inr t1 \<Rightarrow> writeNodeMVCCHeadInTxn (edb b) t1 (nID node) version False))
      | OpDeleteNode \<Rightarrow>
          (case archiveOldInTxn b t (N (opNodeID op)) (map_option BN (opOldNode op)) of
             Inl e \<Rightarrow> Inl e
           | Inr t1 \<Rightarrow>
               (case writeNodeMVCCHeadInTxn (edb b) (writeNodeMVCCTombstoneInTxn t1 (opNodeID op) version)
                       (opNodeID op) version True of
                  Inl e \<Rightarrow> Inl e
                | Inr t2 \<Rightarrow> tombstoneEdgesInTxn (edb b) t2 version (opDeletedEdgeIDs op)))
      | OpCreateEdge \<Rightarrow>
          (case opEdge op of
             None \<Rightarrow> Inr t
           | Some edge \<Rightarrow>
               let t1 = writeEdgeAdjacencyDeltaInTxn t None (Some edge) version
               in if opFreshID op then Inr (writeEdgeMVCCHeadForFreshCreateInTxn t1 (eID edge) version)
                  else writeEdgeMVCCHeadInTxn (edb b) t1 (eID edge) version False)
      | OpUpdateEdge \<Rightarrow>
          (case opEdge op of
             None \<Rightarrow> Inr t
           | Some edge \<Rightarrow>
               let t1 = (case opOldEdge op of
                           None \<Rightarrow> t
                         | Some old \<Rightarrow>
                             if eStartNode old \<noteq> eStartNode edge \<or> eEndNode old \<noteq> eEndNode edge
                             then writeEdgeAdjacencyDeltaInTxn t (Some old) (Some edge) version
                             else t)
               in (case archiveOldInTxn b t1 (E (eID edge)) (map_option BE (opOldEdge op)) of
                     Inl e \<Rightarrow> Inl e
                   | Inr t2 \<Rightarrow> writeEdgeMVCCHeadInTxn (edb b) t2 (eID edge) version False))
      | OpDeleteEdge \<Rightarrow>
          (let t1 = (case opOldEdge op of
                       None \<Rightarrow> t
                     | Some old \<Rightarrow> writeEdgeAdjacencyInTxn t old version True)
           in case archiveOldInTxn b t1 (E (opEdgeID op)) (map_option BE (opOldEdge op)) of
                Inl e \<Rightarrow> Inl e
              | Inr t2 \<Rightarrow>
                  writeEdgeMVCCHeadInTxn (edb b) (writeEdgeMVCCTombstoneInTxn t2 (opEdgeID op) version)
                    (opEdgeID op) version True)
      | OpUpdateEmbedding \<Rightarrow> Inr t)"

fun materializeMVCCCommitInTxn ::
    "engine \<Rightarrow> btxn \<Rightarrow> mvcc_version \<Rightarrow> operation list \<Rightarrow> storage_error + btxn" where
  "materializeMVCCCommitInTxn b t version [] = Inr t"
| "materializeMVCCCommitInTxn b t version (op # ops) =
     (case materializeOp b version op t of
        Inl e \<Rightarrow> Inl e
      | Inr t1 \<Rightarrow> materializeMVCCCommitInTxn b t1 version ops)"

section \<open>Pruning\<close>

record prune_options =
  pMaxVersionsPerKey :: int
  pMinRetentionAge :: int

definition effectiveMVCCPruneOptions :: "engine \<Rightarrow> prune_options \<Rightarrow> prune_options" where
  "effectiveMVCCPruneOptions b opts =
     (let policy = normalizeRetentionPolicy (retentionPolicy b);
          n = (if pMaxVersionsPerKey opts \<le> 0 then MaxVersionsPerKey policy
               else pMaxVersionsPerKey opts);
          age = (if pMinRetentionAge opts \<le> 0 then TTL policy else pMinRetentionAge opts)
      in \<lparr>pMaxVersionsPerKey = n, pMinRetentionAge = (if age < 0 then 0 else age)\<rparr>)"

text \<open>The version records of a row in key order, each with its tombstone flag.\<close>

definition groupOf :: "btxn \<Rightarrow> ent \<Rightarrow> (mvcc_version \<times> bool) list" where
  "groupOf t x = map (\<lambda>v. (v, case txn_get t (VersionKey x v) of
                                 Some (Record _ tombstoned) \<Rightarrow> tombstoned | _ \<Rightarrow> False))
                   (sort (versionsOf t x))"

fun pruneScan :: "ent \<Rightarrow> mvcc_version \<Rightarrow> int \<Rightarrow> go_time \<Rightarrow> mvcc_version list \<Rightarrow> int \<Rightarrow> mvcc_version
    \<Rightarrow> btxn \<Rightarrow> nat \<Rightarrow> btxn \<times> mvcc_version \<times> nat" where
  "pruneScan x headVersion retainFrom protectedAfter [] i floorVersion t deleted =
     (t, floorVersion, deleted)"
| "pruneScan x headVersion retainFrom protectedAfter (v # vs) i floorVersion t deleted =
     (let keep = (if IsZero floorVersion then v else floorVersion)
      in if Compare v headVersion = 0 then
           pruneScan x headVersion retainFrom protectedAfter vs (i + 1) keep t deleted
         else if i \<ge> retainFrom then
           pruneScan x headVersion retainFrom protectedAfter vs (i + 1) keep t deleted
         else if protectedAfter \<noteq> zero_time \<and> CommitTimestamp v > protectedAfter then
           pruneScan x headVersion retainFrom protectedAfter vs (i + 1) keep t deleted
         else
           pruneScan x headVersion retainFrom protectedAfter vs (i + 1) floorVersion
             (txn_delete t (VersionKey x v)) (deleted + 1))"

text \<open>\<open>flush\<close> for a group of node or edge records, first with the head given. The identifier
  dictionary is not part of the model, so the reclamation of the number is not either.\<close>

definition flushGroup ::
    "prune_options \<Rightarrow> go_time \<Rightarrow> bool \<Rightarrow> ent \<Rightarrow> mvcc_head \<Rightarrow> mvcc_version list \<Rightarrow> btxn \<Rightarrow> btxn \<times> nat" where
  "flushGroup opts protectedAfter activeSnapshotReaders x head versions t =
     (let isHead = (\<lambda>v. Compare v (Version head) = 0)
      in if Tombstoned head \<and> \<not> activeSnapshotReaders \<and> protectedAfter = zero_time then
           let victims = filter (\<lambda>v. \<not> isHead v) versions;
               t1 = fold (\<lambda>v t. txn_delete t (VersionKey x v)) victims t
           in if pMaxVersionsPerKey opts \<le> 0 then
                let marker = take 1 (filter isHead versions);
                    t2 = fold (\<lambda>v t. txn_delete t (VersionKey x v)) marker t1
                in (txn_delete t2 (HeadKey x), length victims + length marker)
              else (writeHeadWithFloorInTxn t1 x (Version head) True (Version head), length victims)
         else
           let headInGroup = (\<exists>v \<in> set versions. isHead v)
           in if length versions \<le> 1 \<and> headInGroup then
                (writeHeadWithFloorInTxn t x (Version head) (Tombstoned head) (hd versions), 0)
              else
                let maxDeleteIndex = (if headInGroup then length versions - 1 else length versions);
                    retainFrom = max 0 (int maxDeleteIndex - pMaxVersionsPerKey opts);
                    (t1, floorVersion, deleted) =
                      pruneScan x (Version head) retainFrom protectedAfter
                        (take maxDeleteIndex versions) 0 zero_version t 0;
                    floor' = (if IsZero floorVersion then Version head else floorVersion)
                in (writeHeadWithFloorInTxn t1 x (Version head) (Tombstoned head) floor', deleted))"

definition pruneGroupInTxn ::
    "prune_options \<Rightarrow> go_time \<Rightarrow> bool \<Rightarrow> ent \<Rightarrow> btxn \<Rightarrow> storage_error + btxn \<times> nat" where
  "pruneGroupInTxn opts protectedAfter activeSnapshotReaders x t =
     (let currentGroup = groupOf t x
      in if currentGroup = [] then Inr (t, 0)
         else case loadHeadInTxn t x of
                Inr head \<Rightarrow>
                  Inr (flushGroup opts protectedAfter activeSnapshotReaders x head (map fst currentGroup) t)
              | Inl e \<Rightarrow>
                  if e \<noteq> ErrNotFound then Inl e
                  else let latest = last currentGroup
                       in Inr (flushGroup opts protectedAfter activeSnapshotReaders x
                            \<lparr>Version = fst latest, Tombstoned = snd latest, FloorVersion = fst latest\<rparr>
                            (map fst currentGroup) t))"

definition protectedAfterOf :: "go_time \<Rightarrow> prune_options \<Rightarrow> go_time" where
  "protectedAfterOf now opts =
     (if pMinRetentionAge opts > 0 then now - pMinRetentionAge opts else zero_time)"

fun pruneMVCCKeyspaceInTxn ::
    "prune_options \<Rightarrow> go_time \<Rightarrow> bool \<Rightarrow> ent list \<Rightarrow> btxn \<Rightarrow> storage_error + btxn \<times> nat" where
  "pruneMVCCKeyspaceInTxn opts now active [] t = Inr (t, 0)"
| "pruneMVCCKeyspaceInTxn opts now active (x # xs) t =
     (case pruneGroupInTxn opts (protectedAfterOf now opts) active x t of
        Inl e \<Rightarrow> Inl e
      | Inr (t1, n) \<Rightarrow>
          (case pruneMVCCKeyspaceInTxn opts now active xs t1 of
             Inl e \<Rightarrow> Inl e
           | Inr (t2, m) \<Rightarrow> Inr (t2, n + m)))"

end
