(* ===== verification/TxState.thy ===== *)
theory TxState
  imports MvccStore
begin

text \<open>
  The state of a storage transaction and its basic steps (\<^verbatim>\<open>pkg/storage/badger_transaction.go\<close>,
  \<^verbatim>\<open>badger_transaction_snapshot_reads.go\<close>, \<^verbatim>\<open>badger_label_count.go\<close>, \<^verbatim>\<open>badger_lifecycle.go\<close>):
  beginning, pinning the namespace, the lifecycle check every operation starts with, closing, the
  write buffers and the reads of committed data. The mutex of a transaction makes each operation one
  step, so an operation is a function on the pair of the engine and the transaction that returns a
  result or an error; it may change the state also when it fails.

  Parameters, collected in a record \<open>env\<close>: the lifecycle controller's answers, the knowledge policy's
  filter, the schema's constraint checks, whether a node still needs an embedding, the UUID parser of
  \<^verbatim>\<open>google/uuid\<close>, the clock, the recovery of a namespace's allocator from disk, and the key-value
  store's acceptance of a commit.
\<close>

section \<open>State\<close>

datatype tx_status = TxStatusActive | TxStatusCommitted | TxStatusRolledBack

record reader_info =
  riSnapshotVersion :: mvcc_version
  riStartTime :: go_time
  riNamespace :: string

text \<open>What deregistering does: decrement the engine's counter, or call the controller.\<close>

datatype deregister = FallbackCounter | ControllerRegistry

record tx =
  txStatus :: tx_status
  txStartTime :: go_time
  txReadTS :: mvcc_version
  txBeginSnapshot :: "(string \<times> mvcc_version) list"
  txCommitVersion :: mvcc_version
  txNamespace :: string
  txBadger :: btxn
  txSnapshot :: "db option"
  txPendingNodes :: "(string \<times> node) list"
  txPendingEdges :: "(string \<times> edge) list"
  txDeletedNodes :: "string list"
  txDeletedEdges :: "string list"
  txOperations :: "operation list"
  txPendingWrites :: "(key \<times> val) list"
  txPendingDeletes :: "key list"
  txDeferConstraintValidation :: bool
  txSkipCreateExistenceCheck :: bool
  txImplicit :: bool
  txReaderInfo :: reader_info
  txDeregister :: "deregister option"
  txClosedErr :: "storage_error option"

record env =
  evaluateReader :: "reader_info \<Rightarrow> bool \<times> bool"          \<comment> \<open>graceful, hard\<close>
  rejectReader :: "reader_info \<Rightarrow> bool"
  decayed :: "body \<Rightarrow> bool"
  validateNodeConstraints :: "engine \<Rightarrow> tx \<Rightarrow> node \<Rightarrow> storage_error option"
  validatePolicyOnNodeLabelChange :: "engine \<Rightarrow> tx \<Rightarrow> node \<Rightarrow> node \<Rightarrow> storage_error option"
  validateAllConstraints :: "engine \<Rightarrow> tx \<Rightarrow> storage_error option"
  uniqueRace :: "engine \<Rightarrow> tx \<Rightarrow> string \<Rightarrow> bool"
  shouldIndexPendingEmbed :: "node \<Rightarrow> bool"
  uuidParse :: "string \<Rightarrow> bool"
  now :: go_time
  recoverNamespace :: "db \<Rightarrow> string \<Rightarrow> ns_state"
  kvReject :: "btxn \<Rightarrow> db \<Rightarrow> storage_error option"

section \<open>Steps\<close>

type_synonym 'a step = "engine \<times> tx \<Rightarrow> (storage_error + 'a) \<times> engine \<times> tx"

definition ret :: "'a \<Rightarrow> 'a step" where
  "ret x = (\<lambda>s. (Inr x, s))"

definition fail :: "storage_error \<Rightarrow> 'a step" where
  "fail e = (\<lambda>s. (Inl e, s))"

definition bnd :: "'a step \<Rightarrow> ('a \<Rightarrow> 'b step) \<Rightarrow> 'b step" where
  "bnd m f = (\<lambda>s. case m s of (Inl e, s') \<Rightarrow> (Inl e, s') | (Inr x, s') \<Rightarrow> f x s')"

definition thn :: "'a step \<Rightarrow> 'b step \<Rightarrow> 'b step" where
  "thn m k = bnd m (\<lambda>_. k)"

definition reads :: "(engine \<Rightarrow> tx \<Rightarrow> 'a) \<Rightarrow> 'a step" where
  "reads f = (\<lambda>(b, t). (Inr (f b t), b, t))"

definition modify :: "(tx \<Rightarrow> tx) \<Rightarrow> unit step" where
  "modify f = (\<lambda>(b, t). (Inr (), b, f t))"

definition modifyEngine :: "(engine \<Rightarrow> engine) \<Rightarrow> unit step" where
  "modifyEngine f = (\<lambda>(b, t). (Inr (), f b, t))"

definition lift_result :: "storage_error + 'a \<Rightarrow> 'a step" where
  "lift_result r = (case r of Inl e \<Rightarrow> fail e | Inr x \<Rightarrow> ret x)"

text \<open>\<^verbatim>\<open>if cond { return err }\<close>, and the same for a check that returns its own error.\<close>

definition check :: "(engine \<Rightarrow> tx \<Rightarrow> bool) \<Rightarrow> storage_error \<Rightarrow> unit step" where
  "check c e = (\<lambda>(b, t). if c b t then (Inl e, b, t) else (Inr (), b, t))"

definition check_opt :: "(engine \<Rightarrow> tx \<Rightarrow> storage_error option) \<Rightarrow> unit step" where
  "check_opt f = (\<lambda>(b, t). case f b t of Some e \<Rightarrow> (Inl e, b, t) | None \<Rightarrow> (Inr (), b, t))"

text \<open>Run the handler on an error, in the state the failed step left.\<close>

definition on_error :: "'a step \<Rightarrow> (storage_error \<Rightarrow> 'a step) \<Rightarrow> 'a step" where
  "on_error m h = (\<lambda>s. case m s of (Inl e, s') \<Rightarrow> h e s' | (Inr x, s') \<Rightarrow> (Inr x, s'))"

fun for_each :: "('a \<Rightarrow> unit step) \<Rightarrow> 'a list \<Rightarrow> unit step" where
  "for_each f [] = ret ()"
| "for_each f (x # xs) = thn (f x) (for_each f xs)"

section \<open>Begin\<close>

definition currentMVCCReadVersion :: "engine \<Rightarrow> go_time \<Rightarrow> string \<Rightarrow> mvcc_version" where
  "currentMVCCReadVersion b time namespace =
     (if namespace = [] then MVCCVersion time 0
      else case map_of (mvccByNamespace b) namespace of
             None \<Rightarrow> MVCCVersion time 0
           | Some s \<Rightarrow> snapshotNamespaceVersion s time)"

definition snapshotNamespaceVersions :: "engine \<Rightarrow> go_time \<Rightarrow> (string \<times> mvcc_version) list" where
  "snapshotNamespaceVersions b time =
     map (\<lambda>(ns, s). (ns, snapshotNamespaceVersion s time)) (mvccByNamespace b)"

definition BeginTransaction :: "env \<Rightarrow> engine \<Rightarrow> storage_error + tx" where
  "BeginTransaction env b =
     (if engineClosed b then Inl ErrStorageClosed
      else let readTS = currentMVCCReadVersion b (now env) []
           in Inr \<lparr>txStatus = TxStatusActive, txStartTime = now env, txReadTS = readTS,
                   txBeginSnapshot = snapshotNamespaceVersions b (now env),
                   txCommitVersion = zero_version, txNamespace = [], txBadger = begin_txn (edb b),
                   txSnapshot = Some (edb b), txPendingNodes = [], txPendingEdges = [],
                   txDeletedNodes = [], txDeletedEdges = [], txOperations = [], txPendingWrites = [],
                   txPendingDeletes = [], txDeferConstraintValidation = False,
                   txSkipCreateExistenceCheck = False, txImplicit = False,
                   txReaderInfo = \<lparr>riSnapshotVersion = readTS, riStartTime = now env, riNamespace = []\<rparr>,
                   txDeregister = None, txClosedErr = None\<rparr>)"

section \<open>Snapshot readers\<close>

definition acquireSnapshotReader ::
    "env \<Rightarrow> engine \<Rightarrow> reader_info \<Rightarrow> storage_error + deregister \<times> engine" where
  "acquireSnapshotReader env b info =
     (if \<not> lifecycleEnabled b then Inr (FallbackCounter, b\<lparr>activeReaders := activeReaders b + 1\<rparr>)
      else if rejectReader env info then Inl ErrMVCCResourcePressure
      else Inr (ControllerRegistry, b))"

definition runDeregister :: "deregister \<Rightarrow> engine \<Rightarrow> engine" where
  "runDeregister d b = (case d of
     FallbackCounter \<Rightarrow> b\<lparr>activeReaders := activeReaders b - 1\<rparr>
   | ControllerRegistry \<Rightarrow> b)"

definition evaluateSnapshotReader :: "env \<Rightarrow> engine \<Rightarrow> reader_info \<Rightarrow> bool \<times> bool" where
  "evaluateSnapshotReader env b info =
     (if \<not> lifecycleEnabled b then (False, False) else evaluateReader env info)"

definition dropReader :: "unit step" where
  "dropReader = (\<lambda>(b, t). case txDeregister t of
     None \<Rightarrow> (Inr (), b, t)
   | Some d \<Rightarrow> (Inr (), runDeregister d b, t\<lparr>txDeregister := None\<rparr>))"

definition refreshReadVersionForNamespaceLocked :: "env \<Rightarrow> unit step" where
  "refreshReadVersionForNamespaceLocked env =
     thn (modify (\<lambda>t. let readTS = (case map_of (txBeginSnapshot t) (txNamespace t) of
                                 Some v \<Rightarrow> v | None \<Rightarrow> MVCCVersion (txStartTime t) 0)
                      in t\<lparr>txReadTS := readTS,
                           txReaderInfo := (txReaderInfo t)\<lparr>riSnapshotVersion := readTS,
                                                            riNamespace := txNamespace t\<rparr>\<rparr>))
       (\<lambda>(b, t). if IsZero (txReadTS t) then (Inr (), b, t)
          else case acquireSnapshotReader env b (txReaderInfo t) of
                 Inl e \<Rightarrow> (Inl e, b, t)
               | Inr (d, b') \<Rightarrow>
                   thn dropReader (modify (\<lambda>t. t\<lparr>txDeregister := Some d\<rparr>)) (b', t))"

definition closeLocked :: "tx_status \<Rightarrow> storage_error option \<Rightarrow> unit step" where
  "closeLocked status closedErr =
     thn (modify (\<lambda>t. t\<lparr>txSnapshot := None, txPendingWrites := [], txPendingDeletes := [],
                         txStatus := status, txClosedErr := closedErr\<rparr>))
       dropReader"

definition closedError :: "tx \<Rightarrow> storage_error" where
  "closedError t = (case txClosedErr t of Some e \<Rightarrow> e | None \<Rightarrow> ErrTransactionClosed)"

definition ensureLifecycleActiveLocked :: "env \<Rightarrow> unit step" where
  "ensureLifecycleActiveLocked env = (\<lambda>(b, t).
     if txStatus t \<noteq> TxStatusActive then (Inl (closedError t), b, t)
     else if riStartTime (txReaderInfo t) = zero_time then (Inr (), b, t)
     else let (graceful, hard) = evaluateSnapshotReader env b (txReaderInfo t)
          in if hard then
               thn (closeLocked TxStatusRolledBack (Some ErrMVCCSnapshotHardExpired))
                 (fail ErrMVCCSnapshotHardExpired) (b, t)
             else if graceful then
               thn (closeLocked TxStatusRolledBack (Some ErrMVCCSnapshotGracefulCancel))
                 (fail ErrMVCCSnapshotGracefulCancel) (b, t)
             else (Inr (), b, t))"

section \<open>Namespaces\<close>

definition bindNamespace :: "env \<Rightarrow> string \<Rightarrow> unit step" where
  "bindNamespace env ns =
     thn (modify (\<lambda>t. t\<lparr>txNamespace := ns\<rparr>))
       (on_error (refreshReadVersionForNamespaceLocked env)
          (\<lambda>e. thn (modify (\<lambda>t. t\<lparr>txNamespace := []\<rparr>)) (fail e)))"

definition SetNamespace :: "env \<Rightarrow> string \<Rightarrow> unit step" where
  "SetNamespace env ns = (\<lambda>(b, t).
     if txStatus t \<noteq> TxStatusActive then (Inl (closedError t), b, t)
     else if ns = [] then (Inl ErrNamespaceRequired, b, t)
     else if txNamespace t \<noteq> [] \<and> txNamespace t \<noteq> ns then (Inl ErrCrossNamespaceTransaction, b, t)
     else if txNamespace t = [] then bindNamespace env ns (b, t)
     else (Inr (), b, t))"

definition pinNamespaceFromIDLocked :: "env \<Rightarrow> string \<Rightarrow> unit step" where
  "pinNamespaceFromIDLocked env ident = (\<lambda>(b, t).
     case ParseDatabasePrefix ident of
       None \<Rightarrow> (Inl ErrNamespaceRequired, b, t)
     | Some (ns, _) \<Rightarrow>
         if txNamespace t = [] then bindNamespace env ns (b, t)
         else if txNamespace t \<noteq> ns then (Inl ErrCrossNamespaceTransaction, b, t)
         else (Inr (), b, t))"

definition pinEdgeNamespaceLocked :: "env \<Rightarrow> edge \<Rightarrow> unit step" where
  "pinEdgeNamespaceLocked env e =
     thn (pinNamespaceFromIDLocked env (eID e))
       (thn (if eStartNode e \<noteq> [] then pinNamespaceFromIDLocked env (eStartNode e) else ret ())
         (if eEndNode e \<noteq> [] then pinNamespaceFromIDLocked env (eEndNode e) else ret ()))"

section \<open>The write buffers\<close>

definition bufferSet :: "key \<Rightarrow> val \<Rightarrow> unit step" where
  "bufferSet k v = modify (\<lambda>t. t\<lparr>txPendingDeletes := removeAll k (txPendingDeletes t),
                                 txPendingWrites := AList.update k v (txPendingWrites t)\<rparr>)"

definition bufferDelete :: "key \<Rightarrow> unit step" where
  "bufferDelete k = modify (\<lambda>t. t\<lparr>txPendingWrites := AList.delete k (txPendingWrites t),
                                  txPendingDeletes := List.insert k (txPendingDeletes t)\<rparr>)"

definition bufferSetEdgeBetweenIndexes :: "edge \<Rightarrow> unit step" where
  "bufferSetEdgeBetweenIndexes e =
     thn (bufferSet (EdgeBetweenIndex (eStartNode e) (eEndNode e) (eType e) (eID e)) (Ident (eID e)))
       (bufferSet (EdgeBetweenHead (eStartNode e) (eEndNode e) (eType e)) (Ident (eID e)))"

definition bufferDeleteEdgeBetweenIndexes :: "edge \<Rightarrow> unit step" where
  "bufferDeleteEdgeBetweenIndexes e =
     thn (bufferDelete (EdgeBetweenIndex (eStartNode e) (eEndNode e) (eType e) (eID e)))
       (bufferDelete (EdgeBetweenHead (eStartNode e) (eEndNode e) (eType e)))"

definition flushTo :: "tx \<Rightarrow> btxn" where
  "flushTo t =
     (let t1 = fold (\<lambda>k u. txn_delete u k) (txPendingDeletes t) (txBadger t)
      in fold (\<lambda>(k, v) u. if k \<in> set (txPendingDeletes t) then u else txn_set u k v)
           (txPendingWrites t) t1)"

definition flushBufferedWrites :: "unit step" where
  "flushBufferedWrites =
     modify (\<lambda>t. t\<lparr>txBadger := flushTo t, txPendingWrites := [], txPendingDeletes := []\<rparr>)"

text \<open>A read through the updating key-value transaction whose purpose, or effect, is to enroll the key
  in the store's conflict detection.\<close>

definition trackReads :: "key list \<Rightarrow> unit step" where
  "trackReads ks = modify (\<lambda>t. t\<lparr>txBadger := txn_track (txBadger t) ks\<rparr>)"

text \<open>\<^verbatim>\<open>strings.ToLower\<close> on the letters of ASCII; other characters stay. The label index and the label
  counts have one key for all spellings of a label.\<close>

definition lowerChar :: "char \<Rightarrow> char" where
  "lowerChar c = (if 65 \<le> (of_char c :: nat) \<and> (of_char c :: nat) \<le> 90
     then char_of ((of_char c :: nat) + 32) else c)"

definition ToLower :: "string \<Rightarrow> string" where
  "ToLower s = map lowerChar s"

definition labelIndexKey :: "string \<Rightarrow> string \<Rightarrow> key" where
  "labelIndexKey label nodeID = LabelIndex (ToLower label) nodeID"

definition labelCountKey :: "string \<Rightarrow> string \<Rightarrow> key" where
  "labelCountKey namespace label = LabelCount namespace (ToLower label)"

text \<open>\<^verbatim>\<open>uniqueNormalizedLabels\<close>, and with it \<^verbatim>\<open>labelSet\<close>, a map whose order Go leaves open.\<close>

definition uniqueNormalizedLabels :: "string list \<Rightarrow> string list" where
  "uniqueNormalizedLabels labels = remdups (filter (\<lambda>l. l \<noteq> []) (map ToLower labels))"

definition decodeLabelCount :: "val \<Rightarrow> int step" where
  "decodeLabelCount v = (case v of Count n \<Rightarrow> ret n | _ \<Rightarrow> fail ErrDecode)"

definition readBufferedLabelCount :: "string \<Rightarrow> string \<Rightarrow> int step" where
  "readBufferedLabelCount namespace label =
     (let k = labelCountKey namespace label
      in bnd (reads (\<lambda>_ t. if k \<in> set (txPendingDeletes t) then Some None
                          else map_option Some (map_of (txPendingWrites t) k))) (\<lambda>pending.
           case pending of
             Some None \<Rightarrow> ret 0
           | Some (Some v) \<Rightarrow> decodeLabelCount v
           | None \<Rightarrow>
               thn (trackReads [k])
                 (bnd (reads (\<lambda>_ t. txn_get (txBadger t) k)) (\<lambda>item.
                    case item of None \<Rightarrow> ret 0 | Some v \<Rightarrow> decodeLabelCount v))))"

definition bufferAdjustLabelCount :: "string \<Rightarrow> string \<Rightarrow> int \<Rightarrow> unit step" where
  "bufferAdjustLabelCount namespace label delta =
     (if delta = 0 \<or> namespace = [] \<or> label = [] then ret ()
      else bnd (readBufferedLabelCount namespace label) (\<lambda>count.
        let next = count + delta
        in if next < 0 then fail (ErrLabelCountUnderflow label)
           else if next = 0 then bufferDelete (labelCountKey namespace label)
           else bufferSet (labelCountKey namespace label) (Count next)))"

definition bufferAdjustNodeLabelCounts :: "string list \<Rightarrow> string list \<Rightarrow> unit step" where
  "bufferAdjustNodeLabelCounts oldLabels newLabels =
     (let oldSet = uniqueNormalizedLabels oldLabels; newSet = uniqueNormalizedLabels newLabels
      in bnd (reads (\<lambda>_. txNamespace)) (\<lambda>ns.
           thn (for_each (\<lambda>l. bufferAdjustLabelCount ns l 1) (filter (\<lambda>l. l \<notin> set oldSet) newSet))
               (for_each (\<lambda>l. bufferAdjustLabelCount ns l (- 1)) (filter (\<lambda>l. l \<notin> set newSet) oldSet))))"

section \<open>Reads of committed data\<close>

definition snapshotView :: "engine \<Rightarrow> tx \<Rightarrow> btxn" where
  "snapshotView b t = begin_txn (case txSnapshot t of Some d \<Rightarrow> d | None \<Rightarrow> edb b)"

text \<open>A read at a version registers a reader around the read.\<close>

definition visibleAtWithView ::
    "env \<Rightarrow> engine \<Rightarrow> btxn \<Rightarrow> ent \<Rightarrow> mvcc_version \<Rightarrow> storage_error + body" where
  "visibleAtWithView env b view x version =
     (case acquireSnapshotReader env b
        \<lparr>riSnapshotVersion = version, riStartTime = now env, riNamespace = []\<rparr> of
        Inl e \<Rightarrow> Inl e
      | Inr _ \<Rightarrow> visibleAtInTxn (decayed env) view x version)"

definition nodeBody :: "storage_error + body \<Rightarrow> storage_error + node" where
  "nodeBody r = (case r of Inl e \<Rightarrow> Inl e | Inr (BN n) \<Rightarrow> Inr n | Inr (BE _) \<Rightarrow> Inl ErrDecode)"

definition edgeBody :: "storage_error + body \<Rightarrow> storage_error + edge" where
  "edgeBody r = (case r of Inl e \<Rightarrow> Inl e | Inr (BE e) \<Rightarrow> Inr e | Inr (BN _) \<Rightarrow> Inl ErrDecode)"

definition getNodeFromBadgerSnapshotLocked :: "engine \<Rightarrow> tx \<Rightarrow> string \<Rightarrow> storage_error + node" where
  "getNodeFromBadgerSnapshotLocked b t nodeID = nodeBody (readPrimary (snapshotView b t) (N nodeID))"

definition getCommittedNodeLocked :: "env \<Rightarrow> engine \<Rightarrow> tx \<Rightarrow> string \<Rightarrow> storage_error + node" where
  "getCommittedNodeLocked env b t nodeID =
     (if IsZero (txReadTS t) then getNodeFromBadgerSnapshotLocked b t nodeID
      else let r = nodeBody (visibleAtWithView env b (snapshotView b t) (N nodeID) (txReadTS t))
           in if r = Inl ErrNotVisibleAtSnapshot then Inl ErrNotFound
              else if r = Inl ErrNotFound then
                let fallback = getNodeFromBadgerSnapshotLocked b t nodeID
                in (case fallback of
                      Inr n \<Rightarrow> Inr n
                    | Inl e \<Rightarrow> if e \<noteq> ErrNotFound then Inl e else r)
              else r)"

definition getCommittedEdgeLocked :: "env \<Rightarrow> engine \<Rightarrow> tx \<Rightarrow> string \<Rightarrow> storage_error + edge" where
  "getCommittedEdgeLocked env b t edgeID =
     (if IsZero (txReadTS t) then edgeBody (readPrimary (txBadger t) (E edgeID))
      else let r = edgeBody (visibleAtWithView env b (snapshotView b t) (E edgeID) (txReadTS t))
           in if r = Inl ErrNotVisibleAtSnapshot then Inl ErrNotFound else r)"

text \<open>\<^verbatim>\<open>BadgerEngine.GetNode\<close> and \<^verbatim>\<open>GetEdge\<close> on a node that is not in the engine's cache.\<close>

definition engineGet :: "env \<Rightarrow> engine \<Rightarrow> ent \<Rightarrow> storage_error + body" where
  "engineGet env b x =
     (if x = N [] \<or> x = E [] then Inl ErrInvalidID
      else if engineClosed b then Inl ErrStorageClosed
      else hide_decayed (decayed env) (readPrimary (begin_txn (edb b)) x))"

text \<open>\<^verbatim>\<open>GetNodeLatestVisible\<close> and \<^verbatim>\<open>GetEdgeLatestVisible\<close>.\<close>

definition latestVisible :: "env \<Rightarrow> engine \<Rightarrow> ent \<Rightarrow> storage_error + body" where
  "latestVisible env b x =
     (case engineGet env b x of
        Inr bd \<Rightarrow> Inr bd
      | Inl _ \<Rightarrow>
          let view = begin_txn (edb b)
          in (case loadHeadInTxn view x of
                Inl e \<Rightarrow> Inl e
              | Inr head \<Rightarrow>
                  if Tombstoned head then Inl ErrNotFound
                  else (case loadRecordAtOrBeforeInTxn view x (Version head) of
                          Inl e \<Rightarrow> Inl e
                        | Inr ((None, _), _) \<Rightarrow> Inl ErrNotFound
                        | Inr ((Some bd, tombstoned), _) \<Rightarrow>
                            if tombstoned then Inl ErrNotFound
                            else hide_decayed (decayed env) (Inr (copyBody bd)))))"

definition GetNodeLatestVisible :: "env \<Rightarrow> engine \<Rightarrow> string \<Rightarrow> storage_error + body" where
  "GetNodeLatestVisible env b nodeId = latestVisible env b (N nodeId)"

definition GetEdgeLatestVisible :: "env \<Rightarrow> engine \<Rightarrow> string \<Rightarrow> storage_error + body" where
  "GetEdgeLatestVisible env b edgeId = latestVisible env b (E edgeId)"

definition getCommittedEdgeForUpdateLocked :: "env \<Rightarrow> engine \<Rightarrow> tx \<Rightarrow> string \<Rightarrow> storage_error + edge" where
  "getCommittedEdgeForUpdateLocked env b t edgeID =
     (if IsZero (txReadTS t) then getCommittedEdgeLocked env b t edgeID
      else let r = edgeBody (visibleAtWithView env b (snapshotView b t) (E edgeID) (txReadTS t))
           in if r \<noteq> Inl ErrNotVisibleAtSnapshot \<and> r \<noteq> Inl ErrNotFound then r
              else (case GetEdgeLatestVisible env b edgeID of
                      Inr _ \<Rightarrow> Inl ErrConflict
                    | Inl e \<Rightarrow> if e = ErrNotFound then Inl ErrNotFound else Inl e))"

definition nodeExists :: "env \<Rightarrow> engine \<Rightarrow> tx \<Rightarrow> string \<Rightarrow> bool" where
  "nodeExists env b t nodeID =
     (if nodeID \<in> set (txDeletedNodes t) then False
      else if map_of (txPendingNodes t) nodeID \<noteq> None then True
      else (case getCommittedNodeLocked env b t nodeID of Inr _ \<Rightarrow> True | Inl _ \<Rightarrow> False))"

end
