(* ===== verification/TxOps.thy ===== *)
theory TxOps
  imports TxState
begin

text \<open>
  The operations of a storage transaction (\<^verbatim>\<open>pkg/storage/badger_transaction.go\<close>): node and edge
  writes with their index maintenance, reads, the snapshot-isolation checks, commit and rollback.
  Buffered writes reach the key-value transaction only at commit; operations are recorded in order.
  The temporal and property-type indexes, the derived caches and the event callbacks are not part of
  the model.
\<close>

definition addOperation :: "operation \<Rightarrow> unit step" where
  "addOperation op = modify (\<lambda>t. t\<lparr>txOperations := txOperations t @ [op]\<rparr>)"

definition shouldSkipCreateExistenceCheck :: "env \<Rightarrow> string \<Rightarrow> bool" where
  "shouldSkipCreateExistenceCheck env ident =
     (case ParseDatabasePrefix ident of None \<Rightarrow> False | Some (_, rawID) \<Rightarrow> uuidParse env rawID)"

definition hasUUIDShape :: "env \<Rightarrow> string \<Rightarrow> bool" where
  "hasUUIDShape env ident =
     (case ParseDatabasePrefix ident of None \<Rightarrow> False | Some (_, rawID) \<Rightarrow> uuidParse env rawID)"

text \<open>The two updates enroll the primary key of a row they have read from the snapshot, which is a
  different view, so that a peer's write of the row conflicts up to the commit of the store.\<close>

definition trackUnlessPending :: "(tx \<Rightarrow> bool) \<Rightarrow> key \<Rightarrow> unit step" where
  "trackUnlessPending pending k =
     bnd (reads (\<lambda>_. pending)) (\<lambda>p. if p then ret () else trackReads [k])"

section \<open>Nodes\<close>

definition CreateNode :: "env \<Rightarrow> node \<Rightarrow> string step" where
  "CreateNode env node =
     thn (ensureLifecycleActiveLocked env)
    (thn (check (\<lambda>_ _. nID node = []) ErrInvalidID)
    (thn (pinNamespaceFromIDLocked env (nID node))
    (thn (check_opt (\<lambda>b t. if txDeferConstraintValidation t then None
                           else validateNodeConstraints env b t node))
    (thn (check (\<lambda>_ t. map_of (txPendingNodes t) (nID node) \<noteq> None) ErrAlreadyExists)
    (bnd (reads (\<lambda>_ t. txSkipCreateExistenceCheck t \<and> shouldSkipCreateExistenceCheck env (nID node)))
       (\<lambda>skipExistenceCheck.
     thn (check_opt (\<lambda>b t.
            if skipExistenceCheck \<or> nID node \<in> set (txDeletedNodes t) then None
            else case getCommittedNodeLocked env b t (nID node) of
                   Inr _ \<Rightarrow> Some ErrAlreadyExists
                 | Inl e \<Rightarrow> if e \<noteq> ErrNotFound then Some e else None))
    (thn (bufferSet (Primary (N (nID node))) (Body (BN node)))
    (thn (for_each (\<lambda>label. bufferSet (labelIndexKey label (nID node)) Marker) (nLabels node))
    (thn (bufferAdjustNodeLabelCounts [] (nLabels node))
    (thn (if shouldIndexPendingEmbed env node then bufferSet (PendingEmbed (nID node)) Marker else ret ())
    (thn (modify (\<lambda>t. t\<lparr>txPendingNodes := AList.update (nID node) (copyNode node) (txPendingNodes t),
                        txDeletedNodes := removeAll (nID node) (txDeletedNodes t)\<rparr>))
    (thn (addOperation ((no_op OpCreateNode)\<lparr>opNodeID := nID node, opNode := Some (copyNode node),
                                             opFreshID := skipExistenceCheck\<rparr>))
         (ret (nID node))))))))))))))"

text \<open>\<^verbatim>\<open>pendingCreateNodeOperationIndexLocked\<close>: the loop from the last operation down.\<close>

fun pendingCreateIndex :: "string \<Rightarrow> operation list \<Rightarrow> nat \<Rightarrow> int" where
  "pendingCreateIndex nodeID ops 0 = - 1"
| "pendingCreateIndex nodeID ops (Suc i) =
     (let op = ops ! i
      in if opNodeID op \<noteq> nodeID then pendingCreateIndex nodeID ops i
         else case opType op of
                OpDeleteNode \<Rightarrow> - 1
              | OpCreateNode \<Rightarrow> int i
              | _ \<Rightarrow> pendingCreateIndex nodeID ops i)"

definition pendingCreateNodeOperationIndexLocked :: "tx \<Rightarrow> string \<Rightarrow> int" where
  "pendingCreateNodeOperationIndexLocked t nodeID =
     pendingCreateIndex nodeID (txOperations t) (length (txOperations t))"

definition labelsEqual :: "string list \<Rightarrow> string list \<Rightarrow> bool" where
  "labelsEqual a b = (if length a \<noteq> length b then False else (\<forall>l \<in> set b. l \<in> set a))"

definition UpdateNode :: "env \<Rightarrow> node \<Rightarrow> unit step" where
  "UpdateNode env node =
     thn (ensureLifecycleActiveLocked env)
    (thn (check (\<lambda>_ _. nID node = []) ErrInvalidID)
    (thn (pinNamespaceFromIDLocked env (nID node))
    (thn (check_opt (\<lambda>b t. if txDeferConstraintValidation t then None
                           else validateNodeConstraints env b t node))
    (bnd (bnd (reads (\<lambda>b t. case map_of (txPendingNodes t) (nID node) of
                 Some pending \<Rightarrow> Inr (copyNode pending, pendingCreateNodeOperationIndexLocked t (nID node))
               | None \<Rightarrow> map_sum id (\<lambda>n. (n, - 1)) (getCommittedNodeLocked env b t (nID node)))) lift_result)
       (\<lambda>(oldNode, createOpIdx).
     thn (trackUnlessPending (\<lambda>t. map_of (txPendingNodes t) (nID node) \<noteq> None) (Primary (N (nID node))))
    (thn (check_opt (\<lambda>b t.
            if \<not> txDeferConstraintValidation t \<and> \<not> labelsEqual (nLabels node) (nLabels oldNode)
            then validatePolicyOnNodeLabelChange env b t node oldNode else None))
    (thn (bufferSet (Primary (N (nID node))) (Body (BN node)))
    (thn (for_each (\<lambda>label. if label \<notin> set (nLabels oldNode)
                            then bufferSet (labelIndexKey label (nID node)) Marker else ret ()) (nLabels node))
    (thn (for_each (\<lambda>label. if label \<notin> set (nLabels node)
                            then bufferDelete (labelIndexKey label (nID node)) else ret ()) (nLabels oldNode))
    (thn (bufferAdjustNodeLabelCounts (nLabels oldNode) (nLabels node))
    (thn (modify (\<lambda>t. t\<lparr>txPendingNodes := AList.update (nID node) (copyNode node) (txPendingNodes t)\<rparr>))
    (thn (if (case nChunkEmbeddings node of e # _ \<Rightarrow> e \<noteq> [] | [] \<Rightarrow> False) then bufferDelete (PendingEmbed (nID node))
          else if shouldIndexPendingEmbed env node then bufferSet (PendingEmbed (nID node)) Marker
          else bufferDelete (PendingEmbed (nID node)))
    (if createOpIdx \<ge> 0
     then modify (\<lambda>t. t\<lparr>txOperations := (txOperations t)[nat createOpIdx :=
                           (txOperations t ! nat createOpIdx)\<lparr>opNode := Some (copyNode node)\<rparr>]\<rparr>)
     else addOperation ((no_op OpUpdateNode)\<lparr>opNodeID := nID node, opNode := Some (copyNode node),
                                             opOldNode := Some oldNode\<rparr>))))))))))))))"

text \<open>The statement-time archival of a delete writes to the key-value transaction at once.\<close>

definition archiveAtStatement :: "ent \<Rightarrow> body \<Rightarrow> unit step" where
  "archiveAtStatement x bd = thn (trackReads [HeadKey x]) (\<lambda>(b, t).
     case loadHeadInTxn (txBadger t) x of
       Inr head \<Rightarrow>
         if \<not> Tombstoned head
         then (Inr (), b, t\<lparr>txBadger := archiveBodyInTxn b (txBadger t) x (Some bd) (Version head)\<rparr>)
         else (Inr (), b, t)
     | Inl e \<Rightarrow> if e \<noteq> ErrNotFound then (Inl e, b, t) else (Inr (), b, t))"

definition deleteEdgeIndexes :: "edge \<Rightarrow> unit step" where
  "deleteEdgeIndexes e =
     thn (bufferDelete (Primary (E (eID e))))
    (thn (bufferDelete (OutgoingIndex (eStartNode e) (eID e)))
    (thn (bufferDelete (IncomingIndex (eEndNode e) (eID e)))
    (thn (bufferDelete (EdgeTypeIndex (eType e) (eID e)))
         (bufferDeleteEdgeBetweenIndexes e))))"

fun deleteEdgesLoop :: "string list \<Rightarrow> string list step" where
  "deleteEdgesLoop [] = ret []"
| "deleteEdgesLoop (edgeID # ids) =
     thn (trackReads [Primary (E edgeID)])
    (bnd (reads (\<lambda>_ t. edgeBody (readPrimary (txBadger t) (E edgeID)))) (\<lambda>r.
       case r of
         Inl e \<Rightarrow> if e = ErrNotFound then deleteEdgesLoop ids else fail e
       | Inr edge0 \<Rightarrow>
           let edge = edge0\<lparr>eID := edgeID\<rparr>
           in thn (archiveAtStatement (E edgeID) (BE edge))
             (thn (deleteEdgeIndexes edge)
             (bnd (deleteEdgesLoop ids) (\<lambda>deleted. ret (edgeID # deleted))))))"

definition outgoingIDs :: "btxn \<Rightarrow> string \<Rightarrow> string list" where
  "outgoingIDs u nodeID =
     concat (map (\<lambda>k. case k of OutgoingIndex n e \<Rightarrow> if n = nodeID then [e] else [] | _ \<Rightarrow> []) (txn_keys u))"

definition incomingIDs :: "btxn \<Rightarrow> string \<Rightarrow> string list" where
  "incomingIDs u nodeID =
     concat (map (\<lambda>k. case k of IncomingIndex n e \<Rightarrow> if n = nodeID then [e] else [] | _ \<Rightarrow> []) (txn_keys u))"

text \<open>The iterator enrolls the index keys it yields.\<close>

definition deleteEdgesWithPrefixBuffered ::
    "(btxn \<Rightarrow> string list) \<Rightarrow> (string \<Rightarrow> key) \<Rightarrow> string list step" where
  "deleteEdgesWithPrefixBuffered ids indexKey =
     bnd (reads (\<lambda>_ t. ids (txBadger t))) (\<lambda>edgeIDs.
       thn (trackReads (map indexKey edgeIDs)) (deleteEdgesLoop edgeIDs))"

definition deleteNodeBuffered :: "string \<Rightarrow> node \<Rightarrow> string list step" where
  "deleteNodeBuffered nodeID oldNode =
     thn (archiveAtStatement (N nodeID) (BN oldNode))
    (thn (for_each (\<lambda>label. bufferDelete (labelIndexKey label nodeID)) (nLabels oldNode))
    (thn (bufferAdjustNodeLabelCounts (nLabels oldNode) [])
    (bnd (deleteEdgesWithPrefixBuffered (\<lambda>u. outgoingIDs u nodeID) (OutgoingIndex nodeID)) (\<lambda>outIDs.
     bnd (deleteEdgesWithPrefixBuffered (\<lambda>u. incomingIDs u nodeID) (IncomingIndex nodeID)) (\<lambda>inIDs.
     thn (bufferDelete (PendingEmbed nodeID))
    (thn (bufferDelete (Primary (N nodeID)))
         (ret (outIDs @ inIDs))))))))"

definition DeleteNode :: "env \<Rightarrow> string \<Rightarrow> unit step" where
  "DeleteNode env nodeID =
     thn (ensureLifecycleActiveLocked env)
    (thn (check (\<lambda>_ _. nodeID = []) ErrInvalidID)
    (thn (pinNamespaceFromIDLocked env nodeID)
    (bnd (bnd (reads (\<lambda>b t. case map_of (txPendingNodes t) nodeID of
                 Some pending \<Rightarrow> Inr (copyNode pending)
               | None \<Rightarrow> getCommittedNodeLocked env b t nodeID)) lift_result) (\<lambda>oldNode.
     bnd (deleteNodeBuffered nodeID oldNode) (\<lambda>deletedEdgeIDs.
     thn (modify (\<lambda>t. t\<lparr>txPendingNodes := AList.delete nodeID (txPendingNodes t),
                        txDeletedNodes := List.insert nodeID (txDeletedNodes t)\<rparr>))
         (addOperation ((no_op OpDeleteNode)\<lparr>opNodeID := nodeID, opOldNode := Some oldNode,
            opEdgesDeleted := length deletedEdgeIDs, opDeletedEdgeIDs := deletedEdgeIDs\<rparr>)))))))"

section \<open>Edges\<close>

definition bufferNewEdge :: "env \<Rightarrow> edge \<Rightarrow> unit step" where
  "bufferNewEdge env edge =
     thn (bufferSet (Primary (E (eID edge))) (Body (BE edge)))
    (thn (bufferSet (OutgoingIndex (eStartNode edge) (eID edge)) Marker)
    (thn (bufferSet (IncomingIndex (eEndNode edge) (eID edge)) Marker)
    (thn (bufferSet (EdgeTypeIndex (eType edge) (eID edge)) Marker)
    (thn (bufferSetEdgeBetweenIndexes edge)
    (thn (modify (\<lambda>t. t\<lparr>txPendingEdges := AList.update (eID edge) (copyEdge edge) (txPendingEdges t)\<rparr>))
         (addOperation ((no_op OpCreateEdge)\<lparr>opEdgeID := eID edge, opEdge := Some (copyEdge edge),
                                             opFreshID := hasUUIDShape env (eID edge)\<rparr>)))))))"

definition CreateEdge :: "env \<Rightarrow> edge \<Rightarrow> unit step" where
  "CreateEdge env edge =
     thn (ensureLifecycleActiveLocked env)
    (thn (check (\<lambda>_ _. eID edge = []) ErrInvalidID)
    (thn (pinEdgeNamespaceLocked env edge)
    (thn (check (\<lambda>b t. \<not> nodeExists env b t (eStartNode edge)) (ErrStartNodeMissing (eStartNode edge)))
    (thn (check (\<lambda>b t. \<not> nodeExists env b t (eEndNode edge)) (ErrEndNodeMissing (eEndNode edge)))
    (thn (check (\<lambda>_ t. map_of (txPendingEdges t) (eID edge) \<noteq> None) ErrAlreadyExists)
         (bufferNewEdge env edge))))))"

text \<open>The existence cache of a batch; an endpoint of a created edge counts as existing from then on.\<close>

definition nodeVisibleCached ::
    "env \<Rightarrow> engine \<Rightarrow> tx \<Rightarrow> (string \<times> bool) list \<Rightarrow> string \<Rightarrow> bool \<times> (string \<times> bool) list" where
  "nodeVisibleCached env b t existence ident =
     (case map_of existence ident of
        Some cached \<Rightarrow> (cached, existence)
      | None \<Rightarrow> let ok = nodeExists env b t ident in (ok, AList.update ident ok existence))"

fun bulkCreateLoop :: "env \<Rightarrow> (string \<times> bool) list \<Rightarrow> edge option list \<Rightarrow> unit step" where
  "bulkCreateLoop env existence [] = ret ()"
| "bulkCreateLoop env existence (None # edges) = fail ErrInvalidData"
| "bulkCreateLoop env existence (Some edge # edges) =
     thn (check (\<lambda>_ _. eID edge = []) ErrInvalidID)
    (thn (pinEdgeNamespaceLocked env edge)
    (bnd (reads (\<lambda>b t. nodeVisibleCached env b t existence (eStartNode edge))) (\<lambda>(ok1, ex1).
     thn (check (\<lambda>_ _. \<not> ok1) (ErrStartNodeMissing (eStartNode edge)))
    (bnd (reads (\<lambda>b t. nodeVisibleCached env b t ex1 (eEndNode edge))) (\<lambda>(ok2, ex2).
     thn (check (\<lambda>_ _. \<not> ok2) (ErrEndNodeMissing (eEndNode edge)))
    (thn (check (\<lambda>_ t. map_of (txPendingEdges t) (eID edge) \<noteq> None) ErrAlreadyExists)
    (thn (bufferNewEdge env edge)
         (bulkCreateLoop env (AList.update (eEndNode edge) True (AList.update (eStartNode edge) True ex2))
            edges))))))))"

definition BulkCreateEdges :: "env \<Rightarrow> edge option list \<Rightarrow> unit step" where
  "BulkCreateEdges env edges =
     (if edges = [] then ret ()
      else thn (ensureLifecycleActiveLocked env) (bulkCreateLoop env [] edges))"

definition moveEdgeIndexes :: "edge \<Rightarrow> edge \<Rightarrow> unit step" where
  "moveEdgeIndexes oldEdge edge =
     thn (bufferDelete (OutgoingIndex (eStartNode oldEdge) (eID edge)))
    (thn (bufferDelete (IncomingIndex (eEndNode oldEdge) (eID edge)))
    (thn (bufferDeleteEdgeBetweenIndexes oldEdge)
    (thn (bufferSet (OutgoingIndex (eStartNode edge) (eID edge)) Marker)
    (thn (bufferSet (IncomingIndex (eEndNode edge) (eID edge)) Marker)
         (bufferSetEdgeBetweenIndexes edge)))))"

definition retypeEdgeIndexes :: "edge \<Rightarrow> edge \<Rightarrow> unit step" where
  "retypeEdgeIndexes oldEdge edge =
     (let sameEnds = (eStartNode oldEdge = eStartNode edge \<and> eEndNode oldEdge = eEndNode edge)
      in thn (if eType oldEdge \<noteq> [] then bufferDelete (EdgeTypeIndex (eType oldEdge) (eID edge)) else ret ())
        (thn (if sameEnds then bufferDeleteEdgeBetweenIndexes oldEdge else ret ())
        (thn (if eType edge \<noteq> [] then bufferSet (EdgeTypeIndex (eType edge) (eID edge)) Marker else ret ())
             (if sameEnds then bufferSetEdgeBetweenIndexes edge else ret ()))))"

definition UpdateEdge :: "env \<Rightarrow> edge \<Rightarrow> unit step" where
  "UpdateEdge env edge =
     thn (check (\<lambda>_ _. eID edge = []) ErrInvalidID)
    (thn (ensureLifecycleActiveLocked env)
    (thn (pinEdgeNamespaceLocked env edge)
    (thn (check (\<lambda>_ t. eID edge \<in> set (txDeletedEdges t)) ErrNotFound)
    (bnd (bnd (reads (\<lambda>b t. case map_of (txPendingEdges t) (eID edge) of
                 Some pending \<Rightarrow> Inr (copyEdge pending)
               | None \<Rightarrow> getCommittedEdgeForUpdateLocked env b t (eID edge))) lift_result) (\<lambda>oldEdge.
     thn (trackUnlessPending (\<lambda>t. map_of (txPendingEdges t) (eID edge) \<noteq> None) (Primary (E (eID edge))))
    (bnd (ret (eStartNode oldEdge \<noteq> eStartNode edge \<or> eEndNode oldEdge \<noteq> eEndNode edge)) (\<lambda>moved.
     thn (check (\<lambda>b t. moved \<and> \<not> nodeExists env b t (eStartNode edge)) (ErrStartNodeMissing (eStartNode edge)))
    (thn (check (\<lambda>b t. moved \<and> \<not> nodeExists env b t (eEndNode edge)) (ErrEndNodeMissing (eEndNode edge)))
    (thn (if moved then moveEdgeIndexes oldEdge edge else ret ())
    (thn (if eType oldEdge \<noteq> eType edge then retypeEdgeIndexes oldEdge edge else ret ())
    (thn (bufferSet (Primary (E (eID edge))) (Body (BE edge)))
    (thn (modify (\<lambda>t. t\<lparr>txPendingEdges := AList.update (eID edge) (copyEdge edge) (txPendingEdges t)\<rparr>))
         (addOperation ((no_op OpUpdateEdge)\<lparr>opEdgeID := eID edge, opEdge := Some (copyEdge edge),
                                             opOldEdge := Some oldEdge\<rparr>))))))))))))))"

definition DeleteEdge :: "env \<Rightarrow> string \<Rightarrow> unit step" where
  "DeleteEdge env edgeID =
     thn (ensureLifecycleActiveLocked env)
    (thn (check (\<lambda>_ _. edgeID = []) ErrInvalidID)
    (thn (pinNamespaceFromIDLocked env edgeID)
    (bnd (bnd (reads (\<lambda>b t. case map_of (txPendingEdges t) edgeID of
                 Some pending \<Rightarrow> Inr pending
               | None \<Rightarrow> getCommittedEdgeLocked env b t edgeID)) lift_result) (\<lambda>edge.
     thn (bufferDelete (Primary (E edgeID)))
    (thn (bufferDelete (OutgoingIndex (eStartNode edge) edgeID))
    (thn (bufferDelete (IncomingIndex (eEndNode edge) edgeID))
    (thn (bufferDelete (EdgeTypeIndex (eType edge) edgeID))
    (thn (bufferDeleteEdgeBetweenIndexes edge)
    (thn (modify (\<lambda>t. t\<lparr>txPendingEdges := AList.delete edgeID (txPendingEdges t),
                        txDeletedEdges := List.insert edgeID (txDeletedEdges t)\<rparr>))
         (addOperation ((no_op OpDeleteEdge)\<lparr>opEdgeID := edgeID, opOldEdge := Some edge\<rparr>)))))))))))"

section \<open>Reads\<close>

definition GetNode :: "env \<Rightarrow> string \<Rightarrow> node step" where
  "GetNode env nodeID =
     thn (ensureLifecycleActiveLocked env)
    (thn (pinNamespaceFromIDLocked env nodeID)
    (bnd (reads (\<lambda>b t.
       if nodeID \<in> set (txDeletedNodes t) then Inl ErrNotFound
       else case map_of (txPendingNodes t) nodeID of
              Some node \<Rightarrow> Inr (copyNode node)
            | None \<Rightarrow> getCommittedNodeLocked env b t nodeID)) lift_result))"

definition GetEdge :: "env \<Rightarrow> string \<Rightarrow> edge step" where
  "GetEdge env edgeID =
     thn (ensureLifecycleActiveLocked env)
    (thn (pinNamespaceFromIDLocked env edgeID)
    (bnd (reads (\<lambda>b t.
       if edgeID \<in> set (txDeletedEdges t) then Inl ErrNotFound
       else case map_of (txPendingEdges t) edgeID of
              Some edge \<Rightarrow> Inr (copyEdge edge)
            | None \<Rightarrow> getCommittedEdgeLocked env b t edgeID)) lift_result))"

text \<open>The merge of committed results with the transaction's own writes. Iteration over the pending
  map is in the order of the model's list; Go's order is unspecified.\<close>

definition mergePendingNodesLocked :: "tx \<Rightarrow> node list \<Rightarrow> (node \<Rightarrow> bool) \<Rightarrow> node list" where
  "mergePendingNodesLocked t committed includePending =
     (let first = concat (map (\<lambda>node.
            if nID node \<in> set (txDeletedNodes t) then []
            else case map_of (txPendingNodes t) (nID node) of
                   Some pending \<Rightarrow> if includePending pending then [copyNode pending] else []
                 | None \<Rightarrow> if includePending node then [copyNode node] else []) committed);
          seen = map nID first
      in first @ map (copyNode \<circ> snd) (filter (\<lambda>(i, node). i \<notin> set seen \<and> includePending node)
                                     (txPendingNodes t)))"

definition mergePendingEdgesLocked :: "tx \<Rightarrow> edge list \<Rightarrow> (edge \<Rightarrow> bool) \<Rightarrow> edge list" where
  "mergePendingEdgesLocked t committed includePending =
     (let first = concat (map (\<lambda>edge.
            if eID edge \<in> set (txDeletedEdges t) then []
            else case map_of (txPendingEdges t) (eID edge) of
                   Some pending \<Rightarrow> if includePending pending then [copyEdge pending] else []
                 | None \<Rightarrow> if includePending edge then [copyEdge edge] else []) committed);
          seen = map eID first
      in first @ map (copyEdge \<circ> snd) (filter (\<lambda>(i, edge). i \<notin> set seen \<and> includePending edge)
                                     (txPendingEdges t)))"

end
