(* ===== verification/TxCommit.thy ===== *)
theory TxCommit
  imports TxOps
begin

text \<open>
  Snapshot-isolation checks, commit and rollback of a storage transaction, and a transaction's
  operations as one datatype of calls (\<^verbatim>\<open>pkg/storage/badger_transaction.go\<close>).
\<close>

section \<open>Conflict checks\<close>

definition snapshotHeadVersionConflict :: "tx \<Rightarrow> mvcc_version \<Rightarrow> nat \<Rightarrow> bool" where
  "snapshotHeadVersionConflict t version physicalVersion =
     (if snapshotIsolationConflict (txReadTS t) version then True
      else case txSnapshot t of None \<Rightarrow> False | Some d \<Rightarrow> physicalVersion > commitTs d)"

definition snapshotHeadConflict :: "engine \<Rightarrow> tx \<Rightarrow> ent \<Rightarrow> mvcc_version \<Rightarrow> bool" where
  "snapshotHeadConflict b t x version =
     (if snapshotIsolationConflict (txReadTS t) version then True
      else case txSnapshot t of
             None \<Rightarrow> False
           | Some d \<Rightarrow> (case kv_version (kv (edb b)) (HeadKey x) of
                         None \<Rightarrow> False
                       | Some physical \<Rightarrow> physical > commitTs d))"

text \<open>\<^verbatim>\<open>checkNodeCreateConflict\<close>, \<^verbatim>\<open>checkEdgeCreateConflict\<close> and \<^verbatim>\<open>checkEdgeWriteConflict\<close> are the same
  check on a node or an edge.\<close>

definition checkHeadConflict :: "ent \<Rightarrow> engine \<Rightarrow> tx \<Rightarrow> storage_error option" where
  "checkHeadConflict x b t =
     (case loadHead (edb b) x of
        Inl e \<Rightarrow> if e = ErrNotFound then None else Some e
      | Inr head \<Rightarrow> if snapshotHeadConflict b t x (Version head) then Some ErrConflict else None)"

definition checkNodeCreateConflict :: "string \<Rightarrow> engine \<Rightarrow> tx \<Rightarrow> storage_error option" where
  "checkNodeCreateConflict nodeID = checkHeadConflict (N nodeID)"

definition checkEdgeCreateConflict :: "string \<Rightarrow> engine \<Rightarrow> tx \<Rightarrow> storage_error option" where
  "checkEdgeCreateConflict edgeID = checkHeadConflict (E edgeID)"

definition checkEdgeWriteConflict :: "string \<Rightarrow> engine \<Rightarrow> tx \<Rightarrow> storage_error option" where
  "checkEdgeWriteConflict edgeID = checkHeadConflict (E edgeID)"

definition checkNodeWriteConflict :: "env \<Rightarrow> string \<Rightarrow> engine \<Rightarrow> tx \<Rightarrow> storage_error option" where
  "checkNodeWriteConflict env nodeID b t =
     (case loadNodeMVCCHead (edb b) nodeID of
        Inl e \<Rightarrow> if e = ErrNotFound then None else Some e
      | Inr head \<Rightarrow>
          if snapshotHeadConflict b t (N nodeID) (Version head) then
            if uniqueRace env b t nodeID then Some (ErrConstraintViolation nodeID) else Some ErrConflict
          else None)"

fun checkEndpoints :: "env \<Rightarrow> string list \<Rightarrow> engine \<Rightarrow> tx \<Rightarrow> storage_error option" where
  "checkEndpoints env [] b t = None"
| "checkEndpoints env (nodeID # ids) b t =
     (if map_of (txPendingNodes t) nodeID \<noteq> None then checkEndpoints env ids b t
      else case loadNodeMVCCHead (edb b) nodeID of
             Inl e \<Rightarrow>
               if e = ErrNotFound then
                 (case engineGet env b (N nodeID) of
                    Inr _ \<Rightarrow> checkEndpoints env ids b t
                  | Inl e' \<Rightarrow> if e' = ErrNotFound then Some ErrInvalidEdge else Some e')
               else Some e
           | Inr head \<Rightarrow>
               if Tombstoned head then
                 if snapshotHeadConflict b t (N nodeID) (Version head) then Some ErrConflict
                 else Some ErrInvalidEdge
               else checkEndpoints env ids b t)"

definition checkEdgeEndpointConflicts :: "env \<Rightarrow> edge option \<Rightarrow> engine \<Rightarrow> tx \<Rightarrow> storage_error option" where
  "checkEdgeEndpointConflicts env edge b t =
     (case edge of None \<Rightarrow> None | Some e \<Rightarrow> checkEndpoints env [eStartNode e, eEndNode e] b t)"

fun checkAdjacent :: "string list \<Rightarrow> engine \<Rightarrow> tx \<Rightarrow> storage_error option" where
  "checkAdjacent [] b t = None"
| "checkAdjacent (edgeID # ids) b t =
     (case loadEdgeMVCCHead (edb b) edgeID of
        Inl e \<Rightarrow> if e = ErrNotFound then checkAdjacent ids b t else Some e
      | Inr head \<Rightarrow>
          if snapshotHeadVersionConflict t (Version head)
               (case kv_version (kv (edb b)) (HeadKey (E edgeID)) of Some n \<Rightarrow> n | None \<Rightarrow> 0)
          then Some ErrConflict else checkAdjacent ids b t)"

definition checkNodeAdjacencyConflict :: "string \<Rightarrow> engine \<Rightarrow> tx \<Rightarrow> storage_error option" where
  "checkNodeAdjacencyConflict nodeID b t =
     (let view = begin_txn (edb b)
      in checkAdjacent (outgoingIDs view nodeID @ incomingIDs view nodeID) b t)"

text \<open>The first of two checks that fails.\<close>

definition orElse :: "storage_error option \<Rightarrow> storage_error option \<Rightarrow> storage_error option" where
  "orElse a c = (case a of Some e \<Rightarrow> Some e | None \<Rightarrow> c)"

definition checkOperation :: "env \<Rightarrow> engine \<Rightarrow> tx \<Rightarrow> operation \<Rightarrow> storage_error option" where
  "checkOperation env b t op =
     (case opType op of
        OpCreateNode \<Rightarrow> checkNodeCreateConflict (opNodeID op) b t
      | OpUpdateNode \<Rightarrow> checkNodeWriteConflict env (opNodeID op) b t
      | OpUpdateEmbedding \<Rightarrow> checkNodeWriteConflict env (opNodeID op) b t
      | OpDeleteNode \<Rightarrow> orElse (checkNodeWriteConflict env (opNodeID op) b t)
                               (checkNodeAdjacencyConflict (opNodeID op) b t)
      | OpCreateEdge \<Rightarrow> orElse (checkEdgeCreateConflict (opEdgeID op) b t)
                               (checkEdgeEndpointConflicts env (opEdge op) b t)
      | OpUpdateEdge \<Rightarrow> orElse (checkEdgeWriteConflict (opEdgeID op) b t)
                               (checkEdgeEndpointConflicts env (opEdge op) b t)
      | OpDeleteEdge \<Rightarrow> checkEdgeWriteConflict (opEdgeID op) b t)"

fun checkOperations :: "env \<Rightarrow> engine \<Rightarrow> tx \<Rightarrow> operation list \<Rightarrow> storage_error option" where
  "checkOperations env b t [] = None"
| "checkOperations env b t (op # ops) = orElse (checkOperation env b t op) (checkOperations env b t ops)"

definition validateSnapshotIsolationConflicts :: "env \<Rightarrow> engine \<Rightarrow> tx \<Rightarrow> storage_error option" where
  "validateSnapshotIsolationConflicts env b t = checkOperations env b t (txOperations t)"

section \<open>Commit and rollback\<close>

text \<open>An error inside \<^verbatim>\<open>Commit\<close> rolls the transaction back.\<close>

definition closing :: "'a step \<Rightarrow> 'a step" where
  "closing m = on_error m (\<lambda>e. thn (closeLocked TxStatusRolledBack None) (fail e))"

definition namespaceMVCC :: "env \<Rightarrow> engine \<Rightarrow> string \<Rightarrow> ns_state" where
  "namespaceMVCC env b namespace =
     (case map_of (mvccByNamespace b) namespace of
        Some s \<Rightarrow> s | None \<Rightarrow> recoverNamespace env (edb b) namespace)"

definition allocateStep :: "env \<Rightarrow> mvcc_version step" where
  "allocateStep env = (\<lambda>(b, t).
     case allocateMVCCVersion (namespaceMVCC env b (txNamespace t)) (now env) of
       (r, s) \<Rightarrow>
         (map_sum ErrAllocate id r,
          b\<lparr>mvccByNamespace := AList.update (txNamespace t) s (mvccByNamespace b)\<rparr>, t))"

definition materializeStep :: "mvcc_version \<Rightarrow> unit step" where
  "materializeStep version = (\<lambda>(b, t).
     case materializeMVCCCommitInTxn b (txBadger t) version (txOperations t) of
       Inl e \<Rightarrow> (Inl e, b, t)
     | Inr u \<Rightarrow> (Inr (), b, t\<lparr>txBadger := u\<rparr>))"

definition normalizeTransactionCommitError :: "storage_error \<Rightarrow> storage_error" where
  "normalizeTransactionCommitError e = (if e = ErrConflict then ErrConflict else ErrCommitFailed)"

definition kvCommitStep :: "env \<Rightarrow> unit step" where
  "kvCommitStep env = (\<lambda>(b, t).
     case kvReject env (txBadger t) (edb b) of
       Some e \<Rightarrow> (Inl (normalizeTransactionCommitError e), b, t)
     | None \<Rightarrow> (Inr (), b\<lparr>edb := db_commit (edb b) (writes (txBadger t))\<rparr>, t))"

text \<open>A commit has two phases, and peers can commit between them. The first validates, takes the
  commit version, materializes the commit into the key-value transaction and flushes the buffered
  writes into it; the second commits that transaction. \<open>Commit\<close> without a peer in between is the one
  after the other.\<close>

definition prepare :: "env \<Rightarrow> unit step" where
  "prepare env =
     thn (ensureLifecycleActiveLocked env)
    (thn (closing (check_opt (validateAllConstraints env)))
    (thn (closing (check_opt (validateSnapshotIsolationConflicts env)))
    (bnd (reads (\<lambda>_ t. txOperations t \<noteq> [] \<or> txPendingWrites t \<noteq> [] \<or> txPendingDeletes t \<noteq> []))
       (\<lambda>dirty.
     thn (if dirty
          then thn (closing (check (\<lambda>_ t. txNamespace t = []) ErrCommitNamespaceMissing))
              (bnd (closing (allocateStep env)) (\<lambda>version.
               thn (modify (\<lambda>t. t\<lparr>txCommitVersion := version\<rparr>))
                   (closing (materializeStep version))))
          else ret ())
     flushBufferedWrites))))"

definition publish :: "env \<Rightarrow> unit step" where
  "publish env = thn (closing (kvCommitStep env)) (closeLocked TxStatusCommitted None)"

definition Commit :: "env \<Rightarrow> unit step" where
  "Commit env = thn (prepare env) (publish env)"

definition Rollback :: "unit step" where
  "Rollback = (\<lambda>(b, t).
     if txStatus t \<noteq> TxStatusActive then (Inl ErrTransactionClosed, b, t)
     else closeLocked TxStatusRolledBack None (b, t))"

section \<open>Calls\<close>

datatype tx_call =
    CallSetNamespace string
  | CallSetDeferredConstraintValidation bool
  | CallSetSkipCreateExistenceCheck bool
  | CallSetImplicit bool
  | CallCreateNode node | CallUpdateNode node | CallDeleteNode string
  | CallCreateEdge edge | CallBulkCreateEdges "edge option list" | CallUpdateEdge edge | CallDeleteEdge string
  | CallGetNode string | CallGetEdge string
  | CallCommit | CallRollback

datatype tx_reply = Done | GotID string | GotNode node | GotEdge edge

definition SetDeferredConstraintValidation :: "env \<Rightarrow> bool \<Rightarrow> unit step" where
  "SetDeferredConstraintValidation env v =
     thn (ensureLifecycleActiveLocked env) (modify (\<lambda>t. t\<lparr>txDeferConstraintValidation := v\<rparr>))"

definition SetSkipCreateExistenceCheck :: "env \<Rightarrow> bool \<Rightarrow> unit step" where
  "SetSkipCreateExistenceCheck env v =
     thn (ensureLifecycleActiveLocked env) (modify (\<lambda>t. t\<lparr>txSkipCreateExistenceCheck := v\<rparr>))"

definition SetImplicit :: "env \<Rightarrow> bool \<Rightarrow> unit step" where
  "SetImplicit env v =
     thn (ensureLifecycleActiveLocked env) (modify (\<lambda>t. t\<lparr>txImplicit := v\<rparr>))"

fun run_call :: "env \<Rightarrow> tx_call \<Rightarrow> tx_reply step" where
  "run_call env (CallSetNamespace ns) = thn (SetNamespace env ns) (ret Done)"
| "run_call env (CallSetDeferredConstraintValidation v) =
     thn (SetDeferredConstraintValidation env v) (ret Done)"
| "run_call env (CallSetSkipCreateExistenceCheck v) = thn (SetSkipCreateExistenceCheck env v) (ret Done)"
| "run_call env (CallSetImplicit v) = thn (SetImplicit env v) (ret Done)"
| "run_call env (CallCreateNode n) = bnd (CreateNode env n) (\<lambda>i. ret (GotID i))"
| "run_call env (CallUpdateNode n) = thn (UpdateNode env n) (ret Done)"
| "run_call env (CallDeleteNode i) = thn (DeleteNode env i) (ret Done)"
| "run_call env (CallCreateEdge e) = thn (CreateEdge env e) (ret Done)"
| "run_call env (CallBulkCreateEdges es) = thn (BulkCreateEdges env es) (ret Done)"
| "run_call env (CallUpdateEdge e) = thn (UpdateEdge env e) (ret Done)"
| "run_call env (CallDeleteEdge i) = thn (DeleteEdge env i) (ret Done)"
| "run_call env (CallGetNode i) = bnd (GetNode env i) (\<lambda>n. ret (GotNode n))"
| "run_call env (CallGetEdge i) = bnd (GetEdge env i) (\<lambda>e. ret (GotEdge e))"
| "run_call env CallCommit = thn (Commit env) (ret Done)"
| "run_call env CallRollback = thn Rollback (ret Done)"

text \<open>The replies and the final state of a sequence of calls.\<close>

fun run_calls :: "env \<Rightarrow> tx_call list \<Rightarrow> engine \<times> tx
    \<Rightarrow> (storage_error + tx_reply) list \<times> engine \<times> tx" where
  "run_calls env [] s = ([], s)"
| "run_calls env (c # cs) s =
     (let (r, s1) = run_call env c s; (rs, s2) = run_calls env cs s1 in (r # rs, s2))"

end
