(* ===== verification/MvccHistory.thy ===== *)
theory MvccHistory
  imports MvccStore
begin

text \<open>
  The abstract store of a row: its history, the list of its commits, newest first. The relation
  \<open>represents\<close> ties the keys of the row in the concrete store to the history. A read at any version
  sees the history; materializing a commit extends it, and pruning drops its oldest entries.
\<close>

section \<open>Histories\<close>

type_synonym history = "(mvcc_version \<times> body option) list"

definition history_val :: "body option \<Rightarrow> val" where
  "history_val ob = Record (map_option archived ob) (ob = None)"

definition good_history :: "ent \<Rightarrow> history \<Rightarrow> bool" where
  "good_history x h \<longleftrightarrow> sorted_wrt (\<lambda>a b. fst b < fst a) h
     \<and> (\<forall>e \<in> set h. norm_version (fst e) \<and> (\<forall>b. snd e = Some b \<longrightarrow> body_ent b = x))"

definition represents :: "(key \<Rightarrow> val option) \<Rightarrow> ent \<Rightarrow> history \<Rightarrow> bool" where
  "represents g x h \<longleftrightarrow> good_history x h \<and>
     (case h of
        [] \<Rightarrow> g (HeadKey x) = None \<and> g (Primary x) = None \<and> (\<forall>v. g (VersionKey x v) = None)
      | (w, ob) # old \<Rightarrow>
          g (HeadKey x) = Some (Head \<lparr>Version = w, Tombstoned = (ob = None), FloorVersion = fst (last h)\<rparr>)
          \<and> g (Primary x) = map_option Body ob
          \<and> (\<forall>v. g (VersionKey x v) =
               (if v = w then (if ob = None then Some (Record None True) else None)
                else map_option history_val (map_of old v))))"

definition of_state :: "body option \<Rightarrow> storage_error + body" where
  "of_state ob = (case ob of None \<Rightarrow> Inl ErrNotFound | Some b \<Rightarrow> Inr b)"

definition history_at :: "history \<Rightarrow> mvcc_version \<Rightarrow> storage_error + body" where
  "history_at h v =
     (case h of
        [] \<Rightarrow> Inl ErrNotFound
      | (w, ob) # old \<Rightarrow>
          if w \<le> v then of_state ob
          else case find (\<lambda>e. fst e \<le> v) old of
                 None \<Rightarrow> Inl ErrNotVisibleAtSnapshot
               | Some (_, ob') \<Rightarrow> of_state (map_option archived ob'))"

lemma set_versionsOf: "set (versionsOf t x) = {v. txn_get t (VersionKey x v) \<noteq> None}"
proof -
  have "set (versionsOf t x) = {v. VersionKey x v \<in> set (txn_keys t)}"
    by (force simp: versionsOf_def split: key.splits if_splits)
  then show ?thesis by (simp add: set_txn_keys)
qed

lemma seekLast_None: "seekLast bound vs = None \<longleftrightarrow> (\<forall>v \<in> set vs. Compare v bound > 0)"
  by (induction vs) (auto split: option.splits)

lemma seekLast_Some:
  assumes "seekLast bound vs = Some u" "\<forall>v \<in> set vs. norm_version v"
  shows "u \<in> set vs \<and> Compare u bound \<le> 0 \<and> (\<forall>v \<in> set vs. Compare v bound \<le> 0 \<longrightarrow> v \<le> u)"
  using assms
proof (induction vs arbitrary: u)
  case Nil
  then show ?case by simp
next
  case (Cons w ws)
  show ?case
  proof (cases "seekLast bound ws")
    case None
    then show ?thesis using Cons.prems None seekLast_None [of bound ws] by (auto split: if_splits)
  next
    case (Some z)
    then have "norm_version z" using Cons by auto
    then show ?thesis
      using Cons Some by (fastforce simp: Compare_less split: if_splits)
  qed
qed

lemma find_sorted:
  assumes "sorted_wrt (\<lambda>a b. fst b < fst a) h"
  shows "find (\<lambda>e. fst e \<le> v) h = Some (w, ob) \<longleftrightarrow>
    map_of h w = Some ob \<and> w \<le> v \<and> (\<forall>e \<in> set h. fst e \<le> v \<longrightarrow> fst e \<le> (w :: mvcc_version))"
  using assms
proof (induction h)
  case Nil
  then show ?case by simp
next
  case (Cons a h)
  obtain u o' where a: "a = (u, o')" by fastforce
  have "map_of h u = None"
    using Cons.prems a by (auto simp: map_of_eq_None_iff)
  then show ?case
    using Cons a by (auto split: if_splits dest!: map_of_SomeD)
qed

lemma good_history_tl: "good_history x (e # h) \<Longrightarrow> good_history x h"
  by (simp add: good_history_def)

lemma good_history_last:
  "good_history x h \<Longrightarrow> h \<noteq> [] \<Longrightarrow> norm_version (fst (last h)) \<and> (\<forall>e \<in> set h. fst (last h) \<le> fst e)"
proof (induction h)
  case Nil
  then show ?case by simp
next
  case (Cons e h)
  then show ?case
    by (cases "h = []") (auto simp: good_history_def less_imp_le)
qed

lemma good_history_less: "good_history x (a # h) \<Longrightarrow> e \<in> set h \<Longrightarrow> fst e < fst a"
  by (simp add: good_history_def)

lemma map_of_good: "good_history x h \<Longrightarrow> e \<in> set h \<Longrightarrow> map_of h (fst e) = Some (snd e)"
proof (induction h)
  case Nil
  then show ?case by simp
next
  case (Cons a h)
  then show ?case
    using good_history_tl [OF Cons.prems(1)] good_history_less [OF Cons.prems(1)]
    by (cases a; cases e) fastforce
qed

lemma represents_good: "represents g x h \<Longrightarrow> good_history x h"
  by (simp add: represents_def)

lemma represents_record:
  assumes "represents g x ((w, ob) # old)" "v \<noteq> w"
  shows "g (VersionKey x v) = map_option history_val (map_of old v)"
  using assms by (simp add: represents_def)

lemma versionsOf_norm:
  assumes r: "represents (txn_get t) x h" and v: "v \<in> set (versionsOf t x)"
  shows "v \<in> fst ` set h \<and> norm_version v"
proof -
  have k: "txn_get t (VersionKey x v) \<noteq> None"
    using v by (simp add: set_versionsOf)
  have "v \<in> fst ` set h"
  proof (cases h)
    case Nil
    then show ?thesis using r k by (simp add: represents_def)
  next
    case (Cons e old)
    obtain w ob where e: "e = (w, ob)" by fastforce
    show ?thesis
    proof (cases "v = w")
      case True
      then show ?thesis using Cons e by simp
    next
      case False
      then have "map_of old v \<noteq> None"
        using represents_record [of "txn_get t" x w ob old v] r k Cons e by auto
      then show ?thesis using Cons by (auto simp: map_of_eq_None_iff)
    qed
  qed
  then show ?thesis
    using represents_good [OF r] by (auto simp: good_history_def)
qed

lemma recordOf_history_val [simp]:
  "recordOf (Some (history_val ob)) = Inr (map_option archived ob, ob = None)"
  by (simp add: recordOf_def history_val_def)

lemma loadRecordAtOrBefore_history:
  assumes r: "represents (txn_get t) x ((w, ob) # old)" and v: "norm_version v" "v < w"
  shows "loadRecordAtOrBeforeInTxn t x v =
    (case find (\<lambda>e. fst e \<le> v) old of
       None \<Rightarrow> Inl ErrNotFound
     | Some (u, ob') \<Rightarrow> Inr ((map_option archived ob', ob' = None), u))"
proof -
  have sorted: "sorted_wrt (\<lambda>a b. fst b < fst a) old"
    and less: "\<forall>e \<in> set old. fst e < w" and norm: "\<forall>e \<in> set old. norm_version (fst e)"
    using represents_good [OF r] by (auto simp: good_history_def)
  have rec: "txn_get t (VersionKey x u) = map_option history_val (map_of old u)" if "u \<noteq> w" for u
    using represents_record [OF r that] .
  have key: "u \<in> set (versionsOf t x) \<longleftrightarrow> u \<in> fst ` set old" if "u \<noteq> w" for u
    using rec [OF that] map_of_eq_None_iff [of old u]
    by (cases "map_of old u") (simp_all add: set_versionsOf)
  have nv: "\<forall>u \<in> set (versionsOf t x). norm_version u"
    using versionsOf_norm [OF r] by blast
  show ?thesis
  proof (cases "seekLast v (versionsOf t x)")
    case None
    then have "\<forall>e \<in> set old. \<not> fst e \<le> v"
    proof (intro ballI)
      fix e
      assume e: "e \<in> set old"
      then have "fst e \<noteq> w" "norm_version (fst e)" using less norm by auto
      then have "fst e \<in> set (versionsOf t x)" using key e by blast
      then have "Compare (fst e) v > 0"
        using None seekLast_None [of v "versionsOf t x"] by simp
      then show "\<not> fst e \<le> v"
        using v \<open>norm_version (fst e)\<close> by (simp add: Compare_simps not_le)
    qed
    then have "find (\<lambda>e. fst e \<le> v) old = None"
      by (force simp: find_None_iff)
    then show ?thesis using None by (simp add: loadRecordAtOrBeforeInTxn_def)
  next
    case (Some u)
    have u: "u \<in> set (versionsOf t x)" "u \<le> v"
      "\<forall>z \<in> set (versionsOf t x). z \<le> v \<longrightarrow> z \<le> u"
      using seekLast_Some [OF Some nv] nv v by (auto simp: Compare_simps)
    then have "u \<noteq> w" using v by auto
    then obtain ob' where ob': "map_of old u = Some ob'"
      using u key map_of_eq_None_iff [of old u] by (cases "map_of old u") auto
    have "fst e \<le> u" if "e \<in> set old" "fst e \<le> v" for e
      using that u(3) key [of "fst e"] less by auto
    then have "find (\<lambda>e. fst e \<le> v) old = Some (u, ob')"
      using find_sorted [OF sorted] ob' u(2) by blast
    then show ?thesis
      using Some rec [OF \<open>u \<noteq> w\<close>] ob' by (simp add: loadRecordAtOrBeforeInTxn_def)
  qed
qed

text \<open>A read at any version is the history's answer.\<close>

lemma visible_history:
  assumes r: "represents (txn_get t) x h" and v: "norm_version v"
  shows "visibleAtInTxn decayed t x v = hide_decayed decayed (history_at h v)"
proof (cases h)
  case Nil
  then show ?thesis
    using r by (simp add: represents_def visibleAtInTxn_def loadHeadInTxn_def history_at_def
        hide_decayed_def)
next
  case (Cons e old)
  obtain w ob where e: "e = (w, ob)" by fastforce
  let ?f = "fst (last ((w, ob) # old))"
  have r': "represents (txn_get t) x ((w, ob) # old)" using r Cons e by simp
  have head: "loadHeadInTxn t x = Inr \<lparr>Version = w, Tombstoned = (ob = None), FloorVersion = ?f\<rparr>"
    and prim: "readPrimary t x = of_state ob"
    using r' by (auto simp: represents_def loadHeadInTxn_def readPrimary_def nodeOf_def of_state_def
        split: option.splits)
  have norm: "norm_version w" "norm_version ?f" and fw: "?f \<le> w"
    using good_history_last [OF represents_good [OF r']] represents_good [OF r']
    by (simp_all add: good_history_def)
  show ?thesis
  proof (cases "w \<le> v")
    case True
    then have "?f \<le> v" using fw by simp
    then show ?thesis
      using head prim norm v True Cons e
      by (auto simp: visibleAtInTxn_def Compare_simps history_at_def hide_decayed_def of_state_def
          split: option.splits)
  next
    case False
    then have vw: "v < w" by simp
    show ?thesis
    proof (cases "find (\<lambda>e. fst e \<le> v) old")
      case None
      then have "\<forall>e \<in> set old. v < fst e"
        by (force simp: find_None_iff not_le)
      then have "v < ?f"
        using vw last_in_set [of old] by (cases "old = []") simp_all
      then show ?thesis
        using head norm v None Cons e False
        by (simp add: visibleAtInTxn_def Compare_simps history_at_def hide_decayed_def)
    next
      case (Some ur)
      obtain u ob' where ur: "ur = (u, ob')" by fastforce
      have old: "(u, ob') \<in> set old" "u \<le> v"
        using Some ur find_sorted [of old v u ob'] represents_good [OF r'] map_of_SomeD [of old u ob']
        by (auto simp: good_history_def)
      have fu: "?f \<le> u"
        using good_history_last [OF represents_good [OF r']] old by force
      have load: "loadRecordAtOrBeforeInTxn t x v = Inr ((map_option archived ob', ob' = None), u)"
        using loadRecordAtOrBefore_history [OF r' v vw] Some ur by simp
      have exact: "loadRecordExactInTxn t x ?f = Inr (map_option archived ob', ob' = None)"
        if "v = ?f"
      proof -
        have "u = ?f" using that fu old by simp
        moreover have "map_of old u = Some ob'"
          using map_of_good [OF good_history_tl [OF represents_good [OF r']] old(1)] by simp
        moreover have "u \<noteq> w" using old vw by auto
        ultimately show ?thesis
          using represents_record [OF r', of u] norm by (simp add: loadRecordExactInTxn_def)
      qed
      have "first = Inr (map_option archived ob', ob' = None)"
        if "first = (if v = ?f then loadRecordExactInTxn t x ?f
                     else map_sum id fst (loadRecordAtOrBeforeInTxn t x v))" for first
        using that exact load by simp
      then show ?thesis
        using head norm v vw Cons e False fu old Some ur
        by (auto simp: visibleAtInTxn_def Compare_simps history_at_def hide_decayed_def of_state_def
            Let_def exact load history_body_eq [unfolded history_body_def] split: option.splits)
    qed
  qed
qed

section \<open>Commits extend the history\<close>

text \<open>The keys of a row.\<close>

fun row_key :: "ent \<Rightarrow> key \<Rightarrow> bool" where
  "row_key x (Primary y) = (y = x)"
| "row_key x (VersionKey y v) = (y = x)"
| "row_key x (HeadKey y) = (y = x)"
| "row_key x _ = False"

lemma represents_cong:
  assumes "\<And>k. row_key x k \<Longrightarrow> g k = g' k"
  shows "represents g x h = represents g' x h"
  using assms by (simp add: represents_def split: list.splits)

lemma archived_body_ent: "body_ent (archived b) = body_ent b"
  by simp

lemma represents_archive:
  assumes r: "represents (txn_get t) x ((w, Some b) # old)"
    and m: "mustArchiveForHistory en" and b: "archived b' = archived b" "body_ent b' = x"
    and k: "row_key x k"
  shows "txn_get (archiveBodyInTxn en t x (Some b') w) k =
    (if k = VersionKey x w then Some (history_val (Some b)) else txn_get t k)"
proof -
  have "txn_get t (VersionKey x w) = None" "norm_version w"
    using r by (simp_all add: represents_def good_history_def)
  then show ?thesis
    using m b by (simp add: archiveBodyInTxn_def writeVersionInTxn_def history_val_def)
qed

lemma good_history_Cons:
  assumes "good_history x h" "norm_version v" "h \<noteq> [] \<longrightarrow> fst (hd h) < v"
    "\<forall>b. ob = Some b \<longrightarrow> body_ent b = x"
  shows "good_history x ((v, ob) # h)"
  using assms good_history_less [of x "hd h" "tl h"]
  by (cases h) (auto simp: good_history_def intro: less_trans)

text \<open>The effect of a commit on the keys of a row: the superseded body moves to its version, a
  deletion leaves a tombstone, the head advances and keeps its floor, the primary key follows.\<close>

definition extends_row ::
    "(key \<Rightarrow> val option) \<Rightarrow> (key \<Rightarrow> val option) \<Rightarrow> ent \<Rightarrow> history \<Rightarrow> mvcc_version \<Rightarrow> body option \<Rightarrow> bool" where
  "extends_row g g' x h v new \<longleftrightarrow>
     g' (HeadKey x) = Some (Head \<lparr>Version = v, Tombstoned = (new = None),
       FloorVersion = (if h = [] then v else fst (last h))\<rparr>)
     \<and> g' (Primary x) = map_option Body new
     \<and> (\<forall>u. g' (VersionKey x u) =
          (if u = v \<and> new = None then Some (Record None True)
           else if h \<noteq> [] \<and> u = fst (hd h) then Some (history_val (snd (hd h)))
           else g (VersionKey x u)))"

lemma history_val_None: "history_val None = Record None True"
  by (simp add: history_val_def)

lemma represents_extend:
  assumes r: "represents g x h" and v: "norm_version v" "h \<noteq> [] \<longrightarrow> fst (hd h) < v"
    and n: "\<forall>b. new = Some b \<longrightarrow> body_ent b = x" and e: "extends_row g g' x h v new"
  shows "represents g' x ((v, new) # h)"
proof -
  have good: "good_history x ((v, new) # h)"
    using good_history_Cons [OF represents_good [OF r] v n] .
  show ?thesis
  proof (cases h)
    case Nil
    then show ?thesis using r e good by (auto simp: represents_def extends_row_def)
  next
    case (Cons a old)
    obtain w ob where a: "a = (w, ob)" by fastforce
    have r': "represents g x ((w, ob) # old)" using r Cons a by simp
    have ne: "w \<noteq> v" using v Cons a by simp
    have "map_of ((w, ob) # old) v = None"
      using good Cons a by (fastforce simp: good_history_def map_of_eq_None_iff)
    then have "g (VersionKey x v) = None"
      using represents_record [OF r', of v] ne by (simp split: if_splits)
    then have "g' (VersionKey x u) = (if u = v then (if new = None then Some (Record None True) else None)
        else map_option history_val (map_of h u))" for u
      using e ne represents_record [OF r', of u] Cons a by (auto simp: extends_row_def)
    moreover have "g' (HeadKey x) = Some (Head \<lparr>Version = v, Tombstoned = (new = None),
        FloorVersion = fst (last ((v, new) # h))\<rparr>)" "g' (Primary x) = map_option Body new"
      using e Cons by (simp_all add: extends_row_def)
    ultimately show ?thesis
      using good unfolding represents_def by simp
  qed
qed

text \<open>The three kinds of commit on a row, as the commit loop performs them: materialize the operation,
  then write the primary key. The transaction has not touched the row before.\<close>

definition untouched :: "btxn \<Rightarrow> db \<Rightarrow> ent \<Rightarrow> bool" where
  "untouched t d x \<longleftrightarrow> (\<forall>k. row_key x k \<longrightarrow> txn_get t k = kv_get (kv d) k)"

lemma loadHead_history:
  assumes "represents (kv_get (kv d)) x h"
  shows "loadHead d x = (case h of [] \<Rightarrow> Inl ErrNotFound
    | (w, ob) # _ \<Rightarrow> Inr \<lparr>Version = w, Tombstoned = (ob = None), FloorVersion = fst (last h)\<rparr>)"
  using assms by (auto simp: loadHead_def loadHeadInTxn_def represents_def split: list.splits)

lemma normalize_norm_floor:
  "norm_version (FloorVersion head) \<Longrightarrow> normalizeMVCCHead head = head"
  using norm_version_not_zero [of "FloorVersion head"] by (simp add: normalizeMVCCHead_def)

lemma writeHead_history:
  assumes r: "represents (kv_get (kv d)) x h" and v: "norm_version v"
  shows "writeHeadInTxn d t x v tomb = Inr (txn_set t (HeadKey x)
    (Head \<lparr>Version = v, Tombstoned = tomb, FloorVersion = (if h = [] then v else fst (last h))\<rparr>))"
proof -
  have "norm_version (if h = [] then v else fst (last h))"
    using v good_history_last [OF represents_good [OF r]] by simp
  then have "normalizeMVCCHead \<lparr>Version = v, Tombstoned = tomb, FloorVersion = (if h = [] then v else fst (last h))\<rparr>
      = \<lparr>Version = v, Tombstoned = tomb, FloorVersion = (if h = [] then v else fst (last h))\<rparr>"
    by (simp add: normalize_norm_floor)
  then show ?thesis
    using loadHead_history [OF r]
    by (auto simp: writeHeadInTxn_def writeHeadWithFloorInTxn_def split: list.splits if_splits)
qed

lemma archiveOld_history:
  assumes r: "represents (kv_get (kv (edb en))) x h" and t: "untouched t (edb en) x"
    and m: "mustArchiveForHistory en" and h: "h = (w, Some b) # old"
    and b: "archived b' = archived b" "body_ent b' = x"
  shows "\<exists>t'. archiveOldInTxn en t x (Some b') = Inr t' \<and>
    (\<forall>k. row_key x k \<longrightarrow> txn_get t' k =
       (if k = VersionKey x w then Some (history_val (Some b)) else kv_get (kv (edb en)) k))"
proof -
  have "represents (txn_get t) x ((w, Some b) # old)"
    using r h t represents_cong [of x "txn_get t" "kv_get (kv (edb en))"] by (simp add: untouched_def)
  note a = represents_archive [OF this m b]
  show ?thesis
    using loadHead_history [OF r] h m a t by (auto simp: archiveOldInTxn_def untouched_def)
qed

section \<open>The frame of an operation\<close>

definition op_rows :: "operation \<Rightarrow> ent list" where
  "op_rows op = (case opType op of
     OpCreateNode \<Rightarrow> (case opNode op of None \<Rightarrow> [] | Some n \<Rightarrow> [N (nID n)])
   | OpUpdateNode \<Rightarrow> (case opNode op of None \<Rightarrow> [] | Some n \<Rightarrow> [N (nID n)])
   | OpDeleteNode \<Rightarrow> N (opNodeID op) # map E (opDeletedEdgeIDs op)
   | OpCreateEdge \<Rightarrow> (case opEdge op of None \<Rightarrow> [] | Some e \<Rightarrow> [E (eID e)])
   | OpUpdateEdge \<Rightarrow> (case opEdge op of None \<Rightarrow> [] | Some e \<Rightarrow> [E (eID e)])
   | OpDeleteEdge \<Rightarrow> [E (opEdgeID op)]
   | OpUpdateEmbedding \<Rightarrow> [])"

definition same_row :: "ent \<Rightarrow> btxn \<Rightarrow> btxn \<Rightarrow> bool" where
  "same_row x t t' \<longleftrightarrow> (\<forall>k. row_key x k \<longrightarrow> txn_get t' k = txn_get t k)"

named_theorems frame \<open>which rows an operation leaves alone\<close>

lemma same_row_refl [simp]: "same_row x t t"
  by (simp add: same_row_def)

lemma same_row_trans: "same_row x t t1 \<Longrightarrow> same_row x t1 t2 \<Longrightarrow> same_row x t t2"
  by (simp add: same_row_def)

lemma same_row_set: "\<not> row_key x k \<Longrightarrow> same_row x t (txn_set t k v)"
  by (auto simp: same_row_def)

lemma same_row_head [frame]:
  "writeHeadInTxn d t y v tomb = Inr t' \<Longrightarrow> y \<noteq> x \<Longrightarrow> same_row x t t'"
  by (auto simp: writeHeadInTxn_def writeHeadWithFloorInTxn_def same_row_set split: sum.splits if_splits)

lemma same_row_tombstone [frame, simp]: "y \<noteq> x \<Longrightarrow> same_row x t (writeTombstoneInTxn t y v)"
  by (simp add: writeTombstoneInTxn_def same_row_set)

lemma same_row_archive [frame]:
  "archiveOldInTxn en t y b = Inr t' \<Longrightarrow> y \<noteq> x \<Longrightarrow> (\<forall>c. b = Some c \<longrightarrow> body_ent c = y) \<Longrightarrow> same_row x t t'"
  by (auto simp: archiveOldInTxn_def archiveBodyInTxn_def writeVersionInTxn_def same_row_set
      split: sum.splits if_splits option.splits)

lemma same_row_adjacency [frame, simp]:
  "same_row x t (writeEdgeAdjacencyInTxn t e v tomb)"
  "same_row x t (writeEdgeAdjacencyDeltaInTxn t old new v)"
  by (auto simp: same_row_def writeEdgeAdjacencyInTxn_def writeEdgeAdjacencyDeltaInTxn_def Let_def
      split: option.splits)

lemma same_row_tombstoneEdges [frame]:
  "tombstoneEdgesInTxn d t v ids = Inr t' \<Longrightarrow> x \<notin> E ` set ids \<Longrightarrow> same_row x t t'"
proof (induction ids arbitrary: t)
  case Nil
  then show ?case by simp
next
  case (Cons i ids)
  obtain t1 t2 where
    t1: "t1 = t \<or> (\<exists>e. t1 = writeEdgeAdjacencyDeltaInTxn t (Some e) None v)" and
    t2: "writeEdgeMVCCHeadInTxn d (writeEdgeMVCCTombstoneInTxn t1 i v) i v True = Inr t2" and
    rest: "tombstoneEdgesInTxn d t2 v ids = Inr t'"
    using Cons.prems(1) by (auto split: sum.splits if_splits)
  have "same_row x t t1"
    using t1 by auto
  moreover have "same_row x t1 (writeEdgeMVCCTombstoneInTxn t1 i v)"
    using Cons.prems(2) by (auto simp: writeEdgeMVCCTombstoneInTxn_def)
  moreover have "same_row x (writeEdgeMVCCTombstoneInTxn t1 i v) t2"
    using t2 Cons.prems(2) same_row_head by (force simp: writeEdgeMVCCHeadInTxn_def)
  moreover have "same_row x t2 t'"
    using Cons.IH [OF rest] Cons.prems(2) by simp
  ultimately show ?case by (metis same_row_trans)
qed

text \<open>The old body an operation carries belongs to its row.\<close>

definition op_wf :: "operation \<Rightarrow> bool" where
  "op_wf op \<longleftrightarrow>
     (\<forall>n o'. opType op = OpUpdateNode \<longrightarrow> opNode op = Some n \<longrightarrow> opOldNode op = Some o' \<longrightarrow> nID o' = nID n)
     \<and> (\<forall>o'. opType op = OpDeleteNode \<longrightarrow> opOldNode op = Some o' \<longrightarrow> nID o' = opNodeID op)
     \<and> (\<forall>e o'. opType op = OpUpdateEdge \<longrightarrow> opEdge op = Some e \<longrightarrow> opOldEdge op = Some o' \<longrightarrow> eID o' = eID e)
     \<and> (\<forall>o'. opType op = OpDeleteEdge \<longrightarrow> opOldEdge op = Some o' \<longrightarrow> eID o' = opEdgeID op)"

lemmas store_defs = writeNodeMVCCHeadInTxn_def writeEdgeMVCCHeadInTxn_def
  writeNodeMVCCHeadForFreshCreateInTxn_def writeEdgeMVCCHeadForFreshCreateInTxn_def
  writeNodeMVCCHeadWithFloorInTxn_def writeEdgeMVCCHeadWithFloorInTxn_def
  writeHeadWithFloorInTxn_def writeNodeMVCCTombstoneInTxn_def writeEdgeMVCCTombstoneInTxn_def

lemma same_row_materializeOp [frame]:
  assumes m: "materializeOp en v op t = Inr t'" and wf: "op_wf op" and x: "x \<notin> set (op_rows op)"
  shows "same_row x t t'"
proof (cases "opType op")
  case OpCreateNode
  then show ?thesis
    using m x by (auto simp: materializeOp_def op_rows_def store_defs same_row_set
        intro: same_row_head split: option.splits if_splits)
next
  case OpUpdateNode
  show ?thesis
  proof (cases "opNode op")
    case None
    then show ?thesis using m OpUpdateNode by (simp add: materializeOp_def)
  next
    case (Some n)
    obtain t1 where t1: "archiveOldInTxn en t (N (nID n)) (map_option BN (opOldNode op)) = Inr t1"
      and t2: "writeHeadInTxn (edb en) t1 (N (nID n)) v False = Inr t'"
      using m OpUpdateNode Some by (auto simp: materializeOp_def store_defs split: sum.splits)
    have y: "N (nID n) \<noteq> x" using x OpUpdateNode Some by (auto simp: op_rows_def)
    have "same_row x t t1"
      using same_row_archive [OF t1 y] wf OpUpdateNode Some by (force simp: op_wf_def)
    then show ?thesis using same_row_head [OF t2 y] by (metis same_row_trans)
  qed
next
  case OpDeleteNode
  let ?y = "N (opNodeID op)"
  obtain t1 t2 where t1: "archiveOldInTxn en t ?y (map_option BN (opOldNode op)) = Inr t1"
    and t2: "writeHeadInTxn (edb en) (writeTombstoneInTxn t1 ?y v) ?y v True = Inr t2"
    and t3: "tombstoneEdgesInTxn (edb en) t2 v (opDeletedEdgeIDs op) = Inr t'"
    using m OpDeleteNode by (auto simp: materializeOp_def store_defs split: sum.splits)
  have y: "?y \<noteq> x" "x \<notin> E ` set (opDeletedEdgeIDs op)"
    using x OpDeleteNode by (auto simp: op_rows_def)
  have "same_row x t t1"
    using same_row_archive [OF t1 y(1)] wf OpDeleteNode by (force simp: op_wf_def)
  then show ?thesis
    using same_row_tombstone [OF y(1)] same_row_head [OF t2 y(1)] same_row_tombstoneEdges [OF t3 y(2)]
    by (metis same_row_trans)
next
  case OpCreateEdge
  then show ?thesis
    using m x same_row_trans [OF same_row_adjacency(2) same_row_head]
      same_row_trans [OF same_row_adjacency(2) same_row_set]
    by (auto simp: materializeOp_def op_rows_def store_defs Let_def split: option.splits if_splits)
next
  case OpUpdateEdge
  show ?thesis
  proof (cases "opEdge op")
    case None
    then show ?thesis using m OpUpdateEdge by (simp add: materializeOp_def)
  next
    case (Some e)
    obtain t1 t2 where t1: "t1 = t \<or> (\<exists>old. t1 = writeEdgeAdjacencyDeltaInTxn t (Some old) (Some e) v)"
      and t2: "archiveOldInTxn en t1 (E (eID e)) (map_option BE (opOldEdge op)) = Inr t2"
      and t3: "writeHeadInTxn (edb en) t2 (E (eID e)) v False = Inr t'"
      using m OpUpdateEdge Some
      by (auto simp: materializeOp_def store_defs Let_def split: sum.splits option.splits if_splits)
    have y: "E (eID e) \<noteq> x" using x OpUpdateEdge Some by (auto simp: op_rows_def)
    have "same_row x t t1" using t1 by auto
    moreover have "same_row x t1 t2"
      using same_row_archive [OF t2 y] wf OpUpdateEdge Some by (force simp: op_wf_def)
    ultimately show ?thesis using same_row_head [OF t3 y] by (metis same_row_trans)
  qed
next
  case OpDeleteEdge
  let ?y = "E (opEdgeID op)"
  obtain t1 t2 where t1: "t1 = t \<or> (\<exists>old. t1 = writeEdgeAdjacencyInTxn t old v True)"
    and t2: "archiveOldInTxn en t1 ?y (map_option BE (opOldEdge op)) = Inr t2"
    and t3: "writeHeadInTxn (edb en) (writeTombstoneInTxn t2 ?y v) ?y v True = Inr t'"
    using m OpDeleteEdge
    by (auto simp: materializeOp_def store_defs Let_def split: sum.splits option.splits)
  have y: "?y \<noteq> x" using x OpDeleteEdge by (auto simp: op_rows_def)
  have "same_row x t t1" using t1 by auto
  moreover have "same_row x t1 t2"
    using same_row_archive [OF t2 y] wf OpDeleteEdge by (force simp: op_wf_def)
  ultimately show ?thesis
    using same_row_tombstone [OF y] same_row_head [OF t3 y] by (metis same_row_trans)
next
  case OpUpdateEmbedding
  then show ?thesis using m by (simp add: materializeOp_def)
qed

lemma same_row_materialize [frame]:
  "materializeMVCCCommitInTxn en t v ops = Inr t' \<Longrightarrow> \<forall>op \<in> set ops. op_wf op \<and> x \<notin> set (op_rows op)
     \<Longrightarrow> same_row x t t'"
proof (induction ops arbitrary: t)
  case Nil
  then show ?case by simp
next
  case (Cons op ops)
  then obtain t1 where "materializeOp en v op t = Inr t1" "materializeMVCCCommitInTxn en t1 v ops = Inr t'"
    by (auto split: sum.splits)
  then show ?case
    using Cons same_row_materializeOp [of en v op t t1 x] by (auto intro: same_row_trans)
qed

lemma materialize_append:
  "materializeMVCCCommitInTxn en t v (ops @ ops') =
     (case materializeMVCCCommitInTxn en t v ops of
        Inl e \<Rightarrow> Inl e | Inr t' \<Rightarrow> materializeMVCCCommitInTxn en t' v ops')"
  by (induction ops arbitrary: t) (auto split: sum.splits)

section \<open>The main row of an operation\<close>

text \<open>The row an operation commits, its new body (\<open>None\<close> for a deletion) and its old one.\<close>

definition op_effect :: "operation \<Rightarrow> (ent \<times> body option \<times> body option) option" where
  "op_effect op = (case opType op of
     OpCreateNode \<Rightarrow> map_option (\<lambda>n. (N (nID n), Some (BN n), None)) (opNode op)
   | OpUpdateNode \<Rightarrow> map_option (\<lambda>n. (N (nID n), Some (BN n), map_option BN (opOldNode op))) (opNode op)
   | OpDeleteNode \<Rightarrow> Some (N (opNodeID op), None, map_option BN (opOldNode op))
   | OpCreateEdge \<Rightarrow> map_option (\<lambda>e. (E (eID e), Some (BE e), None)) (opEdge op)
   | OpUpdateEdge \<Rightarrow> map_option (\<lambda>e. (E (eID e), Some (BE e), map_option BE (opOldEdge op))) (opEdge op)
   | OpDeleteEdge \<Rightarrow> Some (E (opEdgeID op), None, map_option BE (opOldEdge op))
   | OpUpdateEmbedding \<Rightarrow> None)"

text \<open>The operation was issued against the newest state of its row: a creation on a row that does
  not exist or was deleted, an update or deletion on a live row whose body it carries.\<close>

definition op_on :: "history \<Rightarrow> operation \<Rightarrow> bool" where
  "op_on h op \<longleftrightarrow>
     (if opType op = OpCreateNode \<or> opType op = OpCreateEdge
      then (h = [] \<or> snd (hd h) = None) \<and> (opFreshID op \<longrightarrow> h = [])
      else \<exists>x new old b. op_effect op = Some (x, new, Some old) \<and> h \<noteq> [] \<and> snd (hd h) = Some b
             \<and> archived old = archived b)"

lemma untouched_same_row: "untouched t d x \<Longrightarrow> same_row x t t' \<Longrightarrow> untouched t' d x"
  by (simp add: untouched_def same_row_def)

lemma create_extends:
  assumes r: "represents (kv_get (kv d)) x h" and v: "norm_version v" and t: "untouched t d x"
    and h: "h = [] \<or> snd (hd h) = None" and m: "writeHeadInTxn d t x v False = Inr t'"
  shows "extends_row (kv_get (kv d)) ((txn_get t')(Primary x := Some (Body b))) x h v (Some b)"
proof -
  have "kv_get (kv d) (VersionKey x (fst (hd h))) = Some (history_val None)" if "h \<noteq> []"
    using r h that by (cases h) (auto simp: represents_def history_val_None)
  then show ?thesis
    using t h m unfolding writeHead_history [OF r v]
    by (auto simp: extends_row_def untouched_def)
qed

lemma supersede_extends:
  assumes r: "represents (kv_get (kv (edb en))) x h" and v: "norm_version v"
    and t: "untouched t (edb en) x" and m: "mustArchiveForHistory en"
    and h: "h = (w, Some b) # old" and b: "archived b' = archived b" "body_ent b' = x"
    and t1: "archiveOldInTxn en t x (Some b') = Inr t1"
    and t2: "writeHeadInTxn (edb en) (if new = None then writeTombstoneInTxn t1 x v else t1) x v
      (new = None) = Inr t2"
  shows "extends_row (kv_get (kv (edb en))) ((txn_get t2)(Primary x := map_option Body new)) x h v new"
proof -
  have g1: "txn_get t1 k =
      (if k = VersionKey x w then Some (history_val (Some b)) else kv_get (kv (edb en)) k)"
    if "row_key x k" for k
    using archiveOld_history [OF r t m h b] t1 that by auto
  show ?thesis
    using t2 h unfolding writeHead_history [OF r v]
    by (auto simp: extends_row_def g1 writeTombstoneInTxn_def v)
qed

lemma materializeOp_extends:
  assumes r: "represents (kv_get (kv (edb en))) x h" and v: "norm_version v"
    and t: "untouched t (edb en) x" and m: "mustArchiveForHistory en"
    and eff: "op_effect op = Some (x, new, old)" and on: "op_on h op" and wf: "op_wf op"
    and mat: "materializeOp en v op t = Inr t'"
  shows "extends_row (kv_get (kv (edb en))) ((txn_get t')(Primary x := map_option Body new)) x h v new"
proof (cases "opType op")
  case OpCreateNode
  then obtain n where n: "opNode op = Some n" "x = N (nID n)" "new = Some (BN n)" "old = None"
    using eff by (auto simp: op_effect_def)
  have h: "h = [] \<or> snd (hd h) = None" "opFreshID op \<longrightarrow> h = []"
    using on OpCreateNode by (auto simp: op_on_def)
  have "writeHeadInTxn (edb en) t x v False = Inr t'"
    using mat h OpCreateNode n v unfolding writeHead_history [OF r v]
    by (auto simp: materializeOp_def store_defs writeHead_history [OF r [unfolded n(2)] v]
        normalize_norm_floor split: if_splits)
  then show ?thesis using create_extends [OF r v t h(1)] n by simp
next
  case OpCreateEdge
  then obtain e where e: "opEdge op = Some e" "x = E (eID e)" "new = Some (BE e)" "old = None"
    using eff by (auto simp: op_effect_def)
  have h: "h = [] \<or> snd (hd h) = None" "opFreshID op \<longrightarrow> h = []"
    using on OpCreateEdge by (auto simp: op_on_def)
  let ?t1 = "writeEdgeAdjacencyDeltaInTxn t None (Some e) v"
  have "writeHeadInTxn (edb en) ?t1 x v False = Inr t'"
    using mat h OpCreateEdge e v unfolding writeHead_history [OF r v]
    by (auto simp: materializeOp_def store_defs writeHead_history [OF r [unfolded e(2)] v]
        normalize_norm_floor Let_def split: if_splits)
  moreover have "untouched ?t1 (edb en) x"
    using untouched_same_row [OF t same_row_adjacency(2)] .
  ultimately show ?thesis using create_extends [OF r v _ h(1)] e by simp
next
  case OpUpdateNode
  then obtain n o' where n: "opNode op = Some n" "x = N (nID n)" "new = Some (BN n)"
    "opOldNode op = Some o'" "old = Some (BN o')"
    using eff on by (auto simp: op_effect_def op_on_def)
  have o': "body_ent (BN o') = x"
    using wf n OpUpdateNode by (auto simp: op_wf_def)
  obtain b w hs where h: "h = (w, Some b) # hs" and "archived (BN o') = archived b"
    using on eff n OpUpdateNode by (cases h) (auto simp: op_on_def op_effect_def)
  note b = this(2) o'
  obtain t1 where t1: "archiveOldInTxn en t x (Some (BN o')) = Inr t1"
    and t2: "writeHeadInTxn (edb en) t1 x v False = Inr t'"
    using mat OpUpdateNode n by (auto simp: materializeOp_def store_defs split: sum.splits)
  show ?thesis
    using supersede_extends [OF r v t m h b t1, of new t'] t2 n by simp
next
  case OpDeleteNode
  then obtain o' where n: "x = N (opNodeID op)" "new = None" "opOldNode op = Some o'" "old = Some (BN o')"
    using eff on by (auto simp: op_effect_def op_on_def)
  have o': "body_ent (BN o') = x"
    using wf n OpDeleteNode by (auto simp: op_wf_def)
  obtain b w hs where h: "h = (w, Some b) # hs" and "archived (BN o') = archived b"
    using on eff n OpDeleteNode by (cases h) (auto simp: op_on_def op_effect_def)
  note b = this(2) o'
  obtain t1 t2 where t1: "archiveOldInTxn en t x (Some (BN o')) = Inr t1"
    and t2: "writeHeadInTxn (edb en) (writeTombstoneInTxn t1 x v) x v True = Inr t2"
    and t3: "tombstoneEdgesInTxn (edb en) t2 v (opDeletedEdgeIDs op) = Inr t'"
    using mat OpDeleteNode n by (auto simp: materializeOp_def store_defs split: sum.splits)
  have "same_row x t2 t'" using same_row_tombstoneEdges [OF t3] n by auto
  moreover have "extends_row (kv_get (kv (edb en))) ((txn_get t2)(Primary x := map_option Body new)) x h v new"
    using supersede_extends [OF r v t m h b t1, of new t2] t2 n by simp
  ultimately show ?thesis by (simp add: extends_row_def same_row_def)
next
  case OpUpdateEdge
  then obtain e o' where e: "opEdge op = Some e" "x = E (eID e)" "new = Some (BE e)"
    "opOldEdge op = Some o'" "old = Some (BE o')"
    using eff on by (auto simp: op_effect_def op_on_def)
  have o': "body_ent (BE o') = x"
    using wf e OpUpdateEdge by (auto simp: op_wf_def)
  obtain b w hs where h: "h = (w, Some b) # hs" and "archived (BE o') = archived b"
    using on eff e OpUpdateEdge by (cases h) (auto simp: op_on_def op_effect_def)
  note b = this(2) o'
  obtain t0 t1 where t0: "t0 = t \<or> t0 = writeEdgeAdjacencyDeltaInTxn t (Some o') (Some e) v"
    and t1: "archiveOldInTxn en t0 x (Some (BE o')) = Inr t1"
    and t2: "writeHeadInTxn (edb en) t1 x v False = Inr t'"
    using mat OpUpdateEdge e by (auto simp: materializeOp_def store_defs Let_def split: sum.splits if_splits)
  have t': "untouched t0 (edb en) x"
    using t0 t untouched_same_row [OF t same_row_adjacency(2)] by blast
  show ?thesis
    using supersede_extends [OF r v t' m h b t1, of new t'] t2 e by simp
next
  case OpDeleteEdge
  then obtain o' where e: "x = E (opEdgeID op)" "new = None" "opOldEdge op = Some o'" "old = Some (BE o')"
    using eff on by (auto simp: op_effect_def op_on_def)
  have o': "body_ent (BE o') = x"
    using wf e OpDeleteEdge by (auto simp: op_wf_def)
  obtain b w hs where h: "h = (w, Some b) # hs" and "archived (BE o') = archived b"
    using on eff e OpDeleteEdge by (cases h) (auto simp: op_on_def op_effect_def)
  note b = this(2) o'
  let ?t0 = "writeEdgeAdjacencyInTxn t o' v True"
  obtain t1 where t1: "archiveOldInTxn en ?t0 x (Some (BE o')) = Inr t1"
    and t2: "writeHeadInTxn (edb en) (writeTombstoneInTxn t1 x v) x v True = Inr t'"
    using mat OpDeleteEdge e by (auto simp: materializeOp_def store_defs Let_def split: sum.splits)
  have t': "untouched ?t0 (edb en) x"
    using untouched_same_row [OF t same_row_adjacency(1)] .
  show ?thesis
    using supersede_extends [OF r v t' m h b t1, of new t'] t2 e by simp
next
  case OpUpdateEmbedding
  then show ?thesis using eff by (simp add: op_effect_def)
qed

text \<open>A commit extends the history of every row that exactly one of its operations works on.\<close>

lemma materialize_extends:
  assumes r: "represents (kv_get (kv (edb en))) x h" and v: "norm_version v" "h \<noteq> [] \<longrightarrow> fst (hd h) < v"
    and t: "untouched t (edb en) x" and m: "mustArchiveForHistory en"
    and eff: "op_effect op = Some (x, new, old)" and on: "op_on h op"
    and wf: "\<forall>o' \<in> set (pre @ op # post). op_wf o'"
    and other: "\<forall>o' \<in> set (pre @ post). x \<notin> set (op_rows o')"
    and mat: "materializeMVCCCommitInTxn en t v (pre @ op # post) = Inr t'"
  shows "represents ((txn_get t')(Primary x := map_option Body new)) x ((v, new) # h)"
proof -
  obtain t1 t2 where t1: "materializeMVCCCommitInTxn en t v pre = Inr t1"
    and t2: "materializeOp en v op t1 = Inr t2" and t3: "materializeMVCCCommitInTxn en t2 v post = Inr t'"
    using mat by (auto simp: materialize_append split: sum.splits)
  have "untouched t1 (edb en) x"
    using untouched_same_row [OF t same_row_materialize [OF t1]] wf other by simp
  then have "extends_row (kv_get (kv (edb en))) ((txn_get t2)(Primary x := map_option Body new)) x h v new"
    using materializeOp_extends [OF r v(1) _ m eff on _ t2] wf by simp
  moreover have "same_row x t2 t'"
    using same_row_materialize [OF t3] wf other by simp
  ultimately have e: "extends_row (kv_get (kv (edb en))) ((txn_get t')(Primary x := map_option Body new)) x h v new"
    by (simp add: extends_row_def same_row_def)
  have "\<forall>b. new = Some b \<longrightarrow> body_ent b = x"
    using eff by (auto simp: op_effect_def split: op_type.splits)
  then show ?thesis using represents_extend [OF r v _ e] by simp
qed

section \<open>Pruning drops the oldest entries\<close>

definition delete_versions :: "ent \<Rightarrow> mvcc_version list \<Rightarrow> btxn \<Rightarrow> btxn" where
  "delete_versions x vs t = fold (\<lambda>v t. txn_delete t (VersionKey x v)) vs t"

lemma txn_get_delete_versions [simp]:
  "txn_get (delete_versions x vs t) k = (if k \<in> VersionKey x ` set vs then None else txn_get t k)"
  unfolding delete_versions_def by (induction vs arbitrary: t) auto

lemma delete_versions_Cons [simp]:
  "delete_versions x (v # vs) t = delete_versions x vs (txn_delete t (VersionKey x v))"
  "delete_versions x [] t = t"
  by (simp_all add: delete_versions_def)

lemma distinct_versionsOf: "distinct (versionsOf t x)"
proof -
  let ?f = "\<lambda>k. case k of VersionKey y v \<Rightarrow> if y = x then [v] else [] | _ \<Rightarrow> []"
  have "distinct ks \<Longrightarrow> distinct (concat (map ?f ks))" for ks
  proof (induction ks)
    case Nil
    then show ?case by simp
  next
    case (Cons k ks)
    have "VersionKey x v \<in> set ks" if "v \<in> set (concat (map ?f ks))" for v
      using that by (force split: key.splits if_splits)
    then show ?case using Cons by (cases k) auto
  qed
  then show ?thesis by (simp add: versionsOf_def txn_keys_def)
qed

lemma sorted_versionsOf:
  assumes r: "represents (txn_get t) x ((w, ob) # old)"
  shows "sort (versionsOf t x) = rev (map fst old) @ (if ob = None then [w] else [])"
proof -
  have good: "good_history x ((w, ob) # old)" using represents_good [OF r] .
  have "sorted_wrt (<) (rev (map fst old) @ (if ob = None then [w] else []))"
    using good by (auto simp: good_history_def sorted_wrt_append sorted_wrt_rev sorted_wrt_map)
  moreover have "set (versionsOf t x) = set (rev (map fst old) @ (if ob = None then [w] else []))"
  proof -
    have "txn_get t (VersionKey x v) \<noteq> None \<longleftrightarrow> v \<in> fst ` set old \<or> v = w \<and> ob = None" for v
    proof (cases "v = w")
      case True
      then show ?thesis
        using r good_history_less [OF good] by (auto simp: represents_def)
    next
      case False
      then show ?thesis
        using represents_record [OF r False] map_of_eq_None_iff [of old v] by (cases "map_of old v") auto
    qed
    then show ?thesis by (auto simp: set_versionsOf)
  qed
  ultimately show ?thesis
    using distinct_versionsOf [of t x]
    by (intro sorted_distinct_set_unique) (simp_all add: strict_sorted_iff)
qed

lemma pruneScan_keep:
  assumes "\<forall>j < length vs. i + int j \<ge> ret \<or> prot \<noteq> zero_time \<and> CommitTimestamp (vs ! j) > prot"
    and "\<not> IsZero f"
  shows "pruneScan x hv ret prot vs i f t n = (t, f, n)"
  using assms
proof (induction vs arbitrary: i)
  case Nil
  then show ?case by simp
next
  case (Cons v vs)
  have "\<forall>j < length vs. i + 1 + int j \<ge> ret \<or> prot \<noteq> zero_time \<and> CommitTimestamp (vs ! j) > prot"
    using Cons.prems(1) by (auto dest: spec [of _ "Suc _"] simp: algebra_simps)
  then show ?case using Cons.IH [of "i + 1"] Cons.prems by (auto simp: Let_def)
qed

lemma timestamp_mono: "v \<le> w \<Longrightarrow> CommitTimestamp v \<le> CommitTimestamp (w :: mvcc_version)"
  by (auto simp: less_eq_mvcc_version_def)

lemma pruneScan_prefix:
  assumes "sorted_wrt (<) vs" "\<forall>v \<in> set vs. norm_version v \<and> Compare v hv \<noteq> 0"
  shows "\<exists>m \<le> length vs. pruneScan x hv ret prot vs i zero_version t n =
      (delete_versions x (take m vs) t, (if m = length vs then zero_version else vs ! m), n + m)
    \<and> int m \<le> max 0 (ret - i)
    \<and> (\<forall>v \<in> set vs. prot \<noteq> zero_time \<longrightarrow> CommitTimestamp v > prot \<longrightarrow> v \<in> set (drop m vs))"
  using assms
proof (induction vs arbitrary: i t n)
  case Nil
  then show ?case by simp
next
  case (Cons v vs)
  let ?keep = "i \<ge> ret \<or> prot \<noteq> zero_time \<and> CommitTimestamp v > prot"
  show ?case
  proof (cases ?keep)
    case True
    have "\<forall>j < length vs. i + 1 + int j \<ge> ret \<or> prot \<noteq> zero_time \<and> CommitTimestamp (vs ! j) > prot"
    proof (intro allI impI)
      fix j
      assume "j < length vs"
      then have "v \<le> vs ! j" using Cons.prems(1) by (auto intro: less_imp_le)
      then show "i + 1 + int j \<ge> ret \<or> prot \<noteq> zero_time \<and> CommitTimestamp (vs ! j) > prot"
        using True timestamp_mono [of v "vs ! j"] by auto
    qed
    moreover have "\<not> IsZero v" using Cons.prems(2) norm_version_not_zero by simp
    ultimately have "pruneScan x hv ret prot vs (i + 1) v t n = (t, v, n)"
      by (rule pruneScan_keep)
    then have "pruneScan x hv ret prot (v # vs) i zero_version t n = (t, v, n)"
      using True Cons.prems(2) by auto
    then show ?thesis by (intro exI [of _ 0]) simp
  next
    case False
    then obtain m where m: "m \<le> length vs"
      "pruneScan x hv ret prot vs (i + 1) zero_version (txn_delete t (VersionKey x v)) (n + 1) =
        (delete_versions x (take m vs) (txn_delete t (VersionKey x v)),
         (if m = length vs then zero_version else vs ! m), n + 1 + m)"
      "int m \<le> max 0 (ret - (i + 1))"
      "\<forall>u \<in> set vs. prot \<noteq> zero_time \<longrightarrow> CommitTimestamp u > prot \<longrightarrow> u \<in> set (drop m vs)"
      using Cons.IH [of "i + 1" "txn_delete t (VersionKey x v)" "n + 1"] Cons.prems by auto
    show ?thesis
      using m False Cons.prems(2) by (intro exI [of _ "Suc m"]) auto
  qed
qed

lemma find_append_take:
  "find P (take k xs) = Some y \<Longrightarrow> find P xs = Some y"
proof (induction xs arbitrary: k)
  case Nil
  then show ?case by simp
next
  case (Cons a xs)
  then show ?case by (cases k) (auto split: if_splits)
qed

lemma history_at_take:
  assumes g: "good_history x h" and k: "0 < k" and v: "fst (last (take k h)) \<le> v" "h \<noteq> []"
  shows "history_at (take k h) v = history_at h v"
proof -
  obtain w ob old where h: "h = (w, ob) # old" using v by (cases h) auto
  obtain k' where k': "k = Suc k'" using k by (cases k) auto
  show ?thesis
  proof (cases "w \<le> v")
    case True
    then show ?thesis using h k' by (simp add: history_at_def)
  next
    case False
    then have ne: "take k' old \<noteq> []" using v h k' by (cases "take k' old = []") auto
    then have "last (take k' old) \<in> set (take k' old)" by simp
    moreover have "fst (last (take k' old)) \<le> v" using v h k' ne by simp
    ultimately have "find (\<lambda>e. fst e \<le> v) (take k' old) \<noteq> None"
      unfolding find_None_iff by blast
    then have "find (\<lambda>e. fst e \<le> v) old = find (\<lambda>e. fst e \<le> v) (take k' old)"
      using find_append_take by fastforce
    then show ?thesis using h k' by (simp add: history_at_def)
  qed
qed

lemma represents_prune:
  assumes r: "represents (txn_get t) x ((w, ob) # old)" and m: "m \<le> length old"
    and f: "f = (if m = length old then w else fst (rev old ! m))"
  shows "represents (txn_get (writeHeadWithFloorInTxn (delete_versions x (take m (rev (map fst old))) t)
      x w (ob = None) f)) x (take (Suc (length old - m)) ((w, ob) # old))"
proof -
  let ?k = "length old - m"
  have good: "good_history x ((w, ob) # old)" using represents_good [OF r] .
  have good': "good_history x ((w, ob) # take ?k old)"
    using good by (auto simp: good_history_def sorted_wrt_take dest: in_set_takeD)
  have last: "fst (last ((w, ob) # take ?k old)) = f"
  proof (cases "m = length old")
    case True
    then show ?thesis using f by simp
  next
    case False
    then have "take ?k old \<noteq> []" using m by auto
    then have "last (take ?k old) = old ! (?k - 1)" "rev old ! m = old ! (?k - 1)"
      using m False by (simp_all add: last_conv_nth rev_nth)
    then show ?thesis using f False m by auto
  qed
  then have nf: "norm_version f"
    using good_history_last [OF good'] by simp
  have del: "v \<in> set (take m (rev (map fst old))) \<longleftrightarrow> v \<in> fst ` set (drop ?k old)" for v
    by (simp add: take_rev drop_map take_map flip: set_map)
  have dj: "map_of (take ?k old) v = None" if "v \<in> fst ` set (drop ?k old)" for v
  proof -
    have "sorted_wrt (\<lambda>a b. fst b < fst a) (take ?k old @ drop ?k old)"
      using good by (simp add: good_history_def)
    then show ?thesis
      using that unfolding sorted_wrt_append map_of_eq_None_iff by fastforce
  qed
  have keep: "map_of (take ?k old) v = map_of old v" if "v \<notin> fst ` set (drop ?k old)" for v
  proof -
    have "map_of (take ?k old @ drop ?k old) v = map_of (take ?k old) v"
    proof -
      have "map_of (drop ?k old) v = None"
        using that by (simp add: map_of_eq_None_iff)
      then show ?thesis unfolding map_of_append map_add_def by (simp split: option.splits)
    qed
    then show ?thesis by simp
  qed
  have w: "w \<notin> fst ` set (drop ?k old)"
    using good_history_less [OF good] by (auto dest: in_set_dropD)
  let ?t = "writeHeadWithFloorInTxn (delete_versions x (take m (rev (map fst old))) t) x w (ob = None) f"
  have "txn_get ?t (VersionKey x v) = (if v = w then (if ob = None then Some (Record None True) else None)
      else map_option history_val (map_of (take ?k old) v))" for v
    using r w dj [of v] keep [of v] del [of v] represents_record [OF r, of v]
    by (auto simp: writeHeadWithFloorInTxn_def represents_def)
  moreover have "txn_get ?t (HeadKey x) = Some (Head \<lparr>Version = w, Tombstoned = (ob = None), FloorVersion = f\<rparr>)"
    "txn_get ?t (Primary x) = map_option Body ob"
    using r nf by (auto simp: writeHeadWithFloorInTxn_def represents_def normalize_norm_floor)
  ultimately show ?thesis
    using good' last by (simp add: represents_def)
qed

lemma fold_delete: "fold (\<lambda>v t. txn_delete t (VersionKey x v)) vs t = delete_versions x vs t"
  by (simp add: delete_versions_def)

lemma represents_reclaim:
  assumes r: "represents (txn_get t) x ((w, None) # old)" and vs: "set vs = insert w (fst ` set old)"
  shows "represents (txn_get (txn_delete (delete_versions x vs t) (HeadKey x))) x []"
proof -
  have "txn_get t (VersionKey x v) = None" if "v \<notin> set vs" for v
    using that vs represents_record [OF r, of v] by (auto simp: map_of_eq_None_iff)
  then have "txn_get (delete_versions x vs t) (VersionKey x v) = None" for v
    by auto
  moreover have "txn_get t (Primary x) = None"
    using r by (simp add: represents_def)
  ultimately show ?thesis
    by (simp add: represents_def good_history_def)
qed

lemma delete_versions_append: "delete_versions x (vs @ ws) t = delete_versions x ws (delete_versions x vs t)"
  by (simp add: delete_versions_def)

text \<open>Pruning a row keeps a prefix of its history: nothing, when a deleted row is reclaimed; else
  at least the newest entry and as many older ones as the options ask for, and every entry younger
  than the protected age.\<close>

lemma pruneGroup_represents:
  assumes r: "represents (txn_get t) x h"
    and p: "pruneGroupInTxn opts prot active x t = Inr (t', n)"
  shows "\<exists>k. represents (txn_get t') x (take k h)
    \<and> (k = 0 \<longrightarrow> h \<noteq> [] \<longrightarrow> snd (hd h) = None \<and> \<not> active \<and> prot = zero_time \<and> pMaxVersionsPerKey opts \<le> 0)
    \<and> (h \<noteq> [] \<longrightarrow> snd (hd h) \<noteq> None \<longrightarrow>
         min (length h) (Suc (nat (pMaxVersionsPerKey opts))) \<le> k
         \<and> (\<forall>e \<in> set h. prot \<noteq> zero_time \<longrightarrow> CommitTimestamp (fst e) > prot \<longrightarrow> e \<in> set (take k h)))"
proof (cases h)
  case Nil
  then have "versionsOf t x = []"
    using r set_versionsOf [of t x] by (auto simp: represents_def)
  then have "t' = t" using p by (simp add: pruneGroupInTxn_def groupOf_def)
  then show ?thesis using r Nil by (intro exI [of _ 0]) simp
next
  case (Cons e old)
  obtain w ob where e: "e = (w, ob)" by fastforce
  have r': "represents (txn_get t) x ((w, ob) # old)" using r Cons e by simp
  have good: "good_history x ((w, ob) # old)" using represents_good [OF r'] .
  have head: "loadHeadInTxn t x = Inr \<lparr>Version = w, Tombstoned = (ob = None), FloorVersion = fst (last ((w, ob) # old))\<rparr>"
    using r' by (simp add: represents_def loadHeadInTxn_def)
  let ?vs = "rev (map fst old)"
  have vs: "map fst (groupOf t x) = ?vs @ (if ob = None then [w] else [])"
    using sorted_versionsOf [OF r'] by (simp add: groupOf_def comp_def)
  have norm: "norm_version w" "\<forall>v \<in> set ?vs. norm_version v \<and> v \<noteq> w"
    using good by (auto simp: good_history_def)
  then have cmp: "Compare w w = 0" "\<forall>v \<in> set ?vs. Compare v w \<noteq> 0"
    by (auto simp: Compare_simps)
  have fl: "filter (\<lambda>v. Compare v w \<noteq> 0) ?vs = ?vs" "filter (\<lambda>v. Compare v w = 0) ?vs = []"
    using cmp(2) by (simp_all add: filter_id_conv filter_empty_conv)
  show ?thesis
  proof (cases "groupOf t x = []")
    case True
    then have "t' = t" using p by (simp add: pruneGroupInTxn_def)
    then show ?thesis using r Cons by (intro exI [of _ "length h"]) simp
  next
    case False
    let ?res = "\<lambda>k. represents (txn_get t') x (take k h)"
    show ?thesis
    proof (cases "ob = None \<and> \<not> active \<and> prot = zero_time")
      case True
      show ?thesis
      proof (cases "pMaxVersionsPerKey opts \<le> 0")
        case max: True
        have "t' = txn_delete (delete_versions x (?vs @ [w]) t) (HeadKey x)"
          using p False True max head vs fl cmp(1)
          by (simp add: pruneGroupInTxn_def flushGroup_def Let_def delete_versions_append fold_delete)
        then have "?res 0"
          using represents_reclaim [of t x w old "?vs @ [w]"] r' True by simp
        then show ?thesis using True max Cons e by (intro exI [of _ 0]) simp
      next
        case max: False
        have "t' = writeHeadWithFloorInTxn (delete_versions x ?vs t) x w True w"
          using p False True max head vs fl cmp(1)
          by (simp add: pruneGroupInTxn_def flushGroup_def Let_def fold_delete)
        then have "?res 1"
          using represents_prune [OF r', of "length old" w] True Cons e by simp
        then show ?thesis using True Cons e by (intro exI [of _ 1]) simp
      qed
    next
      case other: False
      show ?thesis
      proof (cases "ob = None \<and> old = []")
        case True
        then have "t' = writeHeadWithFloorInTxn t x w True w"
          using p False other head vs cmp(1) arg_cong [OF vs, of length]
          by (auto simp: pruneGroupInTxn_def flushGroup_def Let_def)
        then have "?res 1"
          using represents_prune [OF r', of 0 w] True Cons e by simp
        then show ?thesis using True Cons e by (intro exI [of _ 1]) simp
      next
        case more: False
        let ?ret = "max 0 (int (length old) - pMaxVersionsPerKey opts)"
        have sorted: "sorted_wrt (<) ?vs"
          using good by (auto simp: good_history_def sorted_wrt_rev sorted_wrt_map)
        have pre: "\<forall>v \<in> set ?vs. norm_version v \<and> Compare v w \<noteq> 0"
          using norm cmp by blast
        obtain m where m: "m \<le> length old"
          "pruneScan x w ?ret prot ?vs 0 zero_version t 0 =
             (delete_versions x (take m ?vs) t, (if m = length old then zero_version else ?vs ! m), m)"
          "int m \<le> max 0 ?ret"
          "\<forall>v \<in> set ?vs. prot \<noteq> zero_time \<longrightarrow> CommitTimestamp v > prot \<longrightarrow> v \<in> set (drop m ?vs)"
          using pruneScan_prefix [OF sorted pre, of x ?ret prot 0 t 0] by auto
        let ?f = "if m = length old then w else fst (rev old ! m)"
        have len: "length (groupOf t x) = length old + (if ob = None then 1 else 0)"
          using arg_cong [OF vs, of length] by simp
        have nz: "m \<noteq> length old \<Longrightarrow> \<not> IsZero (?vs ! m)"
          using m(1) pre norm_version_not_zero by (metis le_neq_implies_less length_map length_rev nth_mem)
        have "t' = writeHeadWithFloorInTxn (delete_versions x (take m ?vs) t) x w (ob = None) ?f"
          using p False other more head vs cmp m(1,2) len nz
          by (auto simp: pruneGroupInTxn_def flushGroup_def Let_def rev_map split: if_splits)
        then have rep: "?res (Suc (length old - m))"
          using represents_prune [OF r' m(1), of ?f] Cons e by simp
        have young: "e' \<in> set (take (Suc (length old - m)) h)"
          if e': "e' \<in> set h" "prot \<noteq> zero_time" "CommitTimestamp (fst e') > prot" for e'
        proof (cases "e' \<in> set old")
          case True
          then have "fst e' \<in> fst ` set (take (length old - m) old)"
            using m(4) e' by (auto simp: drop_rev take_map)
          then obtain e'' where "e'' \<in> set (take (length old - m) old)" "fst e'' = fst e'" by auto
          moreover have "e'' = e'"
            using calculation True map_of_good [OF good_history_tl [OF good]] 
            by (metis in_set_takeD option.inject prod_eqI)
          ultimately show ?thesis using Cons by simp
        next
          case False
          then show ?thesis using e' Cons by simp
        qed
        have "min (length h) (Suc (nat (pMaxVersionsPerKey opts))) \<le> Suc (length old - m)"
          using m(1,3) Cons by (auto simp: min_def max_def split: if_splits)
        then show ?thesis using rep young by blast
      qed
    qed
  qed
qed

text \<open>Pruning one row leaves the others alone.\<close>

lemma pruneScan_frame:
  "pruneScan x hv ret prot vs i f t n = (t', f', n') \<Longrightarrow> y \<noteq> x \<Longrightarrow> same_row y t t'"
proof (induction vs arbitrary: i f t n)
  case Nil
  then show ?case by simp
next
  case (Cons v vs)
  have "same_row y t (txn_delete t (VersionKey x v))"
    using Cons.prems(2) by (auto simp: same_row_def)
  then show ?case
    using Cons same_row_trans [of y t "txn_delete t (VersionKey x v)" t']
    by (auto simp: Let_def split: if_splits)
qed

lemma same_row_delete_versions [simp]: "y \<noteq> x \<Longrightarrow> same_row y t (delete_versions x vs t)"
  by (auto simp: same_row_def)

lemma row_key_other: "row_key y k \<Longrightarrow> y \<noteq> x \<Longrightarrow> k \<noteq> HeadKey x"
  by auto

lemma same_row_writeHead:
  "y \<noteq> x \<Longrightarrow> same_row y t t' \<Longrightarrow> same_row y t (writeHeadWithFloorInTxn t' x v tomb f)"
  using row_key_other [of y _ x] by (simp add: same_row_def writeHeadWithFloorInTxn_def)

lemma same_row_del_head: "y \<noteq> x \<Longrightarrow> same_row y t t' \<Longrightarrow> same_row y t (txn_delete t' (HeadKey x))"
  using row_key_other [of y _ x] by (simp add: same_row_def)

lemma flushGroup_frame:
  assumes y: "y \<noteq> x"
  shows "same_row y t (fst (flushGroup opts prot active x head vs t))"
proof -
  have scan: "same_row y t (fst (pruneScan x hv ret prot us 0 zero_version t 0))" for hv ret us
    using pruneScan_frame [OF _ y] by (metis prod.collapse)
  show ?thesis
  proof (cases "Tombstoned head \<and> \<not> active \<and> prot = zero_time")
    case True
    then show ?thesis
      using y by (simp add: flushGroup_def Let_def fold_delete same_row_writeHead same_row_del_head
          flip: delete_versions_append)
  next
    case False
    then show ?thesis
      using y scan by (auto simp: flushGroup_def Let_def case_prod_unfold intro!: same_row_writeHead)
  qed
qed

lemma pruneGroup_frame [frame]:
  "pruneGroupInTxn opts prot active x t = Inr (t', n) \<Longrightarrow> y \<noteq> x \<Longrightarrow> same_row y t t'"
  using flushGroup_frame [of y x t opts prot active]
  by (auto simp: pruneGroupInTxn_def Let_def split: sum.splits if_splits) (metis fst_conv)+

section \<open>Properties\<close>

text \<open>A small state for the examples: one node, created at version (10, 1), updated at (20, 2) and,
  in the second state, deleted at (30, 3).\<close>

definition demo_node :: "string \<Rightarrow> string list \<Rightarrow> node" where
  "demo_node i ls = \<lparr>nID = i, nLabels = ls, nProperties = None, nCreatedAt = 0, nUpdatedAt = 0,
     nNamedEmbeddings = None, nChunkEmbeddings = [], nEmbedMeta = None,
     nEmbeddingsStoredSeparately = False, nVisibilitySuppressed = False\<rparr>"

definition demo_kv :: kv where
  "demo_kv = [(Primary (N ''a:1''), 2, Body (BN (demo_node ''a:1'' [''B'']))),
     (HeadKey (N ''a:1''), 2, Head \<lparr>Version = MVCCVersion 20 2, Tombstoned = False, FloorVersion = MVCCVersion 10 1\<rparr>),
     (VersionKey (N ''a:1'') (MVCCVersion 10 1), 2, Record (Some (BN (demo_node ''a:1'' [''A'']))) False)]"

definition demo_engine :: engine where
  "demo_engine = \<lparr>edb = \<lparr>kv = demo_kv, commitTs = 2\<rparr>,
     retentionPolicy = \<lparr>MaxVersionsPerKey = 5, TTL = 0\<rparr>, activeReaders = 0, lifecycleEnabled = False,
     mvccByNamespace = [], engineClosed = False\<rparr>"

definition demo_history :: history where
  "demo_history = [(MVCCVersion 20 2, Some (BN (demo_node ''a:1'' [''B'']))),
                   (MVCCVersion 10 1, Some (BN (demo_node ''a:1'' [''A''])))]"

lemma snapshot_demo [simp]: "mvccSnapshotNode (demo_node i ls) = demo_node i ls"
  by (simp add: mvccSnapshotNode_def copyNode_def demo_node_def)

lemma nID_demo [simp]: "nID (demo_node i ls) = i"
  by (simp add: demo_node_def)

lemma represents_demo: "represents (kv_get demo_kv) (N ''a:1'') demo_history"
  by (auto simp: represents_def good_history_def demo_history_def demo_kv_def kv_get_def
      norm_version_def in_nano_range_def less_mvcc_version_def history_val_def)

text \<open>
  Claim C10. A read at any version gives the state of the row at that version: the newest commit at or
  before it, hidden when the knowledge policy hides it, \<^verbatim>\<open>ErrNotFound\<close> for a deletion, and
  \<^verbatim>\<open>ErrNotVisibleAtSnapshot\<close> below the floor.
\<close>

theorem visibleAt_history:
  assumes "represents (txn_get t) x h" "norm_version v"
  shows "visibleAtInTxn decayed t x v = hide_decayed decayed (history_at h v)"
  using assms by (rule visible_history)

theorem visibleAt_history_witness:
  "visibleAtInTxn (\<lambda>_. False) (begin_txn (edb demo_engine)) (N ''a:1'') (MVCCVersion 15 1)
   = Inr (BN (demo_node ''a:1'' [''A'']))"
proof -
  have "represents (txn_get (begin_txn (edb demo_engine))) (N ''a:1'') demo_history"
    using represents_demo by (simp add: demo_engine_def fun_eq_iff cong: represents_cong)
  from visibleAt_history [OF this, of "MVCCVersion 15 1" "\<lambda>_. False"] show ?thesis
    by (simp add: norm_version_def in_nano_range_def history_at_def demo_history_def hide_decayed_def
        of_state_def less_eq_mvcc_version_def)
qed

text \<open>
  Claim C16. Materializing a commit and writing the primary key appends the operation to the history
  of its row, when superseded bodies are archived and the transaction was issued against the newest
  state of the row. With the previous claim: every version ever committed stays readable.
\<close>

theorem commit_extends_history:
  assumes "represents (kv_get (kv (edb en))) x h" "norm_version v" "h \<noteq> [] \<longrightarrow> fst (hd h) < v"
    and "untouched t (edb en) x" "mustArchiveForHistory en"
    and "op_effect op = Some (x, new, old)" "op_on h op"
    and "\<forall>o' \<in> set (pre @ op # post). op_wf o'" "\<forall>o' \<in> set (pre @ post). x \<notin> set (op_rows o')"
    and "materializeMVCCCommitInTxn en t v (pre @ op # post) = Inr t'" and "base t' = kv (edb en)"
  shows "represents (kv_get (kv (db_commit (edb en)
      (writes (case new of None \<Rightarrow> txn_delete t' (Primary x) | Some b \<Rightarrow> txn_set t' (Primary x) (Body b))))))
      x ((v, new) # h)"
proof -
  let ?t = "case new of None \<Rightarrow> txn_delete t' (Primary x) | Some b \<Rightarrow> txn_set t' (Primary x) (Body b)"
  have "base ?t = kv (edb en)" using assms(11) by (simp split: option.splits)
  moreover have "txn_get ?t k = ((txn_get t')(Primary x := map_option Body new)) k" for k
    by (simp split: option.splits)
  ultimately have "kv_get (kv (db_commit (edb en) (writes ?t))) k
      = ((txn_get t')(Primary x := map_option Body new)) k" for k
    by (simp add: commit_unchanged)
  then show ?thesis
    using materialize_extends [OF assms(1-10)] by (simp cong: represents_cong)
qed

theorem commit_extends_history_witness:
  "\<exists>t'. materializeMVCCCommitInTxn demo_engine (begin_txn (edb demo_engine)) (MVCCVersion 30 3)
      [(no_op OpDeleteNode)\<lparr>opNodeID := ''a:1'', opOldNode := Some (demo_node ''a:1'' [''B''])\<rparr>] = Inr t'
    \<and> represents (kv_get (kv (db_commit (edb demo_engine) (writes (txn_delete t' (Primary (N ''a:1'')))))))
        (N ''a:1'') ((MVCCVersion 30 3, None) # demo_history)"
proof -
  let ?op = "(no_op OpDeleteNode)\<lparr>opNodeID := ''a:1'', opOldNode := Some (demo_node ''a:1'' [''B''])\<rparr>"
  let ?t = "begin_txn (edb demo_engine)"
  have r: "represents (kv_get (kv (edb demo_engine))) (N ''a:1'') demo_history"
    using represents_demo by (simp add: demo_engine_def)
  have v: "norm_version (MVCCVersion 30 3)" "demo_history \<noteq> [] \<longrightarrow> fst (hd demo_history) < MVCCVersion 30 3"
    by (simp_all add: norm_version_def in_nano_range_def demo_history_def less_mvcc_version_def)
  have u: "untouched ?t (edb demo_engine) (N ''a:1'')" by (simp add: untouched_def)
  have m: "mustArchiveForHistory demo_engine" by code_simp
  have eff: "op_effect ?op = Some (N ''a:1'', None, Some (BN (demo_node ''a:1'' [''B''])))"
    "op_on demo_history ?op"
    by (simp_all add: op_effect_def no_op_def op_on_def demo_history_def)
  have wf: "\<forall>o' \<in> set ([] @ ?op # []). op_wf o'" "\<forall>o' \<in> set ([] @ []). N ''a:1'' \<notin> set (op_rows o')"
    by (simp_all add: op_wf_def no_op_def)
  obtain t' where t': "materializeMVCCCommitInTxn demo_engine ?t (MVCCVersion 30 3) ([] @ ?op # []) = Inr t'"
      "base t' = kv (edb demo_engine)"
    using m archiveOld_history [OF r u m, of "MVCCVersion 20 2" "BN (demo_node ''a:1'' [''B''])"]
    by (simp add: materializeOp_def no_op_def store_defs archiveOldInTxn_def archiveBodyInTxn_def
        writeHead_history [OF r v(1)] loadHead_history [OF r] writeTombstoneInTxn_def demo_history_def
        writeVersionInTxn_def begin_txn_def)
  show ?thesis
    using commit_extends_history [OF r v u m eff wf t'] t' by simp
qed

text \<open>
  Claim C17. Pruning a row keeps every read at or above the floor it leaves. It keeps the newest
  version of a live row, as many older ones as the options ask for and every one younger than the
  protected age; it reclaims a row only when the row is deleted, no reader is registered, no age is
  protected and no history is to be kept.
\<close>

theorem prune_keeps_reads:
  assumes "represents (txn_get t) x h" "pruneGroupInTxn opts prot active x t = Inr (t', n)"
  shows "\<exists>k. represents (txn_get t') x (take k h)
    \<and> (\<forall>v. norm_version v \<longrightarrow> take k h \<noteq> [] \<longrightarrow> fst (last (take k h)) \<le> v \<longrightarrow>
         visibleAtInTxn decayed t' x v = visibleAtInTxn decayed t x v)
    \<and> (k = 0 \<longrightarrow> h \<noteq> [] \<longrightarrow> snd (hd h) = None \<and> \<not> active \<and> prot = zero_time \<and> pMaxVersionsPerKey opts \<le> 0)
    \<and> (h \<noteq> [] \<longrightarrow> snd (hd h) \<noteq> None \<longrightarrow>
         min (length h) (Suc (nat (pMaxVersionsPerKey opts))) \<le> k
         \<and> (\<forall>e \<in> set h. prot \<noteq> zero_time \<longrightarrow> CommitTimestamp (fst e) > prot \<longrightarrow> e \<in> set (take k h)))"
proof -
  obtain k where k: "represents (txn_get t') x (take k h)"
    and rest: "(k = 0 \<longrightarrow> h \<noteq> [] \<longrightarrow> snd (hd h) = None \<and> \<not> active \<and> prot = zero_time \<and> pMaxVersionsPerKey opts \<le> 0)
    \<and> (h \<noteq> [] \<longrightarrow> snd (hd h) \<noteq> None \<longrightarrow>
         min (length h) (Suc (nat (pMaxVersionsPerKey opts))) \<le> k
         \<and> (\<forall>e \<in> set h. prot \<noteq> zero_time \<longrightarrow> CommitTimestamp (fst e) > prot \<longrightarrow> e \<in> set (take k h)))"
    using pruneGroup_represents [OF assms] by blast
  have "visibleAtInTxn decayed t' x v = visibleAtInTxn decayed t x v"
    if "norm_version v" "take k h \<noteq> []" "fst (last (take k h)) \<le> v" for v
    using that history_at_take [OF represents_good [OF assms(1)], of k v]
      visible_history [OF k] visible_history [OF assms(1)] by (cases k) auto
  then show ?thesis using k rest by blast
qed

theorem prune_keeps_reads_witness:
  "\<exists>t' n k. pruneGroupInTxn \<lparr>pMaxVersionsPerKey = 0, pMinRetentionAge = 0\<rparr> zero_time False (N ''a:1'')
      (begin_txn (edb demo_engine)) = Inr (t', n) \<and> n = 1 \<and> k > 0
    \<and> represents (txn_get t') (N ''a:1'') (take k demo_history)"
proof -
  let ?t = "begin_txn (edb demo_engine)"
  let ?o = "\<lparr>pMaxVersionsPerKey = 0, pMinRetentionAge = 0\<rparr>"
  have r: "represents (txn_get ?t) (N ''a:1'') demo_history"
    using represents_demo by (simp add: demo_engine_def fun_eq_iff cong: represents_cong)
  have "map_sum id snd (pruneGroupInTxn ?o zero_time False (N ''a:1'') ?t) = Inr 1"
    by code_simp
  then obtain t' where t': "pruneGroupInTxn ?o zero_time False (N ''a:1'') ?t = Inr (t', 1)"
    by (cases "pruneGroupInTxn ?o zero_time False (N ''a:1'') ?t") auto
  obtain k where "represents (txn_get t') (N ''a:1'') (take k demo_history)" "k > 0"
    using prune_keeps_reads [OF r t', of "\<lambda>_. False"] by (auto simp: demo_history_def)
  then show ?thesis using t' by blast
qed

end
