(* ===== verification/TxHoare.thy ===== *)
theory TxHoare
  imports TxCommit MvccHistory
begin

text \<open>
  Triples over transaction steps: \<open>hoare P m Q R\<close> says that from a state in \<open>P\<close> the step ends in
  \<open>Q\<close> with a value or in \<open>R\<close> with an error, with one rule per combinator, collected in
  \<open>hoare_rules\<close>. Three locales then state what an invariant must be insensitive to (the write
  buffers; readers and closing; everything but the status and the snapshot) and show that the steps
  and the calls of a transaction keep it. Each invariant of the library is an interpretation.
\<close>

definition hoare :: "(engine \<times> tx \<Rightarrow> bool) \<Rightarrow> 'a step \<Rightarrow> ('a \<Rightarrow> engine \<times> tx \<Rightarrow> bool)
    \<Rightarrow> (storage_error \<Rightarrow> engine \<times> tx \<Rightarrow> bool) \<Rightarrow> bool" where
  "hoare P m Q R \<longleftrightarrow>
     (\<forall>s. P s \<longrightarrow> (case m s of (Inr x, s') \<Rightarrow> Q x s' | (Inl e, s') \<Rightarrow> R e s'))"

definition pres :: "(engine \<times> tx \<Rightarrow> bool) \<Rightarrow> 'a step \<Rightarrow> bool" where
  "pres I m \<longleftrightarrow> hoare I m (\<lambda>_. I) (\<lambda>_. I)"

named_theorems hoare_rules \<open>one rule per combinator of steps\<close>

lemma hoareD_Inr: "hoare P m Q R \<Longrightarrow> P s \<Longrightarrow> m s = (Inr x, s') \<Longrightarrow> Q x s'"
  unfolding hoare_def by (drule spec [of _ s]) simp

lemma hoareD_Inl: "hoare P m Q R \<Longrightarrow> P s \<Longrightarrow> m s = (Inl e, s') \<Longrightarrow> R e s'"
  unfolding hoare_def by (drule spec [of _ s]) simp

lemma pres_iff: "pres I m \<longleftrightarrow> (\<forall>s. I s \<longrightarrow> I (snd (m s)))"
  unfolding pres_def hoare_def
  by (intro all_cong1 imp_cong refl) (auto split: prod.splits sum.splits)

lemma presD: "pres I m \<Longrightarrow> I s \<Longrightarrow> I (snd (m s))"
  unfolding pres_iff by blast

lemma hoare_bnd:
  "hoare P m Q R \<Longrightarrow> (\<And>x. hoare (Q x) (f x) S R) \<Longrightarrow> hoare P (bnd m f) S R"
  unfolding hoare_def bnd_def by (fastforce split: prod.splits sum.splits)

lemma hoare_thn: "hoare P m (\<lambda>_. Q) R \<Longrightarrow> hoare Q k S R \<Longrightarrow> hoare P (thn m k) S R"
  unfolding thn_def by (rule hoare_bnd)

lemma pres_ret [hoare_rules]: "pres I (ret x)" by (simp add: pres_iff ret_def)
lemma pres_fail [hoare_rules]: "pres I (fail e)" by (simp add: pres_iff fail_def)
lemma pres_reads [hoare_rules]: "pres I (reads f)" by (auto simp: pres_iff reads_def)
lemma pres_check [hoare_rules]: "pres I (check c e)" by (auto simp: pres_iff check_def)
lemma pres_check_opt [hoare_rules]: "pres I (check_opt f)"
  by (auto simp: pres_iff check_opt_def split: option.splits)

lemma pres_bnd [hoare_rules]: "pres I m \<Longrightarrow> (\<And>x. pres I (f x)) \<Longrightarrow> pres I (bnd m f)"
  unfolding pres_def by (rule hoare_bnd)

lemma pres_thn [hoare_rules]: "pres I m \<Longrightarrow> pres I k \<Longrightarrow> pres I (thn m k)"
  unfolding thn_def by (rule pres_bnd)

lemma pres_lift [hoare_rules]: "pres I (lift_result r)"
  by (cases r) (auto simp: lift_result_def intro: hoare_rules)

lemma pres_on_error [hoare_rules]: "pres I m \<Longrightarrow> (\<And>e. pres I (h e)) \<Longrightarrow> pres I (on_error m h)"
  by (auto simp: pres_iff on_error_def split: prod.splits sum.splits) (metis snd_conv)+

lemma pres_for_each [hoare_rules]: "(\<And>x. x \<in> set xs \<Longrightarrow> pres I (f x)) \<Longrightarrow> pres I (for_each f xs)"
  by (induction xs) (auto intro: hoare_rules)

lemma pres_if [hoare_rules]: "(c \<Longrightarrow> pres I m) \<Longrightarrow> (\<not> c \<Longrightarrow> pres I k) \<Longrightarrow> pres I (if c then m else k)"
  by simp

lemma pres_case_sum [hoare_rules]:
  "(\<And>e. pres I (f e)) \<Longrightarrow> (\<And>x. pres I (g x)) \<Longrightarrow> pres I (case r of Inl e \<Rightarrow> f e | Inr x \<Rightarrow> g x)"
  by (cases r) simp_all

lemma pres_case_option [hoare_rules]:
  "pres I f \<Longrightarrow> (\<And>x. pres I (g x)) \<Longrightarrow> pres I (case r of None \<Rightarrow> f | Some x \<Rightarrow> g x)"
  by (cases r) simp_all

lemma pres_case_val [hoare_rules]:
  "(\<And>n. pres I (f n)) \<Longrightarrow> pres I k \<Longrightarrow> pres I (case v of Count n \<Rightarrow> f n | _ \<Rightarrow> k)"
  by (cases v) simp_all

lemma pres_modify: "(\<And>b t. I (b, t) \<Longrightarrow> I (b, f t)) \<Longrightarrow> pres I (modify f)"
  by (auto simp: pres_iff modify_def)

section \<open>Results\<close>

lemma bnd_Inr: "bnd m f s = (Inr y, s') \<longleftrightarrow> (\<exists>x s1. m s = (Inr x, s1) \<and> f x s1 = (Inr y, s'))"
  by (auto simp: bnd_def split: prod.splits sum.splits)

lemma thn_Inr: "thn m k s = (Inr y, s') \<longleftrightarrow> (\<exists>x s1. m s = (Inr x, s1) \<and> k s1 = (Inr y, s'))"
  by (simp add: thn_def bnd_Inr)

lemma check_Inr [simp]: "check c e (b, t) = (Inr u, s') \<longleftrightarrow> \<not> c b t \<and> s' = (b, t)"
  by (auto simp: check_def)

lemma check_opt_Inr [simp]: "check_opt f (b, t) = (Inr u, s') \<longleftrightarrow> f b t = None \<and> s' = (b, t)"
  by (auto simp: check_opt_def split: option.splits)

lemma reads_eq [simp]: "reads f (b, t) = (Inr (f b t), b, t)"
  by (simp add: reads_def)

lemma ret_eq [simp]: "ret x s = (Inr x, s)"
  by (simp add: ret_def)

lemma fail_eq [simp]: "fail e s = (Inl e, s)"
  by (simp add: fail_def)

lemma modify_eq [simp]: "modify f (b, t) = (Inr (), b, f t)"
  by (simp add: modify_def)

lemma thn_eq: "m s = (Inr x, s1) \<Longrightarrow> thn m k s = k s1"
  by (simp add: thn_def bnd_def)

lemma thn_err: "m s = (Inl e, s1) \<Longrightarrow> thn m k s = (Inl e, s1)"
  by (simp add: thn_def bnd_def)

section \<open>Frames\<close>

text \<open>An invariant of a transaction that does not speak of the write buffers and the key-value
  transaction is kept by every step that only buffers. \<open>core\<close> is what such an invariant may read.\<close>

definition core :: "tx \<Rightarrow> tx" where
  "core t = t\<lparr>txBadger := begin_txn \<lparr>kv = [], commitTs = 0\<rparr>, txPendingWrites := [], txPendingDeletes := []\<rparr>"

text \<open>The static part: the status, the pinned snapshot, the namespace and the versions.\<close>

definition static where
  "static t = (txStatus t, txSnapshot t, txNamespace t, txReadTS t, txStartTime t, txBeginSnapshot t)"

lemma core_fields:
  "txStatus (core t) = txStatus t" "txNamespace (core t) = txNamespace t"
  "txPendingNodes (core t) = txPendingNodes t" "txDeletedNodes (core t) = txDeletedNodes t"
  "txPendingEdges (core t) = txPendingEdges t" "txDeletedEdges (core t) = txDeletedEdges t"
  "txSnapshot (core t) = txSnapshot t" "txOperations (core t) = txOperations t" "static (core t) = static t"
  by (simp_all add: core_def static_def)

lemma core_eq:
  assumes "core t' = core t"
  shows "txStatus t' = txStatus t" "txNamespace t' = txNamespace t"
    "txPendingNodes t' = txPendingNodes t" "txDeletedNodes t' = txDeletedNodes t"
    "txPendingEdges t' = txPendingEdges t" "txDeletedEdges t' = txDeletedEdges t"
    "txSnapshot t' = txSnapshot t" "txOperations t' = txOperations t" "static t' = static t"
  using core_fields [of t] core_fields [of t'] assms by simp_all

named_theorems frame_rules \<open>steps that keep an invariant, one instance per invariant\<close>

text \<open>What a statement does to the key-value transaction: it enrolls keys and writes version records.
  The buffered writes themselves are flushed by the commit.\<close>

definition version_keys :: "(key \<times> val option) list \<Rightarrow> bool" where
  "version_keys ws \<longleftrightarrow> (\<forall>(k, w) \<in> set ws. \<exists>x v. k = VersionKey x v)"

definition statement_reads :: "btxn \<Rightarrow> btxn \<Rightarrow> bool" where
  "statement_reads u u' \<longleftrightarrow> base u' = base u \<and> set (readKeys u) \<subseteq> set (readKeys u')
     \<and> (version_keys (writes u) \<longrightarrow> version_keys (writes u'))"

lemma statement_reads_simps [simp]:
  "statement_reads u u" "statement_reads u (txn_track u ks)"
  "statement_reads u (archiveBodyInTxn b u x bd v)"
  by (auto simp: statement_reads_def version_keys_def archiveBodyInTxn_def writeVersionInTxn_def txn_set_def
      split: option.splits)

locale track_frame =
  fixes I :: "engine \<times> tx \<Rightarrow> bool"
  assumes tracked: "I (b, t) \<Longrightarrow> core t' = core t \<Longrightarrow> statement_reads (txBadger t) (txBadger t') \<Longrightarrow> I (b, t')"
begin

lemma buffers [frame_rules]: "pres I (bufferSet k v)" "pres I (bufferDelete k)"
  unfolding bufferSet_def bufferDelete_def
  by (rule pres_modify, erule tracked, simp_all add: core_def)+

lemma between [frame_rules]:
  "pres I (bufferSetEdgeBetweenIndexes e)" "pres I (bufferDeleteEdgeBetweenIndexes e)"
  unfolding bufferSetEdgeBetweenIndexes_def bufferDeleteEdgeBetweenIndexes_def
  by (intro hoare_rules buffers)+

lemma track [frame_rules]: "pres I (trackReads ks)" "pres I (trackUnlessPending p k)"
proof -
  show t: "pres I (trackReads ks)" for ks
    unfolding trackReads_def by (rule pres_modify, erule tracked, simp_all add: core_def)
  show "pres I (trackUnlessPending p k)"
    unfolding trackUnlessPending_def by (intro hoare_rules t)
qed

lemma labels [frame_rules]:
  "pres I (bufferAdjustLabelCount ns l n)" "pres I (bufferAdjustNodeLabelCounts old new)"
proof -
  show l: "pres I (bufferAdjustLabelCount ns l n)" for ns l n
    unfolding bufferAdjustLabelCount_def readBufferedLabelCount_def decodeLabelCount_def Let_def
    by (intro hoare_rules buffers track)
  show "pres I (bufferAdjustNodeLabelCounts old new)"
    unfolding bufferAdjustNodeLabelCounts_def Let_def by (intro hoare_rules l)
qed

lemma archive [frame_rules]: "pres I (archiveAtStatement x bd)"
  unfolding archiveAtStatement_def
  by (rule pres_thn [OF track(1)]) (auto simp: pres_iff core_def split: sum.splits elim: tracked)

lemma edge_indexes [frame_rules]:
  "pres I (deleteEdgeIndexes e)" "pres I (moveEdgeIndexes old e)" "pres I (retypeEdgeIndexes old e)"
  unfolding deleteEdgeIndexes_def moveEdgeIndexes_def retypeEdgeIndexes_def Let_def
  by (intro hoare_rules buffers between)+

lemma delete_loop [frame_rules]: "pres I (deleteEdgesLoop ids)"
proof (induction ids)
  case Nil
  show ?case unfolding deleteEdgesLoop.simps by (rule pres_ret)
next
  case (Cons i ids)
  show ?case
    unfolding deleteEdgesLoop.simps Let_def
    by (intro hoare_rules track archive edge_indexes Cons)
qed

lemma deleteNodeBuffered [frame_rules]: "pres I (deleteNodeBuffered i n)"
  unfolding deleteNodeBuffered_def deleteEdgesWithPrefixBuffered_def
  by (intro hoare_rules buffers labels archive delete_loop track)

end

locale buffer_frame =
  fixes I :: "engine \<times> tx \<Rightarrow> bool"
  assumes buffer: "I (b, t) \<Longrightarrow> core t' = core t \<Longrightarrow> I (b, t')"
begin

lemma flush [frame_rules]: "pres I flushBufferedWrites"
  unfolding flushBufferedWrites_def
  by (rule pres_modify, erule buffer, simp add: core_def)

end

sublocale buffer_frame \<subseteq> track_frame
  by unfold_locales (rule buffer)

text \<open>An invariant that survives registering readers, one that also survives a new read version,
  and one that survives closing the transaction.\<close>

locale reader_frame = track_frame +
  assumes reader: "I (b, t) \<Longrightarrow> I (b\<lparr>activeReaders := n\<rparr>, t\<lparr>txDeregister := d\<rparr>)"
begin

lemma reader_id: "I (b, t) \<Longrightarrow> I (b\<lparr>activeReaders := n\<rparr>, t)" "I (b, t) \<Longrightarrow> I (b, t\<lparr>txDeregister := d\<rparr>)"
  using reader [of b t n "txDeregister t"] reader [of b t "activeReaders b" d] by simp_all

lemma drop [frame_rules]: "pres I dropReader"
  by (auto simp: pres_iff dropReader_def runDeregister_def reader reader_id
      split: option.splits deregister.splits)

end

locale bind_frame = reader_frame +
  assumes read_version: "I (b, t) \<Longrightarrow> I (b, t\<lparr>txReadTS := v, txReaderInfo := r\<rparr>)"
begin

lemma refresh [frame_rules]: "pres I (refreshReadVersionForNamespaceLocked env)"
proof -
  have "pres I (thn dropReader (modify (\<lambda>t. t\<lparr>txDeregister := Some x\<rparr>)))" for x
    by (intro hoare_rules drop pres_modify) (rule reader_id)
  then have "pres I (\<lambda>(b, t). if IsZero (txReadTS t) then (Inr (), b, t)
          else case acquireSnapshotReader env b (txReaderInfo t) of
                 Inl e \<Rightarrow> (Inl e, b, t)
               | Inr (x, b') \<Rightarrow> thn dropReader (modify (\<lambda>t. t\<lparr>txDeregister := Some x\<rparr>)) (b', t))"
    by (auto simp: pres_iff acquireSnapshotReader_def reader_id split: sum.splits if_splits)
  then show ?thesis
    unfolding refreshReadVersionForNamespaceLocked_def Let_def
    by (intro hoare_rules pres_modify read_version)
qed

lemma bind_pres:
  assumes "\<And>b t ns. I (b, t) \<Longrightarrow> I (b, t\<lparr>txNamespace := ns\<rparr>)" "I (b, t)"
  shows "I (snd (bindNamespace env ns (b, t)))"
proof -
  have "pres I (bindNamespace env ns)"
    unfolding bindNamespace_def by (intro hoare_rules refresh pres_modify assms(1))
  then show ?thesis using assms(2) by (simp add: pres_iff)
qed

end

locale session_frame = reader_frame +
  assumes closed: "s \<noteq> TxStatusActive \<Longrightarrow> I (b, t) \<Longrightarrow> I (b, t\<lparr>txSnapshot := None, txStatus := s, txClosedErr := e\<rparr>)"
begin

lemma close: "s \<noteq> TxStatusActive \<Longrightarrow> pres I (closeLocked s e)"
  unfolding closeLocked_def
proof (intro hoare_rules drop pres_modify)
  fix b t
  assume "s \<noteq> TxStatusActive" "I (b, t)"
  then have "I (b, t\<lparr>txSnapshot := None, txStatus := s, txClosedErr := e\<rparr>)" by (rule closed)
  then show "I (b, t\<lparr>txSnapshot := None, txPendingWrites := [], txPendingDeletes := [], txStatus := s, txClosedErr := e\<rparr>)"
    by (rule tracked) (simp_all add: core_def)
qed

lemma ensure [frame_rules]: "pres I (ensureLifecycleActiveLocked env)"
proof -
  have c: "I (b, t) \<Longrightarrow> I (snd (thn (closeLocked TxStatusRolledBack (Some e)) (fail e) (b, t)))" for e b t
    by (rule presD [OF pres_thn [OF close pres_fail]]) simp_all
  show ?thesis
    using c by (auto simp: pres_iff ensureLifecycleActiveLocked_def Let_def split: prod.splits)
qed

lemma closing_frame [frame_rules]: "pres I m \<Longrightarrow> pres I (closing m)"
  unfolding closing_def by (intro hoare_rules close) simp_all

lemma rollback [frame_rules]: "pres I Rollback"
  using close [of TxStatusRolledBack None] by (auto simp: pres_iff Rollback_def)

end

text \<open>An invariant of the engine and the static part of a transaction (its status, pinned snapshot,
  namespace and versions), that also survives binding the namespace, is kept by every call but the
  commit.\<close>

locale call_frame = session_frame +
  assumes static: "I (b, t) \<Longrightarrow> static t' = static t \<Longrightarrow> I (b, t')"
    and bind: "txNamespace t = [] \<Longrightarrow> I (b, t) \<Longrightarrow> I (snd (bindNamespace env ns (b, t)))"
begin

lemma static_modify: "(\<And>t. static (f t) = static t) \<Longrightarrow> pres I (modify f)"
  by (rule pres_modify, erule static) simp

lemma pins [frame_rules]:
  "pres I (SetNamespace env ns)" "pres I (pinNamespaceFromIDLocked env ident)"
  by (auto simp: pres_iff SetNamespace_def pinNamespaceFromIDLocked_def bind split: option.splits)

lemma pin_edge [frame_rules]: "pres I (pinEdgeNamespaceLocked env e)"
  unfolding pinEdgeNamespaceLocked_def by (intro hoare_rules pins)

lemma add [frame_rules]: "pres I (addOperation op)"
  unfolding addOperation_def by (rule static_modify) (simp add: static_def)

lemma new_edge [frame_rules]: "pres I (bufferNewEdge env e)"
  unfolding bufferNewEdge_def by (intro hoare_rules buffers between add static_modify) (simp add: static_def)

lemma bulk_loop [frame_rules]: "pres I (bulkCreateLoop env ex es)"
proof (induction env ex es rule: bulkCreateLoop.induct)
  case (1 env existence)
  show ?case unfolding bulkCreateLoop.simps by (rule pres_ret)
next
  case (2 env existence edges)
  show ?case unfolding bulkCreateLoop.simps by (rule pres_fail)
next
  case (3 env existence edge edges)
  show ?case
    unfolding bulkCreateLoop.simps case_prod_unfold
    by (intro hoare_rules pin_edge new_edge 3)
qed

lemma operations [frame_rules]:
  "pres I (CreateNode env n)" "pres I (UpdateNode env n)" "pres I (DeleteNode env i)"
  "pres I (CreateEdge env e)" "pres I (BulkCreateEdges env es)"
  "pres I (UpdateEdge env e)" "pres I (DeleteEdge env i)"
  "pres I (GetNode env i)" "pres I (GetEdge env i)"
  unfolding CreateNode_def UpdateNode_def DeleteNode_def CreateEdge_def BulkCreateEdges_def
    UpdateEdge_def DeleteEdge_def GetNode_def GetEdge_def case_prod_unfold
  by (intro hoare_rules track ensure pins pin_edge buffers labels edge_indexes between deleteNodeBuffered add
      new_edge bulk_loop static_modify; simp add: static_def)+

lemma flags [frame_rules]:
  "pres I (SetDeferredConstraintValidation env v)"
  "pres I (SetSkipCreateExistenceCheck env v)" "pres I (SetImplicit env v)"
  unfolding SetDeferredConstraintValidation_def SetSkipCreateExistenceCheck_def SetImplicit_def
  by (intro hoare_rules ensure static_modify; simp add: static_def)+

lemma calls: "c \<noteq> CallCommit \<Longrightarrow> pres I (run_call env c)"
  by (cases c) (simp_all del: ret_eq add: hoare_rules pins operations flags rollback)

end

section \<open>The committed data\<close>

definition db_is :: "db \<Rightarrow> engine \<times> tx \<Rightarrow> bool" where
  "db_is d = (\<lambda>(b, t). edb b = d)"

interpretation db: buffer_frame "db_is d" for d
  by unfold_locales (simp add: db_is_def)

interpretation db: bind_frame "db_is d" for d
  by unfold_locales (simp_all add: db_is_def)

interpretation db: call_frame "db_is d" for d
proof unfold_locales
  fix b t env ns
  show "db_is d (b, t) \<Longrightarrow> db_is d (snd (bindNamespace env ns (b, t)))"
    by (rule db.bind_pres) (simp add: db_is_def)
qed (simp_all add: db_is_def)

lemma closeLocked_eq:
  "closeLocked st e (b, t) = (Inr (),
     (case txDeregister t of None \<Rightarrow> b | Some r \<Rightarrow> runDeregister r b),
     t\<lparr>txSnapshot := None, txPendingWrites := [], txPendingDeletes := [], txStatus := st,
       txClosedErr := e, txDeregister := None\<rparr>)"
  by (auto simp: closeLocked_def thn_def bnd_def dropReader_def split: option.splits)

lemma edb_runDeregister [simp]: "edb (runDeregister r b) = edb b"
  by (simp add: runDeregister_def split: deregister.splits)

lemma db_commit_steps [frame_rules]: "pres (db_is d) (allocateStep env)" "pres (db_is d) (materializeStep v)"
  by (auto simp: pres_iff allocateStep_def materializeStep_def db_is_def split: prod.splits sum.splits)

lemma closing_Inl: "closing m s = (Inl e, s') \<longleftrightarrow> (\<exists>s1. m s = (Inl e, s1) \<and> s' = snd (closeLocked TxStatusRolledBack None s1))"
  by (auto simp: closing_def on_error_def closeLocked_eq thn_def bnd_def split: prod.splits sum.splits)

lemma closing_Inr [simp]: "closing m s = (Inr x, s') \<longleftrightarrow> m s = (Inr x, s')"
  by (auto simp: closing_def on_error_def closeLocked_eq thn_def bnd_def split: prod.splits sum.splits)

lemma Commit_prepare:
  "Commit env = thn (prepare env) (thn (closing (kvCommitStep env)) (closeLocked TxStatusCommitted None))"
  by (simp add: Commit_def publish_def)

lemma db_prepare: "pres (db_is d) (prepare env)"
  unfolding prepare_def by (intro hoare_rules frame_rules db.static_modify; simp add: static_def)

text \<open>A commit that fails changes nothing that is committed, and one that succeeds is one write
  batch of the key-value store.\<close>

lemma Commit_failed:
  assumes "Commit env (b, t) = (Inl e, b', t')"
  shows "edb b' = edb b"
proof -
  obtain r b1 t1 where p: "prepare env (b, t) = (r, b1, t1)" by (metis prod.exhaust)
  have b1: "edb b1 = edb b"
    using presD [OF db_prepare [of "edb b" env], of "(b, t)"] p by (simp add: db_is_def)
  then show ?thesis
    using assms p b1
    by (cases r) (auto simp: Commit_prepare thn_def bnd_def closeLocked_eq closing_def on_error_def
        kvCommitStep_def split: option.splits)
qed

lemma Commit_success:
  assumes "Commit env (b, t) = (Inr u, b', t')"
  shows "\<exists>b1 t1. prepare env (b, t) = (Inr (), b1, t1) \<and> edb b1 = edb b
    \<and> edb b' = db_commit (edb b) (writes (txBadger t1)) \<and> txStatus t' = TxStatusCommitted"
proof -
  obtain r b1 t1 where p: "prepare env (b, t) = (r, b1, t1)" by (metis prod.exhaust)
  have b1: "edb b1 = edb b"
    using presD [OF db_prepare [of "edb b" env], of "(b, t)"] p by (simp add: db_is_def)
  then show ?thesis
    using assms p b1
    by (cases r) (auto simp: Commit_prepare thn_def bnd_def closeLocked_eq closing_def on_error_def
        kvCommitStep_def split: option.splits)
qed

end
