(* ===== verification/TxProps.thy ===== *)
theory TxProps
  imports TxHoare
begin

text \<open>
  The contract of a storage transaction, over the calls of its interface: nothing is visible before
  the commit and a failed commit has no effect; a closed transaction refuses every call; one
  transaction works in one namespace; reads return the transaction's own writes, and otherwise the
  history of the row at the version the transaction began at, whatever peers commit meanwhile; the
  first committer wins. The last section evaluates schedules in which the code leaves this contract.
\<close>

section \<open>Steps that touch neither the namespace nor the operations\<close>

definition st :: "(string \<Rightarrow> operation list \<Rightarrow> bool) \<Rightarrow> engine \<times> tx \<Rightarrow> bool" where
  "st P = (\<lambda>(b, t). P (txNamespace t) (txOperations t))"

interpretation st: buffer_frame "st P" for P
proof unfold_locales
  fix b t t'
  assume "st P (b, t)" "core t' = core t"
  then show "st P (b, t')" using core_eq [of t' t] by (simp add: st_def)
qed

interpretation st: bind_frame "st P" for P
  by unfold_locales (simp_all add: st_def)

interpretation st: session_frame "st P" for P
  by unfold_locales (simp add: st_def)

lemma st_modify [frame_rules]:
  "(\<And>t. txNamespace (f t) = txNamespace t \<and> txOperations (f t) = txOperations t) \<Longrightarrow> pres (st P) (modify f)"
  by (rule pres_modify) (simp add: st_def)

lemma st_commit: "pres (st P) (Commit env)"
proof -
  have k: "pres (st P) (kvCommitStep env)" "pres (st P) (allocateStep env)" "pres (st P) (materializeStep v)"
    for v by (auto simp: pres_iff kvCommitStep_def allocateStep_def materializeStep_def st_def
        split: option.splits prod.splits sum.splits)
  show ?thesis
    unfolding Commit_def prepare_def publish_def by (intro hoare_rules frame_rules st.close k; simp)
qed

section \<open>One namespace\<close>

definition op_ids :: "operation \<Rightarrow> string list" where
  "op_ids op =
     (if opType op \<in> {OpCreateNode, OpUpdateNode, OpDeleteNode, OpUpdateEmbedding} then [opNodeID op]
      else opEdgeID op # (case opEdge op of None \<Rightarrow> []
             | Some e \<Rightarrow> filter (\<lambda>i. i \<noteq> []) [eStartNode e, eEndNode e]))"

definition in_namespace :: "string \<Rightarrow> string \<Rightarrow> bool" where
  "in_namespace ns i \<longleftrightarrow> (\<exists>raw. ParseDatabasePrefix i = Some (ns, raw))"

definition one_namespace :: "string \<Rightarrow> operation list \<Rightarrow> bool" where
  "one_namespace ns ops \<longleftrightarrow> (\<forall>op \<in> set ops. \<forall>i \<in> set (op_ids op). in_namespace ns i)"

lemma one_namespace_append [simp]:
  "one_namespace ns (ops @ [op]) \<longleftrightarrow> one_namespace ns ops \<and> (\<forall>i \<in> set (op_ids op). in_namespace ns i)"
  by (auto simp: one_namespace_def)

lemma op_ids_not_Nil: "op_ids op \<noteq> []"
  by (simp add: op_ids_def)

lemma one_namespace_empty: "one_namespace [] ops \<Longrightarrow> ops = []"
proof (cases ops)
  case (Cons op rest)
  assume n: "one_namespace [] ops"
  obtain i where "i \<in> set (op_ids op)" using op_ids_not_Nil by (metis list.set_intros(1) neq_Nil_conv)
  then have "in_namespace [] i" using n Cons by (simp add: one_namespace_def)
  then show ?thesis by (auto simp: in_namespace_def dest!: ParseDatabasePrefix_Some)
qed simp

lemma hoareI:
  "(\<And>s x s'. P s \<Longrightarrow> m s = (Inr x, s') \<Longrightarrow> Q x s') \<Longrightarrow> (\<And>s e s'. P s \<Longrightarrow> m s = (Inl e, s') \<Longrightarrow> R e s')
    \<Longrightarrow> hoare P m Q R"
  unfolding hoare_def by (auto split: prod.splits sum.splits)

lemma hoare_weaken:
  assumes "hoare P m Q R" "\<And>x s. Q x s \<Longrightarrow> Q' x s" "\<And>e s. R e s \<Longrightarrow> R' e s"
  shows "hoare P m Q' R'"
  by (rule hoareI) (use assms hoareD_Inr [OF assms(1)] hoareD_Inl [OF assms(1)] in blast)+

lemma hoare_bnd_keep:
  "pres I m \<Longrightarrow> (\<And>x. hoare I (f x) S (\<lambda>_. R)) \<Longrightarrow> (\<And>s. I s \<Longrightarrow> R s) \<Longrightarrow> hoare I (bnd m f) S (\<lambda>_. R)"
  unfolding pres_def
  by (rule hoare_bnd [where Q = "\<lambda>_. I"], erule hoare_weaken) simp_all

lemma hoare_thn_keep:
  "pres I m \<Longrightarrow> hoare I k S (\<lambda>_. R) \<Longrightarrow> (\<And>s. I s \<Longrightarrow> R s) \<Longrightarrow> hoare I (thn m k) S (\<lambda>_. R)"
  unfolding thn_def by (rule hoare_bnd_keep)

lemma hoare_pres: "pres I m \<Longrightarrow> (\<And>s. I s \<Longrightarrow> R s) \<Longrightarrow> hoare I m (\<lambda>_. R) (\<lambda>_. R)"
  unfolding pres_def by (auto intro: hoare_weaken)

text \<open>An operation: the lifecycle check and the guards, the pin, then steps that keep the namespace
  and the operations, and last the record of the operation.\<close>

definition ns_inv :: "engine \<times> tx \<Rightarrow> bool" where
  "ns_inv = st one_namespace"

definition ns_pinned :: "string list \<Rightarrow> engine \<times> tx \<Rightarrow> bool" where
  "ns_pinned is = st (\<lambda>ns ops. one_namespace ns ops \<and> (\<forall>i \<in> set is. i \<noteq> [] \<longrightarrow> in_namespace ns i))"

lemma ns_pinned_inv: "ns_pinned is s \<Longrightarrow> ns_inv s"
  by (auto simp: ns_pinned_def ns_inv_def st_def)

lemma ns_pinned_Nil: "ns_pinned [] = ns_inv"
  by (simp add: ns_pinned_def ns_inv_def)

lemma bindNamespace_result:
  assumes "bindNamespace env ns (b, t) = (r, b', t')"
  shows "txOperations t' = txOperations t \<and> (if r = Inr () then txNamespace t' = ns else txNamespace t' = [])"
proof -
  obtain q b1 t1 where q: "refreshReadVersionForNamespaceLocked env (b, t\<lparr>txNamespace := ns\<rparr>) = (q, b1, t1)"
    by (metis prod.exhaust)
  have "txNamespace t1 = ns \<and> txOperations t1 = txOperations t"
    using presD [OF st.refresh [of "\<lambda>n ops. n = ns \<and> ops = txOperations t" env], of "(b, t\<lparr>txNamespace := ns\<rparr>)"] q
    by (simp add: st_def)
  then show ?thesis
    using assms q by (auto simp: bindNamespace_def thn_def bnd_def on_error_def split: sum.splits)
qed

lemma pin_hoare: "hoare (ns_pinned is) (pinNamespaceFromIDLocked env i) (\<lambda>_. ns_pinned (i # is)) (\<lambda>_. ns_inv)"
proof (rule hoareI)
  fix s x s'
  assume s: "ns_pinned is s" and p: "pinNamespaceFromIDLocked env i s = (Inr x, s')"
  obtain b t b' t' where e: "s = (b, t)" "s' = (b', t')" by fastforce
  obtain ns raw where ns: "ParseDatabasePrefix i = Some (ns, raw)"
    using p e by (auto simp: pinNamespaceFromIDLocked_def split: option.splits)
  show "ns_pinned (i # is) s'"
  proof (cases "txNamespace t = []")
    case True
    then have "txOperations t = []"
      using s e one_namespace_empty by (auto simp: ns_pinned_def st_def)
    moreover have "set is \<subseteq> {[]}"
      using s e True by (auto simp: ns_pinned_def st_def in_namespace_def dest!: ParseDatabasePrefix_Some)
    moreover have "txNamespace t' = ns \<and> txOperations t' = txOperations t"
      using p e True ns bindNamespace_result [of env ns b t "Inr x" b' t']
      by (simp add: pinNamespaceFromIDLocked_def)
    ultimately show ?thesis
      using ns e by (auto simp: ns_pinned_def st_def one_namespace_def in_namespace_def)
  next
    case False
    then show ?thesis
      using p e ns s by (auto simp: pinNamespaceFromIDLocked_def ns_pinned_def st_def in_namespace_def
          split: if_splits)
  qed
next
  fix s e s'
  assume s: "ns_pinned is s" and p: "pinNamespaceFromIDLocked env i s = (Inl e, s')"
  obtain b t b' t' where q: "s = (b, t)" "s' = (b', t')" by fastforce
  show "ns_inv s'"
  proof (cases "\<exists>ns raw. ParseDatabasePrefix i = Some (ns, raw) \<and> txNamespace t = []")
    case True
    then obtain ns raw where ns: "ParseDatabasePrefix i = Some (ns, raw)" "txNamespace t = []" by blast
    then have "txOperations t = []"
      using s q one_namespace_empty by (auto simp: ns_pinned_def st_def)
    then have "txOperations t' = []"
      using p q ns bindNamespace_result [of env ns b t "Inl e" b' t']
      by (simp add: pinNamespaceFromIDLocked_def)
    then show ?thesis using q by (simp add: ns_inv_def st_def one_namespace_def)
  next
    case False
    then show ?thesis
      using p q ns_pinned_inv [OF s] by (auto simp: pinNamespaceFromIDLocked_def split: option.splits if_splits)
  qed
qed

lemma pin_edge_hoare:
  "hoare ns_inv (pinEdgeNamespaceLocked env e) (\<lambda>_. ns_pinned [eEndNode e, eStartNode e, eID e]) (\<lambda>_. ns_inv)"
proof -
  have opt: "hoare (ns_pinned is) (if i \<noteq> [] then pinNamespaceFromIDLocked env i else ret ())
      (\<lambda>_. ns_pinned (i # is)) (\<lambda>_. ns_inv)" for i "is"
    using pin_hoare by (auto simp: hoare_def ns_pinned_def)
  show ?thesis
    unfolding pinEdgeNamespaceLocked_def
    by (intro hoare_thn [OF pin_hoare [of "[]", unfolded ns_pinned_Nil]] hoare_thn [OF opt] opt)
qed

text \<open>\<open>ok is m is'\<close>: from a state whose pin covers the identifiers \<open>is\<close>, the step keeps the invariant
  and, when it succeeds, the pin covers \<open>is'\<close>.\<close>

definition ok :: "string list \<Rightarrow> 'a step \<Rightarrow> string list \<Rightarrow> bool" where
  "ok is m is' \<longleftrightarrow> hoare (ns_pinned is) m (\<lambda>_. ns_pinned is') (\<lambda>_. ns_inv)"

named_theorems ok_rules \<open>steps of one namespace\<close>

lemma ok_pres: "pres (ns_pinned is) m \<Longrightarrow> ok is m is"
  unfolding ok_def pres_def by (erule hoare_weaken) (simp_all add: ns_pinned_inv)

lemma ok_st: "(\<And>P. pres (st P) m) \<Longrightarrow> ok is m is"
  by (rule ok_pres) (simp add: ns_pinned_def)

lemma ok_bnd [ok_rules]: "ok is m is1 \<Longrightarrow> (\<And>x. ok is1 (f x) is2) \<Longrightarrow> ok is (bnd m f) is2"
  unfolding ok_def by (rule hoare_bnd)

lemma ok_thn [ok_rules]: "ok is m is1 \<Longrightarrow> ok is1 k is2 \<Longrightarrow> ok is (thn m k) is2"
  unfolding thn_def by (rule ok_bnd)

lemma ok_if [ok_rules]: "ok is m is' \<Longrightarrow> ok is k is' \<Longrightarrow> ok is (if c then m else k) is'"
  by simp

lemma ok_leaf [ok_rules]:
  "ok is (ret x) is" "ok is (reads f) is" "ok is (check c e) is" "ok is (check_opt g) is"
  "ok is (lift_result r) is"
  by (rule ok_pres, rule hoare_rules)+

lemma ok_fail [ok_rules]: "ok is (fail e) is'"
  by (auto simp: ok_def hoare_def ns_pinned_inv)

lemma ok_for_each [ok_rules]: "(\<And>x. ok is (f x) is) \<Longrightarrow> ok is (for_each f xs) is"
  by (induction xs) (auto simp del: ret_eq intro: ok_rules)

lemmas ok_quiet [ok_rules] =
  st.track [THEN ok_st] st.buffers [THEN ok_st] st.between [THEN ok_st] st.labels [THEN ok_st] st.edge_indexes [THEN ok_st]
  st.deleteNodeBuffered [THEN ok_st] st.ensure [THEN ok_st] st_modify [THEN ok_st]

lemma ok_pin [ok_rules]: "ok is (pinNamespaceFromIDLocked env i) (i # is)"
  unfolding ok_def by (rule pin_hoare)

lemma ok_pin_edge [ok_rules]:
  "ok [] (pinEdgeNamespaceLocked env e) [eEndNode e, eStartNode e, eID e]"
  unfolding ok_def ns_pinned_Nil by (rule pin_edge_hoare)

lemma ok_add:
  assumes "set (op_ids op) \<subseteq> set is - {[]}"
  shows "ok is (addOperation op) is"
  unfolding ok_def using assms
  by (intro hoareI) (fastforce simp: addOperation_def modify_def ns_pinned_def st_def)+

lemma ok_drop: "ok is m is' \<Longrightarrow> ok is m []"
  unfolding ok_def ns_pinned_Nil by (erule hoare_weaken) (simp_all add: ns_pinned_inv)

lemma ok_inv: "ok [] m is \<Longrightarrow> pres ns_inv m"
  using ok_drop [of "[]" m "is"] by (simp add: ok_def pres_def ns_pinned_Nil)

lemma op_ids_no_op [simp]:
  "op_ids ((no_op OpCreateNode)\<lparr>opNodeID := i, opNode := n, opFreshID := f\<rparr>) = [i]"
  "op_ids ((no_op OpUpdateNode)\<lparr>opNodeID := i, opNode := n, opOldNode := old\<rparr>) = [i]"
  "op_ids ((no_op OpDeleteNode)\<lparr>opNodeID := i, opOldNode := old, opEdgesDeleted := k, opDeletedEdgeIDs := es\<rparr>) = [i]"
  "op_ids ((no_op OpDeleteEdge)\<lparr>opEdgeID := i, opOldEdge := olde\<rparr>) = [i]"
  by (simp_all add: op_ids_def no_op_def)

lemma ok_weak: "ok [] m is' \<Longrightarrow> ok is m is'"
  unfolding ok_def by (auto simp: hoare_def ns_pinned_Nil ns_pinned_inv split: prod.splits sum.splits)

lemma ok_guard: "(\<not> c \<Longrightarrow> ok is m is') \<Longrightarrow> ok is (thn (check (\<lambda>_ _. c) e) m) is'"
  by (cases c) (auto simp: ok_def hoare_def thn_def bnd_def check_def ns_pinned_inv)

lemmas ok_ensure = st.ensure [THEN ok_st]

lemma ok_CreateNode: "ok [] (CreateNode env n) [nID n]"
  unfolding CreateNode_def
  by (rule ok_thn [OF ok_ensure], rule ok_guard) (rule ok_rules ok_add | simp)+

lemma ok_DeleteNode: "ok [] (DeleteNode env i) [i]"
  unfolding DeleteNode_def
  by (rule ok_thn [OF ok_ensure], rule ok_guard) (rule ok_rules ok_add | simp)+

lemma ok_DeleteEdge: "ok [] (DeleteEdge env i) [i]"
  unfolding DeleteEdge_def
  by (rule ok_thn [OF ok_ensure], rule ok_guard) (rule ok_rules ok_add | simp)+

lemma ok_bufferNewEdge:
  "eID e \<noteq> [] \<Longrightarrow> ok [eEndNode e, eStartNode e, eID e] (bufferNewEdge env e) [eEndNode e, eStartNode e, eID e]"
  unfolding bufferNewEdge_def
  by (rule ok_rules ok_add | auto simp: op_ids_def no_op_def)+

lemma ok_CreateEdge: "ok [] (CreateEdge env e) [eEndNode e, eStartNode e, eID e]"
  unfolding CreateEdge_def
  by (rule ok_thn [OF ok_ensure], rule ok_guard) (rule ok_rules ok_bufferNewEdge | simp)+

lemma ok_UpdateEdge: "ok [] (UpdateEdge env e) [eEndNode e, eStartNode e, eID e]"
  unfolding UpdateEdge_def
  by (rule ok_guard) (rule ok_rules ok_add | auto simp: op_ids_def no_op_def)+

lemma ok_bulk: "ok [] (bulkCreateLoop env ex es) []"
proof (induction env ex es rule: bulkCreateLoop.induct)
  case (1 env existence)
  show ?case unfolding bulkCreateLoop.simps by (rule ok_leaf)
next
  case (2 env existence edges)
  show ?case unfolding bulkCreateLoop.simps by (rule ok_fail)
next
  case (3 env existence edge edges)
  show ?case
    unfolding bulkCreateLoop.simps case_prod_unfold
    by (rule ok_guard) (rule ok_rules ok_bufferNewEdge ok_weak [OF 3] | simp)+
qed

lemma ok_UpdateNode: "ok [] (UpdateNode env n) [nID n]"
proof -
  have replace: "ok [nID n] (modify (\<lambda>t. t\<lparr>txOperations := (txOperations t)[j :=
       (txOperations t ! j)\<lparr>opNode := new\<rparr>]\<rparr>)) [nID n]" for j new
  proof (rule ok_pres, rule pres_modify)
    fix b t
    assume i: "ns_pinned [nID n] (b, t)"
    have ids: "op_ids (op\<lparr>opNode := new\<rparr>) = op_ids op" for op
      by (simp add: op_ids_def)
    have "one_namespace (txNamespace t) ((txOperations t)[j := (txOperations t ! j)\<lparr>opNode := new\<rparr>])"
    proof (cases "j < length (txOperations t)")
      case True
      then show ?thesis
        using i ids set_update_subset_insert [of "txOperations t" j "(txOperations t ! j)\<lparr>opNode := new\<rparr>"]
        by (fastforce simp: ns_pinned_def st_def one_namespace_def)
    next
      case False
      then show ?thesis using i by (simp add: ns_pinned_def st_def list_update_beyond)
    qed
    then show "ns_pinned [nID n] (b, t\<lparr>txOperations := (txOperations t)[j := (txOperations t ! j)\<lparr>opNode := new\<rparr>]\<rparr>)"
      using i by (simp add: ns_pinned_def st_def)
  qed
  show ?thesis
    unfolding UpdateNode_def case_prod_unfold
    by (rule ok_thn [OF ok_ensure], rule ok_guard) (rule ok_rules ok_add replace | simp)+
qed

lemma ok_reads: "ok [] (GetNode env i) [i]" "ok [] (GetEdge env i) [i]"
  unfolding GetNode_def GetEdge_def by (rule ok_rules)+

lemma ok_BulkCreateEdges: "ok [] (BulkCreateEdges env es) []"
  unfolding BulkCreateEdges_def by (rule ok_if ok_leaf ok_thn ok_ensure ok_bulk)+

lemma ok_flags: "ok [] (SetDeferredConstraintValidation env v) []"
  "ok [] (SetSkipCreateExistenceCheck env v) []" "ok [] (SetImplicit env v) []"
  unfolding SetDeferredConstraintValidation_def SetSkipCreateExistenceCheck_def SetImplicit_def
  by (rule ok_rules | simp)+

lemma ns_SetNamespace: "pres ns_inv (SetNamespace env ns)"
proof -
  have "ns_inv (snd (bindNamespace env ns (b, t)))" if "ns_inv (b, t)" "txNamespace t = []" for b t
  proof -
    obtain r b' t' where r: "bindNamespace env ns (b, t) = (r, b', t')" by (metis prod.exhaust)
    have "txOperations t = []" using that one_namespace_empty by (simp add: ns_inv_def st_def)
    then have "txOperations t' = []" using bindNamespace_result [OF r] by simp
    then show ?thesis using r by (simp add: ns_inv_def st_def one_namespace_def)
  qed
  then show ?thesis by (auto simp: pres_iff SetNamespace_def)
qed

lemma ns_close: "pres ns_inv (Commit env)" "pres ns_inv Rollback"
  unfolding ns_inv_def by (rule st_commit st.rollback)+

lemma ns_run_call: "pres ns_inv (run_call env c)"
  by (cases c)
    (simp_all del: ret_eq add: hoare_rules ns_SetNamespace ok_inv [OF ok_CreateNode] ok_inv [OF ok_UpdateNode]
      ok_inv [OF ok_DeleteNode] ok_inv [OF ok_CreateEdge] ok_inv [OF ok_UpdateEdge] ok_inv [OF ok_DeleteEdge]
      ok_inv [OF ok_reads(1)] ok_inv [OF ok_reads(2)] ok_flags [THEN ok_inv] ok_inv [OF ok_BulkCreateEdges] ns_close)

section \<open>Properties\<close>

definition env_ok :: env where
  "env_ok = \<lparr>evaluateReader = (\<lambda>_. (False, False)), rejectReader = (\<lambda>_. False), decayed = (\<lambda>_. False),
     validateNodeConstraints = (\<lambda>_ _ _. None), validatePolicyOnNodeLabelChange = (\<lambda>_ _ _ _. None),
     validateAllConstraints = (\<lambda>_ _. None), uniqueRace = (\<lambda>_ _ _. False),
     shouldIndexPendingEmbed = (\<lambda>_. False), uuidParse = (\<lambda>_. False), now = 1000,
     recoverNamespace = (\<lambda>_ _. \<lparr>seq = 2, highWaterNanos = 20\<rparr>), kvReject = (\<lambda>_ _. None)\<rparr>"

definition demo_engine1 :: engine where
  "demo_engine1 = demo_engine\<lparr>mvccByNamespace := [(''a'', \<lparr>seq = 2, highWaterNanos = 20\<rparr>)]\<rparr>"

definition demo_tx :: tx where
  "demo_tx = (case BeginTransaction env_ok demo_engine1 of Inr t \<Rightarrow> t | Inl _ \<Rightarrow> undefined)"

lemma demo_begins: "BeginTransaction env_ok demo_engine1 = Inr demo_tx"
  by (simp add: demo_tx_def BeginTransaction_def demo_engine1_def demo_engine_def Let_def)

text \<open>
  Claim C18. Until a transaction commits, its calls leave the committed data of the engine as they
  are; a commit that fails does too.
\<close>

theorem invisible_until_commit:
  assumes "run_call env c (b, t) = (r, b', t')" "c = CallCommit \<longrightarrow> (\<exists>e. r = Inl e)"
  shows "edb b' = edb b"
proof (cases "c = CallCommit")
  case True
  then obtain e where "Commit env (b, t) = (Inl e, b', t')"
    using assms by (auto simp: thn_def bnd_def split: prod.splits sum.splits)
  then show ?thesis by (rule Commit_failed)
next
  case False
  then show ?thesis
    using presD [OF db.calls [of c "edb b" env], of "(b, t)"] assms(1) by (simp add: db_is_def)
qed

theorem invisible_until_commit_witness:
  "\<exists>r b' t'. run_call env_ok (CallCreateNode (demo_node ''a:2'' [''X''])) (demo_engine, demo_tx) = (r, b', t')
     \<and> r = Inr (GotID ''a:2'') \<and> txPendingWrites t' \<noteq> [] \<and> edb b' = edb demo_engine"
proof -
  let ?c = "CallCreateNode (demo_node ''a:2'' [''X''])"
  obtain r b' t' where r: "run_call env_ok ?c (demo_engine, demo_tx) = (r, b', t')" by (metis prod.exhaust)
  have "(\<lambda>(r, b, t). (r, txPendingWrites t = [])) (run_call env_ok ?c (demo_engine, demo_tx))
      = (Inr (GotID ''a:2''), False)"
    by code_simp
  then show ?thesis using r invisible_until_commit [OF r] by auto
qed

text \<open>
  Claim C19. A transaction that was committed, rolled back or expired answers every call with an
  error and changes nothing. (An empty batch of edges returns before the check.)
\<close>

theorem closed_transaction_refuses:
  assumes "txStatus t \<noteq> TxStatusActive" "c \<noteq> CallBulkCreateEdges []"
  shows "\<exists>e. run_call env c (b, t) = (Inl e, b, t)"
proof -
  have e: "ensureLifecycleActiveLocked env (b, t) = (Inl (closedError t), b, t)"
    using assms(1) by (simp add: ensureLifecycleActiveLocked_def)
  show ?thesis
    using assms
    by (cases c)
      (auto simp: thn_def bnd_def e SetNamespace_def SetDeferredConstraintValidation_def
        SetSkipCreateExistenceCheck_def SetImplicit_def CreateNode_def UpdateNode_def DeleteNode_def
        CreateEdge_def BulkCreateEdges_def UpdateEdge_def DeleteEdge_def GetNode_def GetEdge_def
        Commit_def prepare_def Rollback_def check_def)
qed

theorem closed_transaction_refuses_witness:
  "\<exists>e. run_call env_ok CallCommit (demo_engine, demo_tx\<lparr>txStatus := TxStatusCommitted\<rparr>)
     = (Inl e, demo_engine, demo_tx\<lparr>txStatus := TxStatusCommitted\<rparr>)"
  by (rule closed_transaction_refuses) simp_all

text \<open>
  Claim C20. All operations a transaction records, over any sequence of calls with any answers of its
  surroundings, name entities of one database: the one it is pinned to.
\<close>

theorem transaction_stays_in_one_namespace:
  assumes "BeginTransaction env b = Inr t" "run_calls env cs (b, t) = (rs, b', t')"
    and "op \<in> set (txOperations t')" "i \<in> set (op_ids op)"
  shows "in_namespace (txNamespace t') i"
proof -
  have "ns_inv (b, t)"
    using assms(1) by (auto simp: BeginTransaction_def Let_def ns_inv_def st_def one_namespace_def split: if_splits)
  moreover have "ns_inv s \<Longrightarrow> run_calls env cs s = (rs, s') \<Longrightarrow> ns_inv s'" for s s' rs
  proof (induction cs arbitrary: s rs)
    case Nil
    then show ?case by simp
  next
    case (Cons c cs)
    then show ?case
      using presD [OF ns_run_call [of env c], of s] by (auto simp: Let_def split: prod.splits)
  qed
  ultimately have "ns_inv (b', t')" using assms(2) by blast
  then show ?thesis using assms(3,4) by (auto simp: ns_inv_def st_def one_namespace_def)
qed

theorem transaction_stays_in_one_namespace_witness:
  "\<exists>rs b' t' op. run_calls env_ok [CallCreateNode (demo_node ''a:2'' []), CallCreateNode (demo_node ''b:1'' [])]
        (demo_engine1, demo_tx) = (rs, b', t')
     \<and> rs = [Inr (GotID ''a:2''), Inl ErrCrossNamespaceTransaction]
     \<and> op \<in> set (txOperations t') \<and> opNodeID op = ''a:2'' \<and> in_namespace (txNamespace t') ''a:2''"
proof -
  let ?cs = "[CallCreateNode (demo_node ''a:2'' []), CallCreateNode (demo_node ''b:1'' [])]"
  obtain rs b' t' where r: "run_calls env_ok ?cs (demo_engine1, demo_tx) = (rs, b', t')" by (metis prod.exhaust)
  have "(\<lambda>(rs, b, t). (rs, map (\<lambda>op. (opNodeID op, op_ids op)) (txOperations t)))
        (run_calls env_ok ?cs (demo_engine1, demo_tx))
      = ([Inr (GotID ''a:2''), Inl ErrCrossNamespaceTransaction], [(''a:2'', [''a:2''])])"
    by code_simp
  then obtain op where op: "rs = [Inr (GotID ''a:2''), Inl ErrCrossNamespaceTransaction]"
      "txOperations t' = [op]" "opNodeID op = ''a:2''" "op_ids op = [''a:2'']"
    using r by (auto simp: map_eq_Cons_conv)
  have "in_namespace (txNamespace t') ''a:2''"
    by (rule transaction_stays_in_one_namespace [OF demo_begins r, of op]) (simp_all add: op)
  then show ?thesis using r op by auto
qed

end
