(* ===== verification/TxReads.thy ===== *)
theory TxReads
  imports TxProps
begin

text \<open>
  What a storage transaction reads: its own writes first, and otherwise the history of the row at
  the version the transaction began at, from the pinned snapshot, whatever peers commit meanwhile.
\<close>

section \<open>An active transaction and its pending rows\<close>

definition act :: "(string \<Rightarrow> (string \<times> node) list \<Rightarrow> string list \<Rightarrow> (string \<times> edge) list \<Rightarrow> string list \<Rightarrow> bool)
    \<Rightarrow> engine \<times> tx \<Rightarrow> bool" where
  "act P = (\<lambda>(b, t). txStatus t = TxStatusActive \<and>
     P (txNamespace t) (txPendingNodes t) (txDeletedNodes t) (txPendingEdges t) (txDeletedEdges t))"

interpretation act: bind_frame "act P" for P
proof unfold_locales
  fix b t t'
  assume "act P (b, t)" "core t' = core t"
  then show "act P (b, t')" using core_eq [of t' t] by (simp add: act_def)
qed (simp_all add: act_def)

text \<open>A triple that says nothing about errors.\<close>

definition good :: "(engine \<times> tx \<Rightarrow> bool) \<Rightarrow> 'a step \<Rightarrow> (engine \<times> tx \<Rightarrow> bool) \<Rightarrow> bool" where
  "good P m Q \<longleftrightarrow> hoare P m (\<lambda>_. Q) (\<lambda>_ _. True)"

lemma goodD: "good P m Q \<Longrightarrow> P s \<Longrightarrow> m s = (Inr x, s') \<Longrightarrow> Q s'"
  unfolding good_def by (rule hoareD_Inr)

lemma good_pres: "pres I m \<Longrightarrow> good I m I"
  unfolding good_def pres_def by (auto simp: hoare_def split: prod.splits sum.splits)

lemma good_bnd : "good P m Q \<Longrightarrow> (\<And>x. good Q (f x) R) \<Longrightarrow> good P (bnd m f) R"
  unfolding good_def by (rule hoare_bnd)

lemma good_thn : "good P m Q \<Longrightarrow> good Q k R \<Longrightarrow> good P (thn m k) R"
  unfolding thn_def by (rule good_bnd)

text \<open>The proof of an operation: steps that keep the precondition, one step that establishes the
  postcondition, and steps that keep that.\<close>

lemma good_if: "good P m Q \<Longrightarrow> good P k Q \<Longrightarrow> good P (if c then m else k) Q"
  by simp

lemma good_thn_keep: "pres I m \<Longrightarrow> good I k Q \<Longrightarrow> good I (thn m k) Q"
  by (rule good_thn [OF good_pres])

lemma good_bnd_keep: "pres I m \<Longrightarrow> (\<And>x. good I (f x) Q) \<Longrightarrow> good I (bnd m f) Q"
  by (rule good_bnd [OF good_pres])

lemma good_establish:
  assumes "\<And>t. txStatus (f t) = txStatus t \<and> txNamespace (f t) = txNamespace t"
    and "\<And>t. P (txNamespace t) (txPendingNodes t) (txDeletedNodes t) (txPendingEdges t) (txDeletedEdges t)
      \<Longrightarrow> Q (txNamespace t) (txPendingNodes (f t)) (txDeletedNodes (f t)) (txPendingEdges (f t)) (txDeletedEdges (f t))"
    and "pres (act Q) k"
  shows "good (act P) (thn (modify f) k) (act Q)"
proof (rule good_thn [OF _ good_pres [OF assms(3)]])
  show "good (act P) (modify f) (act Q)"
    using assms by (auto simp: good_def hoare_def modify_def act_def)
qed

lemma good_ensure: "good (act P) (ensureLifecycleActiveLocked env) (act P)"
  by (auto simp: good_def hoare_def ensureLifecycleActiveLocked_def Let_def thn_def bnd_def
      split: prod.splits sum.splits)

lemma ensure_active:
  "ensureLifecycleActiveLocked env (b, t) = (Inr u, s) \<Longrightarrow> txStatus t = TxStatusActive \<and> s = (b, t)"
  by (auto simp: ensureLifecycleActiveLocked_def Let_def thn_def bnd_def
      split: prod.splits sum.splits if_splits)

lemma act_operations [frame_rules]:
  "pres (act P) (addOperation op)" "pres (act P) (modify (\<lambda>t. t\<lparr>txOperations := f t\<rparr>))"
  by (auto simp: pres_iff addOperation_def modify_def act_def)

text \<open>The namespace an identifier names.\<close>

abbreviation named where
  "named i ns \<equiv> \<exists>raw. ParseDatabasePrefix i = Some (ns, raw)"

lemma good_pin:
  assumes "\<And>ns ns'. Q ns \<Longrightarrow> named i ns' \<Longrightarrow> ns = [] \<or> ns = ns' \<Longrightarrow> Q ns'"
  shows "good (act (\<lambda>ns pn dn pe de. Q ns \<and> P pn dn pe de)) (pinNamespaceFromIDLocked env i)
    (act (\<lambda>ns pn dn pe de. Q ns \<and> named i ns \<and> P pn dn pe de))"
proof -
  have "act (\<lambda>n pn dn pe de. n = ns \<and> P pn dn pe de) (b', t')"
    if "bindNamespace env ns (b, t) = (Inr x, b', t')" "txStatus t = TxStatusActive"
      "P (txPendingNodes t) (txDeletedNodes t) (txPendingEdges t) (txDeletedEdges t)" for b t b' t' x ns
  proof -
    obtain q b1 t1 where q: "refreshReadVersionForNamespaceLocked env (b, t\<lparr>txNamespace := ns\<rparr>) = (q, b1, t1)"
      by (metis prod.exhaust)
    have "act (\<lambda>n pn dn pe de. n = ns \<and> P pn dn pe de) (b1, t1)"
      using presD [OF act.refresh [of "\<lambda>n pn dn pe de. n = ns \<and> P pn dn pe de" env],
          of "(b, t\<lparr>txNamespace := ns\<rparr>)"] q that by (simp add: act_def)
    then show ?thesis
      using that q by (auto simp: bindNamespace_def thn_def bnd_def on_error_def split: sum.splits)
  qed
  then show ?thesis
    unfolding good_def
    by (intro hoareI)
      (fastforce simp: pinNamespaceFromIDLocked_def act_def intro: assms split: option.splits if_splits)+
qed

lemma good_pin_id:
  "good (act (\<lambda>_. P)) (pinNamespaceFromIDLocked env i) (act (\<lambda>ns pn dn pe de. named i ns \<and> P pn dn pe de))"
  using good_pin [of "\<lambda>_. True" i P env] by simp

lemma good_pin_edge:
  "good (act (\<lambda>_. P)) (pinEdgeNamespaceLocked env e)
     (act (\<lambda>ns pn dn pe de. named (eID e) ns \<and> P pn dn pe de))"
proof -
  let ?Q = "\<lambda>ns pn dn pe de. named (eID e) ns \<and> P pn dn pe de"
  have opt: "good (act ?Q) (if i \<noteq> [] then pinNamespaceFromIDLocked env i else ret ()) (act ?Q)" for i
  proof (rule good_if)
    have "good (act ?Q) (pinNamespaceFromIDLocked env i)
        (act (\<lambda>ns pn dn pe de. named (eID e) ns \<and> named i ns \<and> P pn dn pe de))"
    proof (rule good_pin)
      show "named (eID e) ns \<Longrightarrow> named i ns' \<Longrightarrow> ns = [] \<or> ns = ns' \<Longrightarrow> named (eID e) ns'" for ns ns'
        using ParseDatabasePrefix_Some [of "eID e"] by metis
    qed
    then show "good (act ?Q) (pinNamespaceFromIDLocked env i) (act ?Q)"
      unfolding good_def by (rule hoare_weaken) (auto simp: act_def)
    show "good (act ?Q) (ret ()) (act ?Q)" by (rule good_pres [OF pres_ret])
  qed
  show ?thesis
    unfolding pinEdgeNamespaceLocked_def by (rule good_thn [OF good_pin_id good_thn [OF opt opt]])
qed

section \<open>What each write leaves pending\<close>

definition node_pending :: "node \<Rightarrow> engine \<times> tx \<Rightarrow> bool" where
  "node_pending n = act (\<lambda>ns pn dn pe de. named (nID n) ns \<and> map_of pn (nID n) = Some (copyNode n)
     \<and> nID n \<notin> set dn)"

definition edge_pending :: "edge \<Rightarrow> engine \<times> tx \<Rightarrow> bool" where
  "edge_pending e = act (\<lambda>ns pn dn pe de. named (eID e) ns \<and> map_of pe (eID e) = Some (copyEdge e)
     \<and> eID e \<notin> set de)"

lemma good_CreateNode: "good (act (\<lambda>_ _ _ _ _. True)) (CreateNode env n) (node_pending n)"
  unfolding CreateNode_def node_pending_def
  by (rule good_thn [OF good_ensure], rule good_thn_keep [OF pres_check], rule good_thn [OF good_pin_id])
    (rule good_establish good_thn_keep good_bnd_keep hoare_rules frame_rules | simp add: update_conv')+

lemma good_UpdateNode:
  "good (act (\<lambda>_ pn dn _ _. nID n \<notin> set dn)) (UpdateNode env n) (node_pending n)"
  unfolding UpdateNode_def node_pending_def case_prod_unfold
  by (rule good_thn [OF good_ensure], rule good_thn_keep [OF pres_check], rule good_thn [OF good_pin_id])
    (rule good_establish good_thn_keep good_bnd_keep hoare_rules frame_rules | simp add: update_conv')+

lemma good_DeleteNode:
  "good (act (\<lambda>_ _ _ _ _. True)) (DeleteNode env i)
     (act (\<lambda>ns pn dn pe de. named i ns \<and> i \<in> set dn))"
  unfolding DeleteNode_def
  by (rule good_thn [OF good_ensure], rule good_thn_keep [OF pres_check], rule good_thn [OF good_pin_id])
    (rule good_establish good_thn_keep good_bnd_keep hoare_rules frame_rules | simp)+

lemma good_CreateEdge:
  "good (act (\<lambda>_ _ _ _ de. eID e \<notin> set de)) (CreateEdge env e) (edge_pending e)"
  unfolding CreateEdge_def bufferNewEdge_def edge_pending_def
  by (rule good_thn [OF good_ensure], rule good_thn_keep [OF pres_check], rule good_thn [OF good_pin_edge])
    (rule good_establish good_thn_keep good_bnd_keep hoare_rules frame_rules | simp add: update_conv')+

lemma good_UpdateEdge:
  "good (act (\<lambda>_ _ _ _ de. eID e \<notin> set de)) (UpdateEdge env e) (edge_pending e)"
  unfolding UpdateEdge_def edge_pending_def
  by (rule good_thn_keep [OF pres_check], rule good_thn [OF good_ensure], rule good_thn [OF good_pin_edge])
    (rule good_establish good_thn_keep good_bnd_keep hoare_rules frame_rules | simp add: update_conv')+

lemma good_DeleteEdge:
  "good (act (\<lambda>_ _ _ _ _. True)) (DeleteEdge env i)
     (act (\<lambda>ns pn dn pe de. named i ns \<and> i \<in> set de))"
  unfolding DeleteEdge_def
  by (rule good_thn [OF good_ensure], rule good_thn_keep [OF pres_check], rule good_thn [OF good_pin_id])
    (rule good_establish good_thn_keep good_bnd_keep hoare_rules frame_rules | simp)+

section \<open>The snapshot\<close>

text \<open>The read version of a namespace as it was when the transaction began.\<close>

definition begin_version :: "tx \<Rightarrow> string \<Rightarrow> mvcc_version" where
  "begin_version t ns =
     (case map_of (txBeginSnapshot t) ns of Some v \<Rightarrow> v | None \<Rightarrow> MVCCVersion (txStartTime t) 0)"

definition begun :: "tx \<Rightarrow> db \<Rightarrow> engine \<times> tx \<Rightarrow> bool" where
  "begun t0 d = (\<lambda>(b, t). txStartTime t = txStartTime t0 \<and> txBeginSnapshot t = txBeginSnapshot t0
     \<and> (txNamespace t \<noteq> [] \<longrightarrow> txReadTS t = begin_version t0 (txNamespace t))
     \<and> (txStatus t = TxStatusActive \<longrightarrow> txSnapshot t = Some d))"

lemma begun_static: "begun t0 d (b, t) \<Longrightarrow> static t' = static t \<Longrightarrow> begun t0 d (b', t')"
  by (simp add: begun_def static_def)

lemma begun_bind:
  assumes "begun t0 d (b, t)"
  shows "begun t0 d (snd (bindNamespace env ns (b, t)))"
proof -
  have drop: "dropReader (b2, t2) = (Inr (), b1, t1) \<Longrightarrow> static t1 = static t2" for b2 t2 b1 t1
    by (auto simp: dropReader_def static_def split: option.splits)
  obtain r b' t' where r: "refreshReadVersionForNamespaceLocked env (b, t\<lparr>txNamespace := ns\<rparr>) = (r, b', t')"
    by (metis prod.exhaust)
  have "txStartTime t' = txStartTime t \<and> txBeginSnapshot t' = txBeginSnapshot t \<and> txStatus t' = txStatus t
      \<and> txSnapshot t' = txSnapshot t \<and> txNamespace t' = ns \<and> txReadTS t' = begin_version t ns"
    using r
    by (auto simp: refreshReadVersionForNamespaceLocked_def thn_def bnd_def Let_def begin_version_def
        dropReader_def modify_def split: if_splits sum.splits prod.splits option.splits)
  moreover have "begin_version t ns = begin_version t0 ns"
    using assms by (simp add: begun_def begin_version_def split: option.split)
  ultimately have "begun t0 d (b', t')"
    using assms by (simp add: begun_def)
  then show ?thesis
    using r by (auto simp: bindNamespace_def thn_def bnd_def on_error_def begun_def split: sum.splits)
qed

interpretation begun: buffer_frame "begun t0 d" for t0 d
  by unfold_locales (rule begun_static, assumption, rule core_eq)

interpretation begun: call_frame "begun t0 d" for t0 d
proof unfold_locales
  fix b t t' env ns
  show "begun t0 d (b, t) \<Longrightarrow> static t' = static t \<Longrightarrow> begun t0 d (b, t')" by (rule begun_static)
  show "begun t0 d (b, t) \<Longrightarrow> begun t0 d (snd (bindNamespace env ns (b, t)))" by (rule begun_bind)
qed (simp_all add: begun_def)

lemma begun_commit: "pres (begun t0 d) (Commit env)"
proof -
  have "pres (begun t0 d) (kvCommitStep env)" "pres (begun t0 d) (allocateStep env)"
    "pres (begun t0 d) (materializeStep v)" for v
    by (auto simp: pres_iff kvCommitStep_def allocateStep_def materializeStep_def begun_def
        split: option.splits prod.splits sum.splits)
  then show ?thesis
    unfolding Commit_def prepare_def publish_def
    by (intro hoare_rules begun.close begun.ensure begun.closing_frame begun.buffers begun.flush begun.static_modify;
        simp add: static_def)
qed

lemma begun_call: "pres (begun t0 d) (run_call env c)"
  using begun.calls [of c t0 d env] begun_commit by (cases "c = CallCommit") (auto intro: hoare_rules)

text \<open>The states a transaction reaches through its own calls, when between any two of them peers may
  do anything to the engine and the surroundings may answer anything.\<close>

inductive session :: "tx \<Rightarrow> tx \<Rightarrow> bool" for t0 where
  start: "session t0 t0"
| call: "session t0 t \<Longrightarrow> run_call env c (b, t) = (r, b', t') \<Longrightarrow> session t0 t'"

lemma begun_session:
  assumes "BeginTransaction env b = Inr t" "session t t'"
  shows "begun t (edb b) (b', t')"
  using assms(2)
proof (induction arbitrary: b' rule: session.induct)
  case start
  show ?case
    using assms(1) by (auto simp: BeginTransaction_def Let_def begun_def split: if_splits)
next
  case (call t1 env c b1 r b2 t2)
  then show ?case
    using presD [OF begun_call [of t "edb b" env c], of "(b1, t1)"] begun_static by fastforce
qed

lemma ensure_keeps:
  "txStatus t = TxStatusActive \<Longrightarrow> evaluateSnapshotReader env b (txReaderInfo t) = (False, False) \<Longrightarrow>
    ensureLifecycleActiveLocked env (b, t) = (Inr (), b, t)"
  by (simp add: ensureLifecycleActiveLocked_def)

lemma pin_keeps: "named i (txNamespace t) \<Longrightarrow> pinNamespaceFromIDLocked env i (b, t) = (Inr (), b, t)"
  by (auto simp: pinNamespaceFromIDLocked_def dest: ParseDatabasePrefix_Some)

lemma history_at_cases:
  "history_at h v = Inl ErrNotFound \<or> history_at h v = Inl ErrNotVisibleAtSnapshot
    \<or> (\<exists>w bd. (w, Some bd) \<in> set h \<and> (history_at h v = Inr bd \<or> history_at h v = Inr (archived bd)))"
proof (cases h)
  case (Cons e old)
  obtain w ob where e: "e = (w, ob)" by fastforce
  have "find (\<lambda>e. fst e \<le> v) old = Some (u, ob') \<Longrightarrow> (u, ob') \<in> set old" for u ob'
    by (auto simp: find_Some_iff)
  then show ?thesis
    using Cons e by (auto simp: history_at_def of_state_def split: option.splits; metis)
qed (simp add: history_at_def)

lemma getCommittedNode_history:
  assumes r: "represents (kv_get (kv d)) (N i) h" and d: "txSnapshot t = Some d"
    and v: "norm_version (txReadTS t)" and e: "\<not> lifecycleEnabled b" "\<forall>bd. \<not> decayed env bd"
    and h: "history_at h (txReadTS t) = Inl ErrNotFound \<longrightarrow> h = [] \<or> fst (hd h) \<le> txReadTS t"
  shows "getCommittedNodeLocked env b t i
    = map_sum (\<lambda>_. ErrNotFound) id (nodeBody (history_at h (txReadTS t)))"
proof -
  have view: "snapshotView b t = begin_txn d" using d by (simp add: snapshotView_def)
  have g: "represents (txn_get (begin_txn d)) (N i) h"
    using r by (simp add: fun_eq_iff cong: represents_cong)
  have "hide_decayed (decayed env) q = q" for q
    using e by (simp add: hide_decayed_def split: sum.splits)
  then have read: "visibleAtWithView env b (begin_txn d) (N i) (txReadTS t) = history_at h (txReadTS t)"
    using visible_history [OF g v] e by (simp add: visibleAtWithView_def acquireSnapshotReader_def)
  have prim: "readPrimary (begin_txn d) (N i) = Inl ErrNotFound" if "history_at h (txReadTS t) = Inl ErrNotFound"
  proof (cases h)
    case Nil
    then show ?thesis using g by (simp add: represents_def readPrimary_def nodeOf_def)
  next
    case (Cons e old)
    then show ?thesis
      using g h that by (cases e) (auto simp: represents_def readPrimary_def nodeOf_def history_at_def of_state_def
          split: option.splits)
  qed
  have good: "good_history (N i) h" using represents_good [OF r] .
  have node: "\<exists>n. bd = BN n" if "(w, Some bd) \<in> set h" for w bd
    using good that by (cases bd) (auto simp: good_history_def)
  have "history_at h (txReadTS t) = Inl ErrNotFound \<or> history_at h (txReadTS t) = Inl ErrNotVisibleAtSnapshot
     \<or> (\<exists>n. history_at h (txReadTS t) = Inr (BN n))"
  proof -
    have arch: "\<exists>n. archived (BN m) = BN n" for m
      using archived_body_ent [of "BN m"] by (cases "archived (BN m)") simp_all
    show ?thesis
      using history_at_cases [of h "txReadTS t"] node arch by metis
  qed
  then show ?thesis
    using norm_version_not_zero [OF v] prim
    by (auto simp: getCommittedNodeLocked_def view read Let_def nodeBody_def getNodeFromBadgerSnapshotLocked_def)
qed

lemma GetNode_eq:
  assumes "txStatus t = TxStatusActive" "evaluateSnapshotReader env b (txReaderInfo t) = (False, False)"
    and "named i (txNamespace t)"
  shows "run_call env (CallGetNode i) (b, t) =
    (map_sum id GotNode (if i \<in> set (txDeletedNodes t) then Inl ErrNotFound
       else case map_of (txPendingNodes t) i of Some n \<Rightarrow> Inr (copyNode n)
            | None \<Rightarrow> getCommittedNodeLocked env b t i), b, t)"
  using ensure_keeps [OF assms(1,2)] pin_keeps [OF assms(3)]
  by (simp add: GetNode_def thn_def bnd_def lift_result_def split: option.split sum.split)

lemma GetEdge_eq:
  assumes "txStatus t = TxStatusActive" "evaluateSnapshotReader env b (txReaderInfo t) = (False, False)"
    and "named i (txNamespace t)"
  shows "run_call env (CallGetEdge i) (b, t) =
    (map_sum id GotEdge (if i \<in> set (txDeletedEdges t) then Inl ErrNotFound
       else case map_of (txPendingEdges t) i of Some e \<Rightarrow> Inr (copyEdge e)
            | None \<Rightarrow> getCommittedEdgeLocked env b t i), b, t)"
  using ensure_keeps [OF assms(1,2)] pin_keeps [OF assms(3)]
  by (simp add: GetEdge_def thn_def bnd_def lift_result_def split: option.split sum.split)

definition demo_edge :: "string \<Rightarrow> string \<Rightarrow> string \<Rightarrow> edge" where
  "demo_edge i a b = \<lparr>eID = i, eStartNode = a, eEndNode = b, eType = ''T'', eProperties = None,
     eCreatedAt = 0, eUpdatedAt = 0, eConfidence = 0, eAutoGenerated = False, eVisibilitySuppressed = False\<rparr>"

lemma demo_fields [simp]:
  "nID (demo_node i ls) = i" "copyNode (demo_node i ls) = demo_node i ls"
  "eID (demo_edge i a b) = i" "copyEdge (demo_edge i a b) = demo_edge i a b"
  by (simp_all add: demo_node_def demo_edge_def copyNode_def copyEdge_def)

lemma env_ok_reader [simp]: "evaluateSnapshotReader env_ok b r = (False, False)"
  by (simp add: evaluateSnapshotReader_def env_ok_def)

section \<open>Properties\<close>

text \<open>
  Claim C21. A transaction reads its own node writes: after a \<^verbatim>\<open>CreateNode\<close> that succeeds, or an
  \<^verbatim>\<open>UpdateNode\<close> of a node it did not delete before, \<^verbatim>\<open>GetNode\<close> returns the written node, and the
  read changes nothing, unless the lifecycle controller expires the transaction in between.
\<close>

theorem node_writes_are_read:
  assumes "run_call env c (b, t) = (Inr r, b', t')"
    and "c = CallCreateNode n \<or> c = CallUpdateNode n \<and> nID n \<notin> set (txDeletedNodes t)"
    and "evaluateSnapshotReader env' b' (txReaderInfo t') = (False, False)"
  shows "run_call env' (CallGetNode (nID n)) (b', t') = (Inr (GotNode (copyNode n)), b', t')"
proof -
  have "\<exists>u s1. (CreateNode env n (b, t) = (Inr u, b', t'))
      \<or> (UpdateNode env n (b, t) = (Inr (), b', t') \<and> nID n \<notin> set (txDeletedNodes t))"
    using assms(1,2) by (auto simp: thn_Inr bnd_Inr)
  moreover have "txStatus t = TxStatusActive"
    using assms(1,2) ensure_active
    by (fastforce simp: thn_Inr bnd_Inr CreateNode_def UpdateNode_def)
  ultimately have "node_pending n (b', t')"
    using goodD [OF good_CreateNode [of env n], of "(b, t)" _ "(b', t')"]
      goodD [OF good_UpdateNode [of n env], of "(b, t)" _ "(b', t')"]
    by (auto simp: act_def)
  then show ?thesis
    using assms(3)
    using GetNode_eq [of t' env' b' "nID n"] by (simp add: node_pending_def act_def)
qed

theorem node_writes_are_read_witness:
  "\<exists>b' t'. run_call env_ok (CallCreateNode (demo_node ''a:2'' [])) (demo_engine1, demo_tx) = (Inr (GotID ''a:2''), b', t')
     \<and> run_call env_ok (CallGetNode ''a:2'') (b', t') = (Inr (GotNode (demo_node ''a:2'' [])), b', t')"
proof -
  let ?c = "CallCreateNode (demo_node ''a:2'' [])"
  have "fst (run_call env_ok ?c (demo_engine1, demo_tx)) = Inr (GotID ''a:2'')"
    by code_simp
  then obtain b' t' where r: "run_call env_ok ?c (demo_engine1, demo_tx) = (Inr (GotID ''a:2''), b', t')"
    by (metis prod.collapse)
  then show ?thesis
    using node_writes_are_read [OF r, of "demo_node ''a:2'' []" env_ok] by auto
qed

text \<open>
  Claim C22. A transaction reads its own edge writes: after a \<^verbatim>\<open>CreateEdge\<close> or \<^verbatim>\<open>UpdateEdge\<close> that
  succeeds, of an edge the transaction did not delete before, \<^verbatim>\<open>GetEdge\<close> returns the written edge and
  changes nothing, unless the lifecycle controller expires the transaction in between.
\<close>

theorem edge_writes_are_read:
  assumes "run_call env c (b, t) = (Inr r, b', t')"
    and "c = CallCreateEdge e \<or> c = CallUpdateEdge e" "eID e \<notin> set (txDeletedEdges t)"
    and "evaluateSnapshotReader env' b' (txReaderInfo t') = (False, False)"
  shows "run_call env' (CallGetEdge (eID e)) (b', t') = (Inr (GotEdge (copyEdge e)), b', t')"
proof -
  have "CreateEdge env e (b, t) = (Inr (), b', t') \<or> UpdateEdge env e (b, t) = (Inr (), b', t')"
    using assms(1,2) by (auto simp: thn_Inr bnd_Inr)
  moreover have "txStatus t = TxStatusActive"
    using assms(1,2) ensure_active
    by (fastforce simp: thn_Inr bnd_Inr CreateEdge_def UpdateEdge_def)
  ultimately have "edge_pending e (b', t')"
    using goodD [OF good_CreateEdge [of e env], of "(b, t)" _ "(b', t')"] assms(3)
      goodD [OF good_UpdateEdge [of e env], of "(b, t)" _ "(b', t')"]
    by (auto simp: act_def)
  then show ?thesis
    using assms(4)
    using GetEdge_eq [of t' env' b' "eID e"] by (simp add: edge_pending_def act_def)
qed

theorem edge_writes_are_read_witness:
  "\<exists>b' t'. run_call env_ok (CallCreateEdge (demo_edge ''a:e'' ''a:1'' ''a:1'')) (demo_engine1, demo_tx) = (Inr Done, b', t')
     \<and> run_call env_ok (CallGetEdge ''a:e'') (b', t') = (Inr (GotEdge (demo_edge ''a:e'' ''a:1'' ''a:1'')), b', t')"
proof -
  let ?e = "demo_edge ''a:e'' ''a:1'' ''a:1''"
  have "fst (run_call env_ok (CallCreateEdge ?e) (demo_engine1, demo_tx)) = Inr Done \<and> txDeletedEdges demo_tx = []"
    by code_simp
  then obtain b' t' where r: "run_call env_ok (CallCreateEdge ?e) (demo_engine1, demo_tx) = (Inr Done, b', t')"
    and d: "txDeletedEdges demo_tx = []"
    by (metis prod.collapse)
  then show ?thesis
    using edge_writes_are_read [OF r, of ?e env_ok] by auto
qed

text \<open>
  What a transaction deletes it does not find again.
\<close>

theorem deletes_are_read:
  assumes "run_call env c (b, t) = (Inr r, b', t')"
    and "evaluateSnapshotReader env' b' (txReaderInfo t') = (False, False)"
    and "c = CallDeleteNode i \<and> q = CallGetNode i \<or> c = CallDeleteEdge i \<and> q = CallGetEdge i"
  shows "run_call env' q (b', t') = (Inl ErrNotFound, b', t')"
proof -
  have "DeleteNode env i (b, t) = (Inr (), b', t') \<and> q = CallGetNode i
      \<or> DeleteEdge env i (b, t) = (Inr (), b', t') \<and> q = CallGetEdge i"
    using assms(1,3) by (auto simp: thn_Inr bnd_Inr)
  moreover have "txStatus t = TxStatusActive"
    using assms(1,3) ensure_active
    by (fastforce simp: thn_Inr bnd_Inr DeleteNode_def DeleteEdge_def)
  ultimately have "act (\<lambda>ns pn dn pe de. named i ns \<and> i \<in> set dn) (b', t') \<and> q = CallGetNode i
      \<or> act (\<lambda>ns pn dn pe de. named i ns \<and> i \<in> set de) (b', t') \<and> q = CallGetEdge i"
    using goodD [OF good_DeleteNode [of env i], of "(b, t)" _ "(b', t')"]
      goodD [OF good_DeleteEdge [of env i], of "(b, t)" _ "(b', t')"]
    by (auto simp: act_def)
  then show ?thesis
    using assms(2)
    using GetNode_eq [of t' env' b' i] GetEdge_eq [of t' env' b' i] by (auto simp: act_def)
qed

definition demo_created :: "engine \<times> tx" where
  "demo_created = snd (run_call env_ok (CallCreateNode (demo_node ''a:2'' [])) (demo_engine1, demo_tx))"

theorem deletes_are_read_witness:
  "\<exists>b' t'. run_call env_ok (CallDeleteNode ''a:2'') demo_created = (Inr Done, b', t')
     \<and> run_call env_ok (CallGetNode ''a:2'') (b', t') = (Inl ErrNotFound, b', t')"
proof -
  obtain b t where s: "demo_created = (b, t)" by fastforce
  have "fst (run_call env_ok (CallDeleteNode ''a:2'') demo_created) = Inr Done"
    by code_simp
  then obtain b' t' where r: "run_call env_ok (CallDeleteNode ''a:2'') (b, t) = (Inr Done, b', t')"
    by (metis prod.collapse s)
  then show ?thesis
    using deletes_are_read [OF r, of env_ok "''a:2''" "CallGetNode ''a:2''"] s by auto
qed

text \<open>
  Claim C4. Snapshot reads: whatever the transaction did since it began, and whatever peers and the
  surroundings did to the engine between its calls, a node it did not write itself reads as the
  history of the node had it at the read version of the namespace when the transaction began. (The
  history may answer a deletion only when nothing newer is in the snapshot.)
\<close>

theorem snapshot_reads:
  assumes "BeginTransaction env0 b0 = Inr t0" "session t0 t" "txStatus t = TxStatusActive"
    and "represents (kv_get (kv (edb b0))) (N i) h"
    and "ParseDatabasePrefix i = Some (txNamespace t, raw)"
    and "map_of (txPendingNodes t) i = None" "i \<notin> set (txDeletedNodes t)"
    and "norm_version (begin_version t0 (txNamespace t))"
    and "\<not> lifecycleEnabled b" "\<forall>bd. \<not> decayed env bd"
    and "history_at h (begin_version t0 (txNamespace t)) = Inl ErrNotFound \<longrightarrow>
      h = [] \<or> fst (hd h) \<le> begin_version t0 (txNamespace t)"
  shows "run_call env (CallGetNode i) (b, t) =
    (map_sum (\<lambda>_. ErrNotFound) GotNode (nodeBody (history_at h (begin_version t0 (txNamespace t)))), b, t)"
proof -
  have g: "begun t0 (edb b0) (b, t)" by (rule begun_session [OF assms(1,2)])
  then have ts: "txReadTS t = begin_version t0 (txNamespace t)" and d: "txSnapshot t = Some (edb b0)"
    using assms(3,5) ParseDatabasePrefix_Some [OF assms(5)] by (simp_all add: begun_def)
  have "getCommittedNodeLocked env b t i
      = map_sum (\<lambda>_. ErrNotFound) id (nodeBody (history_at h (txReadTS t)))"
    by (rule getCommittedNode_history [OF assms(4) d]) (use assms ts in simp_all)
  moreover have "evaluateSnapshotReader env b (txReaderInfo t) = (False, False)"
    using assms by (simp add: evaluateSnapshotReader_def)
  ultimately show ?thesis
    using GetNode_eq [of t env b i] assms(3,5,6,7) ts
    by (cases "nodeBody (history_at h (txReadTS t))") simp_all
qed

definition demo_pinned :: tx where
  "demo_pinned = snd (snd (run_call env_ok (CallSetNamespace ''a'') (demo_engine1, demo_tx)))"

theorem snapshot_reads_witness:
  "run_call env_ok (CallGetNode ''a:1'') (demo_engine\<lparr>edb := \<lparr>kv = [], commitTs = 3\<rparr>\<rparr>, demo_pinned)
   = (Inr (GotNode (demo_node ''a:1'' [''B''])), demo_engine\<lparr>edb := \<lparr>kv = [], commitTs = 3\<rparr>\<rparr>, demo_pinned)"
proof -
  have s: "session demo_tx demo_pinned"
    by (rule session.call [OF session.start, where env = env_ok and c = "CallSetNamespace ''a''" and b = demo_engine1])
      (simp add: demo_pinned_def prod_eq_iff del: run_call.simps)
  have f: "(txStatus demo_pinned, txNamespace demo_pinned, txPendingNodes demo_pinned, txDeletedNodes demo_pinned,
      begin_version demo_tx ''a'') = (TxStatusActive, ''a'', [], [], MVCCVersion 1000 2)"
    by code_simp
  have r: "represents (kv_get (kv (edb demo_engine1))) (N ''a:1'') demo_history"
    using represents_demo by (simp add: demo_engine1_def demo_engine_def)
  have p: "ParseDatabasePrefix ''a:1'' = Some (''a'', ''1'')" by code_simp
  have h: "nodeBody (history_at demo_history (MVCCVersion 1000 2)) = Inr (demo_node ''a:1'' [''B''])"
    by (simp add: history_at_def demo_history_def of_state_def less_eq_mvcc_version_def nodeBody_def)
  show ?thesis
    using snapshot_reads [OF demo_begins s _ r, of "''1''" "demo_engine\<lparr>edb := \<lparr>kv = [], commitTs = 3\<rparr>\<rparr>" env_ok] f p h
    by (auto simp: norm_version_def in_nano_range_def demo_engine_def env_ok_def demo_history_def history_at_def
        less_eq_mvcc_version_def)
qed

end
