(* ===== verification/TxTracking.thy ===== *)
theory TxTracking
  imports TxReads
begin

text \<open>
  The keys a transaction enrolls in the conflict detection of the key-value store. The snapshot
  checks of a commit look at the committed data once; what a peer commits between them and the
  commit of the store is caught only on enrolled keys. The invariant: every update of a committed row
  has enrolled the row's primary key, and every deletion of a node has enrolled the head of the node
  and the heads and primary keys of the edges it deleted. (A deletion of an edge enrolls nothing.)
\<close>

section \<open>The invariant\<close>

definition creates_edge :: "operation list \<Rightarrow> string \<Rightarrow> bool" where
  "creates_edge ops i \<longleftrightarrow> (\<exists>op \<in> set ops. opType op = OpCreateEdge \<and> opEdgeID op = i)"

definition cascade_keys :: "string list \<Rightarrow> key list" where
  "cascade_keys is = map (\<lambda>i. HeadKey (E i)) is @ map (\<lambda>i. Primary (E i)) is"

text \<open>The keys an operation relies on.\<close>

definition op_keys :: "operation list \<Rightarrow> operation \<Rightarrow> key list" where
  "op_keys ops op = (case opType op of
     OpUpdateNode \<Rightarrow> [Primary (N (opNodeID op))]
   | OpDeleteNode \<Rightarrow> HeadKey (N (opNodeID op)) # cascade_keys (opDeletedEdgeIDs op)
   | OpUpdateEdge \<Rightarrow> if creates_edge ops (opEdgeID op) then [] else [Primary (E (opEdgeID op))]
   | _ \<Rightarrow> [])"

abbreviation enrolled :: "tx \<Rightarrow> key set" where
  "enrolled t \<equiv> set (readKeys (txBadger t))"

text \<open>A pending row was created by the transaction or enrolled.\<close>

definition pending_tracked :: "key set \<Rightarrow> operation list \<Rightarrow> (string \<times> node) list \<Rightarrow> (string \<times> edge) list \<Rightarrow> bool" where
  "pending_tracked ks ops pn pe \<longleftrightarrow>
     (\<forall>i. map_of pn i \<noteq> None \<longrightarrow> 0 \<le> pendingCreateIndex i ops (length ops) \<or> Primary (N i) \<in> ks)
   \<and> (\<forall>i. map_of pe i \<noteq> None \<longrightarrow> creates_edge ops i \<or> Primary (E i) \<in> ks)"

definition tracks :: "kv \<Rightarrow> key set \<Rightarrow> operation list \<Rightarrow> engine \<times> tx \<Rightarrow> bool" where
  "tracks d ks ops = (\<lambda>(b, t). base (txBadger t) = d \<and> version_keys (writes (txBadger t))
     \<and> ks \<subseteq> enrolled t \<and> txOperations t = ops
     \<and> (\<forall>op \<in> set ops. set (op_keys ops op) \<subseteq> enrolled t)
     \<and> pending_tracked (enrolled t) ops (txPendingNodes t) (txPendingEdges t))"

definition tracked :: "kv \<Rightarrow> engine \<times> tx \<Rightarrow> bool" where
  "tracked d = (\<lambda>(b, t). tracks d {} (txOperations t) (b, t))"

lemma tracks_tracked: "tracks d ks ops s \<Longrightarrow> tracked d s"
  by (auto simp: tracks_def tracked_def)

lemma tracked_tracks: "tracked d s \<Longrightarrow> tracks d {} (txOperations (snd s)) s"
  by (auto simp: tracked_def)

lemma pending_tracked_mono: "pending_tracked ks ops pn pe \<Longrightarrow> ks \<subseteq> ks' \<Longrightarrow> pending_tracked ks' ops pn pe"
  by (auto simp: pending_tracked_def)

interpretation tracks: track_frame "tracks d ks ops" for d ks ops
proof unfold_locales
  fix b t t'
  assume a: "tracks d ks ops (b, t)" "core t' = core t" "statement_reads (txBadger t) (txBadger t')"
  then show "tracks d ks ops (b, t')"
    using core_eq [OF a(2)]
    by (auto simp: tracks_def statement_reads_def intro: pending_tracked_mono)
qed

interpretation tracks: bind_frame "tracks d ks ops" for d ks ops
  by unfold_locales (simp_all add: tracks_def)

interpretation tracks: session_frame "tracks d ks ops" for d ks ops
  by unfold_locales (simp add: tracks_def)

lemma pins_tracks [frame_rules]:
  "pres (tracks d ks ops) (SetNamespace env ns)" "pres (tracks d ks ops) (pinNamespaceFromIDLocked env i)"
  "pres (tracks d ks ops) (pinEdgeNamespaceLocked env e)"
proof -
  have b: "tracks d ks ops (b, t) \<Longrightarrow> tracks d ks ops (snd (bindNamespace env ns (b, t)))" for b t ns
    by (rule tracks.bind_pres) (simp_all add: tracks_def)
  show p: "pres (tracks d ks ops) (SetNamespace env ns)"
    "pres (tracks d ks ops) (pinNamespaceFromIDLocked env i)" for ns i
    by (auto simp: pres_iff SetNamespace_def pinNamespaceFromIDLocked_def b split: option.splits)
  show "pres (tracks d ks ops) (pinEdgeNamespaceLocked env e)"
    unfolding pinEdgeNamespaceLocked_def by (intro hoare_rules p)
qed

section \<open>Steps that enroll\<close>

text \<open>\<open>tk\<close> is the triple of the invariant: with a value more keys may be enrolled, with an error the
  invariant holds as well.\<close>

definition tk :: "kv \<Rightarrow> operation list \<Rightarrow> key set \<Rightarrow> 'a step \<Rightarrow> ('a \<Rightarrow> key set) \<Rightarrow> bool" where
  "tk d ops ks m f \<longleftrightarrow> hoare (tracks d ks ops) m (\<lambda>x. tracks d (f x) ops) (\<lambda>_. tracked d)"

named_theorems tk_rules \<open>steps that enroll keys\<close>

lemma tk_pres: "pres (tracks d ks ops) m \<Longrightarrow> tk d ops ks m (\<lambda>_. ks)"
  unfolding tk_def pres_def by (erule hoare_weaken) (auto dest: tracks_tracked)

lemma tk_bnd: "tk d ops ks m g \<Longrightarrow> (\<And>x. tk d ops (g x) (f x) h) \<Longrightarrow> tk d ops ks (bnd m f) h"
  unfolding tk_def by (rule hoare_bnd)

lemma tk_thn: "tk d ops ks m g \<Longrightarrow> (\<And>x. tk d ops (g x) k h) \<Longrightarrow> tk d ops ks (thn m k) h"
  unfolding thn_def by (rule tk_bnd)

lemma trackReads_tk:
  assumes "\<And>k. k \<in> set l \<Longrightarrow> \<forall>x v. k \<noteq> VersionKey x v"
  shows "tk d ops ks (trackReads l) (\<lambda>_. set l \<union> ks)"
proof -
  have "{k \<in> set l. map_of (writes u) k = None} = set l" if "version_keys (writes u)" for u
    using that assms by (fastforce simp: version_keys_def map_of_eq_None_iff)
  then show ?thesis
    by (auto simp: tk_def hoare_def tracks_def trackReads_def version_keys_def intro: pending_tracked_mono)
qed

lemma tk_weak: "tk d ops ks m g \<Longrightarrow> (\<And>x. h x \<subseteq> g x) \<Longrightarrow> tk d ops ks m h"
  unfolding tk_def by (erule hoare_weaken) (fastforce simp: tracks_def)+

lemma tk_fail: "tk d ops ks (fail e) g"
  by (auto simp: tk_def hoare_def dest: tracks_tracked)

lemma tk_ret: "g x \<subseteq> ks \<Longrightarrow> tk d ops ks (ret x) g"
  by (fastforce simp: tk_def hoare_def tracks_def)

lemma archive_tk: "tk d ops ks (archiveAtStatement x bd) (\<lambda>_. insert (HeadKey x) ks)"
  unfolding archiveAtStatement_def
proof (rule tk_thn [OF trackReads_tk])
  show "tk d ops (set [HeadKey x] \<union> ks) (\<lambda>(b, t).
     case loadHeadInTxn (txBadger t) x of
       Inr head \<Rightarrow>
         if \<not> Tombstoned head
         then (Inr (), b, t\<lparr>txBadger := archiveBodyInTxn b (txBadger t) x (Some bd) (Version head)\<rparr>)
         else (Inr (), b, t)
     | Inl e \<Rightarrow> if e \<noteq> ErrNotFound then (Inl e, b, t) else (Inr (), b, t)) (\<lambda>_. insert (HeadKey x) ks)"
    by (rule tk_weak [OF tk_pres])
      (auto simp: pres_iff core_def split: sum.splits elim: tracks.tracked)
qed simp

lemma deleteEdgesLoop_tk:
  "tk d ops ks (deleteEdgesLoop ids) (\<lambda>deleted. set (cascade_keys deleted) \<union> ks)"
proof (induction ids arbitrary: ks)
  case Nil
  show ?case unfolding deleteEdgesLoop.simps by (rule tk_ret) (simp add: cascade_keys_def)
next
  case (Cons i ids)
  let ?p = "Primary (E i)" and ?h = "HeadKey (E i)"
  have found: "tk d ops (insert ?p ks) (thn (archiveAtStatement (E i) bd) (thn (deleteEdgeIndexes e)
      (bnd (deleteEdgesLoop ids) (\<lambda>deleted. ret (i # deleted))))) (\<lambda>deleted. set (cascade_keys deleted) \<union> ks)"
    for bd e
    by (rule tk_thn [OF archive_tk], rule tk_thn [OF tk_pres [OF tracks.edge_indexes(1)]],
        rule tk_bnd [OF Cons], rule tk_ret) (auto simp: cascade_keys_def)
  have skip: "tk d ops (insert ?p ks) (deleteEdgesLoop ids) (\<lambda>deleted. set (cascade_keys deleted) \<union> ks)"
    by (rule tk_weak [OF Cons]) auto
  have rest: "tk d ops (insert ?p ks) (case r of
         Inl e \<Rightarrow> if e = ErrNotFound then deleteEdgesLoop ids else fail e
       | Inr edge0 \<Rightarrow> let edge = edge0\<lparr>eID := i\<rparr>
           in thn (archiveAtStatement (E i) (BE edge)) (thn (deleteEdgeIndexes edge)
             (bnd (deleteEdgesLoop ids) (\<lambda>deleted. ret (i # deleted)))))
      (\<lambda>deleted. set (cascade_keys deleted) \<union> ks)" for r
    using found skip tk_fail by (auto simp: Let_def split: sum.split)
  show ?case
    unfolding deleteEdgesLoop.simps
    by (rule tk_thn [OF trackReads_tk], simp, simp, rule tk_bnd [OF tk_pres [OF pres_reads]], rule rest)
qed

lemma deleteNodeBuffered_tk:
  "tk d ops ks (deleteNodeBuffered i n) (\<lambda>deleted. insert (HeadKey (N i)) (set (cascade_keys deleted)))"
proof -
  have loop: "tk d ops ks (deleteEdgesWithPrefixBuffered f g) (\<lambda>deleted. set (cascade_keys deleted) \<union> ks)"
    if "\<And>j x v. g j \<noteq> VersionKey x v" for ks f and g :: "string \<Rightarrow> key"
    unfolding deleteEdgesWithPrefixBuffered_def
    by (rule tk_bnd [OF tk_pres [OF pres_reads]], rule tk_thn [OF trackReads_tk])
      (use that in auto, rule tk_weak [OF deleteEdgesLoop_tk], auto)
  show ?thesis
    unfolding deleteNodeBuffered_def
    by (rule tk_thn [OF archive_tk], rule tk_thn [OF tk_pres], rule pres_for_each, rule tracks.buffers,
        rule tk_thn [OF tk_pres [OF tracks.labels(2)]], rule tk_bnd [OF loop], simp, rule tk_bnd [OF loop], simp,
        (rule tk_thn [OF tk_pres [OF tracks.buffers(2)]])+, rule tk_ret)
      (auto simp: cascade_keys_def)
qed

section \<open>Operations\<close>

text \<open>The end of an operation: the pending rows are updated and the operation is recorded.\<close>

definition fin :: "kv \<Rightarrow> operation list \<Rightarrow> key set \<Rightarrow> 'a step \<Rightarrow> bool" where
  "fin d ops ks m \<longleftrightarrow> hoare (tracks d ks ops) m (\<lambda>_. tracked d) (\<lambda>_. tracked d)"

lemma fin_pres: "pres (tracks d ks ops) m \<Longrightarrow> fin d ops ks m"
  unfolding fin_def pres_def by (erule hoare_weaken) (auto dest: tracks_tracked)

lemma fin_bnd: "tk d ops ks m g \<Longrightarrow> (\<And>x. fin d ops (g x) (f x)) \<Longrightarrow> fin d ops ks (bnd m f)"
  unfolding fin_def tk_def by (rule hoare_bnd)

lemma fin_thn: "tk d ops ks m g \<Longrightarrow> (\<And>x. fin d ops (g x) k) \<Longrightarrow> fin d ops ks (thn m k)"
  unfolding thn_def by (rule fin_bnd)

lemma fin_keep: "pres (tracks d ks ops) m \<Longrightarrow> fin d ops ks k \<Longrightarrow> fin d ops ks (thn m k)"
  by (rule fin_thn [OF tk_pres])

lemma fin_keep_bnd: "pres (tracks d ks ops) m \<Longrightarrow> (\<And>x. fin d ops ks (f x)) \<Longrightarrow> fin d ops ks (bnd m f)"
  by (rule fin_bnd [OF tk_pres])

lemma fin_last: "fin d ops ks m \<Longrightarrow> fin d ops ks (thn m (ret x))"
  unfolding fin_def by (erule hoare_thn) (simp add: hoare_def)

lemma pres_tracked: "(\<And>ops. fin d ops {} m) \<Longrightarrow> pres (tracked d) m"
proof -
  assume f: "\<And>ops. fin d ops {} m"
  show "pres (tracked d) m"
    unfolding pres_def
    by (rule hoareI; drule tracked_tracks)
      (blast intro: hoareD_Inr [OF f [unfolded fin_def]] hoareD_Inl [OF f [unfolded fin_def]])+
qed

abbreviation createIndex :: "operation list \<Rightarrow> string \<Rightarrow> int" where
  "createIndex ops i \<equiv> pendingCreateIndex i ops (length ops)"

lemma pendingCreateIndex_append [simp]: "n \<le> length ops \<Longrightarrow> pendingCreateIndex i (ops @ ops') n = pendingCreateIndex i ops n"
  by (induction n) (auto simp: Let_def nth_append split: op_type.splits)

lemma createIndex_append [simp]:
  "pendingCreateIndex i (ops @ [op]) (Suc (length ops)) =
     (if opNodeID op \<noteq> i then createIndex ops i
      else case opType op of OpDeleteNode \<Rightarrow> - 1 | OpCreateNode \<Rightarrow> int (length ops) | _ \<Rightarrow> createIndex ops i)"
  by (simp add: pendingCreateIndex_append split: op_type.splits)

lemma pendingCreateIndex_cong:
  assumes "map (\<lambda>op. (opType op, opNodeID op)) ops' = map (\<lambda>op. (opType op, opNodeID op)) ops" "n \<le> length ops"
  shows "pendingCreateIndex i ops' n = pendingCreateIndex i ops n"
  using assms(2)
proof (induction n)
  case (Suc n)
  have "(opType (ops' ! n), opNodeID (ops' ! n)) = (opType (ops ! n), opNodeID (ops ! n))"
    using assms(1) Suc.prems by (metis (no_types, lifting) Suc_le_lessD length_map nth_map)
  then show ?case using Suc by (simp split: op_type.splits)
qed simp

lemma creates_edge_append [simp]:
  "creates_edge (ops @ [op]) i \<longleftrightarrow> creates_edge ops i \<or> opType op = OpCreateEdge \<and> opEdgeID op = i"
  by (auto simp: creates_edge_def)

lemma op_keys_append: "set (op_keys (ops @ [op']) op) \<subseteq> set (op_keys ops op)"
  by (auto simp: op_keys_def split: op_type.splits)

lemma fin_record:
  assumes "\<And>t. txBadger (f t) = txBadger t \<and> txOperations (f t) = txOperations t"
    and "set (op_keys (ops @ [op]) op) \<subseteq> ks"
    and "\<And>K t. ks \<subseteq> K \<Longrightarrow> pending_tracked K ops (txPendingNodes t) (txPendingEdges t) \<Longrightarrow>
      pending_tracked K (ops @ [op]) (txPendingNodes (f t)) (txPendingEdges (f t))"
  shows "fin d ops ks (thn (modify f) (addOperation op))"
proof -
  have "tracked d (b, f t\<lparr>txOperations := txOperations (f t) @ [op]\<rparr>)" if "tracks d ks ops (b, t)" for b t
    using that assms(1) [of t] assms(2) assms(3) [of "enrolled t" t] op_keys_append [of ops op]
    by (fastforce simp: tracked_def tracks_def)
  then show ?thesis
    by (auto simp: fin_def hoare_def thn_def bnd_def addOperation_def)
qed

lemma thn_assoc: "thn a (thn b c) = thn (thn a b) c"
  by (auto simp: thn_def bnd_def fun_eq_iff split: prod.splits sum.splits)

lemma map_of_adelete: "map_of (AList.delete k xs) i = (if i = k then None else map_of xs i)"
  by (simp add: delete_conv')

lemma map_of_aupdate: "map_of (AList.update k v xs) i = (if i = k then Some v else map_of xs i)"
  by (simp add: update_conv')

lemma fin_CreateNode: "fin d ops {} (CreateNode env n)"
proof -
  have last: "fin d ops {} (thn (modify (\<lambda>t. t\<lparr>txPendingNodes := AList.update (nID n) (copyNode n) (txPendingNodes t),
        txDeletedNodes := removeAll (nID n) (txDeletedNodes t)\<rparr>))
      (thn (addOperation ((no_op OpCreateNode)\<lparr>opNodeID := nID n, opNode := Some (copyNode n), opFreshID := fr\<rparr>))
        (ret i)))" for fr i
    unfolding thn_assoc
    by (rule fin_last, rule fin_record) (auto simp: no_op_def op_keys_def pending_tracked_def Let_def map_of_aupdate)
  show ?thesis
    unfolding CreateNode_def
    by (rule last | rule hoare_rules frame_rules | rule fin_keep fin_keep_bnd)+
qed

lemma fin_DeleteNode: "fin d ops {} (DeleteNode env i)"
proof -
  have last: "fin d ops (insert (HeadKey (N i)) (set (cascade_keys deleted))) (thn (modify (\<lambda>t. t\<lparr>
        txPendingNodes := AList.delete i (txPendingNodes t), txDeletedNodes := List.insert i (txDeletedNodes t)\<rparr>))
      (addOperation ((no_op OpDeleteNode)\<lparr>opNodeID := i, opOldNode := Some oldNode,
            opEdgesDeleted := length deleted, opDeletedEdgeIDs := deleted\<rparr>)))" for oldNode deleted
    by (rule fin_record) (auto simp: no_op_def op_keys_def pending_tracked_def Let_def map_of_adelete)
  show ?thesis
    unfolding DeleteNode_def
    by (rule last | rule fin_bnd [OF deleteNodeBuffered_tk] | rule hoare_rules frame_rules
        | rule fin_keep fin_keep_bnd)+
qed

lemma fin_DeleteEdge: "fin d ops {} (DeleteEdge env i)"
proof -
  have last: "fin d ops {} (thn (modify (\<lambda>t. t\<lparr>txPendingEdges := AList.delete i (txPendingEdges t),
        txDeletedEdges := List.insert i (txDeletedEdges t)\<rparr>))
      (addOperation ((no_op OpDeleteEdge)\<lparr>opEdgeID := i, opOldEdge := Some e\<rparr>)))" for e
    by (rule fin_record) (auto simp: no_op_def op_keys_def pending_tracked_def Let_def map_of_adelete)
  show ?thesis
    unfolding DeleteEdge_def
    by (rule last | rule hoare_rules frame_rules | rule fin_keep fin_keep_bnd)+
qed

lemma fin_bufferNewEdge: "fin d ops {} (bufferNewEdge env e)"
proof -
  have last: "fin d ops {} (thn
      (modify (\<lambda>t. t\<lparr>txPendingEdges := AList.update (eID e) (copyEdge e) (txPendingEdges t)\<rparr>))
      (addOperation ((no_op OpCreateEdge)\<lparr>opEdgeID := eID e, opEdge := Some (copyEdge e), opFreshID := fr\<rparr>)))"
    for fr
    by (rule fin_record) (auto simp: no_op_def op_keys_def pending_tracked_def Let_def map_of_aupdate)
  show ?thesis
    unfolding bufferNewEdge_def
    by (rule last | rule hoare_rules frame_rules | rule fin_keep fin_keep_bnd)+
qed

lemma fin_CreateEdge: "fin d ops {} (CreateEdge env e)"
  unfolding CreateEdge_def by (rule fin_bufferNewEdge | rule hoare_rules frame_rules | rule fin_keep)+

lemma track_edge:
  "tk d ops {} (trackUnlessPending (\<lambda>t. map_of (txPendingEdges t) i \<noteq> None) (Primary (E i)))
     (\<lambda>_. if creates_edge ops i then {} else {Primary (E i)})"
proof -
  have q: "hoare (tracks d {} ops) (reads (\<lambda>_ t. map_of (txPendingEdges t) i \<noteq> None))
      (\<lambda>p. tracks d (if p \<and> \<not> creates_edge ops i then {Primary (E i)} else {}) ops) (\<lambda>_. tracked d)"
    by (auto simp: hoare_def tracks_def pending_tracked_def)
  have k: "tk d ops (if p \<and> \<not> creates_edge ops i then {Primary (E i)} else {})
      (if p then ret () else trackReads [Primary (E i)])
      (\<lambda>_. if creates_edge ops i then {} else {Primary (E i)})" for p
    by (cases p) (auto simp del: ret_eq intro!: tk_ret tk_weak [OF trackReads_tk])
  show ?thesis
    unfolding tk_def trackUnlessPending_def by (rule hoare_bnd [OF q]) (rule k [unfolded tk_def])
qed

lemma fin_UpdateEdge: "fin d ops {} (UpdateEdge env e)"
proof -
  have last: "fin d ops (if creates_edge ops (eID e) then {} else {Primary (E (eID e))}) (thn
      (modify (\<lambda>t. t\<lparr>txPendingEdges := AList.update (eID e) (copyEdge e) (txPendingEdges t)\<rparr>))
      (addOperation ((no_op OpUpdateEdge)\<lparr>opEdgeID := eID e, opEdge := Some (copyEdge e), opOldEdge := Some old\<rparr>)))"
    for old
    by (rule fin_record) (auto simp: no_op_def op_keys_def pending_tracked_def Let_def map_of_aupdate split: if_splits)
  show ?thesis
    unfolding UpdateEdge_def
    by (rule last | rule fin_thn [OF track_edge] | rule hoare_rules frame_rules | rule fin_keep fin_keep_bnd)+
qed

lemma fin_bulk: "fin d ops {} (bulkCreateLoop env ex es)"
proof (induction env ex es arbitrary: ops rule: bulkCreateLoop.induct)
  case (1 env existence)
  show ?case unfolding bulkCreateLoop.simps by (rule fin_pres) (rule hoare_rules)
next
  case (2 env existence edges)
  show ?case unfolding bulkCreateLoop.simps by (rule fin_pres) (rule hoare_rules)
next
  case (3 env existence edge edges)
  have seq: "fin d ops {} (thn (bufferNewEdge env edge) (bulkCreateLoop env x edges))"
    if "\<And>ops. fin d ops {} (bulkCreateLoop env x edges)" for x
    using hoare_thn [OF fin_bufferNewEdge [unfolded fin_def] pres_tracked [OF that, unfolded pres_def]]
    by (simp add: fin_def)
  show ?case
    unfolding bulkCreateLoop.simps case_prod_unfold
    by (rule seq 3 | rule hoare_rules frame_rules | rule fin_keep fin_keep_bnd)+
qed

text \<open>An update of a node the transaction created changes the recorded creation.\<close>

definition replaced :: "operation list \<Rightarrow> nat \<Rightarrow> node option \<Rightarrow> operation list" where
  "replaced ops j new = ops[j := (ops ! j)\<lparr>opNode := new\<rparr>]"

lemma map_replaced:
  assumes "\<And>op. f (op\<lparr>opNode := new\<rparr>) = f op"
  shows "map f (replaced ops j new) = map f ops"
  using assms by (cases "j < length ops") (simp_all add: replaced_def map_update list_update_same_conv list_update_beyond)

lemma creates_edge_iff: "creates_edge ops i \<longleftrightarrow> (OpCreateEdge, i) \<in> set (map (\<lambda>op. (opType op, opEdgeID op)) ops)"
  by (force simp: creates_edge_def)

lemma creates_edge_replaced [simp]: "creates_edge (replaced ops j new) = creates_edge ops"
  unfolding fun_eq_iff creates_edge_iff by (subst map_replaced) simp_all

lemma op_keys_replaced [simp]: "op_keys (replaced ops j new) = op_keys ops"
  by (simp add: op_keys_def fun_eq_iff)

lemma createIndex_replaced [simp]: "createIndex (replaced ops j new) i = createIndex ops i"
  using pendingCreateIndex_cong [OF map_replaced [of "\<lambda>op. (opType op, opNodeID op)" new ops j], of "length ops" i]
  by (simp add: replaced_def)

lemma fin_replace: "fin d ops ks (modify (\<lambda>t. t\<lparr>txOperations := replaced (txOperations t) j new\<rparr>))"
proof -
  have m: "map (op_keys ops) (replaced ops j new) = map (op_keys ops) ops"
    by (rule map_replaced) (simp add: op_keys_def split: op_type.split)
  have "(\<forall>op \<in> set (replaced ops j new). set (op_keys ops op) \<subseteq> K) \<longleftrightarrow> (\<forall>op \<in> set ops. set (op_keys ops op) \<subseteq> K)" for K
    using arg_cong [OF m, of "\<lambda>l. \<forall>q \<in> set l. set q \<subseteq> K"] by simp
  then show ?thesis
    by (auto simp: fin_def hoare_def tracks_def tracked_def pending_tracked_def)
qed

definition update_keys :: "string \<Rightarrow> int \<Rightarrow> key set" where
  "update_keys i c = (if 0 \<le> c then {} else {Primary (N i)})"

definition update_index :: "kv \<Rightarrow> operation list \<Rightarrow> string \<Rightarrow> int \<Rightarrow> engine \<times> tx \<Rightarrow> bool" where
  "update_index d ops i c = (\<lambda>(b, t). tracks d {} ops (b, t)
     \<and> c = (if map_of (txPendingNodes t) i \<noteq> None then createIndex ops i else - 1))"

lemma hoare_read:
  assumes "\<And>s x. P s \<Longrightarrow> f (fst s) (snd s) = Inr x \<Longrightarrow> Q x s" "\<And>s. P s \<Longrightarrow> R s"
  shows "hoare P (bnd (reads f) lift_result) Q (\<lambda>_. R)"
  using assms by (auto simp: hoare_def bnd_def lift_result_def split: sum.split prod.splits)

lemma track_node:
  "hoare (update_index d ops i c) (trackUnlessPending (\<lambda>t. map_of (txPendingNodes t) i \<noteq> None) (Primary (N i)))
     (\<lambda>_. tracks d (update_keys i c) ops) (\<lambda>_. tracked d)"
proof (rule hoareI)
  fix s x s'
  assume g: "update_index d ops i c s"
    and r: "trackUnlessPending (\<lambda>t. map_of (txPendingNodes t) i \<noteq> None) (Primary (N i)) s = (Inr x, s')"
  obtain b t where s: "s = (b, t)" by fastforce
  show "tracks d (update_keys i c) ops s'"
  proof (cases "map_of (txPendingNodes t) i = None")
    case True
    then have "trackReads [Primary (N i)] s = (Inr x, s')"
      using r s by (simp add: trackUnlessPending_def bnd_def)
    moreover have "tk d ops {} (trackReads [Primary (N i)]) (\<lambda>_. update_keys i c)"
      by (rule tk_weak [OF trackReads_tk]) (auto simp: update_keys_def)
    moreover have "tracks d {} ops s" using g s by (simp add: update_index_def)
    ultimately show ?thesis
      unfolding tk_def by (blast dest: hoareD_Inr)
  next
    case False
    then show ?thesis
      using r s g by (auto simp: trackUnlessPending_def bnd_def update_index_def tracks_def update_keys_def pending_tracked_def)
  qed
qed (auto simp: trackUnlessPending_def bnd_def trackReads_def modify_def split: if_splits)

lemma update_pending:
  assumes "0 \<le> c \<longrightarrow> c = createIndex ops i"
  shows "pres (tracks d (update_keys i c) ops) (modify (\<lambda>t. t\<lparr>txPendingNodes := AList.update i n (txPendingNodes t)\<rparr>))"
  by (rule pres_modify)
    (use assms in \<open>auto simp: tracks_def update_keys_def pending_tracked_def map_of_aupdate split: if_splits\<close>)

lemma fin_updated:
  "fin d ops (update_keys i c) (if c \<ge> 0
     then modify (\<lambda>t. t\<lparr>txOperations := (txOperations t)[nat c := (txOperations t ! nat c)\<lparr>opNode := new\<rparr>]\<rparr>)
     else addOperation ((no_op OpUpdateNode)\<lparr>opNodeID := i, opNode := new, opOldNode := old\<rparr>))"
proof (cases "0 \<le> c")
  case True
  then show ?thesis using fin_replace [of d ops _ "nat c" new] by (simp add: replaced_def)
next
  case False
  have "fin d ops {Primary (N i)} (thn (modify (\<lambda>t. t))
      (addOperation ((no_op OpUpdateNode)\<lparr>opNodeID := i, opNode := new, opOldNode := old\<rparr>)))"
    by (rule fin_record) (auto simp: no_op_def op_keys_def pending_tracked_def Let_def)
  moreover have "thn (modify (\<lambda>t. t)) m = m" for m :: "unit step"
    by (auto simp: thn_def bnd_def fun_eq_iff)
  ultimately show ?thesis using False by (simp add: update_keys_def)
qed

lemma hoare_pre: "(\<And>s. P s \<Longrightarrow> c) \<Longrightarrow> (c \<Longrightarrow> hoare P m Q R) \<Longrightarrow> hoare P m Q R"
  by (auto simp: hoare_def)

lemma read_node:
  "hoare (tracks d {} ops) (bnd (reads (\<lambda>b t. case map_of (txPendingNodes t) i of
                 Some pending \<Rightarrow> Inr (copyNode pending, pendingCreateNodeOperationIndexLocked t i)
               | None \<Rightarrow> map_sum id (\<lambda>n. (n, - 1)) (getCommittedNodeLocked env b t i))) lift_result)
     (\<lambda>r. update_index d ops i (snd r)) (\<lambda>_. tracked d)"
proof (rule hoare_read)
  fix s x
  assume "tracks d {} ops s" "(case map_of (txPendingNodes (snd s)) i of
      Some pending \<Rightarrow> Inr (copyNode pending, pendingCreateNodeOperationIndexLocked (snd s) i)
    | None \<Rightarrow> map_sum id (\<lambda>n. (n, - 1)) (getCommittedNodeLocked env (fst s) (snd s) i)) = Inr x"
  then show "update_index d ops i (snd x) s"
    by (cases "getCommittedNodeLocked env (fst s) (snd s) i")
      (auto simp: update_index_def tracks_def pendingCreateNodeOperationIndexLocked_def split: option.splits prod.splits)
qed (rule tracks_tracked)

lemma fin_update:
  assumes "\<And>r. 0 \<le> snd r \<longrightarrow> snd r = createIndex ops i \<Longrightarrow> fin d ops (update_keys i (snd r)) (k r)"
  shows "fin d ops {} (bnd (bnd (reads (\<lambda>b t. case map_of (txPendingNodes t) i of
                 Some pending \<Rightarrow> Inr (copyNode pending, pendingCreateNodeOperationIndexLocked t i)
               | None \<Rightarrow> map_sum id (\<lambda>n. (n, - 1)) (getCommittedNodeLocked env b t i))) lift_result)
     (\<lambda>r. thn (trackUnlessPending (\<lambda>t. map_of (txPendingNodes t) i \<noteq> None) (Primary (N i))) (k r)))"
  unfolding fin_def
proof (rule hoare_bnd [OF read_node])
  fix r :: "node \<times> int"
  show "hoare (update_index d ops i (snd r)) (thn (trackUnlessPending (\<lambda>t. map_of (txPendingNodes t) i \<noteq> None)
      (Primary (N i))) (k r)) (\<lambda>_. tracked d) (\<lambda>_. tracked d)"
  proof (rule hoare_pre)
    show "0 \<le> snd r \<longrightarrow> snd r = createIndex ops i" if "update_index d ops i (snd r) s" for s
      using that by (auto simp: update_index_def split: if_splits prod.splits)
  qed (rule hoare_thn [OF track_node], rule assms [unfolded fin_def])
qed

lemma fin_UpdateNode: "fin d ops {} (UpdateNode env n)"
  unfolding UpdateNode_def case_prod_unfold
  by (rule fin_updated | rule fin_update | (rule update_pending, assumption)
      | rule hoare_rules frame_rules | rule fin_keep)+

section \<open>Calls\<close>

lemma flag_tracks [frame_rules]:
  "pres (tracks d ks ops) (modify (\<lambda>t. t\<lparr>txDeferConstraintValidation := v\<rparr>))"
  "pres (tracks d ks ops) (modify (\<lambda>t. t\<lparr>txSkipCreateExistenceCheck := v\<rparr>))"
  "pres (tracks d ks ops) (modify (\<lambda>t. t\<lparr>txImplicit := v\<rparr>))"
  by (rule pres_modify, simp add: tracks_def)+

lemma fin_flags:
  "fin d ops {} (SetDeferredConstraintValidation env v)" "fin d ops {} (SetSkipCreateExistenceCheck env v)"
  "fin d ops {} (SetImplicit env v)" "fin d ops {} (SetNamespace env ns)" "fin d ops {} Rollback"
  unfolding SetDeferredConstraintValidation_def SetSkipCreateExistenceCheck_def SetImplicit_def
  by (rule fin_pres, intro hoare_rules frame_rules)+

lemma fin_reads: "fin d ops {} (GetNode env i)" "fin d ops {} (GetEdge env i)"
  unfolding GetNode_def GetEdge_def
  by (rule fin_pres, intro hoare_rules frame_rules)+

lemma fin_BulkCreateEdges: "fin d ops {} (BulkCreateEdges env es)"
  unfolding BulkCreateEdges_def
  by (cases "es = []") (simp_all del: ret_eq add: fin_pres pres_ret fin_keep fin_bulk tracks.ensure)

lemma tracked_call:
  assumes "c \<noteq> CallCommit"
  shows "pres (tracked d) (run_call env c)"
  using assms
  by (cases c)
    (simp_all del: ret_eq add: pres_thn pres_bnd pres_ret pres_tracked fin_flags fin_reads fin_BulkCreateEdges
      fin_CreateNode fin_UpdateNode fin_DeleteNode fin_CreateEdge fin_UpdateEdge fin_DeleteEdge)

lemma tracked_begin: "BeginTransaction env b = Inr t \<Longrightarrow> tracked (kv (edb b)) (b', t)"
  by (auto simp: BeginTransaction_def Let_def tracked_def tracks_def begin_txn_def version_keys_def
      pending_tracked_def split: if_splits)

text \<open>What the invariant says of a recorded operation.\<close>

lemma tracked_op:
  assumes "tracked d (b, t)" "op \<in> set (txOperations t)"
  shows "base (txBadger t) = d" "set (op_keys (txOperations t) op) \<subseteq> enrolled t"
  using assms by (auto simp: tracked_def tracks_def)

end
