(* ===== verification/TxConflicts.thy ===== *)
theory TxConflicts
  imports TxTracking
begin

text \<open>
  What a commit guarantees: the first committer wins, up to the commit of the key-value store; a commit ends the transaction whatever its
  result, and a commit that succeeds writes the operations' rows at one version.
\<close>

section \<open>Every path through a commit closes the transaction\<close>

definition ends :: "'a step \<Rightarrow> bool" where
  "ends m \<longleftrightarrow> hoare (\<lambda>_. True) m (\<lambda>_ _. True) (\<lambda>_ (b, t). txStatus t \<noteq> TxStatusActive)"

lemma ends_bnd: "ends m \<Longrightarrow> (\<And>x. ends (f x)) \<Longrightarrow> ends (bnd m f)"
  unfolding ends_def by (rule hoare_bnd)

lemma ends_thn: "ends m \<Longrightarrow> ends k \<Longrightarrow> ends (thn m k)"
  unfolding thn_def by (rule ends_bnd)

lemma ends_if: "ends m \<Longrightarrow> ends k \<Longrightarrow> ends (if c then m else k)"
  by simp

lemma ends_leaf: "ends (ret x)" "ends (reads f)" "ends (modify g)" "ends flushBufferedWrites"
  by (auto simp: ends_def hoare_def ret_def reads_def modify_def flushBufferedWrites_def)

lemma ends_closing: "ends (closing m)"
  unfolding ends_def
  by (rule hoareI) (auto simp: closing_Inl closeLocked_eq split: prod.splits)

lemma ends_close: "ends (closeLocked s e)"
  by (auto simp: ends_def hoare_def closeLocked_eq)

lemma ends_ensure: "ends (ensureLifecycleActiveLocked env)"
  by (auto simp: ends_def hoare_def ensureLifecycleActiveLocked_def Let_def thn_def bnd_def closeLocked_eq
      split: prod.splits)

lemma ends_commit: "ends (Commit env)"
  unfolding Commit_def prepare_def publish_def
  by (intro ends_bnd ends_thn ends_if ends_leaf ends_closing ends_close ends_ensure)

lemma commit_closes: "txStatus (snd (snd (Commit env (b, t)))) \<noteq> TxStatusActive"
proof (cases "Commit env (b, t)")
  case (fields q b1 t1)
  then show ?thesis
    using hoareD_Inl [OF ends_commit [of env, unfolded ends_def], of "(b, t)" _ "(b1, t1)"]
      Commit_success [of env b t _ b1 t1] by (cases q) auto
qed

section \<open>Conflicts\<close>

text \<open>The row an operation writes.\<close>

definition op_target :: "operation \<Rightarrow> ent" where
  "op_target op = (if opType op \<in> {OpCreateNode, OpUpdateNode, OpUpdateEmbedding, OpDeleteNode}
     then N (opNodeID op) else E (opEdgeID op))"

lemma checkOperations_None:
  "checkOperations env b t ops = None \<longleftrightarrow> (\<forall>op \<in> set ops. checkOperation env b t op = None)"
  by (induction ops) (auto simp: orElse_def split: option.splits)

lemma checkOperation_head:
  assumes "checkOperation env b t op = None"
  shows "loadHead (edb b) (op_target op) = Inl ErrNotFound
    \<or> (\<exists>head. loadHead (edb b) (op_target op) = Inr head
         \<and> \<not> snapshotHeadConflict b t (op_target op) (Version head))"
  using assms
  by (auto simp: checkOperation_def op_target_def orElse_def checkNodeCreateConflict_def checkHeadConflict_def
      checkNodeWriteConflict_def checkEdgeCreateConflict_def checkEdgeWriteConflict_def loadNodeMVCCHead_def
      split: op_type.splits option.splits sum.splits if_splits)

lemma Commit_checked:
  assumes "Commit env (b, t) = (Inr u, b', t')"
  shows "txStatus t = TxStatusActive \<and> validateAllConstraints env b t = None
    \<and> validateSnapshotIsolationConflicts env b t = None"
proof -
  obtain b1 t1 where "prepare env (b, t) = (Inr (), b1, t1)"
    using Commit_success [OF assms] by blast
  then show ?thesis
    by (auto simp: prepare_def thn_Inr bnd_Inr dest!: ensure_active)
qed

section \<open>The transaction of the key-value store\<close>

text \<open>A commit reads and writes through the transaction it has; it does not lose an enrolled key.\<close>

definition same_reads :: "btxn \<Rightarrow> btxn \<Rightarrow> bool" where
  "same_reads u u' \<longleftrightarrow> base u' = base u \<and> readKeys u' = readKeys u"

lemma writers_keep [simp]:
  "base (writeHeadWithFloorInTxn u x v tomb f) = base u" "readKeys (writeHeadWithFloorInTxn u x v tomb f) = readKeys u"
  "base (writeVersionInTxn u bd v) = base u" "readKeys (writeVersionInTxn u bd v) = readKeys u"
  "base (writeTombstoneInTxn u x v) = base u" "readKeys (writeTombstoneInTxn u x v) = readKeys u"
  "base (writeEdgeAdjacencyInTxn u e v tomb) = base u" "readKeys (writeEdgeAdjacencyInTxn u e v tomb) = readKeys u"
  by (simp_all add: writeHeadWithFloorInTxn_def writeVersionInTxn_def writeTombstoneInTxn_def
      writeEdgeAdjacencyInTxn_def)

lemma writers_keep_opt [simp]:
  "base (archiveBodyInTxn b u x old v) = base u" "readKeys (archiveBodyInTxn b u x old v) = readKeys u"
  "base (writeEdgeAdjacencyDeltaInTxn u oe ne v) = base u" "readKeys (writeEdgeAdjacencyDeltaInTxn u oe ne v) = readKeys u"
  by (simp_all add: archiveBodyInTxn_def writeEdgeAdjacencyDeltaInTxn_def Let_def split: option.splits)

lemma same_reads_trans: "same_reads u v \<Longrightarrow> same_reads v w \<Longrightarrow> same_reads u w"
  by (simp add: same_reads_def)

lemma same_reads_head: "writeHeadInTxn d u x v tomb = Inr u' \<Longrightarrow> same_reads u u'"
  by (auto simp: same_reads_def writeHeadInTxn_def split: sum.splits if_splits)

lemma same_reads_archive: "archiveOldInTxn b u x old = Inr u' \<Longrightarrow> same_reads u u'"
  by (auto simp: same_reads_def archiveOldInTxn_def split: sum.splits if_splits)

lemma same_reads_cascade: "tombstoneEdgesInTxn d u v ids = Inr u' \<Longrightarrow> same_reads u u'"
proof (induction ids arbitrary: u)
  case (Cons i ids)
  then show ?case
    by (auto simp: same_reads_def writeEdgeMVCCHeadInTxn_def writeEdgeMVCCTombstoneInTxn_def
        split: sum.splits if_splits dest!: same_reads_head)
qed (simp add: same_reads_def)

lemma same_reads_op: "materializeOp b v op u = Inr u' \<Longrightarrow> same_reads u u'"
  by (auto simp: same_reads_def materializeOp_def Let_def writeNodeMVCCHeadForFreshCreateInTxn_def writeNodeMVCCHeadInTxn_def
      writeEdgeMVCCHeadForFreshCreateInTxn_def writeEdgeMVCCHeadInTxn_def writeNodeMVCCHeadWithFloorInTxn_def
      writeEdgeMVCCHeadWithFloorInTxn_def writeNodeMVCCTombstoneInTxn_def writeEdgeMVCCTombstoneInTxn_def
      split: op_type.splits option.splits sum.splits if_splits
      dest!: same_reads_head same_reads_archive same_reads_cascade)

lemma same_reads_materialize: "materializeMVCCCommitInTxn b u v ops = Inr u' \<Longrightarrow> same_reads u u'"
  by (induction ops arbitrary: u)
    (fastforce simp: same_reads_def split: sum.splits dest!: same_reads_op)+

lemma same_reads_flush: "same_reads (txBadger t) (flushTo t)"
proof -
  have d: "same_reads u (fold (\<lambda>k u. txn_delete u k) ks u)" for ks u
    by (induction ks arbitrary: u) (auto simp: same_reads_def)
  have w: "same_reads u (fold (\<lambda>(k, v) u. if k \<in> del then u else txn_set u k v) kvs u)" for kvs u del
    by (induction kvs arbitrary: u) (auto simp: same_reads_def split: prod.splits)
  show ?thesis
    unfolding flushTo_def Let_def by (rule same_reads_trans [OF d w])
qed

definition reading :: "kv \<Rightarrow> key set \<Rightarrow> engine \<times> tx \<Rightarrow> bool" where
  "reading d ks = (\<lambda>(b, t). base (txBadger t) = d \<and> ks \<subseteq> enrolled t)"

interpretation reading: track_frame "reading d ks" for d ks
  by unfold_locales (auto simp: reading_def statement_reads_def)

interpretation reading: session_frame "reading d ks" for d ks
  by unfold_locales (simp_all add: reading_def)

lemma reading_prepare: "pres (reading d ks) (prepare env)"
proof -
  have "pres (reading d ks) (materializeStep v)" for v
    by (auto simp: pres_iff materializeStep_def reading_def same_reads_def split: sum.splits
        dest!: same_reads_materialize)
  moreover have "pres (reading d ks) flushBufferedWrites"
    unfolding flushBufferedWrites_def
    by (rule pres_modify) (use same_reads_flush in \<open>auto simp: reading_def same_reads_def\<close>)
  moreover have "pres (reading d ks) (modify (\<lambda>t. t\<lparr>txCommitVersion := v\<rparr>))" "pres (reading d ks) (allocateStep env)"
    for v by (auto simp: pres_iff allocateStep_def reading_def split: prod.splits sum.splits)
  ultimately show ?thesis
    unfolding prepare_def by (intro hoare_rules reading.ensure reading.closing_frame)
qed

text \<open>The transaction of a session: tracked while it is active, and once closed it stays closed.\<close>

definition is_closed :: "engine \<times> tx \<Rightarrow> bool" where
  "is_closed = (\<lambda>(b, t). txStatus t \<noteq> TxStatusActive)"

interpretation closed: bind_frame is_closed
  by unfold_locales (auto simp: is_closed_def dest: core_eq(1))

interpretation closed: call_frame is_closed
proof unfold_locales
  fix b t env ns
  show "is_closed (b, t) \<Longrightarrow> is_closed (snd (bindNamespace env ns (b, t)))"
    by (rule closed.bind_pres) (simp add: is_closed_def)
qed (simp_all add: is_closed_def static_def)

lemma session_tracked:
  assumes "BeginTransaction env b = Inr t0" "session t0 t" "txStatus t = TxStatusActive"
  shows "tracked (kv (edb b)) (b', t)"
proof -
  have e: "tracked d (b1, u) = tracked d (b2, u)" for d b1 b2 u
    by (simp add: tracked_def tracks_def)
  have "txStatus t = TxStatusActive \<longrightarrow> tracked (kv (edb b)) (b', t)"
    using assms(2)
  proof (induction rule: session.induct)
    case start
    show ?case using tracked_begin [OF assms(1)] by blast
  next
    case (call t1 env1 c b1 r b2 t2)
    have ended: "is_closed (b2, t2)" if "c = CallCommit"
      using that call.hyps(2) commit_closes [of env1 b1 t1]
      by (auto simp: is_closed_def thn_def bnd_def split: sum.splits prod.splits)
    have stay: "is_closed (b2, t2)" if "c \<noteq> CallCommit" "is_closed (b1, t1)"
      using presD [OF closed.calls [of c env1], of "(b1, t1)"] that call.hyps(2) by simp
    have keep: "tracked (kv (edb b)) (b2, t2)" if "c \<noteq> CallCommit" "tracked (kv (edb b)) (b1, t1)"
      using presD [OF tracked_call [of c "kv (edb b)" env1], of "(b1, t1)"] that call.hyps(2) by simp
    show ?case
    proof (cases "c = CallCommit \<or> txStatus t1 \<noteq> TxStatusActive")
      case True
      then show ?thesis using ended stay by (auto simp: is_closed_def)
    next
      case False
      then show ?thesis using keep call.IH e [of _ b1 t1 b'] e [of _ b2 t2 b'] by blast
    qed
  qed
  then show ?thesis using assms(3) by blast
qed

section \<open>Properties\<close>

text \<open>The rows the snapshot checks look at for an operation: the one it names, and for the deletion of
  a node the edges that are at the node when the commit validates.\<close>

definition checked_rows :: "db \<Rightarrow> operation \<Rightarrow> ent list" where
  "checked_rows d op = op_target op # (if opType op = OpDeleteNode
     then map E (outgoingIDs (begin_txn d) (opNodeID op) @ incomingIDs (begin_txn d) (opNodeID op)) else [])"

text \<open>In \<open>d\<close> a row has no head that was committed after the snapshot \<open>d0\<close> was taken, neither by the
  store's timestamp nor by its version.\<close>

definition no_newer_head :: "db \<Rightarrow> mvcc_version \<Rightarrow> db \<Rightarrow> ent \<Rightarrow> bool" where
  "no_newer_head d0 readTS d x = (case map_of (kv d) (HeadKey x) of
     None \<Rightarrow> True
   | Some (n, Head head) \<Rightarrow> n \<le> commitTs d0 \<and> \<not> snapshotIsolationConflict readTS (Version head)
   | Some _ \<Rightarrow> False)"

text \<open>The store's conflict detection: a commit is refused when an enrolled key is not as it was when
  the transaction began.\<close>

definition detects_conflicts :: "env \<Rightarrow> bool" where
  "detects_conflicts env \<longleftrightarrow>
     (\<forall>u d. (\<exists>k \<in> set (readKeys u). map_of (kv d) k \<noteq> map_of (base u) k) \<longrightarrow> kvReject env u d \<noteq> None)"

lemma snapshotHeadConflict_newer:
  assumes "loadHead (edb b) x = Inl ErrNotFound
      \<or> (\<exists>head. loadHead (edb b) x = Inr head \<and> \<not> snapshotHeadConflict b t x (Version head))"
    and "txSnapshot t = Some d"
  shows "no_newer_head d (txReadTS t) (edb b) x"
  using assms
  by (auto simp: no_newer_head_def loadHead_def loadHeadInTxn_def snapshotHeadConflict_def kv_get_def kv_version_def
      split: val.splits if_splits option.splits prod.splits)

lemma checkAdjacent_newer:
  assumes "checkAdjacent ids b t = None" "txSnapshot t = Some d" "i \<in> set ids"
  shows "no_newer_head d (txReadTS t) (edb b) (E i)"
  using assms
  by (induction ids)
    (auto simp: no_newer_head_def loadEdgeMVCCHead_def loadHead_def loadHeadInTxn_def snapshotHeadVersionConflict_def
      kv_get_def kv_version_def split: val.splits if_splits option.splits prod.splits sum.splits)

lemma checkOperation_newer:
  assumes "checkOperation env b t op = None" "txSnapshot t = Some d"
  shows "list_all (no_newer_head d (txReadTS t) (edb b)) (checked_rows (edb b) op)"
proof -
  have "no_newer_head d (txReadTS t) (edb b) (op_target op)"
    by (rule snapshotHeadConflict_newer [OF checkOperation_head [OF assms(1)] assms(2)])
  moreover have "checkNodeAdjacencyConflict (opNodeID op) b t = None" if "opType op = OpDeleteNode"
    using assms(1) that by (simp add: checkOperation_def orElse_def split: option.splits)
  ultimately show ?thesis
    using checkAdjacent_newer [OF _ assms(2)]
    by (auto simp: checked_rows_def checkNodeAdjacencyConflict_def Let_def list_all_iff)
qed

lemma prepare_checked:
  assumes "prepare env (b, t) = (Inr u, b1, t1)"
  shows "txStatus t = TxStatusActive \<and> validateSnapshotIsolationConflicts env b t = None"
  using assms by (auto simp: prepare_def thn_Inr bnd_Inr dest!: ensure_active)

lemma publish_accepted: "publish env (b, t) = (Inr u, b', t') \<Longrightarrow> kvReject env (txBadger t) (edb b) = None"
  by (auto simp: publish_def thn_Inr kvCommitStep_def split: option.splits)


definition env_badger :: env where
  "env_badger = env_ok\<lparr>kvReject := (\<lambda>u d.
     if list_ex (\<lambda>k. map_of (kv d) k \<noteq> map_of (base u) k) (readKeys u) then Some ErrConflict else None)\<rparr>"

lemma detects_badger: "detects_conflicts env_badger"
  by (auto simp: detects_conflicts_def env_badger_def list_ex_iff)

text \<open>A transaction that has updated a node is past its validation when a peer commits.\<close>

definition demo_updated :: "engine \<times> tx" where
  "demo_updated = snd (run_call env_ok (CallUpdateNode (demo_node ''a:1'' [''B''])) (demo_engine1, demo_tx))"

definition after_peer :: "engine \<Rightarrow> tx_call list \<Rightarrow> engine" where
  "after_peer b cs = (case BeginTransaction env_ok b of
     Inl e \<Rightarrow> b | Inr t \<Rightarrow> fst (snd (run_calls env_ok cs (b, t))))"

definition peer_creates :: engine where
  "peer_creates = after_peer demo_engine1 [CallCreateNode (demo_node ''a:2'' []), CallCommit]"


text \<open>A peer that updates the same node in that moment makes the store refuse the commit.\<close>

theorem late_update_conflicts:
  "(\<lambda>(r, b1, t1). (r, fst (publish env_badger
       (after_peer demo_engine1 [CallUpdateNode (demo_node ''a:1'' [''C'']), CallCommit], t1))))
     (prepare env_ok demo_updated) = (Inr (), Inl ErrConflict)"
  by code_simp

text \<open>
  A commit ends the transaction: afterwards it is closed, committed exactly when the
  commit succeeded, and a commit that failed left the committed data as they were. There is no
  second chance for a transaction that lost a conflict.
\<close>

theorem commit_ends_transaction:
  assumes "run_call env CallCommit (b, t) = (r, b', t')"
  shows "txStatus t' \<noteq> TxStatusActive
    \<and> (case r of Inr x \<Rightarrow> txStatus t' = TxStatusCommitted | Inl e \<Rightarrow> edb b' = edb b)"
proof (cases "Commit env (b, t)")
  case (fields q b1 t1)
  then have e: "b1 = b'" "t1 = t'" "r = (case q of Inl e \<Rightarrow> Inl e | Inr u \<Rightarrow> Inr Done)"
    using assms by (simp_all add: thn_def bnd_def split: sum.splits)
  show ?thesis
  proof (cases q)
    case (Inl err)
    then have "txStatus t' \<noteq> TxStatusActive"
      using hoareD_Inl [OF ends_commit [of env, unfolded ends_def], of "(b, t)" err "(b', t')"] fields e by simp
    moreover have "edb b' = edb b"
      by (rule Commit_failed [of env b t err b' t']) (use fields e Inl in simp)
    ultimately show ?thesis using Inl e by simp
  next
    case (Inr u)
    then have "Commit env (b, t) = (Inr u, b', t')" using fields e by simp
    from Commit_success [OF this] have "txStatus t' = TxStatusCommitted" by blast
    then show ?thesis using e Inr by simp
  qed
qed

theorem commit_ends_transaction_witness:
  "\<exists>b' t'. run_call env_ok CallCommit demo_updated = (Inr Done, b', t') \<and> txStatus t' = TxStatusCommitted"
proof -
  obtain b t where s: "demo_updated = (b, t)" by fastforce
  have "fst (run_call env_ok CallCommit demo_updated) = Inr Done"
    by code_simp
  then obtain b' t' where r: "run_call env_ok CallCommit (b, t) = (Inr Done, b', t')"
    by (metis prod.collapse s)
  then show ?thesis using commit_ends_transaction [OF r] s by simp
qed

section \<open>Schedules\<close>

text \<open>Sessions of one transaction over an empty engine or a committed one, evaluated.\<close>

definition run_tx :: "env \<Rightarrow> engine \<Rightarrow> tx_call list \<Rightarrow> (storage_error + tx_reply) list \<times> engine" where
  "run_tx env b cs = (case BeginTransaction env b of
     Inl e \<Rightarrow> ([Inl e], b)
   | Inr t \<Rightarrow> (case run_calls env cs (b, t) of (rs, b', t') \<Rightarrow> (rs, b')))"

definition demo_graph :: engine where
  "demo_graph = snd (run_tx env_ok demo_engine1
     [CallCreateNode (demo_node ''a:2'' []), CallCreateNode (demo_node ''a:3'' []),
      CallCreateEdge (demo_edge ''a:e'' ''a:2'' ''a:3''), CallCommit])"

definition env_later :: env where
  "env_later = env_ok\<lparr>now := 2000\<rparr>"

text \<open>\<^verbatim>\<open>DeleteEdge\<close> enrolls nothing: an update of the edge that a peer commits between the validation of
  the deletion and the commit of the store is neither a conflict nor kept.\<close>

definition env_later_badger :: env where
  "env_later_badger = env_badger\<lparr>now := 2000\<rparr>"

theorem late_update_is_lost:
  "case BeginTransaction env_later demo_graph of Inl e \<Rightarrow> False | Inr t \<Rightarrow>
     (case run_calls env_later [CallDeleteEdge ''a:e''] (demo_graph, t) of (rs, b, t') \<Rightarrow>
       (case prepare env_later (b, t') of (r, b1, t1) \<Rightarrow>
         (case run_tx env_later b1 [CallUpdateEdge (demo_edge ''a:e'' ''a:3'' ''a:2''), CallCommit] of (rs2, b2) \<Rightarrow>
           (case publish env_later_badger (b2, t1) of (r3, b3, t3) \<Rightarrow>
             rs = [Inr Done] \<and> r = Inr () \<and> rs2 = [Inr Done, Inr Done] \<and> r3 = Inr ()
             \<and> kv_get (kv (edb b2)) (Primary (E ''a:e'')) = Some (Body (BE (demo_edge ''a:e'' ''a:3'' ''a:2'')))
             \<and> kv_get (kv (edb b3)) (Primary (E ''a:e'')) = None))))"
  by code_simp

text \<open>An update that changes only the case of a label writes the entry of the label index and then
  deletes it: the two spellings are different labels to the update and one key to the index.\<close>

theorem recased_label_loses_index_entry:
  "(\<lambda>(rs, b). (rs, kv_get (kv (edb b)) (LabelIndex ''person'' ''a:9''), kv_get (kv (edb b)) (LabelCount ''a'' ''person'')))
     (run_tx env_later (snd (run_tx env_ok demo_engine1 [CallCreateNode (demo_node ''a:9'' [''Person'']), CallCommit]))
        [CallUpdateNode (demo_node ''a:9'' [''person'']), CallCommit])
   = ([Inr Done, Inr Done], None, Some (Count 1))"
  by code_simp

text \<open>A transaction that creates an edge and then deletes one of its endpoints commits an edge
  whose endpoint does not exist: \<^verbatim>\<open>DeleteNode\<close> collects edges from the key-value transaction, where the
  buffered edge is not yet, and the commit checks endpoints only when they are not pending or gone
  since the snapshot.\<close>

theorem commits_dangling_edge:
  "(\<lambda>(rs, b). (rs, kv_get (kv (edb b)) (Primary (E ''a:f'')), kv_get (kv (edb b)) (Primary (N ''a:2''))))
     (run_tx env_later demo_graph
        [CallCreateEdge (demo_edge ''a:f'' ''a:2'' ''a:3''), CallDeleteNode ''a:2'', CallCommit])
   = ([Inr Done, Inr Done, Inr Done], Some (Body (BE (demo_edge ''a:f'' ''a:2'' ''a:3''))), None)"
  by code_simp

text \<open>An edge deleted and created again in one transaction is not found by that transaction, though
  the creation succeeded and its commit stores the edge.\<close>

theorem recreated_edge_not_found:
  "(\<lambda>(rs, b). (rs, kv_get (kv (edb b)) (Primary (E ''a:e''))))
     (run_tx env_later demo_graph
        [CallDeleteEdge ''a:e'', CallCreateEdge (demo_edge ''a:e'' ''a:2'' ''a:3''), CallGetEdge ''a:e'', CallCommit])
   = ([Inr Done, Inr Done, Inl ErrNotFound, Inr Done], Some (Body (BE (demo_edge ''a:e'' ''a:2'' ''a:3''))))"
  by code_simp

text \<open>An update of a node the transaction deleted succeeds, and its commit stores the node, while
  the transaction itself does not find it.\<close>

theorem update_resurrects_deleted_node:
  "(\<lambda>(rs, b). (rs, kv_get (kv (edb b)) (Primary (N ''a:2''))))
     (run_tx env_later demo_graph
        [CallDeleteNode ''a:2'', CallUpdateNode (demo_node ''a:2'' []), CallGetNode ''a:2'', CallCommit])
   = ([Inr Done, Inr Done, Inl ErrNotFound, Inr Done], Some (Body (BN (demo_node ''a:2'' []))))"
  by code_simp

end
