(* ===== verification/Packstream.thy ===== *)
theory Packstream
  imports GoBase
begin

text \<open>
  The PackStream codec of the Bolt protocol (\<^verbatim>\<open>pkg/bolt/packstream.go\<close>) and the hash that maps
  string identifiers to Bolt integers (\<^verbatim>\<open>pkg/util\<close>). Go strings are byte lists here. The encoder
  appends to a buffer; the model returns what it appends. The decoder reads at an offset of the
  message; the model reads from the rest of the message and returns the value and the number of bytes
  consumed. A Go map is an association list in the order of the iteration at hand. Parameter: the
  zone database behind \<^verbatim>\<open>time.LoadLocation\<close>.
\<close>

section \<open>Values\<close>

type_synonym bytes = "byte list"

definition str :: "string \<Rightarrow> bytes" where
  "str = map of_char"

text \<open>
  The dynamic types the codec distinguishes. \<open>AInt\<close> is \<^verbatim>\<open>int\<close> and \<^verbatim>\<open>int64\<close>, \<open>AIntN\<close> the other integer
  types widened to 64 bits, \<open>AFloat\<close> the bits of a \<^verbatim>\<open>float64\<close>. \<open>AList\<close> is \<^verbatim>\<open>[]any\<close> and every typed
  slice whose case repeats the list code on its elements; the slices the node and path code tests for
  have their own constructors. \<open>AMaps\<close> is \<^verbatim>\<open>[]map[string]any\<close>, whose elements are encoded as maps without
  the tests for paths and nodes, and \<open>AStrMap\<close> is \<^verbatim>\<open>map[string]string\<close>. \<open>ATime\<close> has Unix seconds, nanoseconds and the zone offset; \<open>ADur\<close> is a
  duration in milliseconds. A node has identifier, labels and properties, an edge identifier, start,
  end, type and properties; a nil pointer is \<open>ANil\<close>. \<open>AOther\<close> is any other type.
\<close>

datatype any = ANil | ABool bool | AInt u64 | AIntN u64 | AFloat u64 | AStr bytes | ABytes bytes
  | AList "any list" | AStrs "bytes list" | AMap "(bytes \<times> any) list"
  | AMaps "(bytes \<times> any) list list" | AStrMap "(bytes \<times> bytes) list"
  | ANode bytes "bytes list" "(bytes \<times> any) list"
  | AEdge bytes bytes bytes bytes "(bytes \<times> any) list"
  | AUnbound bytes bytes "(bytes \<times> any) list"
  | ANodes "any list" | AEdges "any list"
  | APath "any list" "any list"
  | ATime u64 u64 u64 | ADur u64 | AOther

section \<open>Identifiers\<close>

text \<open>FNV-1a, with the sign bit cleared.\<close>

definition HashStringToInt64 :: "bytes \<Rightarrow> u64" where
  "HashStringToInt64 s =
     (let hash = fold (\<lambda>c h. (h XOR ucast c) * 1099511628211) s 14695981039346656037
      in if sint hash < 0 then hash AND 0x7FFFFFFFFFFFFFFF else hash)"

lemma mask_nonneg: "0 \<le> sint (h AND 0x7FFFFFFFFFFFFFFF :: u64)"
proof -
  have m: "(0x7FFFFFFFFFFFFFFF :: u64) = mask 63" by (simp add: mask_eq_exp_minus_1)
  have "\<not> bit (h AND 0x7FFFFFFFFFFFFFFF :: u64) (LENGTH(64) - Suc 0)"
    unfolding m by (simp add: bit_simps)
  then show ?thesis by (simp only: bit_last_iff not_less)
qed

section \<open>Encoding\<close>

text \<open>\<open>byte(v >> 8(n - 1)), ..., byte(v)\<close>.\<close>

fun bytesN :: "nat \<Rightarrow> int \<Rightarrow> bytes" where
  "bytesN 0 v = []"
| "bytesN (Suc n) v = of_int (v div 256 ^ n) # bytesN n v"

definition sizeHeader :: "byte \<Rightarrow> byte \<Rightarrow> byte \<Rightarrow> nat \<Rightarrow> bytes" where
  "sizeHeader tiny m8 m16 n =
     (if n < 16 then [tiny + of_nat n]
      else if n < 256 then [m8, of_nat n]
      else m16 # bytesN 2 (int n))"

definition encodePackStreamStringInto :: "bytes \<Rightarrow> bytes" where
  "encodePackStreamStringInto s =
     (let length = length s
      in (if length < 16 then [0x80 + of_nat length]
          else if length < 256 then [0xD0, of_nat length]
          else if length < 65536 then 0xD1 # bytesN 2 (int length)
          else 0xD2 # bytesN 4 (int length)) @ s)"

definition encodePackStreamBytesInto :: "bytes \<Rightarrow> bytes" where
  "encodePackStreamBytesInto b =
     (let size = length b
      in (if size < 256 then [0xCC, of_nat size]
          else if size < 65536 then 0xCD # bytesN 2 (int size)
          else 0xCE # bytesN 4 (int size)) @ b)"

definition encodePackStreamIntInto :: "u64 \<Rightarrow> bytes" where
  "encodePackStreamIntInto v =
     (let val = sint v
      in if val \<ge> -16 \<and> val \<le> 127 then [of_int val]
         else if val \<ge> -128 \<and> val < -16 then [0xC8, of_int val]
         else if val \<ge> -32768 \<and> val \<le> 32767 then 0xC9 # bytesN 2 val
         else if val \<ge> -2147483648 \<and> val \<le> 2147483647 then 0xCA # bytesN 4 val
         else 0xCB # bytesN 8 val)"

definition encodePackStreamDateTimeIntoWithUTC :: "bool \<Rightarrow> u64 \<Rightarrow> u64 \<Rightarrow> u64 \<Rightarrow> bytes" where
  "encodePackStreamDateTimeIntoWithUTC utc sec nanos offset =
     [0xB3, if utc then 0x49 else 0x46] @ encodePackStreamIntInto sec
       @ encodePackStreamIntInto nanos @ encodePackStreamIntInto offset"

subsection \<open>Paths\<close>

text \<open>A node or edge of a path by its identifier; a nil pointer has none.\<close>

fun pathID :: "any \<Rightarrow> bytes option" where
  "pathID (ANode i _ _) = Some i"
| "pathID (AEdge i _ _ _ _) = Some i"
| "pathID _ = None"

fun edgeStart :: "any \<Rightarrow> bytes" where
  "edgeStart (AEdge _ s _ _ _) = s"
| "edgeStart _ = []"

text \<open>\<^verbatim>\<open>uniquePathNodes\<close> and \<^verbatim>\<open>uniquePathRels\<close>: the first occurrence of every identifier, with the
  index of each.\<close>

fun uniqueLoop :: "any list \<Rightarrow> any list \<Rightarrow> (bytes \<times> nat) list \<Rightarrow> any list \<times> (bytes \<times> nat) list" where
  "uniqueLoop [] unique index = (unique, index)"
| "uniqueLoop (x # xs) unique index =
     (case pathID x of
        None \<Rightarrow> uniqueLoop xs unique index
      | Some i \<Rightarrow>
          if map_of index i \<noteq> None then uniqueLoop xs unique index
          else uniqueLoop xs (unique @ [x]) (index @ [(i, length unique)]))"

definition uniquePathNodes :: "any list \<Rightarrow> any list \<times> (bytes \<times> nat) list" where
  "uniquePathNodes nodes = uniqueLoop nodes [] []"

definition uniquePathRels :: "any list \<Rightarrow> any list \<times> (bytes \<times> nat) list" where
  "uniquePathRels rels = uniqueLoop rels [] []"

text \<open>One step of the sequence: the edge, counted from 1 and negative against its direction, and
  the next node. \<open>None\<close> is the early return of an empty sequence.\<close>

fun sequenceLoop :: "(bytes \<times> nat) list \<Rightarrow> (bytes \<times> nat) list \<Rightarrow> any \<Rightarrow> any list \<Rightarrow> any list \<Rightarrow> int list option" where
  "sequenceLoop nodeIndex relIndex current nodes [] = Some []"
| "sequenceLoop nodeIndex relIndex current [] (rel # rels) = None"
| "sequenceLoop nodeIndex relIndex current (next # nodes) (rel # rels) =
     (case (pathID rel, pathID current, pathID next) of
        (Some r, Some c, Some n) \<Rightarrow>
          (case (map_of relIndex r, map_of nodeIndex n) of
             (Some relPos, Some nodePos) \<Rightarrow>
               let relSeq = int relPos + 1;
                   relSeq' = (if c \<noteq> edgeStart rel then - relSeq else relSeq)
               in map_option (\<lambda>rest. relSeq' # int nodePos # rest)
                    (sequenceLoop nodeIndex relIndex next nodes rels)
           | _ \<Rightarrow> None)
      | _ \<Rightarrow> None)"

definition buildPathSequence :: "any list \<Rightarrow> any list \<Rightarrow> (bytes \<times> nat) list \<Rightarrow> (bytes \<times> nat) list \<Rightarrow> int list" where
  "buildPathSequence nodes rels nodeIndex relIndex =
     (if nodes = [] \<or> rels = [] \<or> length nodes < length rels + 1 then []
      else case sequenceLoop nodeIndex relIndex (hd nodes) (tl nodes) rels of
             None \<Rightarrow> [] | Some s \<Rightarrow> s)"

fun coercePathNodes :: "any \<Rightarrow> any list" where
  "coercePathNodes (ANodes ns) = ns"
| "coercePathNodes (AList xs) = filter (\<lambda>x. case x of ANode _ _ _ \<Rightarrow> True | _ \<Rightarrow> False) xs"
| "coercePathNodes _ = []"

fun coercePathRels :: "any \<Rightarrow> any list" where
  "coercePathRels (AEdges es) = es"
| "coercePathRels (AList xs) = filter (\<lambda>x. case x of AEdge _ _ _ _ _ \<Rightarrow> True | _ \<Rightarrow> False) xs"
| "coercePathRels _ = []"

definition lookupAny :: "(bytes \<times> any) list \<Rightarrow> bytes \<Rightarrow> any" where
  "lookupAny m k = (case map_of m k of None \<Rightarrow> ANil | Some v \<Rightarrow> v)"

definition extractPathFromMap :: "(bytes \<times> any) list \<Rightarrow> (any list \<times> any list) option" where
  "extractPathFromMap m =
     (case map_of m (str ''_pathResult'') of
        None \<Rightarrow> None
      | Some raw \<Rightarrow>
          (case raw of
             APath ns rs \<Rightarrow> Some (ns, rs)
           | _ \<Rightarrow>
               let nodes = coercePathNodes (lookupAny m (str ''nodes''));
                   rels = coercePathRels (lookupAny m (str ''relationships''));
                   rels' = (if rels = [] then coercePathRels (lookupAny m (str ''rels'')) else rels)
               in if nodes = [] \<and> rels' = [] then None else Some (nodes, rels')))"

subsection \<open>Values\<close>

definition internalKey :: "bytes \<Rightarrow> bool" where
  "internalKey k \<longleftrightarrow> k = str ''_nodeId'' \<or> k = str ''labels''"

definition nodeIdField :: "any \<Rightarrow> bytes" where
  "nodeIdField nodeId =
     (case nodeId of AInt n \<Rightarrow> encodePackStreamIntInto n
                   | AStr s \<Rightarrow> encodePackStreamIntInto (HashStringToInt64 s)
                   | _ \<Rightarrow> encodePackStreamIntInto 0)"

definition encodeStrings :: "bytes list \<Rightarrow> bytes" where
  "encodeStrings xs = sizeHeader 0x90 0xD4 0xD5 (length xs) @ concat (map encodePackStreamStringInto xs)"

definition encodeStringMap :: "(bytes \<times> bytes) list \<Rightarrow> bytes" where
  "encodeStringMap m = sizeHeader 0xA0 0xD8 0xD9 (length m)
     @ concat (map (\<lambda>(k, v). encodePackStreamStringInto k @ encodePackStreamStringInto v) m)"

text \<open>Sizes, for termination: what the encoder recurses into is smaller than the map it came from.\<close>

abbreviation entries_size :: "(bytes \<times> any) list \<Rightarrow> nat" where
  "entries_size \<equiv> size_list (size_prod (\<lambda>_. 0) size)"

lemma size_list_filter: "size_list f (filter P xs) \<le> size_list f xs"
  by (induction xs) auto

lemma size_list_take: "size_list f (take n xs) \<le> size_list f xs"
  by (induction xs arbitrary: n) (auto simp: take_Cons split: nat.splits)

lemma size_list_uniqueLoop: "size_list f (fst (uniqueLoop xs u index)) \<le> size_list f u + size_list f xs"
proof (induction xs u index rule: uniqueLoop.induct)
  case (2 x xs u index)
  then show ?case by (fastforce split: option.splits)
qed simp

lemma size_map_of: "map_of m k = Some v \<Longrightarrow> size v < entries_size m"
  by (induction m) (auto split: if_splits)

lemma coerce_size:
  "size_list size (coercePathNodes v) \<le> size v" "size_list size (coercePathRels v) \<le> size v"
  by (cases v; auto intro: order_trans [OF size_list_filter])+

lemma lookup_size: "size (lookupAny m k) \<le> entries_size m \<or> lookupAny m k = ANil"
  using size_map_of [of m k] by (auto simp: lookupAny_def less_imp_le split: option.split)

lemma coerce_lookup_size:
  "size_list size (coercePathNodes (lookupAny m k)) \<le> entries_size m"
  "size_list size (coercePathRels (lookupAny m k)) \<le> entries_size m"
  using lookup_size [of m k] coerce_size [of "lookupAny m k"] by auto

lemma extract_size:
  assumes "extractPathFromMap m = Some (ns, rs)"
  shows "size_list size ns \<le> entries_size m \<and> size_list size rs \<le> entries_size m"
proof -
  obtain raw where raw: "map_of m (str ''_pathResult'') = Some raw"
    using assms by (auto simp: extractPathFromMap_def split: option.splits)
  note small = size_map_of [OF raw]
  show ?thesis
  proof (cases "\<exists>a b. raw = APath a b")
    case True
    then show ?thesis using assms raw small by (auto simp: extractPathFromMap_def)
  next
    case False
    then have "ns = coercePathNodes (lookupAny m (str ''nodes''))
        \<and> (rs = coercePathRels (lookupAny m (str ''relationships''))
           \<or> rs = coercePathRels (lookupAny m (str ''rels'')))"
      using assms raw by (cases raw) (auto simp: extractPathFromMap_def Let_def split: if_splits)
    then show ?thesis using coerce_lookup_size by auto
  qed
qed

lemma encoder_sizes:
  "Some v = map_of m k \<Longrightarrow> size v \<le> entries_size m"
  "extractPathFromMap m = Some (ns, rs) \<Longrightarrow> size_list size ns \<le> entries_size m"
  "extractPathFromMap m = Some (ns, rs) \<Longrightarrow> size_list size rs \<le> entries_size m"
  using size_map_of [of m k v] extract_size [of m ns rs] by (auto simp: less_imp_le)

lemma unique_sizes:
  "(u, i) = uniquePathNodes ns \<Longrightarrow> size_list size u \<le> size_list size ns"
  "(u, i) = uniquePathRels rs \<Longrightarrow> size_list size u \<le> size_list size rs"
  using size_list_uniqueLoop [of size ns "[]" "[]"] size_list_uniqueLoop [of size rs "[]" "[]"]
  by (auto simp: uniquePathNodes_def uniquePathRels_def dest!: arg_cong [where f = fst])

lemma path_sizes:
  "(u, i) = uniquePathNodes ns \<Longrightarrow> 3 * size_list size u \<le> Suc (3 * max (size_list size ns) k)"
  "(u, i) = uniquePathRels rs \<Longrightarrow> 3 * size_list size u \<le> Suc (3 * max k (size_list size rs))"
  "size_list size (take n ns) \<le> size_list size ns"
  "(u, i) = uniquePathNodes ns \<Longrightarrow> size_list size u \<le> max (size_list size ns) k"
  "Suc (3 * a) \<le> 3 * max (Suc a) k"
  "entries_size (filter P m) \<le> max k (entries_size m)"
  using unique_sizes [of u i ns] unique_sizes [of u i rs] size_list_take [of size n ns]
    size_list_filter [of "size_prod (\<lambda>_. 0) size" P m]
  by (auto simp: max_def)

text \<open>The encoders. \<open>encEntries\<close> is the loop over a map, \<open>encItems\<close> the loop over a list, \<open>encMaps\<close> the
  loop over a slice of maps, \<open>encRels\<close> the loop over the unbound relationships of a path. The value case of an unbound relationship calls the
  variant that fixes the UTC flag.\<close>

function encodePackStreamValueIntoWithUTC :: "bool \<Rightarrow> any \<Rightarrow> bytes"
  and encodePackStreamMapIntoWithUTC :: "bool \<Rightarrow> (bytes \<times> any) list \<Rightarrow> bytes"
  and encodePackStreamListIntoWithUTC :: "bool \<Rightarrow> any list \<Rightarrow> bytes"
  and encodeNodeIntoWithUTC :: "bool \<Rightarrow> any \<Rightarrow> any \<Rightarrow> (bytes \<times> any) list \<Rightarrow> bytes"
  and encodeStorageNodeIntoWithUTC :: "bool \<Rightarrow> bytes \<Rightarrow> bytes list \<Rightarrow> (bytes \<times> any) list \<Rightarrow> bytes"
  and encodeStorageEdgeIntoWithUTC :: "bool \<Rightarrow> bytes \<Rightarrow> bytes \<Rightarrow> bytes \<Rightarrow> bytes \<Rightarrow> (bytes \<times> any) list \<Rightarrow> bytes"
  and encodeUnboundRelationshipIntoWithUTC :: "bool \<Rightarrow> bytes \<Rightarrow> bytes \<Rightarrow> (bytes \<times> any) list \<Rightarrow> bytes"
  and encodePathIntoWithUTC :: "bool \<Rightarrow> any list \<Rightarrow> any list \<Rightarrow> bytes"
  and encEntries :: "bool \<Rightarrow> (bytes \<times> any) list \<Rightarrow> bytes"
  and encItems :: "bool \<Rightarrow> any list \<Rightarrow> bytes"
  and encRels :: "any list \<Rightarrow> bytes"
  and encMaps :: "bool \<Rightarrow> (bytes \<times> any) list list \<Rightarrow> bytes" where
  "encodePackStreamValueIntoWithUTC utc ANil = [0xC0]"
| "encodePackStreamValueIntoWithUTC utc (ABool b) = [if b then 0xC3 else 0xC2]"
| "encodePackStreamValueIntoWithUTC utc (AInt n) = encodePackStreamIntInto n"
| "encodePackStreamValueIntoWithUTC utc (AIntN n) = encodePackStreamIntInto n"
| "encodePackStreamValueIntoWithUTC utc (AFloat f) = 0xC1 # be64 f"
| "encodePackStreamValueIntoWithUTC utc (AStr s) = encodePackStreamStringInto s"
| "encodePackStreamValueIntoWithUTC utc (ABytes b) = encodePackStreamBytesInto b"
| "encodePackStreamValueIntoWithUTC utc (AList xs) = encodePackStreamListIntoWithUTC utc xs"
| "encodePackStreamValueIntoWithUTC utc (AStrs xs) = encodeStrings xs"
| "encodePackStreamValueIntoWithUTC utc (AMap m) =
     (case extractPathFromMap m of
        Some (nodes, rels) \<Rightarrow> encodePathIntoWithUTC utc nodes rels
      | None \<Rightarrow>
          (case (map_of m (str ''_nodeId''), map_of m (str ''labels'')) of
             (Some nodeId, Some labels) \<Rightarrow> encodeNodeIntoWithUTC utc nodeId labels m
           | _ \<Rightarrow> encodePackStreamMapIntoWithUTC utc m))"
| "encodePackStreamValueIntoWithUTC utc (AMaps ms) = sizeHeader 0x90 0xD4 0xD5 (length ms) @ encMaps utc ms"
| "encodePackStreamValueIntoWithUTC utc (AStrMap m) = encodeStringMap m"
| "encodePackStreamValueIntoWithUTC utc (ANode i labels props) = encodeStorageNodeIntoWithUTC utc i labels props"
| "encodePackStreamValueIntoWithUTC utc (AEdge i s e t props) = encodeStorageEdgeIntoWithUTC utc i s e t props"
| "encodePackStreamValueIntoWithUTC utc (AUnbound i t props) = encodeUnboundRelationshipIntoWithUTC True i t props"
| "encodePackStreamValueIntoWithUTC utc (ANodes xs) = encodePackStreamListIntoWithUTC utc xs"
| "encodePackStreamValueIntoWithUTC utc (AEdges xs) = encodePackStreamListIntoWithUTC utc xs"
| "encodePackStreamValueIntoWithUTC utc (APath ns rs) = [0xC0]"
| "encodePackStreamValueIntoWithUTC utc (ATime sec nanos offset) =
     encodePackStreamDateTimeIntoWithUTC utc sec nanos offset"
| "encodePackStreamValueIntoWithUTC utc (ADur ms) = encodePackStreamIntInto ms"
| "encodePackStreamValueIntoWithUTC utc AOther = [0xC0]"
| "encodePackStreamMapIntoWithUTC utc m =
     (let entries = filter (\<lambda>(k, v). k \<noteq> str ''_pathResult'') m
      in sizeHeader 0xA0 0xD8 0xD9 (length entries) @ encEntries utc entries)"
| "encodePackStreamListIntoWithUTC utc xs = sizeHeader 0x90 0xD4 0xD5 (length xs) @ encItems utc xs"
| "encodeNodeIntoWithUTC utc nodeId labels m =
     [0xB3, 0x4E] @ nodeIdField nodeId
     @ (case labels of AStrs l \<Rightarrow> encodeStrings l
                     | AList l \<Rightarrow> encodePackStreamListIntoWithUTC utc l
                     | _ \<Rightarrow> [0x90])
     @ (let props = filter (\<lambda>(k, v). \<not> internalKey k) m
        in sizeHeader 0xA0 0xD8 0xD9 (length props) @ encEntries utc props)"
| "encodeStorageNodeIntoWithUTC utc i labels props =
     [0xB3, 0x4E] @ encodePackStreamIntInto (HashStringToInt64 i) @ encodeStrings labels
     @ sizeHeader 0xA0 0xD8 0xD9 (length props) @ encEntries utc props"
| "encodeStorageEdgeIntoWithUTC utc i s e t props =
     [0xB5, 0x52] @ encodePackStreamIntInto (HashStringToInt64 i)
     @ encodePackStreamIntInto (HashStringToInt64 s) @ encodePackStreamIntInto (HashStringToInt64 e)
     @ encodePackStreamStringInto t @ sizeHeader 0xA0 0xD8 0xD9 (length props) @ encEntries utc props"
| "encodeUnboundRelationshipIntoWithUTC utc i t props =
     [0xB3, 0x72] @ encodePackStreamIntInto (HashStringToInt64 i) @ encodePackStreamStringInto t
     @ encodePackStreamMapIntoWithUTC utc props"
| "encodePathIntoWithUTC utc nodes rels =
     [0xB3, 0x50] @
     (if nodes = [] then [0x90, 0x90, 0x90]
      else if rels = [] then encodePackStreamListIntoWithUTC utc (take 1 nodes) @ [0x90, 0x90]
      else let (uniqueNodes, nodeIndex) = uniquePathNodes nodes;
               (uniqueRels, relIndex) = uniquePathRels rels;
               sequence = buildPathSequence nodes rels nodeIndex relIndex
           in encodePackStreamListIntoWithUTC utc uniqueNodes
              @ sizeHeader 0x90 0xD4 0xD5 (length uniqueRels) @ encRels uniqueRels
              @ sizeHeader 0x90 0xD4 0xD5 (length sequence)
              @ concat (map (\<lambda>n. encodePackStreamIntInto (of_int n)) sequence))"
| "encEntries utc [] = []"
| "encEntries utc ((k, v) # m) =
     encodePackStreamStringInto k @ encodePackStreamValueIntoWithUTC utc v @ encEntries utc m"
| "encItems utc [] = []"
| "encItems utc (x # xs) = encodePackStreamValueIntoWithUTC utc x @ encItems utc xs"
| "encRels [] = []"
| "encRels (rel # rels) =
     (case rel of
        AEdge i s e t props \<Rightarrow> encodeUnboundRelationshipIntoWithUTC True i t props
      | _ \<Rightarrow> []) @ encRels rels"
| "encMaps utc [] = []"
| "encMaps utc (m # ms) = encodePackStreamMapIntoWithUTC utc m @ encMaps utc ms"
  by pat_completeness auto

termination
proof (relation "measure (\<lambda>x. case x of
    Inl (Inl (Inl (utc, v))) \<Rightarrow> 3 * size v
  | Inl (Inl (Inr (Inl (utc, m)))) \<Rightarrow> 3 * entries_size m + 1
  | Inl (Inl (Inr (Inr (utc, xs)))) \<Rightarrow> 3 * size_list size xs + 1
  | Inl (Inr (Inl (utc, nodeId, labels, m))) \<Rightarrow> 3 * max (size labels) (entries_size m) + 1
  | Inl (Inr (Inr (Inl (utc, i, labels, props)))) \<Rightarrow> 3 * entries_size props + 1
  | Inl (Inr (Inr (Inr (utc, i, s, e, t, props)))) \<Rightarrow> 3 * entries_size props + 1
  | Inr (Inl (Inl (utc, i, t, props))) \<Rightarrow> 3 * entries_size props + 2
  | Inr (Inl (Inr (Inl (utc, nodes, rels)))) \<Rightarrow> 3 * max (size_list size nodes) (size_list size rels) + 2
  | Inr (Inl (Inr (Inr (utc, m)))) \<Rightarrow> 3 * entries_size m
  | Inr (Inr (Inl (utc, xs))) \<Rightarrow> 3 * size_list size xs
  | Inr (Inr (Inr (Inl xs))) \<Rightarrow> 3 * size_list size xs
  | Inr (Inr (Inr (Inr (utc, ms)))) \<Rightarrow> 3 * size_list entries_size ms)", goal_cases)
  case 1
  then show ?case by simp
qed (use encoder_sizes in \<open>auto simp: less_Suc_eq_le size_list_filter intro: path_sizes\<close>)

section \<open>Decoding\<close>

datatype pack_error = OffsetOutOfBounds | Incomplete string | StringOutOfBounds | ListOutOfBounds
  | IncompleteBytes | NotAString byte | NotAMap byte | NotAList byte | UnknownMarker byte
  | MissingSignature | MapKey pack_error | MapValue bytes pack_error | ListItem nat pack_error
  | StructureField nat pack_error

text \<open>An unsigned big-endian number, \<^verbatim>\<open>int(d[0])<<8 | int(d[1])\<close> and so on.\<close>

definition be_nat :: "bytes \<Rightarrow> nat" where
  "be_nat bs = foldl (\<lambda>a b. a * 256 + unat b) 0 bs"

text \<open>A length field of \<open>k\<close> bytes behind the marker: the length, the bytes consumed so far and the
  rest.\<close>

definition readLength :: "string \<Rightarrow> nat \<Rightarrow> bytes \<Rightarrow> pack_error + nat \<times> nat \<times> bytes" where
  "readLength what k r =
     (if length r < k then Inl (Incomplete what) else Inr (be_nat (take k r), 1 + k, drop k r))"

definition stringHeader :: "byte \<Rightarrow> bytes \<Rightarrow> pack_error + nat \<times> nat \<times> bytes" where
  "stringHeader marker r =
     (if marker \<ge> 0x80 \<and> marker \<le> 0x8F then Inr (unat (marker - 0x80), 1, r)
      else if marker = 0xD0 then readLength ''STRING8'' 1 r
      else if marker = 0xD1 then readLength ''STRING16'' 2 r
      else if marker = 0xD2 then readLength ''STRING32'' 4 r
      else Inl (NotAString marker))"

definition decodePackStreamString :: "bytes \<Rightarrow> pack_error + bytes \<times> nat" where
  "decodePackStreamString bs =
     (case bs of
        [] \<Rightarrow> Inl OffsetOutOfBounds
      | marker # r \<Rightarrow>
          (case stringHeader marker r of
             Inl e \<Rightarrow> Inl e
           | Inr (n, k, r') \<Rightarrow>
               if n > length r' then Inl StringOutOfBounds else Inr (take n r', k + n)))"

definition mapHeader :: "byte \<Rightarrow> bytes \<Rightarrow> pack_error + nat \<times> nat \<times> bytes" where
  "mapHeader marker r =
     (if marker \<ge> 0xA0 \<and> marker \<le> 0xAF then Inr (unat (marker - 0xA0), 1, r)
      else if marker = 0xD8 then readLength ''MAP8'' 1 r
      else if marker = 0xD9 then readLength ''MAP16'' 2 r
      else Inl (NotAMap marker))"

definition listHeader :: "byte \<Rightarrow> bytes \<Rightarrow> pack_error + nat \<times> nat \<times> bytes" where
  "listHeader marker r =
     (if marker \<ge> 0x90 \<and> marker \<le> 0x9F then Inr (unat (marker - 0x90), 1, r)
      else if marker = 0xD4 then readLength ''LIST8'' 1 r
      else if marker = 0xD5 then readLength ''LIST16'' 2 r
      else if marker = 0xD6 then readLength ''LIST32'' 4 r
      else Inl (NotAList marker))"

definition toInt64Field :: "any \<Rightarrow> u64 option" where
  "toInt64Field v = (case v of AInt n \<Rightarrow> Some n | AIntN n \<Rightarrow> Some n | _ \<Rightarrow> None)"

text \<open>\<^verbatim>\<open>time.Unix(sec, nsec)\<close>: nanoseconds outside a second carry into the seconds.\<close>

definition timeUnix :: "u64 \<Rightarrow> u64 \<Rightarrow> u64 \<Rightarrow> any" where
  "timeUnix sec nsec offset =
     ATime (sec + of_int (sint nsec div 10 ^ 9)) (of_int (sint nsec mod 10 ^ 9)) offset"

definition hexDigit :: "nat \<Rightarrow> byte" where
  "hexDigit n = of_char (if n < 10 then char_of (48 + n) else char_of (55 + n))"

definition typed :: "string \<Rightarrow> (bytes \<times> any) list \<Rightarrow> any" where
  "typed name fields = AMap ((str ''_type'', AStr (str name)) # fields)"

text \<open>The conversion by signature in \<^verbatim>\<open>decodeStructureFields\<close>. \<open>zone\<close> is the offset of a named zone at an
  instant; an unknown zone reads as UTC.\<close>

definition structureValue :: "(bytes \<Rightarrow> u64 \<Rightarrow> u64 option) \<Rightarrow> byte \<Rightarrow> any list \<Rightarrow> any" where
  "structureValue zone signature fields =
     (let n = length fields; generic = (\<lambda>name. typed name [(str ''fields'', AList fields)])
      in if signature = 0x4E then
           (if n \<ge> 3 then typed ''Node'' [(str ''id'', fields ! 0), (str ''labels'', fields ! 1),
                                         (str ''properties'', fields ! 2)]
            else generic ''Node'')
         else if signature = 0x52 then
           (if n \<ge> 5 then typed ''Relationship'' [(str ''id'', fields ! 0), (str ''startNodeId'', fields ! 1),
                        (str ''endNodeId'', fields ! 2), (str ''type'', fields ! 3),
                        (str ''properties'', fields ! 4)]
            else generic ''Relationship'')
         else if signature = 0x50 then
           (if n \<ge> 3 then typed ''Path'' [(str ''nodes'', fields ! 0), (str ''relationships'', fields ! 1),
                                         (str ''sequence'', fields ! 2)]
            else generic ''Path'')
         else if signature = 0x49 \<or> signature = 0x46 then
           (if n \<ge> 3 then
              (case (toInt64Field (fields ! 0), toInt64Field (fields ! 1), toInt64Field (fields ! 2)) of
                 (Some sec, Some nsec, Some offset) \<Rightarrow> timeUnix sec nsec offset
               | _ \<Rightarrow> generic ''DateTime'')
            else generic ''DateTime'')
         else if signature = 0x64 then
           (if n \<ge> 2 then
              (case (toInt64Field (fields ! 0), toInt64Field (fields ! 1)) of
                 (Some sec, Some nsec) \<Rightarrow> timeUnix sec nsec 0
               | _ \<Rightarrow> generic ''LocalDateTime'')
            else generic ''LocalDateTime'')
         else if signature = 0x69 \<or> signature = 0x66 then
           (if n \<ge> 3 then
              (case (toInt64Field (fields ! 0), toInt64Field (fields ! 1), fields ! 2) of
                 (Some sec, Some nsec, AStr zoneID) \<Rightarrow>
                   timeUnix sec nsec (case zone zoneID sec of Some offset \<Rightarrow> offset | None \<Rightarrow> 0)
               | _ \<Rightarrow> generic ''DateTimeZoneId'')
            else generic ''DateTimeZoneId'')
         else AMap [(str ''_type'', AStr (str ''Structure_0x'' @ [hexDigit (unat signature div 16),
                                                                hexDigit (unat signature mod 16)])),
                    (str ''signature'', AIntN (ucast signature)), (str ''fields'', AList fields)])"

text \<open>Values that hold no others; \<open>None\<close> when the marker is of another kind.\<close>

definition fixedInt :: "string \<Rightarrow> nat \<Rightarrow> bytes \<Rightarrow> (nat \<Rightarrow> any) \<Rightarrow> pack_error + any \<times> nat" where
  "fixedInt what k r f = (if length r < k then Inl (Incomplete what) else Inr (f (be_nat (take k r)), 1 + k))"

definition decodeBytes :: "string \<Rightarrow> nat \<Rightarrow> bytes \<Rightarrow> pack_error + any \<times> nat" where
  "decodeBytes what k r =
     (if length r < k then Inl (Incomplete what)
      else let n = be_nat (take k r)
           in if 1 + k + n > 1 + length r then Inl IncompleteBytes
              else Inr (ABytes (take n (drop k r)), 1 + k + n))"

definition decodeScalar :: "byte \<Rightarrow> bytes \<Rightarrow> (pack_error + any \<times> nat) option" where
  "decodeScalar marker r =
     (if marker = 0xC0 then Some (Inr (ANil, 1))
      else if marker = 0xC2 then Some (Inr (ABool False, 1))
      else if marker = 0xC3 then Some (Inr (ABool True, 1))
      else if marker \<le> 0x7F then Some (Inr (AInt (ucast marker), 1))
      else if marker \<ge> 0xF0 then Some (Inr (AInt (scast marker), 1))
      else if marker = 0xC8 then Some (fixedInt ''INT8'' 1 r (\<lambda>n. AInt (scast (of_nat n :: 8 word))))
      else if marker = 0xC9 then Some (fixedInt ''INT16'' 2 r (\<lambda>n. AInt (scast (of_nat n :: 16 word))))
      else if marker = 0xCA then Some (fixedInt ''INT32'' 4 r (\<lambda>n. AInt (scast (of_nat n :: 32 word))))
      else if marker = 0xCB then Some (fixedInt ''INT64'' 8 r (\<lambda>n. AInt (of_nat n)))
      else if marker = 0xC1 then Some (fixedInt ''Float64'' 8 r (\<lambda>n. AFloat (of_nat n)))
      else if marker = 0xCC then Some (decodeBytes ''BYTES8'' 1 r)
      else if marker = 0xCD then Some (decodeBytes ''BYTES16'' 2 r)
      else if marker = 0xCE then Some (decodeBytes ''BYTES32'' 4 r)
      else if (marker \<ge> 0x80 \<and> marker \<le> 0x8F) \<or> marker = 0xD0 \<or> marker = 0xD1 \<or> marker = 0xD2
      then Some (map_sum id (\<lambda>(s, n). (AStr s, n)) (decodePackStreamString (marker # r)))
      else None)"

text \<open>The containers. \<open>k\<close> counts the elements still to read, \<open>i\<close> those read.\<close>

function decodePackStreamValue ::
    "(bytes \<Rightarrow> u64 \<Rightarrow> u64 option) \<Rightarrow> bytes \<Rightarrow> pack_error + any \<times> nat"
  and decodeItems ::
    "(bytes \<Rightarrow> u64 \<Rightarrow> u64 option) \<Rightarrow> (nat \<Rightarrow> pack_error \<Rightarrow> pack_error) \<Rightarrow> nat \<Rightarrow> nat \<Rightarrow> bytes
      \<Rightarrow> pack_error + any list \<times> nat"
  and decodeEntries ::
    "(bytes \<Rightarrow> u64 \<Rightarrow> u64 option) \<Rightarrow> nat \<Rightarrow> bytes \<Rightarrow> (bytes \<times> any) list
      \<Rightarrow> pack_error + (bytes \<times> any) list \<times> nat" where
  "decodePackStreamValue zone [] = Inl OffsetOutOfBounds"
| "decodePackStreamValue zone (marker # r) =
     (case decodeScalar marker r of
        Some result \<Rightarrow> result
      | None \<Rightarrow>
          if (marker \<ge> 0x90 \<and> marker \<le> 0x9F) \<or> marker = 0xD4 \<or> marker = 0xD5 \<or> marker = 0xD6 then
            (case listHeader marker r of
               Inl e \<Rightarrow> Inl e
             | Inr (n, k, r') \<Rightarrow>
                 if n > length r' then Inl ListOutOfBounds
                 else map_sum id (\<lambda>(xs, m). (AList xs, k + m)) (decodeItems zone ListItem 0 n (drop (k - 1) r)))
          else if (marker \<ge> 0xA0 \<and> marker \<le> 0xAF) \<or> marker = 0xD8 \<or> marker = 0xD9 \<or> marker = 0xDA then
            (case mapHeader marker r of
               Inl e \<Rightarrow> Inl e
             | Inr (n, k, r') \<Rightarrow>
                 map_sum id (\<lambda>(xs, m). (AMap xs, k + m)) (decodeEntries zone n (drop (k - 1) r) []))
          else if marker \<ge> 0xB0 \<and> marker \<le> 0xBF then
            (if r = [] then Inl MissingSignature
             else map_sum id (\<lambda>(fields, m). (structureValue zone (r ! 0) fields, 2 + m))
                    (decodeItems zone StructureField 0 (unat (marker - 0xB0)) (drop 1 r)))
          else if marker = 0xDC then
            (if length r < 2 then Inl (Incomplete ''STRUCT8'')
             else map_sum id (\<lambda>(fields, m). (structureValue zone (r ! 1) fields, 3 + m))
                    (decodeItems zone StructureField 0 (unat (r ! 0)) (drop 2 r)))
          else if marker = 0xDD then
            (if length r < 4 then Inl (Incomplete ''STRUCT16'')
             else map_sum id (\<lambda>(fields, m). (structureValue zone (r ! 2) fields, 4 + m))
                    (decodeItems zone StructureField 0 (be_nat (take 2 r)) (drop 3 r)))
          else Inl (UnknownMarker marker))"
| "decodeItems zone wrap i 0 bs = Inr ([], 0)"
| "decodeItems zone wrap i (Suc k) bs =
     (case decodePackStreamValue zone bs of
        Inl e \<Rightarrow> Inl (wrap i e)
      | Inr (v, n) \<Rightarrow>
          map_sum id (\<lambda>(vs, m). (v # vs, n + m)) (decodeItems zone wrap (Suc i) k (drop n bs)))"
| "decodeEntries zone 0 bs result = Inr (result, 0)"
| "decodeEntries zone (Suc k) bs result =
     (case decodePackStreamString bs of
        Inl e \<Rightarrow> Inl (MapKey e)
      | Inr (key, n) \<Rightarrow>
          (case decodePackStreamValue zone (drop n bs) of
             Inl e \<Rightarrow> Inl (MapValue key e)
           | Inr (v, m) \<Rightarrow>
               map_sum id (\<lambda>(res, c). (res, n + m + c))
                 (decodeEntries zone k (drop (n + m) bs) (AList.update key v result))))"
  by pat_completeness auto
termination
  by (relation "inv_image (less_than <*lex*> less_than) (\<lambda>x. case x of
      Inl (zone, bs) \<Rightarrow> (length bs, 0)
    | Inr (Inl (zone, wrap, i, k, bs)) \<Rightarrow> (length bs, Suc k)
    | Inr (Inr (zone, k, bs, result)) \<Rightarrow> (length bs, Suc k))") auto

end
