(* ===== verification/PackstreamProps.thy ===== *)
theory PackstreamProps
  imports Packstream
begin

text \<open>
  Properties of the PackStream codec: what the encoder writes the decoder reads back, the decoder
  consumes at least one byte and never more than there are, and the sequence of a path is enough to
  walk the path again.
\<close>

section \<open>Numbers\<close>

lemma length_bytesN [simp]: "length (bytesN n v) = n"
  by (induction n) auto

lemma foldl_be: "foldl (\<lambda>a b. a * 256 + unat (b :: byte)) a bs = a * 256 ^ length bs + be_nat bs"
proof (induction bs arbitrary: a)
  case Nil
  then show ?case by (simp add: be_nat_def)
next
  case (Cons b bs)
  show ?case
    using Cons [of "a * 256 + unat b"] Cons [of "unat b"] by (simp add: be_nat_def algebra_simps)
qed

lemma be_nat_Cons: "be_nat (b # bs) = unat b * 256 ^ length bs + be_nat bs"
  using foldl_be [of "unat b" bs] by (simp add: be_nat_def)

lemma be_nat_Nil [simp]: "be_nat [] = 0"
  by (simp add: be_nat_def)

lemma be_nat_bytesN: "int (be_nat (bytesN n v)) = v mod 256 ^ n"
proof (induction n)
  case (Suc n)
  have "int (unat (of_int (v div 256 ^ n) :: byte)) = v div 256 ^ n mod 256"
    by (simp add: take_bit_eq_mod unsigned_of_int)
  moreover have "v mod (256 ^ n * 256) = 256 ^ n * (v div 256 ^ n mod 256) + v mod 256 ^ n"
    by (rule zmod_zmult2_eq) simp
  ultimately show ?case
    using Suc by (simp add: be_nat_Cons algebra_simps)
qed simp

lemma be_nat_take_bytesN [simp]:
  "int (be_nat (take n (bytesN n v @ r))) = v mod 256 ^ n"
  by (simp add: be_nat_bytesN)

lemma be_nat_size: "m < 256 ^ n \<Longrightarrow> be_nat (bytesN n (int m)) = m"
proof -
  assume "m < 256 ^ n"
  then have "int m < int (256 ^ n)" by (simp only: of_nat_less_iff)
  then have "int m mod 256 ^ n = int m" by simp
  then have "int (be_nat (bytesN n (int m))) = int m"
    using be_nat_bytesN [of n "int m"] by simp
  then show ?thesis by (simp only: of_nat_eq_iff)
qed

declare bytesN.simps [simp del]

section \<open>Integers\<close>

lemma byte_of_int: "0 \<le> v \<Longrightarrow> v < 256 \<Longrightarrow> uint (of_int v :: byte) = v"
  by (simp only: uint_word_of_int) simp

lemma byte_of_neg: "- 256 \<le> v \<Longrightarrow> v < 0 \<Longrightarrow> uint (of_int v :: byte) = v + 256"
proof -
  assume v: "- 256 \<le> v" "v < 0"
  have "v mod 256 = v + 256"
    using mod_pos_pos_trivial [of "v + 256" 256] v by simp
  then show ?thesis by (simp only: uint_word_of_int) simp
qed

lemma sbyte_of_int: "- 128 \<le> v \<Longrightarrow> v < 128 \<Longrightarrow> sint (of_int v :: byte) = v"
  by (simp add: signed_of_int signed_take_bit_int_eq_self)

lemmas marker_simps = word_uint_eq_iff word_le_def

lemma scast_of_nat:
  assumes "int n = v mod 2 ^ LENGTH('a)" "- (2 ^ (LENGTH('a) - 1)) \<le> v" "v < 2 ^ (LENGTH('a) - 1)"
  shows "scast (of_nat n :: 'a::len word) = (of_int v :: u64)"
proof -
  have "(of_nat n :: 'a word) = of_int (int n)" by simp
  also have "\<dots> = of_int v"
    unfolding assms(1) by (metis uint_word_of_int word_of_int_uint)
  finally have "(of_nat n :: 'a word) = of_int v" .
  moreover have "sint (of_int v :: 'a word) = v"
    using assms(2,3) by (simp add: signed_of_int signed_take_bit_int_eq_self)
  ultimately show ?thesis by (simp add: scast_eq)
qed

lemma decodeScalar_int:
  assumes "encodePackStreamIntInto v = marker # bs"
  shows "decodeScalar marker (bs @ r) = Some (Inr (AInt v, length (marker # bs)))"
proof -
  let ?s = "sint v"
  have v: "of_int ?s = v" by simp
  consider (tiny) "-16 \<le> ?s" "?s \<le> 127" | (i8) "-128 \<le> ?s" "?s < -16"
    | (i16) "-32768 \<le> ?s" "?s \<le> 32767" "\<not> (-128 \<le> ?s \<and> ?s \<le> 127)"
    | (i32) "-2147483648 \<le> ?s" "?s \<le> 2147483647" "\<not> (-32768 \<le> ?s \<and> ?s \<le> 32767)"
    | (i64) "\<not> (-2147483648 \<le> ?s \<and> ?s \<le> 2147483647)"
    by linarith
  then show ?thesis
  proof cases
    case tiny
    then have m: "marker = of_int ?s" "bs = []"
      using assms by (auto simp: encodePackStreamIntInto_def Let_def)
    show ?thesis
    proof (cases "0 \<le> ?s")
      case True
      have u: "uint marker = ?s" unfolding m by (rule byte_of_int) (use tiny True in simp_all)
      then have c: "(ucast marker :: u64) = v" by (metis ucast_eq v)
      show ?thesis
        using u tiny True m(2) by (simp add: decodeScalar_def c marker_simps)
    next
      case False
      have u: "uint marker = ?s + 256" unfolding m by (rule byte_of_neg) (use tiny False in simp_all)
      have "sint marker = ?s"
        unfolding m by (rule sbyte_of_int) (use tiny in simp_all)
      then have c: "(scast marker :: u64) = v" by (metis scast_eq v)
      show ?thesis
        using u tiny False m(2) by (simp add: decodeScalar_def c marker_simps)
    qed
  next
    case i8
    then have m: "marker = 0xC8" "bs = bytesN 1 ?s"
      using assms by (auto simp: encodePackStreamIntInto_def Let_def bytesN.simps)
    have "(scast (of_nat (be_nat (bytesN 1 ?s)) :: 8 word) :: u64) = of_int ?s"
      by (rule scast_of_nat) (use i8 in \<open>simp_all add: be_nat_bytesN\<close>)
    then show ?thesis
      unfolding m by (simp add: decodeScalar_def fixedInt_def)
  next
    case i16
    then have m: "marker = 0xC9" "bs = bytesN 2 ?s"
      using assms by (auto simp: encodePackStreamIntInto_def Let_def)
    have "(scast (of_nat (be_nat (bytesN 2 ?s)) :: 16 word) :: u64) = of_int ?s"
      by (rule scast_of_nat) (use i16 in \<open>simp_all add: be_nat_bytesN\<close>)
    then show ?thesis
      unfolding m by (simp add: decodeScalar_def fixedInt_def)
  next
    case i32
    then have m: "marker = 0xCA" "bs = bytesN 4 ?s"
      using assms by (auto simp: encodePackStreamIntInto_def Let_def)
    have "(scast (of_nat (be_nat (bytesN 4 ?s)) :: 32 word) :: u64) = of_int ?s"
      by (rule scast_of_nat) (use i32 in \<open>simp_all add: be_nat_bytesN\<close>)
    then show ?thesis
      unfolding m by (simp add: decodeScalar_def fixedInt_def)
  next
    case i64
    then have m: "marker = 0xCB" "bs = bytesN 8 ?s"
      using assms by (auto simp: encodePackStreamIntInto_def Let_def)
    have "(scast (of_nat (be_nat (bytesN 8 ?s)) :: u64) :: u64) = of_int ?s"
      by (rule scast_of_nat) (use sint_ge [of v] sint_lt [of v] in \<open>simp_all add: be_nat_bytesN\<close>)
    then show ?thesis
      unfolding m by (simp add: decodeScalar_def fixedInt_def)
  qed
qed

section \<open>Headers\<close>

lemma uint_tiny: "n < 16 \<Longrightarrow> uint b + 16 \<le> 256 \<Longrightarrow> uint (b + of_nat n :: byte) = uint b + int n"
proof -
  assume n: "n < 16" "uint b + 16 \<le> 256"
  have "uint (of_nat n :: byte) = int n"
    using n(1) by (simp add: unsigned_of_nat take_bit_nat_eq_self)
  then show ?thesis using n by (simp add: uint_word_ariths)
qed

lemma unat_tiny [simp]: "n < 16 \<Longrightarrow> unat (of_nat n :: byte) = n"
  by (simp add: unsigned_of_nat take_bit_nat_eq_self)

lemma unat_small [simp]: "n < 256 \<Longrightarrow> unat (of_nat n :: byte) = n"
  by (simp add: unsigned_of_nat take_bit_nat_eq_self)

lemma take_bytesN [simp]: "take n (bytesN n v @ r) = bytesN n v" "drop n (bytesN n v @ r) = r"
  by simp_all

lemma decodeString_encode:
  assumes "length s < 2 ^ 32"
  shows "decodePackStreamString (encodePackStreamStringInto s @ r)
    = Inr (s, length (encodePackStreamStringInto s))"
proof -
  consider (tiny) "length s < 16" | (s8) "16 \<le> length s" "length s < 256"
    | (s16) "256 \<le> length s" "length s < 65536" | (s32) "65536 \<le> length s"
    by linarith
  then show ?thesis
  proof cases
    case tiny
    then show ?thesis
      using uint_tiny [of "length s" "0x80"]
      by (simp add: decodePackStreamString_def encodePackStreamStringInto_def stringHeader_def marker_simps)
  next
    case s8
    then show ?thesis
      by (simp add: decodePackStreamString_def encodePackStreamStringInto_def stringHeader_def
          readLength_def be_nat_Cons)
  next
    case s16
    then show ?thesis
      by (simp add: decodePackStreamString_def encodePackStreamStringInto_def stringHeader_def
          readLength_def be_nat_size)
  next
    case s32
    then show ?thesis
      using assms by (simp add: decodePackStreamString_def encodePackStreamStringInto_def stringHeader_def
          readLength_def be_nat_size)
  qed
qed

lemma string_marker:
  assumes "encodePackStreamStringInto s = marker # bs"
  shows "decodeScalar marker (bs @ r)
    = Some (map_sum id (\<lambda>(s, n). (AStr s, n)) (decodePackStreamString (encodePackStreamStringInto s @ r)))"
proof -
  have "(0x80 \<le> marker \<and> marker \<le> 0x8F) \<or> marker = 0xD0 \<or> marker = 0xD1 \<or> marker = 0xD2"
    using assms uint_tiny [of "length s" "0x80"]
    by (auto simp: encodePackStreamStringInto_def Let_def marker_simps split: if_splits)
  then show ?thesis
    unfolding assms by (auto simp: decodeScalar_def marker_simps)
qed

lemma list_start:
  assumes "n < 65536"
  shows "decodePackStreamValue zone (sizeHeader 0x90 0xD4 0xD5 n @ body) =
    (if n > length body then Inl ListOutOfBounds
     else map_sum id (\<lambda>(xs, m). (AList xs, length (sizeHeader 0x90 0xD4 0xD5 n) + m))
       (decodeItems zone ListItem 0 n body))"
proof -
  consider (tiny) "n < 16" | (s8) "16 \<le> n" "n < 256" | (s16) "256 \<le> n" by linarith
  then show ?thesis
  proof cases
    case tiny
    then show ?thesis
      using uint_tiny [of n "0x90"]
      by (simp add: sizeHeader_def decodeScalar_def listHeader_def marker_simps)
  next
    case s8
    then show ?thesis
      by (simp add: sizeHeader_def decodeScalar_def listHeader_def readLength_def be_nat_Cons)
  next
    case s16
    then show ?thesis
      using assms by (simp add: sizeHeader_def decodeScalar_def listHeader_def readLength_def be_nat_size
          numeral_3_eq_3)
  qed
qed

lemma map_start:
  assumes "n < 65536"
  shows "decodePackStreamValue zone (sizeHeader 0xA0 0xD8 0xD9 n @ body) =
    map_sum id (\<lambda>(xs, m). (AMap xs, length (sizeHeader 0xA0 0xD8 0xD9 n) + m)) (decodeEntries zone n body [])"
proof -
  consider (tiny) "n < 16" | (s8) "16 \<le> n" "n < 256" | (s16) "256 \<le> n" by linarith
  then show ?thesis
  proof cases
    case tiny
    then show ?thesis
      using uint_tiny [of n "0xA0"]
      by (simp add: sizeHeader_def decodeScalar_def mapHeader_def marker_simps)
  next
    case s8
    then show ?thesis
      by (simp add: sizeHeader_def decodeScalar_def mapHeader_def readLength_def be_nat_Cons)
  next
    case s16
    then show ?thesis
      using assms by (simp add: sizeHeader_def decodeScalar_def mapHeader_def readLength_def be_nat_size
          numeral_3_eq_3)
  qed
qed

section \<open>Sequences\<close>

text \<open>A client that writes a sequence of items needs of the items' codec that the decoder reads each one
  back and consumes what was written; it then reads back the sequence.\<close>

locale item_codec =
  fixes zone :: "bytes \<Rightarrow> u64 \<Rightarrow> u64 option"
    and enc :: "'a \<Rightarrow> bytes" and val :: "'a \<Rightarrow> any" and fits :: "'a \<Rightarrow> bool"
  assumes item: "fits x \<Longrightarrow> decodePackStreamValue zone (enc x @ r) = Inr (val x, length (enc x))"
begin

lemma enc_not_Nil: "fits x \<Longrightarrow> enc x \<noteq> []"
proof
  assume "fits x" "enc x = []"
  then show False using item [of x "[]"] by simp
qed

lemma items:
  "list_all fits xs \<Longrightarrow> decodeItems zone wrap i (length xs) (concat (map enc xs) @ r)
    = Inr (map val xs, length (concat (map enc xs)))"
proof (induction xs arbitrary: i)
  case Nil
  then show ?case by simp
next
  case (Cons x xs)
  then show ?case
    using item [of x "concat (map enc xs) @ r"] by simp
qed

lemma items_length: "list_all fits xs \<Longrightarrow> length xs \<le> length (concat (map enc xs))"
proof (induction xs)
  case Nil
  then show ?case by simp
next
  case (Cons x xs)
  then show ?case using enc_not_Nil [of x] by (cases "enc x") auto
qed

lemma list_of_items:
  assumes "list_all fits xs" "length xs < 65536"
  shows "decodePackStreamValue zone (sizeHeader 0x90 0xD4 0xD5 (length xs) @ concat (map enc xs) @ r)
    = Inr (AList (map val xs), length (sizeHeader 0x90 0xD4 0xD5 (length xs) @ concat (map enc xs)))"
  using items [OF assms(1), of ListItem 0 r] items_length [OF assms(1)] assms(2)
  by (simp add: list_start)

lemma entries:
  assumes "list_all (\<lambda>(k, v). length k < 2 ^ 32 \<and> fits v) m" "distinct (map fst m)"
    and "set (map fst m) \<inter> set (map fst acc) = {}"
  shows "decodeEntries zone (length m) (concat (map (\<lambda>(k, v). encodePackStreamStringInto k @ enc v) m) @ r) acc
    = Inr (acc @ map (\<lambda>(k, v). (k, val v)) m,
        length (concat (map (\<lambda>(k, v). encodePackStreamStringInto k @ enc v) m)))"
  using assms
proof (induction m arbitrary: acc)
  case Nil
  then show ?case by simp
next
  case (Cons e m)
  obtain k v where e: "e = (k, v)" by fastforce
  let ?rest = "concat (map (\<lambda>(k, v). encodePackStreamStringInto k @ enc v) m) @ r"
  have new: "AList.update k w acc = acc @ [(k, w)]" for w
    using Cons.prems(3) e by (induction acc) auto
  have s: "decodePackStreamString (encodePackStreamStringInto k @ enc v @ ?rest)
      = Inr (k, length (encodePackStreamStringInto k))"
    using Cons.prems(1) e by (intro decodeString_encode) simp
  show ?case
    using Cons.IH [of "acc @ [(k, val v)]"] Cons.prems item [of v ?rest] s e new by auto
qed

lemma map_of_entries:
  assumes "list_all (\<lambda>(k, v). length k < 2 ^ 32 \<and> fits v) m" "distinct (map fst m)" "length m < 65536"
  shows "decodePackStreamValue zone (sizeHeader 0xA0 0xD8 0xD9 (length m)
      @ concat (map (\<lambda>(k, v). encodePackStreamStringInto k @ enc v) m) @ r)
    = Inr (AMap (map (\<lambda>(k, v). (k, val v)) m), length (sizeHeader 0xA0 0xD8 0xD9 (length m)
      @ concat (map (\<lambda>(k, v). encodePackStreamStringInto k @ enc v) m)))"
  using entries [OF assms(1,2), of "[]" r] assms(3) by (simp add: map_start)

end

lemma decode_int: "decodePackStreamValue zone (encodePackStreamIntInto v @ r)
    = Inr (AInt v, length (encodePackStreamIntInto v))"
proof -
  obtain marker bs where m: "encodePackStreamIntInto v = marker # bs"
    by (cases "encodePackStreamIntInto v") (auto simp: encodePackStreamIntInto_def Let_def split: if_splits)
  show ?thesis using decodeScalar_int [OF m] by (simp add: m)
qed

lemma decode_string: "length s < 2 ^ 32 \<Longrightarrow> decodePackStreamValue zone (encodePackStreamStringInto s @ r)
    = Inr (AStr s, length (encodePackStreamStringInto s))"
proof -
  assume s: "length s < 2 ^ 32"
  obtain marker bs where m: "encodePackStreamStringInto s = marker # bs"
    by (cases "encodePackStreamStringInto s") (auto simp: encodePackStreamStringInto_def Let_def split: if_splits)
  show ?thesis using string_marker [OF m, of r] decodeString_encode [OF s, of r] by (simp add: m)
qed

interpretation int_codec: item_codec zone encodePackStreamIntInto AInt "\<lambda>_. True" for zone
  by unfold_locales (rule decode_int)

interpretation string_codec: item_codec zone encodePackStreamStringInto AStr "\<lambda>s. length s < 2 ^ 32" for zone
  by unfold_locales (rule decode_string)

section \<open>Values\<close>

text \<open>What the wire format can carry: 32-bit string lengths, and fewer than 65536 elements of a list
  or entries of a map; times with normalized nanoseconds; maps that are not paths, that is, without the
  key the executor marks paths with.\<close>

definition fits_string :: "bytes \<Rightarrow> bool" where
  "fits_string s \<longleftrightarrow> length s < 2 ^ 32"

definition fits_keys :: "(bytes \<times> 'a) list \<Rightarrow> bool" where
  "fits_keys m \<longleftrightarrow> length m < 65536 \<and> distinct (map fst m) \<and> list_all (fits_string \<circ> fst) m"

primrec packable :: "any \<Rightarrow> bool" where
  "packable ANil = True"
| "packable (ABool b) = True"
| "packable (AInt n) = True"
| "packable (AIntN n) = True"
| "packable (AFloat f) = True"
| "packable (AStr s) = fits_string s"
| "packable (ABytes b) = fits_string b"
| "packable (AList xs) = (length xs < 65536 \<and> list_all id (map packable xs))"
| "packable (AStrs xs) = (length xs < 65536 \<and> list_all fits_string xs)"
| "packable (AMap m) = (fits_keys m \<and> str ''_pathResult'' \<notin> set (map fst m)
     \<and> list_all snd (map (map_prod id packable) m))"
| "packable (AMaps ms) = (length ms < 65536
     \<and> list_all (\<lambda>m. fits_keys m \<and> str ''_pathResult'' \<notin> set (map fst m)) ms
     \<and> list_all (list_all snd) (map (map (map_prod id packable)) ms))"
| "packable (AStrMap m) = (fits_keys m \<and> list_all (fits_string \<circ> snd) m)"
| "packable (ANode i labels props) = (length labels < 65536 \<and> list_all fits_string labels \<and> fits_keys props
     \<and> list_all snd (map (map_prod id packable) props))"
| "packable (AEdge i s e t props) = (fits_string t \<and> fits_keys props \<and> list_all snd (map (map_prod id packable) props))"
| "packable (AUnbound i t props) = (fits_string t \<and> fits_keys props \<and> str ''_pathResult'' \<notin> set (map fst props)
     \<and> list_all snd (map (map_prod id packable) props))"
| "packable (ANodes xs) = (length xs < 65536 \<and> list_all id (map packable xs))"
| "packable (AEdges xs) = (length xs < 65536 \<and> list_all id (map packable xs))"
| "packable (APath ns rs) = True"
| "packable (ATime sec nanos offset) = (0 \<le> sint nanos \<and> sint nanos < 10 ^ 9)"
| "packable (ADur ms) = True"
| "packable AOther = True"

text \<open>What a client reads: graph entities, and maps with the keys of a node, as tagged maps, typed slices
  as lists, integers at one width, values without an encoding as null.\<close>

definition nodeIdValue :: "any \<Rightarrow> u64" where
  "nodeIdValue nodeId = (case nodeId of AInt n \<Rightarrow> n | AStr s \<Rightarrow> HashStringToInt64 s | _ \<Rightarrow> 0)"

fun is_list :: "any \<Rightarrow> bool" where
  "is_list (AList _) = True"
| "is_list (AStrs _) = True"
| "is_list _ = False"

primrec wire :: "any \<Rightarrow> any" where
  "wire ANil = ANil"
| "wire (ABool b) = ABool b"
| "wire (AInt n) = AInt n"
| "wire (AIntN n) = AInt n"
| "wire (AFloat f) = AFloat f"
| "wire (AStr s) = AStr s"
| "wire (ABytes b) = ABytes b"
| "wire (AList xs) = AList (map wire xs)"
| "wire (AStrs xs) = AList (map AStr xs)"
| "wire (AMap m) =
     (let w = map (map_prod id wire) m
      in case (map_of m (str ''_nodeId''), map_of m (str ''labels'')) of
           (Some nodeId, Some labels) \<Rightarrow>
             typed ''Node'' [(str ''id'', AInt (nodeIdValue nodeId)),
               (str ''labels'', if is_list labels then the (map_of w (str ''labels'')) else AList []),
               (str ''properties'', AMap (filter (\<lambda>(k, v). \<not> internalKey k) w))]
         | _ \<Rightarrow> AMap w)"
| "wire (AMaps ms) = AList (map AMap (map (map (map_prod id wire)) ms))"
| "wire (AStrMap m) = AMap (map (\<lambda>(k, v). (k, AStr v)) m)"
| "wire (ANode i labels props) = typed ''Node'' [(str ''id'', AInt (HashStringToInt64 i)),
     (str ''labels'', AList (map AStr labels)), (str ''properties'', AMap (map (map_prod id wire) props))]"
| "wire (AEdge i s e t props) = typed ''Relationship'' [(str ''id'', AInt (HashStringToInt64 i)),
     (str ''startNodeId'', AInt (HashStringToInt64 s)), (str ''endNodeId'', AInt (HashStringToInt64 e)),
     (str ''type'', AStr t), (str ''properties'', AMap (map (map_prod id wire) props))]"
| "wire (AUnbound i t props) = AMap [(str ''_type'', AStr (str ''Structure_0x72'')),
     (str ''signature'', AIntN 0x72),
     (str ''fields'', AList [AInt (HashStringToInt64 i), AStr t, AMap (map (map_prod id wire) props)])]"
| "wire (ANodes xs) = AList (map wire xs)"
| "wire (AEdges xs) = AList (map wire xs)"
| "wire (APath ns rs) = ANil"
| "wire (ATime sec nanos offset) = ATime sec nanos offset"
| "wire (ADur ms) = AInt ms"
| "wire AOther = ANil"

text \<open>The round trip of one value, for both settings of the UTC flag.\<close>

definition reads_back :: "(bytes \<Rightarrow> u64 \<Rightarrow> u64 option) \<Rightarrow> any \<Rightarrow> bool" where
  "reads_back zone v \<longleftrightarrow> (\<forall>utc r. decodePackStreamValue zone (encodePackStreamValueIntoWithUTC utc v @ r) = Inr (wire v, length (encodePackStreamValueIntoWithUTC utc v)))"

text \<open>Values that read back are items, so sequences and maps of them read back.\<close>

interpretation value_codec: item_codec zone "encodePackStreamValueIntoWithUTC utc" wire "reads_back zone" for zone utc
  by unfold_locales (simp add: reads_back_def)

lemma encItems_concat: "encItems utc xs = concat (map (encodePackStreamValueIntoWithUTC utc) xs)"
  by (induction xs) auto

lemma encEntries_concat:
  "encEntries utc m = concat (map (\<lambda>(k, v). encodePackStreamStringInto k @ encodePackStreamValueIntoWithUTC utc v) m)"
  by (induction m) auto

lemma decode_items:
  "\<forall>x \<in> set xs. reads_back zone x \<Longrightarrow> length xs < 65536 \<Longrightarrow>
    decodePackStreamValue zone (sizeHeader 0x90 0xD4 0xD5 (length xs) @ encItems utc xs @ r)
    = Inr (AList (map wire xs), length (sizeHeader 0x90 0xD4 0xD5 (length xs) @ encItems utc xs))"
  using value_codec.list_of_items [of zone xs utc r] by (simp add: encItems_concat list_all_iff)

lemma decode_map:
  "\<forall>(k, v) \<in> set m. reads_back zone v \<Longrightarrow> fits_keys m \<Longrightarrow>
    decodePackStreamValue zone (sizeHeader 0xA0 0xD8 0xD9 (length m) @ encEntries utc m @ r)
    = Inr (AMap (map (map_prod id wire) m), length (sizeHeader 0xA0 0xD8 0xD9 (length m) @ encEntries utc m))"
  using value_codec.map_of_entries [of zone m utc r]
  by (simp add: encEntries_concat list_all_iff fits_keys_def fits_string_def map_prod_def prod.case_eq_if)

lemma decode_map_field:
  "\<forall>(k, v) \<in> set m. reads_back zone v \<Longrightarrow> fits_keys m \<Longrightarrow>
    decodePackStreamValue zone ((sizeHeader 0xA0 0xD8 0xD9 (length m) @ encEntries utc m) @ r)
    = Inr (AMap (map (map_prod id wire) m), length (sizeHeader 0xA0 0xD8 0xD9 (length m) @ encEntries utc m))"
  using decode_map by simp

lemma decode_strings:
  "list_all fits_string xs \<Longrightarrow> length xs < 65536 \<Longrightarrow>
    decodePackStreamValue zone (encodeStrings xs @ r) = Inr (AList (map AStr xs), length (encodeStrings xs))"
  using string_codec.list_of_items [of xs zone r] by (simp add: encodeStrings_def list_all_iff fits_string_def)

lemma decode_string_map:
  "fits_keys m \<Longrightarrow> list_all (fits_string \<circ> snd) m \<Longrightarrow>
    decodePackStreamValue zone (encodeStringMap m @ r) = Inr (AMap (map (\<lambda>(k, v). (k, AStr v)) m), length (encodeStringMap m))"
  using string_codec.map_of_entries [of m zone r]
  by (simp add: encodeStringMap_def list_all_iff fits_keys_def fits_string_def prod.case_eq_if)

text \<open>A map that is encoded as an element of a slice of maps.\<close>

definition plain_map :: "(bytes \<Rightarrow> u64 \<Rightarrow> u64 option) \<Rightarrow> (bytes \<times> any) list \<Rightarrow> bool" where
  "plain_map zone m \<longleftrightarrow> (\<forall>(k, v) \<in> set m. reads_back zone v) \<and> fits_keys m \<and> str ''_pathResult'' \<notin> set (map fst m)"

lemma filter_other_keys: "k \<notin> set (map fst m) \<Longrightarrow> filter (\<lambda>(i, v). i \<noteq> k) m = m"
  by (induction m) auto

lemma decode_plain_map:
  "plain_map zone m \<Longrightarrow> decodePackStreamValue zone (encodePackStreamMapIntoWithUTC utc m @ r)
    = Inr (AMap (map (map_prod id wire) m), length (encodePackStreamMapIntoWithUTC utc m))"
  using decode_map_field [of m zone utc r]
  by (simp add: plain_map_def filter_other_keys Let_def del: decodePackStreamValue.simps)

interpretation map_codec: item_codec zone "encodePackStreamMapIntoWithUTC utc" "\<lambda>m. AMap (map (map_prod id wire) m)"
    "plain_map zone" for zone utc
  by unfold_locales (rule decode_plain_map)

lemma encMaps_concat: "encMaps utc ms = concat (map (encodePackStreamMapIntoWithUTC utc) ms)"
  by (induction ms) auto

lemma decode_maps:
  "\<forall>m \<in> set ms. plain_map zone m \<Longrightarrow> length ms < 65536 \<Longrightarrow>
    decodePackStreamValue zone (sizeHeader 0x90 0xD4 0xD5 (length ms) @ encMaps utc ms @ r)
    = Inr (AList (map (\<lambda>m. AMap (map (map_prod id wire) m)) ms), length (sizeHeader 0x90 0xD4 0xD5 (length ms) @ encMaps utc ms))"
  using map_codec.list_of_items [of zone ms utc r]
  by (simp add: encMaps_concat list_all_iff del: encodePackStreamMapIntoWithUTC.simps)

lemma decode_bytes:
  assumes "length b < 2 ^ 32"
  shows "decodePackStreamValue zone (encodePackStreamBytesInto b @ r)
    = Inr (ABytes b, length (encodePackStreamBytesInto b))"
proof -
  consider (b8) "length b < 256" | (b16) "256 \<le> length b" "length b < 65536" | (b32) "65536 \<le> length b"
    by linarith
  then show ?thesis
  proof cases
    case b8
    then show ?thesis
      by (simp add: encodePackStreamBytesInto_def decodeScalar_def decodeBytes_def be_nat_Cons)
  next
    case b16
    then show ?thesis
      by (simp add: encodePackStreamBytesInto_def decodeScalar_def decodeBytes_def be_nat_size)
  next
    case b32
    then show ?thesis
      using assms by (simp add: encodePackStreamBytesInto_def decodeScalar_def decodeBytes_def be_nat_size)
  qed
qed

lemma decode_float: "decodePackStreamValue zone (0xC1 # be64 f @ r) = Inr (AFloat f, 9)"
proof -
  have shift: "ucast (drop_bit n f) = (of_int (uint f div 2 ^ n) :: byte)" for n
  proof -
    have "take_bit 64 (uint f) = uint f"
      using uint_lt2p [of f] by (simp add: take_bit_int_eq_self)
    then have "uint (drop_bit n f) = uint f div 2 ^ n"
      by (simp only: unsigned_drop_bit_eq) (simp add: drop_bit_eq_div)
    then show ?thesis by (simp only: ucast_eq)
  qed
  have eight: "(8 :: nat) = Suc (Suc (Suc (Suc (Suc (Suc (Suc (Suc 0)))))))" by simp
  have "bytesN 8 v = [of_int (v div 2 ^ 56), of_int (v div 2 ^ 48), of_int (v div 2 ^ 40), of_int (v div 2 ^ 32),
      of_int (v div 2 ^ 24), of_int (v div 2 ^ 16), of_int (v div 2 ^ 8), of_int v]" for v
    unfolding eight bytesN.simps by simp
  then have b: "be64 f = bytesN 8 (uint f)"
    by (simp only: be64_def shift ucast_eq [of f])
  have "int (be_nat (bytesN 8 (uint f))) = uint f"
    using uint_lt2p [of f] by (simp add: be_nat_bytesN)
  then have "(of_nat (be_nat (bytesN 8 (uint f))) :: u64) = f"
    by (metis of_int_of_nat_eq word_of_int_uint)
  then show ?thesis
    by (simp add: decodeScalar_def fixedInt_def b)
qed

lemma struct_start:
  "decodePackStreamValue zone (0xB3 # sig # body) =
     map_sum id (\<lambda>(fields, m). (structureValue zone sig fields, 2 + m)) (decodeItems zone StructureField 0 3 body)"
  "decodePackStreamValue zone (0xB5 # sig # body) =
     map_sum id (\<lambda>(fields, m). (structureValue zone sig fields, 2 + m)) (decodeItems zone StructureField 0 5 body)"
  by (simp_all add: decodeScalar_def)

text \<open>Three fields, and five.\<close>

lemma decode_three:
  assumes "\<And>r. decodePackStreamValue zone (a @ r) = Inr (x, length a)"
    and "\<And>r. decodePackStreamValue zone (b @ r) = Inr (y, length b)"
    and "\<And>r. decodePackStreamValue zone (c @ r) = Inr (z, length c)"
  shows "decodePackStreamValue zone (0xB3 # sig # a @ b @ c @ r)
    = Inr (structureValue zone sig [x, y, z], 2 + length a + length b + length c)"
  unfolding struct_start numeral_3_eq_3 by (simp add: assms)

lemma decode_five:
  assumes "\<And>r. decodePackStreamValue zone (a @ r) = Inr (x, length a)"
    and "\<And>r. decodePackStreamValue zone (b @ r) = Inr (y, length b)"
    and "\<And>r. decodePackStreamValue zone (c @ r) = Inr (z, length c)"
    and "\<And>r. decodePackStreamValue zone (d @ r) = Inr (u, length d)"
    and "\<And>r. decodePackStreamValue zone (e @ r) = Inr (w, length e)"
  shows "decodePackStreamValue zone (0xB5 # sig # a @ b @ c @ d @ e @ r)
    = Inr (structureValue zone sig [x, y, z, u, w], 2 + length a + length b + length c + length d + length e)"
proof -
  have five: "(5 :: nat) = Suc (Suc (Suc (Suc (Suc 0))))" by simp
  show ?thesis unfolding struct_start five by (simp add: assms)
qed

lemma unbound_signature:
  "structureValue zone 0x72 fields = AMap [(str ''_type'', AStr (str ''Structure_0x72'')),
     (str ''signature'', AIntN 0x72), (str ''fields'', AList fields)]"
proof -
  have "str ''Structure_0x'' @ [hexDigit 7, hexDigit 2] = str ''Structure_0x72''" by code_simp
  then show ?thesis by (simp add: structureValue_def)
qed

lemma timeUnix_normal:
  assumes "0 \<le> sint nanos" "sint nanos < 10 ^ 9"
  shows "timeUnix sec nanos offset = ATime sec nanos offset"
  using assms by (simp add: timeUnix_def div_pos_pos_trivial mod_pos_pos_trivial)

lemma nodeIdField_value: "nodeIdField nodeId = encodePackStreamIntInto (nodeIdValue nodeId)"
  by (simp add: nodeIdField_def nodeIdValue_def split: any.split)

lemma pair_options [case_names both none]:
  "(\<And>x y. p = (Some x, Some y) \<Longrightarrow> P) \<Longrightarrow> (\<nexists>x y. p = (Some x, Some y) \<Longrightarrow> P) \<Longrightarrow> P"
  by blast

lemma no_path: "str ''_pathResult'' \<notin> set (map fst m) \<Longrightarrow> extractPathFromMap m = None"
  using map_of_eq_None_iff [of m "str ''_pathResult''"] by (simp add: extractPathFromMap_def)

lemma other_map_reads_back:
  assumes "\<forall>(k, v) \<in> set m. reads_back zone v" "fits_keys m" "str ''_pathResult'' \<notin> set (map fst m)"
    and "\<nexists>x y. (map_of m (str ''_nodeId''), map_of m (str ''labels'')) = (Some x, Some y)"
  shows "reads_back zone (AMap m)"
proof -
  have "encodePackStreamValueIntoWithUTC utc (AMap m) = encodePackStreamMapIntoWithUTC utc m" for utc
    using no_path [OF assms(3)] assms(4) by (auto split: option.splits simp del: encodePackStreamMapIntoWithUTC.simps)
  moreover have "wire (AMap m) = AMap (map (map_prod id wire) m)"
    using assms(4) by (auto simp: Let_def split: option.splits)
  ultimately show ?thesis
    using decode_plain_map [of zone m] assms(1-3)
    by (simp add: reads_back_def plain_map_def del: decodePackStreamValue.simps encodePackStreamMapIntoWithUTC.simps)
qed

lemma empty_list: "decodePackStreamValue zone (0x90 # r) = Inr (AList [], 1)"
  by (simp add: decodeScalar_def listHeader_def)

lemma map_of_wired: "map_of (map (map_prod id f) m) = map_option f \<circ> map_of m"
  by (induction m) auto

lemma fits_keys_filter: "fits_keys m \<Longrightarrow> fits_keys (filter P m)"
  by (induction m) (auto simp: fits_keys_def list_all_iff intro: le_less_trans [OF length_filter_le])

lemma node_map_reads_back:
  assumes "\<forall>(k, v) \<in> set m. reads_back zone v" "fits_keys m" "str ''_pathResult'' \<notin> set (map fst m)"
    and "(map_of m (str ''_nodeId''), map_of m (str ''labels'')) = (Some nodeId, Some labels)"
  shows "reads_back zone (AMap m)"
proof -
  let ?props = "filter (\<lambda>(k, v). \<not> internalKey k) m"
  define ls where "ls = (if is_list labels then wire labels else AList [])"
  define enc where "enc utc = (case labels of AStrs l \<Rightarrow> encodeStrings l | AList l \<Rightarrow> encodePackStreamListIntoWithUTC utc l
      | _ \<Rightarrow> [0x90])" for utc
  have labels: "reads_back zone labels" using assms(1,4) map_of_SomeD [of m "str ''labels''" labels] by auto
  have l: "decodePackStreamValue zone (enc utc @ r) = Inr (ls, length (enc utc))" for utc r
  proof (cases "is_list labels")
    case True
    then show ?thesis
      using labels by (cases labels) (simp_all add: enc_def ls_def reads_back_def del: decodePackStreamValue.simps)
  next
    case False
    then have "enc utc = [0x90]" "ls = AList []" by (cases labels; simp add: enc_def ls_def)+
    then show ?thesis using empty_list by simp
  qed
  have "\<forall>(k, v) \<in> set ?props. reads_back zone v" "fits_keys ?props"
    using assms(1,2) fits_keys_filter by auto
  note m = decode_map_field [OF this]
  have "the (map_of (map (map_prod id wire) m) (str ''labels'')) = wire labels"
    using assms(4) by (simp add: map_of_wired)
  moreover have "filter (\<lambda>(k, v). \<not> internalKey k) (map (map_prod id wire) m) = map (map_prod id wire) ?props"
    by (simp add: filter_map comp_def case_prod_unfold)
  ultimately have w: "wire (AMap m) = typed ''Node'' [(str ''id'', AInt (nodeIdValue nodeId)), (str ''labels'', ls),
      (str ''properties'', AMap (map (map_prod id wire) ?props))]"
    using assms(4) by (simp add: Let_def ls_def)
  have "encodePackStreamValueIntoWithUTC utc (AMap m) = [0xB3, 0x4E] @ encodePackStreamIntInto (nodeIdValue nodeId) @ enc utc
      @ sizeHeader 0xA0 0xD8 0xD9 (length ?props) @ encEntries utc ?props" for utc
    using no_path [OF assms(3)] assms(4) by (simp add: nodeIdField_value enc_def Let_def)
  then show ?thesis
    using decode_three [OF decode_int l m]
    by (simp add: reads_back_def w structureValue_def typed_def del: decodePackStreamValue.simps wire.simps)
qed

lemma packable_reads_back: "packable v \<Longrightarrow> reads_back zone v"
proof (induction v)
  case (AFloat f)
  then show ?case using decode_float by (simp add: reads_back_def)
next
  case (AStr s)
  then show ?case by (simp add: reads_back_def decode_string fits_string_def del: decodePackStreamValue.simps)
next
  case (ABytes b)
  then show ?case by (simp add: reads_back_def decode_bytes fits_string_def del: decodePackStreamValue.simps)
next
  case (AList xs)
  then show ?case
    using decode_items [of xs zone] by (simp add: reads_back_def list_all_iff del: decodePackStreamValue.simps)
next
  case (ANodes xs)
  then show ?case
    using decode_items [of xs zone] by (simp add: reads_back_def list_all_iff del: decodePackStreamValue.simps)
next
  case (AEdges xs)
  then show ?case
    using decode_items [of xs zone] by (simp add: reads_back_def list_all_iff del: decodePackStreamValue.simps)
next
  case (AStrs xs)
  then show ?case
    using decode_strings [of xs zone] by (simp add: reads_back_def del: decodePackStreamValue.simps)
next
  case (AMap m)
  then have p: "\<forall>(k, v) \<in> set m. reads_back zone v" "fits_keys m" "str ''_pathResult'' \<notin> set (map fst m)"
    by (auto simp: list_all_iff)
  show ?case
  proof (cases "(map_of m (str ''_nodeId''), map_of m (str ''labels''))" rule: pair_options)
    case (both nodeId labels)
    then show ?thesis using node_map_reads_back [OF p] by blast
  next
    case none
    then show ?thesis using other_map_reads_back [OF p] by blast
  qed
next
  case (AMaps ms)
  then have "\<forall>m \<in> set ms. plain_map zone m" "length ms < 65536"
    by (fastforce simp: plain_map_def list_all_iff)+
  then show ?case
    using decode_maps [of ms zone] by (simp add: reads_back_def comp_def del: decodePackStreamValue.simps)
next
  case (AStrMap m)
  then show ?case
    using decode_string_map [of m zone] by (simp add: reads_back_def del: decodePackStreamValue.simps)
next
  case (ANode i labels props)
  then have "\<forall>(k, v) \<in> set props. reads_back zone v" "fits_keys props"
    and l: "list_all fits_string labels" "length labels < 65536"
    by (auto simp: list_all_iff)
  note m = decode_map_field [OF this(1,2)]
  show ?case
    using decode_three [OF decode_int decode_strings [OF l] m]
    by (simp add: reads_back_def structureValue_def typed_def del: decodePackStreamValue.simps)
next
  case (AEdge i s e t props)
  then have "\<forall>(k, v) \<in> set props. reads_back zone v" "fits_keys props" and t: "length t < 2 ^ 32"
    by (auto simp: list_all_iff fits_string_def)
  note m = decode_map_field [OF this(1,2)]
  show ?case
    using decode_five [OF decode_int decode_int decode_int decode_string [OF t] m]
    by (simp add: reads_back_def structureValue_def typed_def del: decodePackStreamValue.simps)
next
  case (AUnbound i t props)
  then have "\<forall>(k, v) \<in> set props. reads_back zone v" "fits_keys props" and t: "length t < 2 ^ 32"
    and f: "filter (\<lambda>(k, v). k \<noteq> str ''_pathResult'') props = props"
    using filter_other_keys by (auto simp: list_all_iff fits_string_def)
  note m = decode_map_field [OF this(1,2)]
  show ?case
    using decode_three [OF decode_int decode_string [OF t] m, where sig = "0x72"] f
    by (simp add: reads_back_def unbound_signature Let_def del: decodePackStreamValue.simps)
next
  case (ATime sec nanos offset)
  then show ?case
    using decode_three [OF decode_int decode_int decode_int, of zone] timeUnix_normal [of nanos sec offset]
    by (simp add: reads_back_def encodePackStreamDateTimeIntoWithUTC_def structureValue_def toInt64Field_def
        del: decodePackStreamValue.simps)
next
  case (ABool b)
  then show ?case by (simp add: reads_back_def decodeScalar_def)
qed (simp_all add: reads_back_def decode_int decodeScalar_def)

section \<open>Progress and bounds\<close>

text \<open>A successful decode consumed something, and nothing behind the end of the message.\<close>

definition consumes :: "bytes \<Rightarrow> nat \<Rightarrow> bool" where
  "consumes bs n \<longleftrightarrow> 0 < n \<and> n \<le> length bs"

lemma readLength_Inr:
  "readLength what k r = Inr (n, c, r') \<Longrightarrow> c = 1 + k \<and> k \<le> length r \<and> r' = drop k r"
  by (auto simp: readLength_def split: if_splits)

lemma stringHeader_Inr:
  "stringHeader marker r = Inr (n, c, r') \<Longrightarrow> 0 < c \<and> c \<le> 1 + length r \<and> r' = drop (c - 1) r"
  by (auto simp: stringHeader_def numeral_2_eq_2 dest!: readLength_Inr split: if_splits)

lemma string_consumes: "decodePackStreamString bs = Inr (s, n) \<Longrightarrow> consumes bs n \<and> length s < n"
  by (auto simp: decodePackStreamString_def consumes_def dest!: stringHeader_Inr
      split: list.splits sum.splits if_splits)

lemma fixed_consumes:
  "fixedInt what k r f = Inr (v, n) \<Longrightarrow> consumes (marker # r) n"
  "decodeBytes what k r = Inr (v, n) \<Longrightarrow> consumes (marker # r) n"
  by (auto simp: fixedInt_def decodeBytes_def consumes_def Let_def split: if_splits)

lemma scalar_consumes:
  assumes "decodeScalar marker r = Some (Inr (v, n))"
  shows "consumes (marker # r) n"
proof -
  have s: "map_sum id (\<lambda>(s, n). (AStr s, n)) (decodePackStreamString (marker # r)) = Inr (v, n)
      \<Longrightarrow> consumes (marker # r) n"
    using string_consumes [of "marker # r"] by (cases "decodePackStreamString (marker # r)") auto
  have one: "consumes (b # r) (Suc 0)" for b by (simp add: consumes_def)
  show ?thesis
    using assms unfolding decodeScalar_def
    by (auto split: if_splits simp: one elim!: fixed_consumes s)
qed

lemma headers_consume:
  "listHeader marker r = Inr (n, c, r') \<Longrightarrow> 0 < c \<and> c \<le> 1 + length r \<and> r' = drop (c - 1) r"
  "mapHeader marker r = Inr (n, c, r') \<Longrightarrow> 0 < c \<and> c \<le> 1 + length r \<and> r' = drop (c - 1) r"
  by (auto simp: listHeader_def mapHeader_def numeral_2_eq_2 dest!: readLength_Inr split: if_splits)

lemma map_sum_Inr: "map_sum id f s = Inr y \<longleftrightarrow> (\<exists>x. s = Inr x \<and> f x = y)"
  by (cases s) auto

lemma decode_consumes:
  "decodePackStreamValue zone bs = Inr (v, n) \<Longrightarrow> consumes bs n"
  "decodeItems zone wrap i k bs = Inr (vs, n) \<Longrightarrow> n \<le> length bs \<and> k \<le> n \<and> length vs = k"
  "decodeEntries zone k bs res = Inr (m, n) \<Longrightarrow> n \<le> length bs \<and> k \<le> n"
proof (induction zone bs and zone wrap i k bs and zone k bs res arbitrary: v n and vs n and m n
    rule: decodePackStreamValue_decodeItems_decodeEntries.induct)
  case (1 zone)
  then show ?case by simp
next
  case (2 zone marker r)
  show ?case
  proof (cases "decodeScalar marker r")
    case (Some res)
    then show ?thesis using "2.prems" scalar_consumes by simp
  next
    case None
    consider (list) "(0x90 \<le> marker \<and> marker \<le> 0x9F) \<or> marker = 0xD4 \<or> marker = 0xD5 \<or> marker = 0xD6"
      | (map) "\<not> ((0x90 \<le> marker \<and> marker \<le> 0x9F) \<or> marker = 0xD4 \<or> marker = 0xD5 \<or> marker = 0xD6)"
          "(0xA0 \<le> marker \<and> marker \<le> 0xAF) \<or> marker = 0xD8 \<or> marker = 0xD9 \<or> marker = 0xDA"
      | (struct) "\<not> ((0x90 \<le> marker \<and> marker \<le> 0x9F) \<or> marker = 0xD4 \<or> marker = 0xD5 \<or> marker = 0xD6)"
          "\<not> ((0xA0 \<le> marker \<and> marker \<le> 0xAF) \<or> marker = 0xD8 \<or> marker = 0xD9 \<or> marker = 0xDA)"
      by blast
    then show ?thesis
    proof cases
      case list
      then obtain c r' k xs m where h: "listHeader marker r = Inr (k, c, r')" "\<not> length r' < k"
        and d: "decodeItems zone ListItem 0 k (drop (c - 1) r) = Inr (xs, m)" and n: "n = c + m"
        using "2.prems" None by (auto simp: map_sum_Inr split: sum.splits if_splits)
      have "m \<le> length (drop (c - 1) r)"
        using "2.IH"(1) [OF None list h(1) refl refl] h(2) d by blast
      then show ?thesis using headers_consume(1) [OF h(1)] n by (auto simp: consumes_def)
    next
      case map
      then obtain c r' k xs m where h: "mapHeader marker r = Inr (k, c, r')"
        and d: "decodeEntries zone k (drop (c - 1) r) [] = Inr (xs, m)" and n: "n = c + m"
        using "2.prems" None by (auto simp: map_sum_Inr split: sum.splits if_splits)
      have "m \<le> length (drop (c - 1) r)"
        using "2.IH"(2) [OF None map h refl refl] d by blast
      then show ?thesis using headers_consume(2) [OF h] n by (auto simp: consumes_def)
    next
      case struct
      consider (tiny) "0xB0 \<le> marker \<and> marker \<le> 0xBF"
        | (s8) "\<not> (0xB0 \<le> marker \<and> marker \<le> 0xBF)" "marker = 0xDC"
        | (s16) "\<not> (0xB0 \<le> marker \<and> marker \<le> 0xBF)" "marker \<noteq> 0xDC" "marker = 0xDD"
        using "2.prems" None struct by (auto split: if_splits)
      then show ?thesis
      proof cases
        case tiny
        then obtain xs m where r: "r \<noteq> []" and n: "n = 2 + m"
          and d: "decodeItems zone StructureField 0 (unat (marker - 0xB0)) (drop 1 r) = Inr (xs, m)"
          using "2.prems" None struct by (auto simp: map_sum_Inr split: if_splits)
        have "m \<le> length (drop 1 r)"
          using "2.IH"(3) [OF None struct tiny r d] by blast
        then show ?thesis using r n by (cases r) (auto simp: consumes_def)
      next
        case s8
        then obtain xs m where r: "\<not> length r < 2" and n: "n = 3 + m"
          and d: "decodeItems zone StructureField 0 (unat (r ! 0)) (drop 2 r) = Inr (xs, m)"
          using "2.prems" None struct by (auto simp: map_sum_Inr split: if_splits)
        have "m \<le> length (drop 2 r)"
          using "2.IH"(4) [OF None struct s8 r d] by blast
        then show ?thesis using r n by (auto simp: consumes_def)
      next
        case s16
        then obtain xs m where r: "\<not> length r < 4" and n: "n = 4 + m"
          and d: "decodeItems zone StructureField 0 (be_nat (take 2 r)) (drop 3 r) = Inr (xs, m)"
          using "2.prems" None struct by (auto simp: map_sum_Inr split: if_splits)
        have "m \<le> length (drop 3 r)"
          using "2.IH"(5) [OF None struct s16 r d] by blast
        then show ?thesis using r n by (auto simp: consumes_def)
      qed
    qed
  qed
next
  case (4 zone wrap i k bs)
  then show ?case
    by (fastforce simp: consumes_def map_sum_Inr split: sum.splits)
next
  case (6 zone k bs result)
  then show ?case
    using string_consumes [of bs]
    by (fastforce simp: consumes_def map_sum_Inr split: sum.splits)
qed simp_all

section \<open>Paths\<close>

definition good_index :: "any list \<Rightarrow> any list \<Rightarrow> (bytes \<times> nat) list \<Rightarrow> bool" where
  "good_index xs unique index \<longleftrightarrow>
     (\<forall>i p. map_of index i = Some p \<longrightarrow> p < length unique \<and> pathID (unique ! p) = Some i \<and> unique ! p \<in> set xs)"

lemma uniqueLoop_good:
  assumes "good_index xs unique index" "uniqueLoop ys unique index = (u, ix)" "set ys \<subseteq> set xs"
  shows "good_index xs u ix \<and> (\<forall>i. map_of index i \<noteq> None \<longrightarrow> map_of ix i \<noteq> None)
    \<and> (\<forall>y \<in> set ys. \<forall>i. pathID y = Some i \<longrightarrow> map_of ix i \<noteq> None)
    \<and> (unique \<noteq> [] \<longrightarrow> u \<noteq> [] \<and> hd u = hd unique)"
  using assms
proof (induction ys unique index rule: uniqueLoop.induct)
  case (1 unique index)
  then show ?case by simp
next
  case (2 y ys unique index)
  show ?case
  proof (cases "pathID y")
    case None
    then show ?thesis using 2 by simp
  next
    case (Some i)
    show ?thesis
    proof (cases "map_of index i = None")
      case False
      then show ?thesis using 2 Some by auto
    next
      case True
      have "good_index xs (unique @ [y]) (index @ [(i, length unique)])"
        using "2.prems"(1,3) Some True
        by (auto simp: good_index_def map_add_def nth_append split: option.splits if_splits)
      moreover have "uniqueLoop ys (unique @ [y]) (index @ [(i, length unique)]) = (u, ix)"
        using "2.prems"(2) Some True by simp
      ultimately have "good_index xs u ix
          \<and> (\<forall>j. map_of (index @ [(i, length unique)]) j \<noteq> None \<longrightarrow> map_of ix j \<noteq> None)
          \<and> (\<forall>y \<in> set ys. \<forall>i. pathID y = Some i \<longrightarrow> map_of ix i \<noteq> None)
          \<and> u \<noteq> [] \<and> hd u = hd (unique @ [y])"
        using "2.IH"(3) [OF Some] True "2.prems"(3) by simp
      then show ?thesis
        using Some True by (auto simp: map_add_def split: option.splits)
    qed
  qed
qed

lemma unique_lookup:
  assumes "uniqueLoop xs [] [] = (u, ix)" "x \<in> set xs" "pathID x = Some i"
  shows "\<exists>p. map_of ix i = Some p \<and> p < length u \<and> pathID (u ! p) = Some i \<and> u ! p \<in> set xs"
  using uniqueLoop_good [OF _ assms(1), of xs] assms(2,3) by (force simp: good_index_def)

text \<open>A client's reading of a path: from the first node, each pair of the sequence names the next
  edge, its direction by the sign, and the next node.\<close>

fun walkPath :: "any list \<Rightarrow> any list \<Rightarrow> int list \<Rightarrow> (any \<times> bool \<times> any) list" where
  "walkPath nodes rels (r # n # sequence) =
     (rels ! (nat \<bar>r\<bar> - 1), 0 < r, nodes ! nat n) # walkPath nodes rels sequence"
| "walkPath nodes rels _ = []"

text \<open>The steps of a path as the graph has it.\<close>

fun pathSteps :: "any \<Rightarrow> any list \<Rightarrow> any list \<Rightarrow> (any \<times> bool \<times> any) list" where
  "pathSteps current (next # nodes) (rel # rels) =
     (rel, pathID current = Some (edgeStart rel), next) # pathSteps next nodes rels"
| "pathSteps current _ _ = []"

definition identified :: "any list \<Rightarrow> bool" where
  "identified xs \<longleftrightarrow> (\<forall>x \<in> set xs. pathID x \<noteq> None) \<and> (\<forall>x \<in> set xs. \<forall>y \<in> set xs. pathID x = pathID y \<longrightarrow> x = y)"

lemma walk_sequence:
  assumes "uniqueLoop ns [] [] = (un, ni)" "uniqueLoop rs [] [] = (ur, ri)"
    and "identified ns" "identified rs" "current \<in> set ns" "set nodes \<subseteq> set ns" "set rels \<subseteq> set rs"
    and "length nodes = length rels"
  shows "\<exists>sequence. sequenceLoop ni ri current nodes rels = Some sequence
    \<and> walkPath un ur sequence = pathSteps current nodes rels"
  using assms(8,5-7)
proof (induction nodes rels arbitrary: current rule: list_induct2)
  case Nil
  then show ?case by simp
next
  case (Cons node nodes rel rels)
  obtain c n r where i: "pathID current = Some c" "pathID node = Some n" "pathID rel = Some r"
    using Cons.prems assms(3,4) by (fastforce simp: identified_def)
  obtain np where np: "map_of ni n = Some np" "pathID (un ! np) = Some n" "un ! np \<in> set ns"
    using unique_lookup [OF assms(1), of node n] Cons.prems i by auto
  obtain rp where rp: "map_of ri r = Some rp" "pathID (ur ! rp) = Some r" "ur ! rp \<in> set rs"
    using unique_lookup [OF assms(2), of rel r] Cons.prems i by auto
  have eq: "un ! np = node" "ur ! rp = rel"
    using np rp i Cons.prems assms(3,4) by (simp_all add: identified_def)
  obtain sequence where "sequenceLoop ni ri node nodes rels = Some sequence"
    "walkPath un ur sequence = pathSteps node nodes rels"
    using Cons.IH [of node] Cons.prems by auto
  moreover have "nat (int rp + 1) - 1 = rp" "nat (1 + int rp) - 1 = rp" by simp_all
  ultimately show ?case
    using i np rp eq by (auto simp: Let_def)
qed

section \<open>Properties\<close>

definition no_zone :: "bytes \<Rightarrow> u64 \<Rightarrow> u64 option" where
  "no_zone = (\<lambda>_ _. None)"

text \<open>
  Claim C9. PackStream round trip: what the encoder writes for a \<open>packable\<close> value, with either date-time
  variant and before any following bytes, the decoder reads as the value a client sees, consuming
  exactly what was written. Packable values have fewer than 65536 elements in each list and entries in
  each map (longer ones are truncated, see \<open>long_list_truncated\<close>), strings shorter than \<open>2 ^ 32\<close>, distinct
  keys, normalized times, and no map with the key of a path; maps with the keys of a node are among
  them, and read back as nodes.
\<close>

theorem packstream_roundtrip:
  assumes "packable v"
  shows "decodePackStreamValue zone (encodePackStreamValueIntoWithUTC utc v @ rest) = Inr (wire v, length (encodePackStreamValueIntoWithUTC utc v))"
  using packable_reads_back [OF assms] by (simp add: reads_back_def)

definition demo_value :: any where
  "demo_value = AMap [(str ''n'', ANode (str ''a:1'') [str ''A''] [(str ''x'', AInt (- 129)), (str ''f'', AFloat 7)]),
     (str ''t'', ATime 1700000000 999999999 3600), (str ''l'', AList [ANil, ABool True, ABytes [1, 2, 3]])]"

lemma str_demo: "str ''n'' \<noteq> str ''t''" "str ''n'' \<noteq> str ''l''" "str ''t'' \<noteq> str ''l''" "str ''x'' \<noteq> str ''f''"
  "str ''_pathResult'' \<noteq> str ''n''" "str ''_pathResult'' \<noteq> str ''t''" "str ''_pathResult'' \<noteq> str ''l''"
  "str ''_nodeId'' \<noteq> str ''n''" "str ''_nodeId'' \<noteq> str ''t''" "str ''_nodeId'' \<noteq> str ''l''"
  by code_simp+

theorem packstream_roundtrip_witness:
  "decodePackStreamValue no_zone (encodePackStreamValueIntoWithUTC True demo_value @ [0xC0]) = Inr (wire demo_value, length (encodePackStreamValueIntoWithUTC True demo_value))"
proof (rule packstream_roundtrip)
  show "packable demo_value"
    using str_demo by (simp add: demo_value_def fits_keys_def fits_string_def str_def)
qed

text \<open>
  Claim C23. The decoder never reads past the end of a message and always makes progress: a value it
  accepts consumed at least one byte, and at most all there are.
\<close>

theorem decoder_stays_in_bounds:
  assumes "decodePackStreamValue zone bs = Inr (v, n)"
  shows "0 < n \<and> n \<le> length bs"
  using decode_consumes(1) [OF assms] by (simp add: consumes_def)

theorem decoder_stays_in_bounds_witness:
  "0 < (4::nat) \<and> (4::nat) \<le> length [0x92, 0x01, 0xC8, 0x80, 0xFF :: byte]"
proof (rule decoder_stays_in_bounds)
  show "decodePackStreamValue no_zone [0x92, 0x01, 0xC8, 0x80, 0xFF] = Inr (AList [AInt 1, AInt (- 128)], 4)"
    by code_simp
qed

lemma bytesN_2_mod: "bytesN 2 (v mod 65536) = bytesN 2 v"
proof -
  have w: "a mod 256 = b mod 256 \<Longrightarrow> (of_int a :: byte) = of_int b" for a b
    by (simp add: word_of_int_eq_iff take_bit_eq_mod)
  have "(of_int (v mod 65536 div 256) :: byte) = of_int (v div 256)"
  proof (rule w)
    have "v mod (256 * 256) = 256 * (v div 256 mod 256) + v mod 256"
      by (rule zmod_zmult2_eq) simp
    then have "v mod 65536 div 256 = v div 256 mod 256" by simp
    then show "v mod 65536 div 256 mod 256 = v div 256 mod 256" by simp
  qed
  moreover have "(of_int (v mod 65536) :: byte) = of_int v"
    by (rule w) (simp add: mod_mod_cancel)
  ultimately show ?thesis by (simp only: bytesN.simps numeral_2_eq_2) simp
qed

text \<open>
  A list of 65536 elements or more is written with a 16-bit length that dropped the high
  bits: a decoder sees only as many elements as the length modulo 65536, and takes the bytes of the
  others for what follows the list.
\<close>

theorem long_list_truncated:
  assumes "256 \<le> length xs" "\<forall>x \<in> set xs. packable x"
  shows "decodePackStreamValue zone (encodePackStreamValueIntoWithUTC utc (AList xs) @ rest)
    = Inr (AList (map wire (take (length xs mod 65536) xs)),
        3 + length (concat (map (encodePackStreamValueIntoWithUTC utc) (take (length xs mod 65536) xs))))"
proof -
  let ?m = "length xs mod 65536"
  have b: "bytesN 2 (int (length xs)) = bytesN 2 (int ?m)"
    using bytesN_2_mod [of "int (length xs)"] by (simp add: zmod_int)
  have v: "list_all (reads_back zone) (take ?m xs)"
    using assms(2) packable_reads_back set_take_subset by (fastforce simp: list_all_iff)
  let ?rest = "concat (map (encodePackStreamValueIntoWithUTC utc) (drop ?m xs)) @ rest"
  have body: "encItems utc xs @ rest = concat (map (encodePackStreamValueIntoWithUTC utc) (take ?m xs)) @ ?rest"
    by (metis append.assoc append_take_drop_id concat_append encItems_concat map_append)
  have len: "length (take ?m xs) = ?m" by simp
  have l: "?m \<le> length (concat (map (encodePackStreamValueIntoWithUTC utc) (take ?m xs)))"
    using value_codec.items_length [OF v, of utc] len by simp
  have d: "decodeItems zone ListItem 0 ?m (concat (map (encodePackStreamValueIntoWithUTC utc) (take ?m xs)) @ ?rest)
      = Inr (map wire (take ?m xs), length (concat (map (encodePackStreamValueIntoWithUTC utc) (take ?m xs))))"
    using value_codec.items [OF v, of ListItem 0 utc ?rest] len by simp
  have "be_nat (bytesN 2 (int ?m)) = ?m"
    by (rule be_nat_size) simp
  then have "decodePackStreamValue zone (0xD5 # bytesN 2 (int ?m) @ concat (map (encodePackStreamValueIntoWithUTC utc) (take ?m xs)) @ ?rest)
      = Inr (AList (map wire (take ?m xs)), 3 + length (concat (map (encodePackStreamValueIntoWithUTC utc) (take ?m xs))))"
    using d l by (simp add: decodeScalar_def listHeader_def readLength_def)
  then show ?thesis
    using assms(1) by (simp add: sizeHeader_def b body flip: body)
qed

theorem long_list_truncated_witness:
  "decodePackStreamValue no_zone (encodePackStreamValueIntoWithUTC True (AList (replicate 65537 ANil)) @ []) = Inr (AList [ANil], 4)"
  by (subst long_list_truncated) simp_all

text \<open>
  The three fields of an encoded path are the path: walking the sequence over the distinct
  nodes and relationships, from the first node, gives back every step with its relationship, its
  direction and the node it reaches, also when the path visits nodes or relationships repeatedly.
\<close>

theorem path_sequence_roundtrip:
  assumes "uniquePathNodes nodes = (un, ni)" "uniquePathRels rels = (ur, ri)"
    and "identified nodes" "identified rels" "rels \<noteq> []" "length nodes = length rels + 1"
  shows "walkPath un ur (buildPathSequence nodes rels ni ri) = pathSteps (hd nodes) (tl nodes) rels
    \<and> hd un = hd nodes"
proof -
  obtain current rest where n: "nodes = current # rest" using assms(6) by (cases nodes) auto
  obtain sequence where s: "sequenceLoop ni ri current rest rels = Some sequence"
    "walkPath un ur sequence = pathSteps current rest rels"
    using walk_sequence [of nodes un ni rels ur ri current rest rels] assms n
    by (auto simp: uniquePathNodes_def uniquePathRels_def)
  obtain i where i: "pathID current = Some i" using assms(3) n by (auto simp: identified_def)
  have "uniqueLoop rest [current] [(i, 0)] = (un, ni)"
    using assms(1) n i by (simp add: uniquePathNodes_def)
  moreover have "good_index nodes [current] [(i, 0)]" using i n by (auto simp: good_index_def)
  ultimately have "hd un = current"
    using uniqueLoop_good [of nodes "[current]" "[(i, 0)]" rest un ni] n by auto
  then show ?thesis using s n assms(5,6) by (simp add: buildPathSequence_def)
qed

definition demo_path_nodes :: "any list" where
  "demo_path_nodes = [ANode [1] [] [], ANode [2] [] [], ANode [1] [] []]"

definition demo_path_rels :: "any list" where
  "demo_path_rels = [AEdge [9] [1] [2] [] [], AEdge [9] [1] [2] [] []]"

theorem path_sequence_roundtrip_witness:
  "buildPathSequence demo_path_nodes demo_path_rels [([1], 0), ([2], 1)] [([9], 0)] = [1, 1, - 1, 0]
   \<and> walkPath [ANode [1] [] [], ANode [2] [] []] [AEdge [9] [1] [2] [] []] [1, 1, - 1, 0]
       = pathSteps (ANode [1] [] []) [ANode [2] [] [], ANode [1] [] []] demo_path_rels"
proof -
  have s: "buildPathSequence demo_path_nodes demo_path_rels [([1], 0), ([2], 1)] [([9], 0)] = [1, 1, - 1, 0]"
    by (simp add: buildPathSequence_def demo_path_nodes_def demo_path_rels_def)
  have "walkPath [ANode [1] [] [], ANode [2] [] []] [AEdge [9] [1] [2] [] []]
      (buildPathSequence demo_path_nodes demo_path_rels [([1], 0), ([2], 1)] [([9], 0)])
    = pathSteps (hd demo_path_nodes) (tl demo_path_nodes) demo_path_rels \<and> hd [ANode [1] [] [], ANode [2] [] []] = hd demo_path_nodes"
    by (rule path_sequence_roundtrip)
      (simp_all add: uniquePathNodes_def uniquePathRels_def demo_path_nodes_def demo_path_rels_def identified_def)
  then show ?thesis using s by (simp add: demo_path_nodes_def)
qed

text \<open>
  The identifiers a client sees are non-negative 64-bit integers.
\<close>

theorem hash_nonnegative: "0 \<le> sint (HashStringToInt64 s)"
  using mask_nonneg by (auto simp: HashStringToInt64_def Let_def)

end
