(* ===== verification/Raft.thy ===== *)
theory Raft
  imports GoBase
begin

text \<open>
  A Raft node of \<^verbatim>\<open>pkg/replication/raft.go\<close>: its state, and one definition for every stretch of
  code the node runs under its locks. A handler that releases its lock and takes another in
  between is split there, so that RaftCluster can interleave the parts.

  The storage behind the node is the list of the commands \<^verbatim>\<open>ApplyCommand\<close> was called with.
  Go maps are association lists with distinct keys; a missing key reads as zero. A signal channel
  of capacity one is a Boolean. A panic (an index out of the log's range) is \<open>None\<close>. Logging,
  metrics and tracing spans have no part in the state.
\<close>

section \<open>State\<close>

datatype RaftState = StateFollower | StateCandidate | StateLeader

record command =
  cmdType :: byte
  cmdData :: "byte list"
  cmdTimestamp :: int
  cmdRequestID :: string

record log_entry =
  leIndex :: u64
  leTerm :: u64
  leCommand :: "command option"

record vote_request =
  vqTerm :: u64
  vqCandidateID :: string
  vqLastLogIndex :: u64
  vqLastLogTerm :: u64

record vote_response =
  vrTerm :: u64
  vrVoteGranted :: bool
  vrVoterID :: string

record append_request =
  aqTerm :: u64
  aqLeaderID :: string
  aqLeaderAddr :: string
  aqPrevLogIndex :: u64
  aqPrevLogTerm :: u64
  aqEntries :: "log_entry list"
  aqLeaderCommit :: u64
  aqCodecVersion :: "32 word"

record append_response =
  arTerm :: u64
  arSuccess :: bool
  arMatchIndex :: u64
  arConflictIndex :: u64
  arConflictTerm :: u64
  arResponderID :: string
  arCodecVersion :: "32 word"

text \<open>A pending \<^verbatim>\<open>Apply\<close>: its channel is named by a number.\<close>

record apply_future =
  afChannel :: nat
  afCommand :: command
  afIndex :: u64
  afTerm :: u64

datatype raft_error = ErrNotLeader | ErrNoLeader | ErrClosed | ErrNotReady | ErrCommitTimedOut

record peer_config =
  peerID :: string
  peerAddr :: string

record raft =
  nodeID :: string
  advertiseAddr :: string
  bootstrap :: bool
  peers :: "peer_config list"
  state :: RaftState
  currentTerm :: u64
  votedFor :: string
  leaderID :: string
  leaderAddr :: string
  rlog :: "log_entry list"
  commitIndex :: u64
  lastApplied :: u64
  nextIndex :: "(string \<times> u64) list"
  matchIndex :: "(string \<times> u64) list"
  peerCodecVersions :: "(string \<times> 32 word) list"
  futures :: "(u64 \<times> apply_future) list"
  commitCh :: bool
  heartbeatCh :: bool
  started :: bool
  closed :: bool
  applied :: "command list"

definition CurrentCodecVersion :: "32 word" where "CurrentCodecVersion = 1"

definition at0 :: "('k \<times> 'a::zero) list \<Rightarrow> 'k \<Rightarrow> 'a" where
  "at0 m k = (case map_of m k of Some v \<Rightarrow> v | None \<Rightarrow> 0)"

lemma at0_update [simp]: "at0 (AList.update k v m) k' = (if k' = k then v else at0 m k')"
  by (simp add: at0_def update_conv')

lemma at0_Nil [simp]: "at0 [] k = 0"
  by (simp add: at0_def)

definition dummy_entry :: log_entry where
  "dummy_entry = \<lparr>leIndex = 0, leTerm = 0, leCommand = None\<rparr>"

section \<open>Start\<close>

definition NewRaftReplicator :: "string \<Rightarrow> string \<Rightarrow> bool \<Rightarrow> peer_config list \<Rightarrow> raft" where
  "NewRaftReplicator i addr boot ps =
     \<lparr>nodeID = i, advertiseAddr = addr, bootstrap = boot, peers = ps,
      state = StateFollower, currentTerm = 0, votedFor = [], leaderID = [], leaderAddr = [],
      rlog = [dummy_entry], commitIndex = 0, lastApplied = 0,
      nextIndex = [], matchIndex = [], peerCodecVersions = [], futures = [],
      commitCh = False, heartbeatCh = False, started = False, closed = False, applied = []\<rparr>"

text \<open>The loop over the peers that resets both indexes, in \<^verbatim>\<open>Start\<close> and in \<^verbatim>\<open>becomeLeader\<close>.\<close>

definition trackPeers :: "u64 \<Rightarrow> raft \<Rightarrow> raft" where
  "trackPeers next r =
     fold (\<lambda>p r. r\<lparr>nextIndex := AList.update (peerID p) next (nextIndex r),
                  matchIndex := AList.update (peerID p) 0 (matchIndex r)\<rparr>) (peers r) r"

definition Start :: "raft \<Rightarrow> raft" where
  "Start r =
     (if started r then r
      else let r1 = trackPeers 1 r;
               r2 = (if bootstrap r1 \<and> peers r1 = []
                     then r1\<lparr>state := StateLeader, leaderID := nodeID r1,
                             leaderAddr := advertiseAddr r1, currentTerm := 1\<rparr> else r1)
           in r2\<lparr>started := True\<rparr>)"

section \<open>Elections\<close>

definition lastLogIndex :: "raft \<Rightarrow> u64" where "lastLogIndex r = leIndex (last (rlog r))"
definition lastLogTerm :: "raft \<Rightarrow> u64" where "lastLogTerm r = leTerm (last (rlog r))"

text \<open>\<^verbatim>\<open>startElection\<close>, first locked part: the node votes for itself in a new term.\<close>

definition startElection :: "raft \<Rightarrow> u64 \<times> raft" where
  "startElection r =
     (let term = currentTerm r + 1
      in (term, r\<lparr>state := StateCandidate, currentTerm := term, votedFor := nodeID r\<rparr>))"

text \<open>\<^verbatim>\<open>startElection\<close>, the request: built from the log as it is then.\<close>

definition voteRequest :: "u64 \<Rightarrow> raft \<Rightarrow> vote_request" where
  "voteRequest term r =
     \<lparr>vqTerm = term, vqCandidateID = nodeID r, vqLastLogIndex = lastLogIndex r,
      vqLastLogTerm = lastLogTerm r\<rparr>"

definition votesNeeded :: "raft \<Rightarrow> nat" where
  "votesNeeded r = (length (peers r) + 1) div 2 + 1"

text \<open>\<^verbatim>\<open>requestVoteFromPeer\<close>, the response: the count of votes of this election, and whether
  the quorum is reached. The lock is released before \<^verbatim>\<open>becomeLeader\<close>.\<close>

definition stepDown :: "u64 \<Rightarrow> raft \<Rightarrow> raft" where
  "stepDown term r = r\<lparr>currentTerm := term, state := StateFollower, votedFor := [],
                       leaderID := [], leaderAddr := []\<rparr>"

definition handleVoteResponse ::
    "u64 \<Rightarrow> nat \<Rightarrow> nat \<Rightarrow> vote_response \<Rightarrow> raft \<Rightarrow> raft \<times> nat \<times> bool" where
  "handleVoteResponse term needed votesReceived resp r =
     (if currentTerm r \<noteq> term \<or> state r \<noteq> StateCandidate then (r, votesReceived, False)
      else if vrTerm resp > currentTerm r then (stepDown (vrTerm resp) r, votesReceived, False)
      else if vrVoteGranted resp then
        let votes = votesReceived + 1 in (r, votes, votes \<ge> needed)
      else (r, votesReceived, False))"

definition becomeLeader :: "u64 \<Rightarrow> raft \<Rightarrow> raft \<times> bool" where
  "becomeLeader term r =
     (if currentTerm r \<noteq> term \<or> state r = StateLeader then (r, False)
      else (trackPeers (lastLogIndex r + 1)
             (r\<lparr>state := StateLeader, leaderID := nodeID r, leaderAddr := advertiseAddr r\<rparr>), True))"

definition handleVoteRequest :: "vote_request \<Rightarrow> raft \<Rightarrow> vote_response \<times> raft" where
  "handleVoteRequest req r =
     (let resp = \<lparr>vrTerm = currentTerm r, vrVoteGranted = False, vrVoterID = nodeID r\<rparr>
      in if vqTerm req < currentTerm r then (resp, r)
         else let r1 = (if vqTerm req > currentTerm r then stepDown (vqTerm req) r else r);
                  resp1 = resp\<lparr>vrTerm := currentTerm r1\<rparr>;
                  canVote = (votedFor r1 = [] \<or> votedFor r1 = vqCandidateID req);
                  logIsUpToDate =
                    (vqLastLogTerm req > lastLogTerm r1 \<or>
                     vqLastLogTerm req = lastLogTerm r1 \<and> vqLastLogIndex req \<ge> lastLogIndex r1)
              in if canVote \<and> logIsUpToDate
                 then (resp1\<lparr>vrVoteGranted := True\<rparr>,
                       r1\<lparr>votedFor := vqCandidateID req, heartbeatCh := True\<rparr>)
                 else (resp1, r1))"

section \<open>Log replication, the leader's side\<close>

definition peerCodecVersion :: "raft \<Rightarrow> string \<Rightarrow> 32 word" where
  "peerCodecVersion r p =
     (if at0 (peerCodecVersions r) p \<ge> CurrentCodecVersion then CurrentCodecVersion else 0)"

text \<open>\<^verbatim>\<open>replicateLogToPeer\<close>, the request built under the log's lock for the index \<open>nextIdx\<close> read
  before. The conversion of an index to \<^verbatim>\<open>int\<close> is signed.\<close>

definition buildAppendEntries :: "string \<Rightarrow> u64 \<Rightarrow> u64 \<Rightarrow> raft \<Rightarrow> append_request option" where
  "buildAppendEntries p term nextIdx r =
     (let len = int (length (rlog r));
          prevLogIndex = nextIdx - 1
      in if prevLogIndex > 0 \<and> sint prevLogIndex < 0 \<or> sint nextIdx < 0 then None
         else
           let prevLogTerm = (if prevLogIndex > 0 \<and> sint prevLogIndex < len
                              then leTerm (rlog r ! unat prevLogIndex) else 0);
               entries = (if sint nextIdx < len then drop (unat nextIdx) (rlog r) else [])
           in Some \<lparr>aqTerm = term, aqLeaderID = nodeID r, aqLeaderAddr = advertiseAddr r,
                    aqPrevLogIndex = prevLogIndex, aqPrevLogTerm = prevLogTerm,
                    aqEntries = entries, aqLeaderCommit = commitIndex r,
                    aqCodecVersion = peerCodecVersion r p\<rparr>)"

definition handleAppendEntriesResponse :: "string \<Rightarrow> u64 \<Rightarrow> append_response \<Rightarrow> raft \<Rightarrow> raft" where
  "handleAppendEntriesResponse p term resp r =
     (if arTerm resp > currentTerm r then stepDown (arTerm resp) r
      else if state r \<noteq> StateLeader \<or> currentTerm r \<noteq> term then r
      else
        let r1 = r\<lparr>peerCodecVersions := AList.update p (arCodecVersion resp) (peerCodecVersions r)\<rparr>
        in if arSuccess resp then
             (if arMatchIndex resp > at0 (matchIndex r1) p
              then r1\<lparr>matchIndex := AList.update p (arMatchIndex resp) (matchIndex r1),
                      nextIndex := AList.update p (arMatchIndex resp + 1) (nextIndex r1)\<rparr>
              else r1)\<lparr>commitCh := True\<rparr>
           else if arConflictIndex resp > 0
           then r1\<lparr>nextIndex := AList.update p (arConflictIndex resp) (nextIndex r1)\<rparr>
           else if at0 (nextIndex r1) p > 1
           then r1\<lparr>nextIndex := AList.update p (at0 (nextIndex r1) p - 1) (nextIndex r1)\<rparr>
           else r1)"

section \<open>Applying committed entries\<close>

text \<open>The loop that advances \<^verbatim>\<open>lastApplied\<close> to \<^verbatim>\<open>commitIndex\<close>; the one in \<^verbatim>\<open>advanceCommitIndex\<close> also
  takes the future that waits for the index out of the map and answers it.\<close>

definition applyEntry :: "u64 \<Rightarrow> raft \<Rightarrow> raft option" where
  "applyEntry i r =
     (if sint i < int (length (rlog r)) then
        if sint i < 0 then None
        else Some (case leCommand (rlog r ! unat i) of
                     None \<Rightarrow> r | Some c \<Rightarrow> r\<lparr>applied := applied r @ [c]\<rparr>)
      else Some r)"

definition takeFuture :: "u64 \<Rightarrow> raft \<Rightarrow> apply_future list \<times> raft" where
  "takeFuture i r =
     (case map_of (futures r) i of
        None \<Rightarrow> ([], r)
      | Some f \<Rightarrow> ([f], r\<lparr>futures := AList.delete i (futures r)\<rparr>))"

lemma applyEntry_indexes:
  "applyEntry i r = Some r' \<Longrightarrow> lastApplied r' = lastApplied r \<and> commitIndex r' = commitIndex r"
  by (auto simp: applyEntry_def split: if_splits option.splits)

lemma takeFuture_indexes [simp]:
  "lastApplied (snd (takeFuture i r)) = lastApplied r" "commitIndex (snd (takeFuture i r)) = commitIndex r"
  by (simp_all add: takeFuture_def split: option.split)

lemma unat_sub_suc: "(a::u64) < b \<Longrightarrow> unat (b - (a + 1)) < unat (b - a)"
proof -
  assume ab: "a < b"
  then have "unat (b - a) \<noteq> 0" by (simp add: unat_eq_0)
  moreover have "b - (a + 1) = (b - a) - 1" by simp
  moreover have "b - a \<noteq> 0" using ab by simp
  ultimately show ?thesis
    by (metis diff_less less_numeral_extra(1) not_gr_zero unat_minus_one)
qed

function applyCommitted :: "bool \<Rightarrow> raft \<Rightarrow> (apply_future list \<times> raft) option" where
  "applyCommitted notify r =
     (if lastApplied r < commitIndex r then
        let i = lastApplied r + 1
        in case applyEntry i (r\<lparr>lastApplied := i\<rparr>) of
             None \<Rightarrow> None
           | Some r1 \<Rightarrow>
               let (fs, r2) = (if notify then takeFuture i r1 else ([], r1))
               in case applyCommitted notify r2 of
                    None \<Rightarrow> None
                  | Some (gs, r3) \<Rightarrow> Some (fs @ gs, r3)
      else Some ([], r))"
  by pat_completeness auto

termination
  by (relation "measure (\<lambda>(_, r). unat (commitIndex r - lastApplied r))")
     (auto dest!: applyEntry_indexes split: if_splits simp: unat_sub_suc dest: arg_cong [of _ _ snd])


declare applyCommitted.simps [simp del]

section \<open>Log replication, the follower's side\<close>

text \<open>\<^verbatim>\<open>handleAppendEntriesRequest\<close>, the part under the state's lock: \<open>Inl\<close> is the refusal of a
  stale term, \<open>Inr\<close> the response so far, with which the rest runs under the log's lock.\<close>

definition receiveAppendEntries ::
    "append_request \<Rightarrow> raft \<Rightarrow> (append_response + append_response) \<times> raft" where
  "receiveAppendEntries req r =
     (let resp = \<lparr>arTerm = currentTerm r, arSuccess = False, arMatchIndex = 0, arConflictIndex = 0,
                  arConflictTerm = 0, arResponderID = nodeID r, arCodecVersion = CurrentCodecVersion\<rparr>
      in if aqTerm req < currentTerm r then (Inl resp, r)
         else let r1 = (if aqTerm req > currentTerm r
                        then r\<lparr>currentTerm := aqTerm req, votedFor := []\<rparr> else r);
                  r2 = r1\<lparr>state := StateFollower, leaderID := aqLeaderID req,
                          leaderAddr := aqLeaderAddr req, heartbeatCh := True\<rparr>
              in (Inr (resp\<lparr>arTerm := currentTerm r2\<rparr>), r2))"

text \<open>The loop down from \<^verbatim>\<open>PrevLogIndex\<close> for the first index of the conflicting term.\<close>

fun conflictIndex :: "log_entry list \<Rightarrow> u64 \<Rightarrow> nat \<Rightarrow> u64" where
  "conflictIndex l conflictTerm 0 = 0"
| "conflictIndex l conflictTerm (Suc i) =
     (if leTerm (l ! Suc i) \<noteq> conflictTerm then of_nat (Suc i + 1)
      else if i = 0 then 1
      else conflictIndex l conflictTerm i)"

text \<open>The loop that appends the entries, from index \<open>idx\<close> on.\<close>

fun appendEntries :: "u64 \<Rightarrow> log_entry list \<Rightarrow> log_entry list \<Rightarrow> log_entry list option" where
  "appendEntries idx [] l = Some l"
| "appendEntries idx (entry # entries) l =
     (if sint idx < int (length l) then
        if sint idx < 0 then None
        else appendEntries (idx + 1) entries
               (if leTerm (l ! unat idx) \<noteq> leTerm entry then take (unat idx) l @ [entry] else l)
      else appendEntries (idx + 1) entries (l @ [entry]))"

definition matchedIndex :: "append_request \<Rightarrow> u64" where
  "matchedIndex req =
     (if aqEntries req \<noteq> [] then leIndex (last (aqEntries req)) else aqPrevLogIndex req)"

definition followCommit :: "append_request \<Rightarrow> u64 \<Rightarrow> u64" where
  "followCommit req commit =
     (if aqLeaderCommit req > commit then
        let lastNewIndex = aqPrevLogIndex req + of_nat (length (aqEntries req))
        in if aqLeaderCommit req < lastNewIndex then aqLeaderCommit req else lastNewIndex
      else commit)"

text \<open>The part under the log's lock.\<close>

definition storeAppendEntries ::
    "append_request \<Rightarrow> append_response \<Rightarrow> raft \<Rightarrow> (append_response \<times> raft) option" where
  "storeAppendEntries req resp r =
     (let prev = aqPrevLogIndex req
      in if prev > 0 \<and> sint prev \<ge> int (length (rlog r)) then
           Some (resp\<lparr>arConflictIndex := of_nat (length (rlog r))\<rparr>, r)
         else if prev > 0 \<and> sint prev < 0 then None
         else if prev > 0 \<and> leTerm (rlog r ! unat prev) \<noteq> aqPrevLogTerm req then
           let conflictTerm = leTerm (rlog r ! unat prev)
           in Some (resp\<lparr>arConflictTerm := conflictTerm,
                         arConflictIndex := conflictIndex (rlog r) conflictTerm (unat prev)\<rparr>, r)
         else case appendEntries (prev + 1) (aqEntries req) (rlog r) of
                None \<Rightarrow> None
              | Some l \<Rightarrow>
                  let r1 = r\<lparr>rlog := l, commitIndex := followCommit req (commitIndex r)\<rparr>
                  in case applyCommitted False r1 of
                       None \<Rightarrow> None
                     | Some (_, r2) \<Rightarrow>
                         Some (resp\<lparr>arMatchIndex := matchedIndex req, arSuccess := True\<rparr>, r2))"

definition handleAppendEntriesRequest :: "append_request \<Rightarrow> raft \<Rightarrow> (append_response \<times> raft) option" where
  "handleAppendEntriesRequest req r =
     (case receiveAppendEntries req r of
        (Inl resp, r1) \<Rightarrow> Some (resp, r1)
      | (Inr resp, r1) \<Rightarrow> storeAppendEntries req resp r1)"

text \<open>The entry points of the transport copy the fields one by one; the codec version of a request
  and of a response is not among them.\<close>

definition HandleRaftVote :: "vote_request \<Rightarrow> raft \<Rightarrow> vote_response \<times> raft" where
  "HandleRaftVote req r = handleVoteRequest req r"

definition HandleRaftAppendEntries :: "append_request \<Rightarrow> raft \<Rightarrow> (append_response \<times> raft) option" where
  "HandleRaftAppendEntries req r =
     map_option (\<lambda>(resp, r'). (resp\<lparr>arCodecVersion := 0\<rparr>, r'))
       (handleAppendEntriesRequest (req\<lparr>aqCodecVersion := 0\<rparr>) r)"

section \<open>Client commands\<close>

text \<open>\<^verbatim>\<open>Apply\<close> up to the queue: an error, the address to forward to, or the queue of this node.\<close>

datatype apply_route = Refuse raft_error | Forward string | Enqueue

definition Apply :: "bool \<Rightarrow> raft \<Rightarrow> apply_route" where
  "Apply hasTransport r =
     (if closed r then Refuse ErrClosed
      else if \<not> started r then Refuse ErrNotReady
      else if state r \<noteq> StateLeader then
        if leaderAddr r = [] then Refuse ErrNoLeader
        else if \<not> hasTransport then Refuse ErrNotLeader
        else Forward (leaderAddr r)
      else Enqueue)"

text \<open>\<^verbatim>\<open>processApply\<close>, first part: is this node the leader, and of which term?\<close>

definition acceptApply :: "raft \<Rightarrow> raft_error + u64" where
  "acceptApply r = (if state r = StateLeader then Inr (currentTerm r) else Inl ErrNotLeader)"

text \<open>\<^verbatim>\<open>processApply\<close>, second part: the entry is appended with the term read before, and the
  future is filed under its index. A node without peers commits and applies at once: the third
  component says that the future is answered.\<close>

definition appendCommand :: "u64 \<Rightarrow> nat \<Rightarrow> command \<Rightarrow> raft \<Rightarrow> apply_future \<times> raft \<times> bool" where
  "appendCommand term ch cmd r =
     (let i = lastLogIndex r + 1;
          f = \<lparr>afChannel = ch, afCommand = cmd, afIndex = i, afTerm = term\<rparr>;
          r1 = r\<lparr>rlog := rlog r @ [\<lparr>leIndex = i, leTerm = term, leCommand = Some cmd\<rparr>],
                 futures := AList.update i f (futures r)\<rparr>
      in if peers r = []
         then (f, r1\<lparr>commitIndex := i, applied := applied r @ [cmd], lastApplied := i,
                     futures := AList.delete i (futures r1)\<rparr>, True)
         else (f, r1, False))"

text \<open>\<^verbatim>\<open>waitForCommit\<close>, one tick: is the future's index applied?\<close>

definition waitForCommit :: "apply_future \<Rightarrow> raft \<Rightarrow> bool" where
  "waitForCommit f r = (lastApplied r \<ge> afIndex f)"

section \<open>The leader's commit index\<close>

definition replicatedTo :: "raft \<Rightarrow> u64 \<Rightarrow> nat" where
  "replicatedTo r n = 1 + length (filter (\<lambda>p. at0 (matchIndex r) (peerID p) \<ge> n) (peers r))"

text \<open>The loop over the indexes above the commit index.\<close>

function findCommit :: "u64 \<Rightarrow> u64 \<Rightarrow> raft \<Rightarrow> raft" where
  "findCommit term n r =
     (if n < of_nat (length (rlog r)) then
        findCommit term (n + 1)
          (if leTerm (rlog r ! unat n) = term \<and> replicatedTo r n > (length (peers r) + 1) div 2
           then r\<lparr>commitIndex := n\<rparr> else r)
      else r)"
  by pat_completeness auto

termination
  by (relation "measure (\<lambda>(_, n, r). unat (of_nat (length (rlog r)) - n))") (auto simp: unat_sub_suc)

declare findCommit.simps [simp del]

text \<open>\<^verbatim>\<open>advanceCommitIndex\<close> under the log's lock, with the term read before; the futures it answers.\<close>

definition advanceCommitIndex :: "u64 \<Rightarrow> raft \<Rightarrow> (apply_future list \<times> raft) option" where
  "advanceCommitIndex term r = applyCommitted True (findCommit term (commitIndex r + 1) r)"

section \<open>Membership\<close>

definition AddVoter :: "string \<Rightarrow> string \<Rightarrow> raft \<Rightarrow> raft_error option \<times> raft" where
  "AddVoter i addr r =
     (if state r \<noteq> StateLeader then (Some ErrNotLeader, r)
      else if i \<in> peerID ` set (peers r) then (None, r)
      else (None, r\<lparr>peers := peers r @ [\<lparr>peerID = i, peerAddr = addr\<rparr>],
                    nextIndex := AList.update i (lastLogIndex r + 1) (nextIndex r),
                    matchIndex := AList.update i 0 (matchIndex r)\<rparr>))"

definition RemoveServer :: "string \<Rightarrow> raft \<Rightarrow> raft_error option \<times> raft" where
  "RemoveServer i r =
     (if state r \<noteq> StateLeader then (Some ErrNotLeader, r)
      else (None, r\<lparr>peers := filter (\<lambda>p. peerID p \<noteq> i) (peers r),
                    nextIndex := AList.delete i (nextIndex r),
                    matchIndex := AList.delete i (matchIndex r)\<rparr>))"

definition IsLeader :: "raft \<Rightarrow> bool" where
  "IsLeader r = (state r = StateLeader)"

definition LeaderAddr :: "raft \<Rightarrow> string" where
  "LeaderAddr r = (if state r = StateLeader then advertiseAddr r else leaderAddr r)"

definition LeaderID :: "raft \<Rightarrow> string" where
  "LeaderID r = (if state r = StateLeader then nodeID r else leaderID r)"

text \<open>\<^verbatim>\<open>Shutdown\<close>: every filed future is answered with an error.\<close>

definition Shutdown :: "raft \<Rightarrow> apply_future list \<times> raft" where
  "Shutdown r =
     (if closed r then ([], r)
      else (map snd (futures r), r\<lparr>closed := True, futures := []\<rparr>))"

end
