(* ===== verification/RaftNode.thy ===== *)
theory RaftNode
  imports Raft
begin

text \<open>
  What the operations of one Raft node do: the part of the state an operation leaves alone, how
  terms and votes change, and the log, commit and apply behaviour of the handlers.
\<close>

named_theorems node_simps \<open>what an operation leaves of a node's voting state\<close>

section \<open>Terms and votes\<close>

text \<open>The part of a node that elections depend on.\<close>

definition voting :: "raft \<Rightarrow> string \<times> peer_config list \<times> RaftState \<times> u64 \<times> string" where
  "voting r = (nodeID r, peers r, state r, currentTerm r, votedFor r)"

lemma voting_eq:
  "voting r' = voting r \<longleftrightarrow> nodeID r' = nodeID r \<and> peers r' = peers r \<and> state r' = state r
     \<and> currentTerm r' = currentTerm r \<and> votedFor r' = votedFor r"
  by (simp add: voting_def)

lemma voting_updates [simp]:
  "voting (r\<lparr>rlog := l\<rparr>) = voting r" "voting (r\<lparr>commitIndex := i\<rparr>) = voting r"
  "voting (r\<lparr>lastApplied := i\<rparr>) = voting r" "voting (r\<lparr>applied := cs\<rparr>) = voting r"
  "voting (r\<lparr>futures := fs\<rparr>) = voting r" "voting (r\<lparr>commitCh := b\<rparr>) = voting r"
  "voting (r\<lparr>nextIndex := ix\<rparr>) = voting r" "voting (r\<lparr>matchIndex := ix\<rparr>) = voting r"
  by (simp_all add: voting_def)

text \<open>Applying touches the applied index, the applied commands and the futures only.\<close>

lemma applyCommitted_keeps:
  assumes "\<And>r i. f (r\<lparr>lastApplied := i\<rparr>) = f r" "\<And>r cs. f (r\<lparr>applied := cs\<rparr>) = f r"
    and "\<And>r fs. f (r\<lparr>futures := fs\<rparr>) = f r"
    and "applyCommitted b r = Some (fs, r')"
  shows "f r' = f r"
  using assms(4)
proof (induction b r arbitrary: fs r' rule: applyCommitted.induct)
  case (1 b r)
  show ?case
  proof (cases "lastApplied r < commitIndex r")
    case False
    then show ?thesis using "1.prems" by (subst (asm) applyCommitted.simps) simp
  next
    case True
    let ?i = "lastApplied r + 1"
    obtain r1 gs hs r2 where a: "applyEntry ?i (r\<lparr>lastApplied := ?i\<rparr>) = Some r1"
      and t: "(gs, r2) = (if b then takeFuture ?i r1 else ([], r1))"
      and c: "applyCommitted b r2 = Some (hs, r')"
      using "1.prems" True
      by (subst (asm) applyCommitted.simps) (auto simp: Let_def split: option.splits prod.splits)
    have "f r1 = f r" using a assms(1,2) by (auto simp: applyEntry_def split: if_splits option.splits)
    moreover have "f r2 = f r1" using t assms(3) by (auto simp: takeFuture_def split: if_splits option.splits)
    ultimately show ?thesis using "1.IH" [OF True refl a t refl c] by simp
  qed
qed

lemma applyCommitted_voting: "applyCommitted b r = Some (fs, r') \<Longrightarrow> voting r' = voting r"
  by (rule applyCommitted_keeps [where f = voting]) simp_all

lemma applyCommitted_rlog: "applyCommitted b r = Some (fs, r') \<Longrightarrow> rlog r' = rlog r"
  by (rule applyCommitted_keeps [where f = rlog]) simp_all

lemma applyCommitted_nextIndex: "applyCommitted b r = Some (fs, r') \<Longrightarrow> nextIndex r' = nextIndex r"
  by (rule applyCommitted_keeps [where f = nextIndex]) simp_all

lemma trackPeers_voting [simp]: "voting (trackPeers n r) = voting r"
proof -
  have "voting (fold (\<lambda>p r. r\<lparr>nextIndex := AList.update (peerID p) n (nextIndex r),
                  matchIndex := AList.update (peerID p) 0 (matchIndex r)\<rparr>) ps r) = voting r" for ps
    by (induction ps arbitrary: r) (simp_all add: voting_def)
  then show ?thesis by (simp add: trackPeers_def)
qed

lemma findCommit_voting [simp]: "voting (findCommit t n r) = voting r"
  by (induction t n r rule: findCommit.induct)
     (subst findCommit.simps, auto simp: voting_def)

lemma advanceCommitIndex_voting: "advanceCommitIndex t r = Some (fs, r') \<Longrightarrow> voting r' = voting r"
  by (auto simp: advanceCommitIndex_def dest: applyCommitted_voting)

lemma appendCommand_voting: "appendCommand t ch cmd r = (f, r', done) \<Longrightarrow> voting r' = voting r"
  by (auto simp: appendCommand_def Let_def voting_def split: if_splits)

lemma storeAppendEntries_voting: "storeAppendEntries req resp r = Some (resp', r') \<Longrightarrow> voting r' = voting r"
  by (auto simp: storeAppendEntries_def Let_def dest!: applyCommitted_voting split: if_splits option.splits)

lemma becomeLeader_voting:
  "becomeLeader t r = (r', won) \<Longrightarrow>
     (won \<longrightarrow> currentTerm r = t \<and> voting r' = (nodeID r, peers r, StateLeader, t, votedFor r))
     \<and> (\<not> won \<longrightarrow> r' = r)"
  by (auto simp: becomeLeader_def voting_def [of "r\<lparr>state := _, leaderID := _, leaderAddr := _\<rparr>"]
      split: if_splits)

text \<open>The change most operations make: the term stays, with the vote, and nobody becomes leader; or
  it rises, and the node is a follower without a vote.\<close>

definition quiet :: "raft \<Rightarrow> raft \<Rightarrow> bool" where
  "quiet r r' \<longleftrightarrow> nodeID r' = nodeID r \<and> peers r' = peers r \<and>
     (currentTerm r' = currentTerm r \<and> votedFor r' = votedFor r
        \<and> (state r' = StateLeader \<longrightarrow> state r = StateLeader)
      \<or> currentTerm r < currentTerm r' \<and> votedFor r' = [] \<and> state r' \<noteq> StateLeader)"

lemma quiet_refl [simp]: "quiet r r"
  by (simp add: quiet_def)

lemma quiet_voting: "voting r' = voting r \<Longrightarrow> quiet r r'"
  by (simp add: quiet_def voting_def)

lemma stepDown_quiet: "currentTerm r < t \<Longrightarrow> quiet r (stepDown t r)"
  by (simp add: quiet_def stepDown_def)

lemma receiveAppendEntries_quiet: "receiveAppendEntries req r = (a, r') \<Longrightarrow> quiet r r'"
  by (auto simp: receiveAppendEntries_def quiet_def Let_def split: if_splits)

lemma receiveAppendEntries_term:
  "receiveAppendEntries req r = (a, r') \<Longrightarrow> currentTerm r' = max (currentTerm r) (aqTerm req)
     \<and> (case a of Inl resp \<Rightarrow> arTerm resp = currentTerm r' | Inr resp \<Rightarrow> arTerm resp = currentTerm r')"
  by (auto simp: receiveAppendEntries_def Let_def max_def split: if_splits)

lemma handleAppendEntriesResponse_quiet: "quiet r (handleAppendEntriesResponse p t resp r)"
  by (simp add: handleAppendEntriesResponse_def Let_def stepDown_quiet) (simp add: quiet_def)

lemma handleAppendEntriesResponse_term:
  "currentTerm (handleAppendEntriesResponse p t resp r) = max (currentTerm r) (arTerm resp)"
  by (auto simp: handleAppendEntriesResponse_def Let_def stepDown_def max_def)

lemma handleVoteResponse_quiet:
  "handleVoteResponse t needed v resp r = (r', v', won) \<Longrightarrow> quiet r r'"
  by (auto simp: handleVoteResponse_def Let_def stepDown_quiet split: if_splits)

lemma handleVoteResponse_term:
  "handleVoteResponse t needed v resp r = (r', v', won) \<Longrightarrow>
     currentTerm r' = currentTerm r \<or> currentTerm r' = vrTerm resp"
  by (auto simp: handleVoteResponse_def Let_def stepDown_def split: if_splits)

lemma handleVoteResponse_count:
  "handleVoteResponse t needed v resp r = (r', v', won) \<Longrightarrow>
     v' = v \<or> v' = Suc v \<and> vrVoteGranted resp \<and> (won \<longrightarrow> needed \<le> v')"
  "handleVoteResponse t needed v resp r = (r', v', won) \<Longrightarrow> won \<Longrightarrow> v' = Suc v \<and> needed \<le> v'"
  by (auto simp: handleVoteResponse_def Let_def split: if_splits)

lemma handleVoteRequest_refused:
  "handleVoteRequest req r = (resp, r') \<Longrightarrow> \<not> vrVoteGranted resp \<Longrightarrow> quiet r r'"
  by (auto simp: handleVoteRequest_def Let_def stepDown_def quiet_def split: if_splits)

lemma handleVoteRequest_granted:
  "handleVoteRequest req r = (resp, r') \<Longrightarrow> vrVoteGranted resp \<Longrightarrow>
     nodeID r' = nodeID r \<and> peers r' = peers r \<and> currentTerm r' = vqTerm req \<and> votedFor r' = vqCandidateID req
     \<and> (state r' = StateLeader \<longrightarrow> state r = StateLeader \<and> currentTerm r = vqTerm req)
     \<and> (currentTerm r < vqTerm req
        \<or> currentTerm r = vqTerm req \<and> (votedFor r = [] \<or> votedFor r = vqCandidateID req))"
  by (auto simp: handleVoteRequest_def Let_def stepDown_def split: if_splits)

lemma handleVoteRequest_term:
  "handleVoteRequest req r = (resp, r') \<Longrightarrow>
     currentTerm r' = max (currentTerm r) (vqTerm req) \<and> vrTerm resp = currentTerm r'"
  by (auto simp: handleVoteRequest_def Let_def stepDown_def max_def split: if_splits)

lemma startElection_voting:
  "startElection r = (t, r') \<Longrightarrow> t = currentTerm r + 1 \<and>
     voting r' = (nodeID r, peers r, StateCandidate, t, nodeID r)"
  by (auto simp: startElection_def voting_def Let_def)

end
