(* ===== verification/RaftCluster.thy ===== *)
theory RaftCluster
  imports Raft
begin

text \<open>
  A cluster of Raft nodes. What runs concurrently in \<^verbatim>\<open>pkg/replication/raft.go\<close> (a goroutine past
  one of its locks, a request or a response on a connection) is a task; an event runs one task, or
  is a timer, a client, an operator or a crash. Tasks run in any order, are run at most once, and
  may be lost. A connection to a peer reaches the node with the peer's identifier.
\<close>

section \<open>Tasks and events\<close>

datatype task =
    Campaign string u64  \<comment> \<open>\<^verbatim>\<open>startElection\<close> past its first lock\<close>
  | VoteCall string string vote_request  \<comment> \<open>a vote request on its way to a peer\<close>
  | VoteReply string string u64 vote_response  \<comment> \<open>and the response on its way back\<close>
  | Promote string u64  \<comment> \<open>the call of \<^verbatim>\<open>becomeLeader\<close>\<close>
  | Replicate string string u64  \<comment> \<open>\<^verbatim>\<open>replicateLogToPeer\<close>\<close>
  | ReplicateFrom string string u64 u64  \<comment> \<open>past the lock under which it reads \<^verbatim>\<open>nextIndex\<close>\<close>
  | AppendCall string string append_request
  | StoreAppend string string append_request append_response
      \<comment> \<open>\<^verbatim>\<open>handleAppendEntriesRequest\<close> past the state's lock\<close>
  | AppendReply string string u64 append_response
  | Queued string nat command  \<comment> \<open>a future in the node's queue\<close>
  | AppendLocal string u64 nat command  \<comment> \<open>\<^verbatim>\<open>processApply\<close> past its first lock\<close>
  | Announce string  \<comment> \<open>and past the log's lock\<close>
  | Wait string apply_future  \<comment> \<open>\<^verbatim>\<open>waitForCommit\<close>\<close>
  | CommitAt string u64  \<comment> \<open>\<^verbatim>\<open>advanceCommitIndex\<close> past its first lock\<close>

datatype event =
    ElectionTimeout string
  | Heartbeat string
  | Client string nat command
  | CommitTick string
  | Run task
  | WaitTimeout string apply_future
  | Lose task
  | AddPeer string string string
  | RemovePeer string string
  | Restart string

text \<open>\<open>tally\<close> holds, for the election a node started in a term, the votes received and the votes
  needed; \<open>replies\<close> what was sent on the channels of the futures.\<close>

record cluster =
  members :: "string list"
  node :: "string \<Rightarrow> raft"
  tasks :: "task list"
  tally :: "((string \<times> u64) \<times> nat \<times> nat) list"
  replies :: "(nat \<times> raft_error option) list"

definition setNode :: "string \<Rightarrow> raft \<Rightarrow> cluster \<Rightarrow> cluster" where
  "setNode i r c = c\<lparr>node := (node c)(i := r)\<rparr>"

definition spawn :: "task list \<Rightarrow> cluster \<Rightarrow> cluster" where
  "spawn ts c = c\<lparr>tasks := tasks c @ ts\<rparr>"

definition answer :: "nat \<Rightarrow> raft_error option \<Rightarrow> cluster \<Rightarrow> cluster" where
  "answer ch e c = c\<lparr>replies := replies c @ [(ch, e)]\<rparr>"

lemma cluster_updates [simp]:
  "members (setNode i r c) = members c" "node (setNode i r c) = (node c)(i := r)"
  "tasks (setNode i r c) = tasks c" "tally (setNode i r c) = tally c" "replies (setNode i r c) = replies c"
  "members (spawn ts c) = members c" "node (spawn ts c) = node c" "tasks (spawn ts c) = tasks c @ ts"
  "tally (spawn ts c) = tally c" "replies (spawn ts c) = replies c"
  "members (answer ch e c) = members c" "node (answer ch e c) = node c" "tasks (answer ch e c) = tasks c"
  "tally (answer ch e c) = tally c" "replies (answer ch e c) = replies c @ [(ch, e)]"
  by (simp_all add: setNode_def spawn_def answer_def)

lemma answers_updates [simp]:
  "members (fold (\<lambda>f. answer (g f) e) fs c) = members c" "node (fold (\<lambda>f. answer (g f) e) fs c) = node c"
  "tasks (fold (\<lambda>f. answer (g f) e) fs c) = tasks c" "tally (fold (\<lambda>f. answer (g f) e) fs c) = tally c"
  by (induction fs arbitrary: c) simp_all

definition replicateAll :: "string \<Rightarrow> u64 \<Rightarrow> raft \<Rightarrow> task list" where
  "replicateAll i term r = map (\<lambda>p. Replicate i (peerID p) term) (peers r)"

section \<open>Running a task\<close>

text \<open>The cluster after the task, which is already taken off the list; \<open>None\<close> when the code
  panics or the task waits.\<close>

fun runTask :: "task \<Rightarrow> cluster \<Rightarrow> cluster option" where
  "runTask (Campaign i term) c =
     (let r = node c i
      in Some (if peers r = [] then spawn [Promote i term] c
               else spawn (map (\<lambda>p. VoteCall i (peerID p) (voteRequest term r)) (peers r))
                      (c\<lparr>tally := AList.update (i, term) (1, votesNeeded r) (tally c)\<rparr>)))"
| "runTask (VoteCall i j req) c =
     (let (resp, r) = HandleRaftVote req (node c j)
      in Some (spawn [VoteReply i j (vqTerm req) resp] (setNode j r c)))"
| "runTask (VoteReply i j term resp) c =
     (case map_of (tally c) (i, term) of
        None \<Rightarrow> None
      | Some (votes, needed) \<Rightarrow>
          let (r, votes', won) = handleVoteResponse term needed votes resp (node c i);
              c1 = setNode i r (c\<lparr>tally := AList.update (i, term) (votes', needed) (tally c)\<rparr>)
          in Some (if won then spawn [Promote i term] c1 else c1))"
| "runTask (Promote i term) c =
     (let (r, won) = becomeLeader term (node c i)
      in Some (if won then spawn (replicateAll i term r) (setNode i r c) else c))"
| "runTask (Replicate i j term) c =
     Some (spawn [ReplicateFrom i j term (at0 (nextIndex (node c i)) j)] c)"
| "runTask (ReplicateFrom i j term nextIdx) c =
     map_option (\<lambda>req. spawn [AppendCall i j req] c) (buildAppendEntries j term nextIdx (node c i))"
| "runTask (AppendCall i j req) c =
     (case receiveAppendEntries (req\<lparr>aqCodecVersion := 0\<rparr>) (node c j) of
        (Inl resp, r) \<Rightarrow> Some (spawn [AppendReply i j (aqTerm req) (resp\<lparr>arCodecVersion := 0\<rparr>)] (setNode j r c))
      | (Inr resp, r) \<Rightarrow>
          Some (spawn [StoreAppend i j (req\<lparr>aqCodecVersion := 0\<rparr>) resp] (setNode j r c)))"
| "runTask (StoreAppend i j req resp) c =
     map_option (\<lambda>(resp', r). spawn [AppendReply i j (aqTerm req) (resp'\<lparr>arCodecVersion := 0\<rparr>)] (setNode j r c))
       (storeAppendEntries req resp (node c j))"
| "runTask (AppendReply i j term resp) c =
     Some (setNode i (handleAppendEntriesResponse j term resp (node c i)) c)"
| "runTask (Queued i ch cmd) c =
     (case acceptApply (node c i) of
        Inl e \<Rightarrow> Some (answer ch (Some e) c)
      | Inr term \<Rightarrow> Some (spawn [AppendLocal i term ch cmd] c))"
| "runTask (AppendLocal i term ch cmd) c =
     (let (f, r, done) = appendCommand term ch cmd (node c i)
      in Some (if done then answer ch None (setNode i r c)
               else spawn [Wait i f, Announce i] (setNode i r c)))"
| "runTask (Announce i) c = Some (spawn (replicateAll i (currentTerm (node c i)) (node c i)) c)"
| "runTask (Wait i f) c =
     (if waitForCommit f (node c i) then Some (answer (afChannel f) None c) else None)"
| "runTask (CommitAt i term) c =
     map_option (\<lambda>(fs, r). fold (\<lambda>f. answer (afChannel f) None) fs (setNode i r c))
       (advanceCommitIndex term (node c i))"

fun ownerOf :: "task \<Rightarrow> string" where
  "ownerOf (Campaign i _) = i"
| "ownerOf (VoteCall i _ _) = i"
| "ownerOf (VoteReply i _ _ _) = i"
| "ownerOf (Promote i _) = i"
| "ownerOf (Replicate i _ _) = i"
| "ownerOf (ReplicateFrom i _ _ _) = i"
| "ownerOf (AppendCall i _ _) = i"
| "ownerOf (StoreAppend _ j _ _) = j"
| "ownerOf (AppendReply i _ _ _) = i"
| "ownerOf (Queued i _ _) = i"
| "ownerOf (AppendLocal i _ _ _) = i"
| "ownerOf (Announce i) = i"
| "ownerOf (Wait i _) = i"
| "ownerOf (CommitAt i _) = i"

section \<open>Events\<close>

fun doEvent :: "event \<Rightarrow> cluster \<Rightarrow> cluster option" where
  "doEvent (ElectionTimeout i) c =
     (if i \<in> set (members c) \<and> state (node c i) \<noteq> StateLeader then
        let (term, r) = startElection (node c i)
        in Some (spawn [Campaign i term] (setNode i r c))
      else None)"
| "doEvent (Heartbeat i) c =
     (if i \<in> set (members c) \<and> state (node c i) = StateLeader
      then Some (spawn (replicateAll i (currentTerm (node c i)) (node c i)) c) else None)"
| "doEvent (Client i ch cmd) c =
     (if i \<in> set (members c) then
        (case Apply True (node c i) of
           Refuse e \<Rightarrow> Some (answer ch (Some e) c)
         | Forward _ \<Rightarrow> Some c
         | Enqueue \<Rightarrow> Some (spawn [Queued i ch cmd] c))
      else None)"
| "doEvent (CommitTick i) c =
     (if i \<in> set (members c) \<and> commitCh (node c i) then
        let c1 = setNode i ((node c i)\<lparr>commitCh := False\<rparr>) c
        in Some (if state (node c i) = StateLeader then spawn [CommitAt i (currentTerm (node c i))] c1 else c1)
      else None)"
| "doEvent (Run t) c =
     (if t \<in> set (tasks c) then runTask t (c\<lparr>tasks := remove1 t (tasks c)\<rparr>) else None)"
| "doEvent (WaitTimeout i f) c =
     (if Wait i f \<in> set (tasks c) then
        Some (answer (afChannel f) (Some ErrCommitTimedOut)
               (setNode i ((node c i)\<lparr>futures := AList.delete (afIndex f) (futures (node c i))\<rparr>)
                 (c\<lparr>tasks := remove1 (Wait i f) (tasks c)\<rparr>)))
      else None)"
| "doEvent (Lose t) c =
     (if t \<in> set (tasks c) then Some (c\<lparr>tasks := remove1 t (tasks c)\<rparr>) else None)"
| "doEvent (AddPeer i j addr) c =
     (if i \<in> set (members c) then Some (setNode i (snd (AddVoter j addr (node c i))) c) else None)"
| "doEvent (RemovePeer i j) c =
     (if i \<in> set (members c) then Some (setNode i (snd (RemoveServer j (node c i))) c) else None)"
| "doEvent (Restart i) c =
     (if i \<in> set (members c) then
        let r = node c i
        in Some (setNode i (Start (NewRaftReplicator i (advertiseAddr r) (bootstrap r) (peers r)))
                  (c\<lparr>tasks := filter (\<lambda>t. ownerOf t \<noteq> i) (tasks c)\<rparr>))
      else None)"

fun run :: "event list \<Rightarrow> cluster \<Rightarrow> cluster option" where
  "run [] c = Some c"
| "run (ev # evs) c = (case doEvent ev c of None \<Rightarrow> None | Some c1 \<Rightarrow> run evs c1)"

text \<open>The cluster at its start: every node is configured with the other members.\<close>

definition startCluster :: "(string \<Rightarrow> bool) \<Rightarrow> peer_config list \<Rightarrow> cluster" where
  "startCluster boot ps =
     \<lparr>members = map peerID ps,
      node = (\<lambda>i. Start (NewRaftReplicator i
                (case map_of (map (\<lambda>p. (peerID p, peerAddr p)) ps) i of Some a \<Rightarrow> a | None \<Rightarrow> [])
                (boot i) (filter (\<lambda>p. peerID p \<noteq> i) ps))),
      tasks = [], tally = [], replies = []\<rparr>"

text \<open>The events of a cluster with a fixed membership and no crashes, and the states they reach in
  a number of steps.\<close>

fun fixedMembership :: "event \<Rightarrow> bool" where
  "fixedMembership (AddPeer _ _ _) = False"
| "fixedMembership (RemovePeer _ _) = False"
| "fixedMembership (Restart _) = False"
| "fixedMembership _ = True"

inductive reachable :: "cluster \<Rightarrow> nat \<Rightarrow> cluster \<Rightarrow> bool" for c0 where
  init: "reachable c0 0 c0"
| step: "reachable c0 k c \<Longrightarrow> fixedMembership ev \<Longrightarrow> doEvent ev c = Some c' \<Longrightarrow> reachable c0 (Suc k) c'"

inductive_cases reachable_SucE: "reachable c0 (Suc k) c"

lemma reachable_run:
  "reachable c0 k c \<Longrightarrow> list_all fixedMembership evs \<Longrightarrow> run evs c = Some c'
     \<Longrightarrow> reachable c0 (k + length evs) c'"
proof (induction evs arbitrary: k c)
  case Nil
  then show ?case by simp
next
  case (Cons ev evs)
  then show ?case
    using Cons.IH [of "Suc k"] by (auto intro: reachable.step split: option.splits)
qed

end
