(* ===== verification/RaftElection.thy ===== *)
theory RaftElection
  imports RaftNode RaftCluster
begin

text \<open>
  Election safety: in a cluster with a fixed membership no two nodes lead in the same term,
  whatever the order of timers, messages and handlers.
\<close>

section \<open>Votes and quorums\<close>

type_synonym votes = "(string \<times> u64 \<times> string) set"  \<comment> \<open>voter, term, candidate\<close>

definition single_votes :: "votes \<Rightarrow> bool" where
  "single_votes G \<longleftrightarrow> (\<forall>v t a b. (v, t, a) \<in> G \<longrightarrow> (v, t, b) \<in> G \<longrightarrow> a = b)"

definition voters :: "votes \<Rightarrow> u64 \<Rightarrow> string \<Rightarrow> string set" where
  "voters G t a = {v. (v, t, a) \<in> G}"

text \<open>A rule that says which sets of voters decide an election.\<close>

locale quorum_system =
  fixes quorum :: "string set \<Rightarrow> bool"
  assumes quorums_meet: "quorum A \<Longrightarrow> quorum B \<Longrightarrow> A \<inter> B \<noteq> {}"
    and quorum_mono: "quorum A \<Longrightarrow> A \<subseteq> B \<Longrightarrow> quorum B"
begin

lemma one_elected:
  assumes "single_votes G" "quorum (voters G t a)" "quorum (voters G t b)"
  shows "a = b"
proof -
  obtain v where "(v, t, a) \<in> G" "(v, t, b) \<in> G"
    using quorums_meet [OF assms(2,3)] by (auto simp: voters_def)
  then show ?thesis using assms(1) by (auto simp: single_votes_def)
qed

lemma stays_elected: "quorum (voters G t a) \<Longrightarrow> G \<subseteq> H \<Longrightarrow> quorum (voters H t a)"
  by (erule quorum_mono) (auto simp: voters_def)

end

definition majority :: "string list \<Rightarrow> string set \<Rightarrow> bool" where
  "majority ms A \<longleftrightarrow> card (set ms) < 2 * card (A \<inter> set ms)"

interpretation mj: quorum_system "majority ms" for ms
proof (unfold_locales, goal_cases)
  case (1 A B)
  show ?case
  proof
    assume "A \<inter> B = {}"
    then have "card ((A \<inter> set ms) \<union> (B \<inter> set ms)) = card (A \<inter> set ms) + card (B \<inter> set ms)"
      by (intro card_Un_disjoint) auto
    moreover have "card ((A \<inter> set ms) \<union> (B \<inter> set ms)) \<le> card (set ms)"
      by (rule card_mono) auto
    ultimately show False using 1 by (simp add: majority_def)
  qed
next
  case (2 A B)
  then have "card (A \<inter> set ms) \<le> card (B \<inter> set ms)" by (intro card_mono) auto
  then show ?case using 2 by (simp add: majority_def)
qed

lemma votesNeeded_majority:
  assumes "distinct (map peerID ps)" "a \<in> peerID ` set ps" "A \<subseteq> peerID ` set ps"
    and "(length (filter (\<lambda>p. peerID p \<noteq> a) ps) + 1) div 2 + 1 \<le> card A"
  shows "majority (map peerID ps) A"
proof -
  have "card (set (map peerID ps)) = length ps"
    using assms(1) by (metis distinct_card length_map)
  moreover have "length (filter (\<lambda>p. peerID p \<noteq> a) ps) + 1 = length ps"
  proof -
    obtain xs p ys where ps: "ps = xs @ p # ys" "peerID p = a"
      using assms(2) by (auto dest: split_list)
    then have "\<forall>q \<in> set (xs @ ys). peerID q \<noteq> a" using assms(1) by (fastforce simp: image_iff)
    then show ?thesis using ps by simp
  qed
  moreover have "A \<inter> set (map peerID ps) = A" using assms(3) by auto
  ultimately show ?thesis using assms(4) by (simp add: majority_def)
qed

section \<open>Terms grow one step at a time\<close>

fun termsOf :: "task \<Rightarrow> u64 set" where
  "termsOf (Campaign _ t) = {t}"
| "termsOf (VoteCall _ _ req) = {vqTerm req}"
| "termsOf (VoteReply _ _ t resp) = {t, vrTerm resp}"
| "termsOf (Promote _ t) = {t}"
| "termsOf (Replicate _ _ t) = {t}"
| "termsOf (ReplicateFrom _ _ t _) = {t}"
| "termsOf (AppendCall _ _ req) = {aqTerm req}"
| "termsOf (StoreAppend _ _ req resp) = {aqTerm req, arTerm resp}"
| "termsOf (AppendReply _ _ t resp) = {t, arTerm resp}"
| "termsOf (AppendLocal _ t _ _) = {t}"
| "termsOf (CommitAt _ t) = {t}"
| "termsOf _ = {}"

definition terms_upto :: "nat \<Rightarrow> cluster \<Rightarrow> bool" where
  "terms_upto k c \<longleftrightarrow> (\<forall>i. unat (currentTerm (node c i)) \<le> k)
     \<and> (\<forall>x \<in> set (tasks c). \<forall>t \<in> termsOf x. unat t \<le> k)"

lemma unat_suc_le: "unat (t + 1 :: u64) \<le> Suc (unat t)"
  by (simp add: unat_word_ariths)

lemma unat_max_le: "unat (a :: u64) \<le> k \<Longrightarrow> unat b \<le> k \<Longrightarrow> unat (max a b) \<le> k"
  by (simp add: max_def)

lemma terms_upto_task: "terms_upto k c \<Longrightarrow> x \<in> set (tasks c) \<Longrightarrow> t \<in> termsOf x \<Longrightarrow> unat t \<le> k"
  by (simp add: terms_upto_def)

lemma terms_upto_Suc: "terms_upto k c \<Longrightarrow> terms_upto (Suc k) c"
  by (fastforce simp: terms_upto_def intro: le_SucI)

lemma terms_upto_taken: "terms_upto k c \<Longrightarrow> terms_upto k (c\<lparr>tasks := remove1 x (tasks c)\<rparr>)"
  using set_remove1_subset [of x "tasks c"] by (auto simp: terms_upto_def)

lemma terms_upto_update:
  "terms_upto k c \<Longrightarrow> (\<forall>t \<in> set ts. \<forall>u \<in> termsOf t. unat u \<le> k) \<Longrightarrow> terms_upto k (spawn ts c)"
  "terms_upto k c \<Longrightarrow> unat (currentTerm r) \<le> k \<Longrightarrow> terms_upto k (setNode i r c)"
  "terms_upto k (answer ch e c) = terms_upto k c"
  "terms_upto k (c\<lparr>tally := ta\<rparr>) = terms_upto k c"
  by (auto simp: terms_upto_def)

lemma terms_upto_answers:
  "terms_upto k (fold (\<lambda>f. answer (g f) e) fs c) = terms_upto k c"
  by (induction fs arbitrary: c) (simp_all add: terms_upto_update)


lemma terms_upto_node: "terms_upto k c \<Longrightarrow> unat (currentTerm (node c i)) \<le> k"
  by (simp add: terms_upto_def)

lemma voting_term: "voting r' = voting r \<Longrightarrow> currentTerm r' = currentTerm r"
  by (simp add: voting_def)

lemma storeAppendEntries_reply:
  "storeAppendEntries req resp r = Some (resp', r') \<Longrightarrow> arTerm resp' = arTerm resp"
  by (auto simp: storeAppendEntries_def Let_def split: if_splits option.splits)

lemma storeAppendEntries_arTerm:
  assumes "storeAppendEntries req resp r = Some (resp', r')"
  shows "arTerm resp' = arTerm resp \<and> currentTerm r' = currentTerm r"
  by (intro conjI storeAppendEntries_reply [OF assms] voting_term [OF storeAppendEntries_voting [OF assms]])

lemma buildAppendEntries_term: "buildAppendEntries p t n r = Some req \<Longrightarrow> aqTerm req = t"
  by (auto simp: buildAppendEntries_def Let_def split: if_splits)

lemma becomeLeader_term:
  assumes "becomeLeader t r = (r', won)"
  shows "currentTerm r' = currentTerm r"
  using becomeLeader_voting [OF assms] by (cases won) (simp_all add: voting_def)

lemma runTask_terms:
  assumes t: "terms_upto k c" and x: "\<forall>u \<in> termsOf x. unat u \<le> k" and run: "runTask x c = Some c'"
  shows "terms_upto k c'"
proof (cases x)
  case (VoteCall i j req)
  then show ?thesis
    using t x run
    by (auto simp: HandleRaftVote_def terms_upto_node unat_max_le
        dest!: handleVoteRequest_term intro!: terms_upto_update split: prod.splits)
next
  case (VoteReply i j u resp)
  then show ?thesis
    using t x run
    by (auto simp: terms_upto_node Let_def terms_upto_update(4)
        dest!: handleVoteResponse_term intro!: terms_upto_update split: prod.splits option.splits if_splits)
next
  case (Promote i u)
  then show ?thesis
    using t x run
    by (auto simp: terms_upto_node replicateAll_def
        dest!: becomeLeader_term intro!: terms_upto_update split: prod.splits if_splits)
next
  case (ReplicateFrom i j u n)
  then show ?thesis using t x run by (auto dest!: buildAppendEntries_term intro!: terms_upto_update)
next
  case (AppendCall i j req)
  then show ?thesis
    using t x run
    by (auto simp: terms_upto_node unat_max_le dest!: receiveAppendEntries_term
        intro!: terms_upto_update split: prod.splits sum.splits)
next
  case (StoreAppend i j req resp)
  then show ?thesis
    using t x run
    by (auto simp: terms_upto_node dest!: storeAppendEntries_arTerm intro!: terms_upto_update)
next
  case (AppendReply i j u resp)
  then show ?thesis
    using t x run
    by (auto simp: terms_upto_node handleAppendEntriesResponse_term unat_max_le intro!: terms_upto_update)
next
  case (AppendLocal i u ch cmd)
  then show ?thesis
    using t x run
    by (auto simp: terms_upto_node terms_upto_update(3) dest!: appendCommand_voting [THEN voting_term]
        intro!: terms_upto_update split: prod.splits if_splits)
next
  case (Announce i)
  then show ?thesis using t x run by (auto simp: replicateAll_def terms_upto_node intro!: terms_upto_update)
next
  case (CommitAt i u)
  then show ?thesis
    using t x run
    by (auto simp: terms_upto_answers terms_upto_node dest!: advanceCommitIndex_voting [THEN voting_term]
        intro!: terms_upto_update)
qed (use t x run in \<open>auto simp: terms_upto_update(3,4) voteRequest_def Let_def acceptApply_def terms_upto_node
      intro!: terms_upto_update split: if_splits sum.splits\<close>)

lemma doEvent_terms:
  assumes t: "terms_upto k c" and ev: "fixedMembership ev" "doEvent ev c = Some c'"
  shows "terms_upto (Suc k) c'"
proof (cases ev)
  case (ElectionTimeout i)
  then show ?thesis
    using ev terms_upto_Suc [OF t] le_trans [OF unat_suc_le, of "currentTerm (node c i)" "Suc k"]
      terms_upto_node [OF t, of i]
    by (auto simp: startElection_def Let_def intro!: terms_upto_update split: if_splits)
next
  case (Run x)
  then have x: "x \<in> set (tasks c)" "runTask x (c\<lparr>tasks := remove1 x (tasks c)\<rparr>) = Some c'"
    using ev by (auto split: if_splits)
  then show ?thesis
    using runTask_terms [OF terms_upto_taken [OF t] _ x(2)] terms_upto_task [OF t x(1)]
    by (auto intro: terms_upto_Suc)
qed (use ev t in \<open>auto simp: terms_upto_update(3,4) terms_upto_node replicateAll_def Let_def
      intro!: terms_upto_update terms_upto_taken terms_upto_Suc le_SucI split: if_splits apply_route.splits\<close>)


section \<open>The invariant\<close>

text \<open>A ballot names an election by candidate and term, and the peer asked; an election that has
  not yet sent its requests has the ballot of no peer.\<close>

fun ballot :: "task \<Rightarrow> (string \<times> u64 \<times> string option) list" where
  "ballot (Campaign a t) = [(a, t, None)]"
| "ballot (VoteCall a v req) = [(a, vqTerm req, Some v)]"
| "ballot (VoteReply a v t resp) = [(a, t, Some v)]"
| "ballot _ = []"

definition ballots :: "task list \<Rightarrow> (string \<times> u64 \<times> string option) list" where
  "ballots ts = concat (map ballot ts)"

lemma ballots_simps [simp]:
  "ballots [] = []" "ballots (x # ts) = ballot x @ ballots ts" "ballots (ts @ us) = ballots ts @ ballots us"
  by (simp_all add: ballots_def)

lemma in_ballots: "b \<in> set (ballots ts) \<longleftrightarrow> (\<exists>x \<in> set ts. b \<in> set (ballot x))"
  by (simp add: ballots_def)

definition configured :: "peer_config list \<Rightarrow> cluster \<Rightarrow> bool" where
  "configured ps c \<longleftrightarrow> members c = map peerID ps \<and>
     (\<forall>i. nodeID (node c i) = i \<and> peers (node c i) = filter (\<lambda>p. peerID p \<noteq> i) ps)"

definition granted :: "votes \<Rightarrow> cluster \<Rightarrow> bool" where
  "granted G c \<longleftrightarrow> single_votes G \<and>
     (\<forall>(v, t, a) \<in> G. a \<noteq> [] \<and> t \<le> currentTerm (node c v)
        \<and> (t = currentTerm (node c v) \<longrightarrow> votedFor (node c v) = a))"

fun sound :: "peer_config list \<Rightarrow> votes \<Rightarrow> (string \<times> u64 \<Rightarrow> string set) \<Rightarrow> cluster \<Rightarrow> task \<Rightarrow> bool" where
  "sound ps G S c (Campaign a t) =
     (a \<in> peerID ` set ps \<and> (a, t, a) \<in> G \<and> map_of (tally c) (a, t) = None)"
| "sound ps G S c (VoteCall a v req) =
     (a \<in> peerID ` set ps \<and> v \<in> peerID ` set ps \<and> vqCandidateID req = a
        \<and> v \<notin> S (a, vqTerm req) \<and> map_of (tally c) (a, vqTerm req) \<noteq> None)"
| "sound ps G S c (VoteReply a v t resp) =
     (v \<in> peerID ` set ps \<and> v \<notin> S (a, t) \<and> map_of (tally c) (a, t) \<noteq> None
        \<and> (vrVoteGranted resp \<longrightarrow> (v, t, a) \<in> G))"
| "sound ps G S c (Promote a t) = majority (map peerID ps) (voters G t a)"
| "sound ps G S c _ = True"

definition counted :: "peer_config list \<Rightarrow> votes \<Rightarrow> (string \<times> u64 \<Rightarrow> string set) \<Rightarrow> cluster \<Rightarrow> bool" where
  "counted ps G S c \<longleftrightarrow> (\<forall>a t n needed. map_of (tally c) (a, t) = Some (n, needed) \<longrightarrow>
     a \<in> peerID ` set ps \<and> t \<le> currentTerm (node c a) \<and> n \<le> card (S (a, t))
     \<and> S (a, t) \<subseteq> voters G t a \<inter> peerID ` set ps
     \<and> needed = (length (filter (\<lambda>p. peerID p \<noteq> a) ps) + 1) div 2 + 1)"

definition once :: "cluster \<Rightarrow> bool" where
  "once c \<longleftrightarrow> distinct (ballots (tasks c))
     \<and> (\<forall>(a, t, v) \<in> set (ballots (tasks c)). t \<le> currentTerm (node c a))"

definition leads :: "peer_config list \<Rightarrow> votes \<Rightarrow> cluster \<Rightarrow> bool" where
  "leads ps G c \<longleftrightarrow> (\<forall>a. state (node c a) = StateLeader \<longrightarrow>
     majority (map peerID ps) (voters G (currentTerm (node c a)) a))"

definition election_inv ::
    "peer_config list \<Rightarrow> nat \<Rightarrow> votes \<Rightarrow> (string \<times> u64 \<Rightarrow> string set) \<Rightarrow> cluster \<Rightarrow> bool" where
  "election_inv ps k G S c \<longleftrightarrow> configured ps c \<and> terms_upto k c \<and> granted G c
     \<and> (\<forall>x \<in> set (tasks c). sound ps G S c x) \<and> counted ps G S c \<and> once c \<and> leads ps G c"

text \<open>Quiet steps keep it.\<close>

lemma quiet_term_le: "quiet r r' \<Longrightarrow> currentTerm r \<le> currentTerm r'"
  by (auto simp: quiet_def)

lemma granted_quiet:
  assumes "granted G c" "\<And>i. quiet (node c i) (node c' i)"
  shows "granted G c'"
proof -
  have "a \<noteq> [] \<and> t \<le> currentTerm (node c' v) \<and> (t = currentTerm (node c' v) \<longrightarrow> votedFor (node c' v) = a)"
    if "(v, t, a) \<in> G" for v t a
    using assms(1) that assms(2) [of v] quiet_term_le [OF assms(2) [of v]]
    by (force simp: granted_def quiet_def)
  then show ?thesis using assms(1) by (auto simp: granted_def)
qed

lemma leads_mono:
  assumes "leads ps G c" "G \<subseteq> H"
    and "\<And>a. state (node c' a) = StateLeader \<Longrightarrow>
      state (node c a) = StateLeader \<and> currentTerm (node c' a) = currentTerm (node c a)"
  shows "leads ps H c'"
  unfolding leads_def
proof (intro allI impI)
  fix a
  assume "state (node c' a) = StateLeader"
  from assms(3) [OF this] show "majority (map peerID ps) (voters H (currentTerm (node c' a)) a)"
    using assms(1,2) by (auto simp: leads_def intro: mj.stays_elected)
qed

lemma leads_quiet:
  assumes "leads ps G c" "\<And>i. quiet (node c i) (node c' i)"
  shows "leads ps G c'"
  using assms by (fastforce simp: leads_def quiet_def)

lemma counted_mono:
  assumes "counted ps G S c" "tally c' = tally c" "G \<subseteq> H"
    and "\<And>i. currentTerm (node c i) \<le> currentTerm (node c' i)"
  shows "counted ps H S c'"
  unfolding counted_def
proof (intro allI impI)
  fix a t n needed
  assume "map_of (tally c') (a, t) = Some (n, needed)"
  then have *: "a \<in> peerID ` set ps" "t \<le> currentTerm (node c a)" "n \<le> card (S (a, t))"
    "S (a, t) \<subseteq> voters G t a \<inter> peerID ` set ps"
    "needed = (length (filter (\<lambda>p. peerID p \<noteq> a) ps) + 1) div 2 + 1"
    using assms(1,2) by (auto simp: counted_def)
  have "S (a, t) \<subseteq> voters H t a \<inter> peerID ` set ps" using *(4) assms(3) by (auto simp: voters_def)
  then show "a \<in> peerID ` set ps \<and> t \<le> currentTerm (node c' a) \<and> n \<le> card (S (a, t)) \<and>
      S (a, t) \<subseteq> voters H t a \<inter> peerID ` set ps \<and>
      needed = (length (filter (\<lambda>p. peerID p \<noteq> a) ps) + 1) div 2 + 1"
    using * order_trans [OF *(2) assms(4) [of a]] by simp
qed

lemma counted_change:
  assumes c: "counted ps G S c"
    and tal: "\<And>b u. map_of (tally c') (b, u) =
      (if (b, u) = (a, t) then Some (n, needed) else map_of (tally c) (b, u))"
    and same: "\<And>b u. (b, u) \<noteq> (a, t) \<Longrightarrow> S' (b, u) = S (b, u)"
    and new: "n \<le> card (S' (a, t))" "S' (a, t) \<subseteq> voters G t a \<inter> peerID ` set ps"
      "needed = (length (filter (\<lambda>p. peerID p \<noteq> a) ps) + 1) div 2 + 1"
      "a \<in> peerID ` set ps" "t \<le> currentTerm (node c' a)"
    and le: "\<And>i. currentTerm (node c i) \<le> currentTerm (node c' i)"
  shows "counted ps G S' c'"
  unfolding counted_def
proof (intro allI impI)
  fix b u m nd
  assume m: "map_of (tally c') (b, u) = Some (m, nd)"
  show "b \<in> peerID ` set ps \<and> u \<le> currentTerm (node c' b) \<and> m \<le> card (S' (b, u)) \<and>
    S' (b, u) \<subseteq> voters G u b \<inter> peerID ` set ps \<and>
    nd = (length (filter (\<lambda>p. peerID p \<noteq> b) ps) + 1) div 2 + 1"
  proof (cases "(b, u) = (a, t)")
    case True
    then show ?thesis using m tal [of b u] new by simp
  next
    case False
    then have "map_of (tally c) (b, u) = Some (m, nd)" using m by (simp only: tal if_False)
    then have "b \<in> peerID ` set ps \<and> u \<le> currentTerm (node c b) \<and> m \<le> card (S (b, u)) \<and>
      S (b, u) \<subseteq> voters G u b \<inter> peerID ` set ps \<and>
      nd = (length (filter (\<lambda>p. peerID p \<noteq> b) ps) + 1) div 2 + 1"
      using c by (auto simp: counted_def)
    then show ?thesis using same [OF False] order_trans [OF _ le] by auto
  qed
qed

lemma once_mono:
  assumes "once c" "distinct (ballots (tasks c'))"
    and "\<And>i. currentTerm (node c i) \<le> currentTerm (node c' i)"
    and "\<And>a t v. (a, t, v) \<in> set (ballots (tasks c')) \<Longrightarrow>
      (\<exists>v'. (a, t, v') \<in> set (ballots (tasks c))) \<or> t \<le> currentTerm (node c' a)"
  shows "once c'"
proof -
  have "t \<le> currentTerm (node c' a)" if "(a, t, v) \<in> set (ballots (tasks c'))" for a t v
    using assms(4) [OF that]
  proof
    assume "\<exists>v'. (a, t, v') \<in> set (ballots (tasks c))"
    then have "t \<le> currentTerm (node c a)" using assms(1) by (auto simp: once_def)
    then show ?thesis using assms(3) [of a] by (rule order_trans)
  qed
  then show ?thesis using assms(2) by (auto simp: once_def)
qed

lemma sound_mono:
  "sound ps G S c x \<Longrightarrow> tally c' = tally c \<Longrightarrow> G \<subseteq> H \<Longrightarrow> sound ps H S c' x"
  by (cases x) (auto intro: mj.stays_elected)

lemma election_inv_quiet:
  assumes inv: "election_inv ps k G S c" and up: "terms_upto k' c'"
    and mem: "members c' = members c" "tally c' = tally c"
    and quiet: "\<And>i. quiet (node c i) (node c' i)"
    and ts: "\<And>x. x \<in> set (tasks c') \<Longrightarrow> sound ps G S c' x"
    and one: "distinct (ballots (tasks c'))"
    and sub: "set (ballots (tasks c')) \<subseteq> set (ballots (tasks c))"
  shows "election_inv ps k' G S c'"
proof -
  have le: "currentTerm (node c i) \<le> currentTerm (node c' i)" for i
    by (rule quiet_term_le [OF quiet])
  have "configured ps c'"
    using inv mem quiet by (simp add: election_inv_def configured_def quiet_def)
  moreover have "granted G c'"
    using inv granted_quiet [OF _ quiet] by (simp add: election_inv_def)
  moreover have "counted ps G S c'"
    using inv counted_mono [OF _ mem(2) order_refl le] by (simp add: election_inv_def)
  moreover have "once c'"
    using inv once_mono [OF _ one le] sub by (auto simp: election_inv_def)
  moreover have "leads ps G c'"
    using inv leads_quiet [OF _ quiet] by (simp add: election_inv_def)
  ultimately show ?thesis using up ts by (simp add: election_inv_def)
qed

text \<open>Taking a task off the list.\<close>

lemma once_taken:
  assumes "once c" "x \<in> set (tasks c)"
  shows "once (c\<lparr>tasks := remove1 x (tasks c)\<rparr>)"
    and "set (ballot x) \<inter> set (ballots (remove1 x (tasks c))) = {}"
    and "distinct (ballot x)"
proof -
  obtain xs ys where "tasks c = xs @ x # ys" "x \<notin> set xs"
    using split_list_first [OF assms(2)] by auto
  then have "tasks c = xs @ x # ys" "remove1 x (tasks c) = xs @ ys"
    by (simp_all add: remove1_append)
  then show "once (c\<lparr>tasks := remove1 x (tasks c)\<rparr>)"
    "set (ballot x) \<inter> set (ballots (remove1 x (tasks c))) = {}" "distinct (ballot x)"
    using assms(1) by (simp_all add: once_def) (blast+)?
qed

lemma election_inv_taken:
  assumes "election_inv ps k G S c" "x \<in> set (tasks c)"
  shows "election_inv ps k G S (c\<lparr>tasks := remove1 x (tasks c)\<rparr>)"
    and "sound ps G S (c\<lparr>tasks := remove1 x (tasks c)\<rparr>) x"
proof -
  let ?c = "c\<lparr>tasks := remove1 x (tasks c)\<rparr>"
  have eq: "sound ps G S ?c y = sound ps G S c y" for y by (cases y) auto
  then show "sound ps G S ?c x" using assms by (simp add: election_inv_def)
  have "granted G ?c" "counted ps G S ?c" "leads ps G ?c" "configured ps ?c"
    using assms(1) by (simp_all add: election_inv_def granted_def counted_def leads_def configured_def)
  moreover have "\<forall>y \<in> set (remove1 x (tasks c)). sound ps G S ?c y"
    using assms(1) set_remove1_subset [of x "tasks c"] by (auto simp: election_inv_def eq)
  ultimately show "election_inv ps k G S ?c"
    using assms once_taken [OF _ assms(2)] terms_upto_taken by (simp add: election_inv_def)
qed


text \<open>Steps that only add tasks of no election, and change nodes quietly.\<close>

fun neutral :: "task \<Rightarrow> bool" where
  "neutral (Campaign _ _) = False"
| "neutral (VoteCall _ _ _) = False"
| "neutral (VoteReply _ _ _ _) = False"
| "neutral (Promote _ _) = False"
| "neutral _ = True"

lemma neutral_ballot [simp]: "neutral x \<Longrightarrow> ballot x = []"
  by (cases x) auto

lemma neutral_sound [simp]: "neutral x \<Longrightarrow> sound ps G S c x"
  by (cases x) auto

lemma neutral_ballots [simp]: "list_all neutral ts \<Longrightarrow> ballots ts = []"
  by (induction ts) auto

lemma neutral_replicateAll [simp]: "list_all neutral (replicateAll i t r)"
  by (simp add: replicateAll_def list_all_iff)

lemma sound_tally: "tally c' = tally c \<Longrightarrow> sound ps G S c' x = sound ps G S c x"
  by (cases x) auto

definition neutral_step :: "cluster \<Rightarrow> cluster \<Rightarrow> bool" where
  "neutral_step c c' \<longleftrightarrow> members c' = members c \<and> tally c' = tally c
     \<and> (\<forall>i. quiet (node c i) (node c' i)) \<and> (\<exists>ts. tasks c' = tasks c @ ts \<and> list_all neutral ts)"

lemma election_inv_neutral:
  assumes "election_inv ps k G S c" "terms_upto k' c'" "neutral_step c c'"
  shows "election_inv ps k' G S c'"
proof -
  obtain ts where ts: "tasks c' = tasks c @ ts" "list_all neutral ts"
    and eq: "members c' = members c" "tally c' = tally c" and q: "\<And>i. quiet (node c i) (node c' i)"
    using assms(3) by (auto simp: neutral_step_def)
  show ?thesis
  proof (rule election_inv_quiet [OF assms(1,2) eq q])
    show "sound ps G S c' x" if "x \<in> set (tasks c')" for x
      using that ts assms(1) by (auto simp: sound_tally [OF eq(2)] election_inv_def list_all_iff)
    show "distinct (ballots (tasks c'))" "set (ballots (tasks c')) \<subseteq> set (ballots (tasks c))"
      using assms(1) ts by (simp_all add: election_inv_def once_def)
  qed
qed

lemma neutral_spawn [simp]: "list_all neutral ts \<Longrightarrow> neutral_step c (spawn ts c)"
  by (simp add: neutral_step_def)

lemma neutral_setNode [simp]: "quiet (node c i) r \<Longrightarrow> neutral_step c (setNode i r c)"
  by (simp add: neutral_step_def)

lemma neutral_spawn_setNode [simp]:
  "quiet (node c i) r \<Longrightarrow> list_all neutral ts \<Longrightarrow> neutral_step c (spawn ts (setNode i r c))"
  by (simp add: neutral_step_def)

lemma neutral_answer [simp]: "neutral_step c (answer ch e c') = neutral_step c c'"
  by (simp add: neutral_step_def)

lemma neutral_answers [simp]: "neutral_step c (fold (\<lambda>f. answer (g f) e) fs c') = neutral_step c c'"
  by (induction fs arbitrary: c') simp_all

lemma neutral_refl [simp]: "neutral_step c c"
  by (simp add: neutral_step_def)

lemma runTask_neutral:
  assumes "neutral x" "runTask x c = Some c'"
  shows "neutral_step c c'"
  using assms
proof (cases x)
  case (AppendCall i j req)
  then show ?thesis
    using assms by (auto dest!: receiveAppendEntries_quiet split: prod.splits sum.splits)
next
  case (StoreAppend i j req resp)
  then show ?thesis
    using assms by (auto dest!: storeAppendEntries_voting quiet_voting)
next
  case (AppendReply i j t resp)
  then show ?thesis using assms by (auto simp: handleAppendEntriesResponse_quiet)
next
  case (AppendLocal i t ch cmd)
  then show ?thesis
    using assms by (auto dest!: appendCommand_voting quiet_voting split: prod.splits if_splits)
next
  case (CommitAt i t)
  then show ?thesis
    using assms by (auto dest!: advanceCommitIndex_voting quiet_voting)
qed (auto split: if_splits sum.splits)

section \<open>The steps of an election\<close>

lemma grantedD:
  assumes "granted G c" "(v, t, a) \<in> G"
  shows "a \<noteq> []" "t \<le> currentTerm (node c v)" "t = currentTerm (node c v) \<Longrightarrow> votedFor (node c v) = a"
  using assms by (auto simp: granted_def)

lemma granted_insert:
  assumes g: "granted G c" and c': "node c' = (node c)(i := r)" and a: "a \<noteq> []"
    and r: "currentTerm r = t" "votedFor r = a"
    and old: "currentTerm (node c i) < t
      \<or> currentTerm (node c i) = t \<and> (votedFor (node c i) = [] \<or> votedFor (node c i) = a)"
  shows "granted (insert (i, t, a) G) c'"
proof -
  have new: "b = a" if "(i, t, b) \<in> G" for b
    using grantedD [OF g that] old by auto
  have "single_votes (insert (i, t, a) G)"
    using g new by (auto simp: granted_def single_votes_def)
  moreover have "b \<noteq> [] \<and> u \<le> currentTerm (node c' v) \<and> (u = currentTerm (node c' v) \<longrightarrow> votedFor (node c' v) = b)"
    if "(v, u, b) \<in> insert (i, t, a) G" for v u b
  proof (cases "(v, u, b) = (i, t, a)")
    case True
    then show ?thesis using a r c' by simp
  next
    case False
    then have m: "(v, u, b) \<in> G" using that by blast
    show ?thesis using grantedD [OF g m] m new [of b] old r c' by (auto intro: order_trans)
  qed
  ultimately show ?thesis by (auto simp: granted_def)
qed

lemma election_timeout_step:
  assumes inv: "election_inv ps k G S c" and i: "i \<in> set (members c)" "i \<noteq> []"
    and se: "startElection (node c i) = (t, r)" and top: "unat (currentTerm (node c i)) < 2 ^ 64 - 1"
    and up: "terms_upto k' (spawn [Campaign i t] (setNode i r c))"
  shows "election_inv ps k' (insert (i, t, i) G) S (spawn [Campaign i t] (setNode i r c))"
proof -
  let ?G = "insert (i, t, i) G" and ?c = "spawn [Campaign i t] (setNode i r c)"
  have r: "t = currentTerm (node c i) + 1" "nodeID r = nodeID (node c i)" "peers r = peers (node c i)"
    "state r = StateCandidate" "currentTerm r = t" "votedFor r = nodeID (node c i)"
    using startElection_voting [OF se] by (auto simp: voting_def)
  have less: "currentTerm (node c i) < t"
    using top r(1) by (simp add: word_less_nat_alt unat_word_ariths)
  have ni: "nodeID (node c i) = i" using inv by (simp add: election_inv_def configured_def)
  have fresh: "(v, t, a) \<in> G \<Longrightarrow> v \<noteq> i" for v a
    using inv less by (auto simp: election_inv_def granted_def)
  have le: "currentTerm (node c j) \<le> currentTerm (node ?c j)" for j
    using less r(5) by auto
  have "configured ps ?c"
    using inv r by (auto simp: election_inv_def configured_def)
  moreover have "granted ?G ?c"
    using inv i(2) r ni less by (intro granted_insert [where c = c and r = r]) (auto simp: election_inv_def)
  moreover have "sound ps ?G S ?c x" if "x \<in> set (tasks ?c)" for x
  proof -
    have none: "map_of (tally c) (i, t) = None"
    proof (cases "map_of (tally c) (i, t)")
      case (Some nn)
      then show ?thesis using inv less by (cases nn) (force simp: election_inv_def counted_def)
    qed simp
    have "sound ps ?G S ?c y" if "y \<in> set (tasks c)" for y
    proof (rule sound_mono)
      show "sound ps G S c y" using inv that by (simp add: election_inv_def)
    qed auto
    moreover have "sound ps ?G S ?c (Campaign i t)"
      using none i(1) inv by (simp add: election_inv_def configured_def)
    ultimately show ?thesis using that by auto
  qed
  moreover have "counted ps ?G S ?c"
  proof (rule counted_mono)
    show "counted ps G S c" using inv by (simp add: election_inv_def)
  qed (use le in auto)
  moreover have "once ?c"
  proof -
    have o: "once c" using inv by (simp add: election_inv_def)
    then have "(i, t, None) \<notin> set (ballots (tasks c))" using less by (auto simp: once_def)
    then show ?thesis using o r(5) by (intro once_mono [OF o _ le]) (auto simp: once_def)
  qed
  moreover have "leads ps ?G ?c"
    using inv r by (auto simp: election_inv_def leads_def intro: mj.stays_elected)
  ultimately show ?thesis using up by (simp add: election_inv_def)
qed


lemma election_invD:
  assumes "election_inv ps k G S c"
  shows "configured ps c" "terms_upto k c" "granted G c" "\<And>x. x \<in> set (tasks c) \<Longrightarrow> sound ps G S c x"
    "counted ps G S c" "once c" "leads ps G c"
  using assms by (simp_all add: election_inv_def)

lemma configured_peers:
  assumes "configured ps c" "distinct (map peerID ps)"
  shows "peers (node c a) = filter (\<lambda>p. peerID p \<noteq> a) ps" "distinct (map peerID (peers (node c a)))"
  using assms by (simp_all add: configured_def distinct_map_filter)

lemma promote_alone:
  assumes "filter (\<lambda>p. peerID p \<noteq> a) ps = []" "a \<in> peerID ` set ps" "(a, t, a) \<in> G"
  shows "majority (map peerID ps) (voters G t a)"
proof -
  have "peerID ` set ps = {a}" using assms(1,2) by (auto simp: filter_empty_conv)
  moreover have "voters G t a \<inter> {a} = {a}" using assms(3) by (auto simp: voters_def)
  ultimately show ?thesis by (simp add: majority_def)
qed

lemma campaign_step:
  assumes inv: "election_inv ps k G S c" and ps: "distinct (map peerID ps)"
    and x: "sound ps G S c (Campaign a t)" "(a, t, None) \<notin> set (ballots (tasks c))"
    and run: "runTask (Campaign a t) c = Some c'" and up: "terms_upto k' c'"
  shows "\<exists>S'. election_inv ps k' G S' c'"
proof -
  let ?r = "node c a"
  note I = election_invD [OF inv]
  have pa: "peers ?r = filter (\<lambda>p. peerID p \<noteq> a) ps" "distinct (map peerID (peers ?r))"
    by (rule configured_peers [OF I(1) ps])+
  have a: "a \<in> peerID ` set ps" "(a, t, a) \<in> G" "map_of (tally c) (a, t) = None" using x(1) by simp_all
  show ?thesis
  proof (cases "peers ?r = []")
    case True
    then have c': "c' = spawn [Promote a t] c" using run by (simp add: Let_def)
    have "majority (map peerID ps) (voters G t a)"
      by (rule promote_alone) (use True pa a in simp_all)
    then have "election_inv ps k' G S c'"
      using inv up by (intro election_inv_quiet [OF inv up])
        (auto simp: c' election_inv_def once_def sound_tally [of "spawn [Promote a t] c" c])
    then show ?thesis by blast
  next
    case False
    let ?ts = "map (\<lambda>p. VoteCall a (peerID p) (voteRequest t ?r)) (peers ?r)"
    let ?S = "S((a, t) := {a})"
    have c': "c' = spawn ?ts (c\<lparr>tally := AList.update (a, t) (1, votesNeeded ?r) (tally c)\<rparr>)"
      using run False by (simp add: Let_def)
    have nobody: "b \<noteq> a \<or> u \<noteq> t" if m: "(b, u, v) \<in> set (ballots (tasks c))" for b u v
    proof -
      obtain y where y: "y \<in> set (tasks c)" "(b, u, v) \<in> set (ballot y)"
        using m by (auto simp: in_ballots)
      show ?thesis
        using I(4) [OF y(1)] y(2) a(3) x(2) m by (cases y) auto
    qed
    have id: "nodeID ?r = a" using I(1) by (simp add: configured_def)
    have mine: "ballots ?ts = map (\<lambda>i. (a, t, Some i)) (map peerID (peers ?r))"
      by (simp add: ballots_def comp_def voteRequest_def)
    have "sound ps G ?S c' y" if "y \<in> set (tasks c)" for y
    proof -
      have "set (ballot y) \<subseteq> set (ballots (tasks c))" using that by (auto simp: in_ballots)
      then show ?thesis
        using I(4) [OF that] nobody by (cases y) (auto simp: c' update_conv')
    qed
    moreover have "sound ps G ?S c' y" if "y \<in> set ?ts" for y
      using that a id by (auto simp: c' update_conv' pa voteRequest_def)
    moreover have "counted ps G ?S c'"
      by (rule counted_change [OF I(5), where a = a and t = t and n = 1 and needed = "votesNeeded ?r"])
        (use a grantedD(2) [OF I(3) a(2)] in \<open>auto simp: c' update_conv' votesNeeded_def pa voters_def\<close>)
    moreover have "once c'"
    proof (rule once_mono [OF I(6)])
      show "distinct (ballots (tasks c'))"
        using I(6) pa(2) nobody
        by (auto simp: c' mine once_def distinct_map inj_on_def simp del: map_map)
      show "(\<exists>v'. (b, u, v') \<in> set (ballots (tasks c))) \<or> u \<le> currentTerm (node c' b)"
        if "(b, u, v) \<in> set (ballots (tasks c'))" for b u v
        using that grantedD(2) [OF I(3) a(2)] by (auto simp: c' mine simp del: map_map)
    qed (simp add: c')
    moreover have "configured ps c'" "granted G c'" "leads ps G c'"
      using I(1,3,7) by (simp_all add: c' configured_def granted_def leads_def)
    ultimately have "election_inv ps k' G ?S c'"
      using up by (auto simp: election_inv_def c')
    then show ?thesis by blast
  qed
qed

lemma vote_call_step:
  assumes inv: "election_inv ps k G S c"
    and x: "sound ps G S c (VoteCall a v req)" "(a, vqTerm req, Some v) \<notin> set (ballots (tasks c))"
      "vqTerm req \<le> currentTerm (node c a)" and a: "a \<noteq> []"
    and run: "runTask (VoteCall a v req) c = Some c'" and up: "terms_upto k' c'"
  shows "\<exists>G'. G \<subseteq> G' \<and> election_inv ps k' G' S c'"
proof -
  note I = election_invD [OF inv]
  obtain resp r where h: "handleVoteRequest req (node c v) = (resp, r)"
    by (cases "handleVoteRequest req (node c v)") auto
  let ?t = "vqTerm req"
  let ?G = "if vrVoteGranted resp then insert (v, ?t, a) G else G"
  have c': "c' = spawn [VoteReply a v ?t resp] (setNode v r c)"
    using run h by (simp add: HandleRaftVote_def)
  have up1: "currentTerm (node c i) \<le> currentTerm (node c' i)" for i
    using handleVoteRequest_term [OF h] by (simp add: c')
  have "granted ?G c'"
  proof (cases "vrVoteGranted resp")
    case True
    have "granted (insert (v, ?t, a) G) c'"
      by (rule granted_insert [OF I(3)])
         (use handleVoteRequest_granted [OF h True] a x(1) in \<open>auto simp: c'\<close>)
    then show ?thesis using True by simp
  next
    case False
    then have "granted G c'"
      using granted_quiet [OF I(3), of c'] handleVoteRequest_refused [OF h] by (simp add: c')
    then show ?thesis using False by simp
  qed
  moreover have "sound ps ?G S c' y" if "y \<in> set (tasks c')" for y
  proof (cases "y \<in> set (tasks c)")
    case True
    show ?thesis by (rule sound_mono [OF I(4) [OF True]]) (auto simp: c')
  next
    case False
    then have "y = VoteReply a v ?t resp" using that by (simp add: c')
    then show ?thesis using x(1) by (simp add: c')
  qed
  moreover have "counted ps ?G S c'"
    by (rule counted_mono [OF I(5) _ _ up1]) (auto simp: c')
  moreover have "once c'"
    by (rule once_mono [OF I(6) _ up1])
       (use I(6) x(2,3) order_trans [OF x(3) up1 [of a]] in \<open>auto simp: c' once_def\<close>)
  moreover have "configured ps c'"
    using I(1) handleVoteRequest_granted [OF h] handleVoteRequest_refused [OF h]
    by (cases "vrVoteGranted resp") (auto simp: configured_def c' quiet_def)
  moreover have "leads ps ?G c'"
  proof (cases "vrVoteGranted resp")
    case True
    then show ?thesis
      using handleVoteRequest_granted [OF h True] by (intro leads_mono [OF I(7)]) (auto simp: c')
  next
    case False
    then show ?thesis
      using leads_quiet [OF I(7), of c'] handleVoteRequest_refused [OF h] by (simp add: c')
  qed
  ultimately have "election_inv ps k' ?G S c'" using up by (simp add: election_inv_def)
  moreover have "G \<subseteq> ?G" by auto
  ultimately show ?thesis by blast
qed


lemma vote_reply_step:
  assumes inv: "election_inv ps k G S c" and ps: "distinct (map peerID ps)"
    and x: "sound ps G S c (VoteReply a v t resp)" "(a, t, Some v) \<notin> set (ballots (tasks c))"
    and run: "runTask (VoteReply a v t resp) c = Some c'" and up: "terms_upto k' c'"
  shows "\<exists>S'. election_inv ps k' G S' c'"
proof -
  note I = election_invD [OF inv]
  obtain n needed where tal: "map_of (tally c) (a, t) = Some (n, needed)" using x(1) by auto
  obtain r n' won where h: "handleVoteResponse t needed n resp (node c a) = (r, n', won)"
    by (cases "handleVoteResponse t needed n resp (node c a)") auto
  define S' where "S' = (if n' = n then S else S((a, t) := insert v (S (a, t))))"
  let ?c = "setNode a r (c\<lparr>tally := AList.update (a, t) (n', needed) (tally c)\<rparr>)"
  have c': "c' = (if won then spawn [Promote a t] ?c else ?c)"
    using run tal h by (simp add: Let_def split: if_splits)
  have q: "quiet (node c i) (node c' i)" for i
    using handleVoteResponse_quiet [OF h] by (simp add: c')
  have n': "n' = n \<or> n' = Suc n \<and> vrVoteGranted resp" "won \<Longrightarrow> n' = Suc n \<and> needed \<le> n'"
    using handleVoteResponse_count [OF h] by auto
  have old: "a \<in> peerID ` set ps" "t \<le> currentTerm (node c a)" "n \<le> card (S (a, t))"
    "S (a, t) \<subseteq> voters G t a \<inter> peerID ` set ps" "needed = (length (filter (\<lambda>p. peerID p \<noteq> a) ps) + 1) div 2 + 1"
    using I(5) tal by (auto simp: counted_def)
  have fin: "finite (S (a, t))" using old(4) by (rule finite_subset) auto
  have new: "n' \<le> card (S' (a, t))" "S' (a, t) \<subseteq> voters G t a \<inter> peerID ` set ps"
    using n' old x(1) fin by (auto simp: S'_def voters_def)
  have same: "S' (b, u) = S (b, u)" if "(b, u) \<noteq> (a, t)" for b u
    using that by (auto simp: S'_def)
  have tal': "map_of (tally c') (b, u) = (if (b, u) = (a, t) then Some (n', needed) else map_of (tally c) (b, u))"
    for b u by (simp add: c' update_conv')
  have "counted ps G S' c'"
  proof (rule counted_change [OF I(5), where a = a and t = t and n = n' and needed = needed])
    show "map_of (tally c') (b, u) = (if (b, u) = (a, t) then Some (n', needed) else map_of (tally c) (b, u))"
      for b u by (rule tal')
    show "t \<le> currentTerm (node c' a)" by (rule order_trans [OF old(2) quiet_term_le [OF q]])
  qed (use same new old(1,5) quiet_term_le [OF q] in auto)
  moreover have "sound ps G S' c' y" if y: "y \<in> set (tasks c')" for y
  proof (cases "y \<in> set (tasks c)")
    case True
    have "set (ballot y) \<subseteq> set (ballots (tasks c))" using True by (auto simp: in_ballots)
    then show ?thesis
      using I(4) [OF True] x(2) tal
      by (cases y) (auto simp: tal' S'_def)
  next
    case False
    then have y: "won" "y = Promote a t" using y by (auto simp: c' split: if_splits)
    have "majority (map peerID ps) (S' (a, t))"
      by (rule votesNeeded_majority [OF ps old(1)]) (use new n'(2) [OF y(1)] old(5) in auto)
    then show ?thesis using y(2) new(2) by (auto intro: mj.quorum_mono)
  qed
  moreover have "once c'"
  proof (rule once_mono [OF I(6) _ quiet_term_le [OF q]])
    have b: "ballots (tasks c') = ballots (tasks c)" by (simp add: c')
    then show "distinct (ballots (tasks c'))" using I(6) by (simp add: once_def)
    show "(\<exists>v'. (b, u, v') \<in> set (ballots (tasks c))) \<or> u \<le> currentTerm (node c' b)"
      if "(b, u, w) \<in> set (ballots (tasks c'))" for b u w using that b by auto
  qed
  moreover have "configured ps c'"
    using I(1) q by (auto simp: configured_def quiet_def) (simp add: c')
  ultimately have "election_inv ps k' G S' c'"
    using up granted_quiet [OF I(3) q] leads_quiet [OF I(7) q] by (simp add: election_inv_def)
  then show ?thesis by blast
qed

lemma promote_step:
  assumes inv: "election_inv ps k G S c" and x: "sound ps G S c (Promote a t)"
    and run: "runTask (Promote a t) c = Some c'" and up: "terms_upto k' c'"
  shows "election_inv ps k' G S c'"
proof -
  note I = election_invD [OF inv]
  obtain r won where h: "becomeLeader t (node c a) = (r, won)"
    by (cases "becomeLeader t (node c a)") auto
  note L = becomeLeader_voting [OF h]
  have c': "c' = (if won then spawn (replicateAll a t r) (setNode a r c) else c)"
    using run h by simp
  show ?thesis
  proof (cases won)
    case False
    then show ?thesis using inv up by (simp add: c' election_inv_def)
  next
    case True
    then have v: "currentTerm (node c a) = t" "nodeID r = nodeID (node c a)" "peers r = peers (node c a)"
      "currentTerm r = t" "votedFor r = votedFor (node c a)"
      using L by (simp_all add: voting_def)
    have tm: "currentTerm (node c' i) = currentTerm (node c i)" "votedFor (node c' i) = votedFor (node c i)"
      "nodeID (node c' i) = nodeID (node c i)" "peers (node c' i) = peers (node c i)" for i
      using v True by (simp_all add: c')
    have eq: "members c' = members c" "tally c' = tally c" using True by (simp_all add: c')
    have "configured ps c'" using I(1) tm eq by (simp add: configured_def)
    moreover have "granted G c'" using I(3) tm by (simp add: granted_def)
    moreover have "counted ps G S c'" using I(5) tm eq by (simp add: counted_def)
    moreover have "once c'"
      by (rule once_mono [OF I(6)]) (use I(6) True v in \<open>auto simp: c' once_def\<close>)
    moreover have "leads ps G c'"
      using I(7) x v True by (auto simp: leads_def c')
    moreover have "sound ps G S c' y" if "y \<in> set (tasks c')" for y
    proof (cases "y \<in> set (tasks c)")
      case T: True
      show ?thesis by (rule sound_mono [OF I(4) [OF T] eq(2)]) simp
    next
      case False
      then show ?thesis using that True by (auto simp: c' replicateAll_def)
    qed
    ultimately show ?thesis using up by (simp add: election_inv_def)
  qed
qed


section \<open>Every step\<close>

definition well_configured :: "peer_config list \<Rightarrow> bool" where
  "well_configured ps \<longleftrightarrow> distinct (map peerID ps) \<and> [] \<notin> peerID ` set ps"

lemma runTask_election:
  assumes inv: "election_inv ps k G S c" and ps: "well_configured ps"
    and x: "x \<in> set (tasks c)"
    and run: "runTask x (c\<lparr>tasks := remove1 x (tasks c)\<rparr>) = Some c'" and up: "terms_upto k' c'"
  shows "\<exists>G' S'. G \<subseteq> G' \<and> election_inv ps k' G' S' c'"
proof -
  let ?c = "c\<lparr>tasks := remove1 x (tasks c)\<rparr>"
  note t = election_inv_taken [OF inv x]
  have o: "once c" using inv by (simp add: election_inv_def)
  have fresh: "b \<notin> set (ballots (tasks ?c))" if "b \<in> set (ballot x)" for b
    using once_taken(2) [OF o x] that by auto
  have le: "u \<le> currentTerm (node ?c a)" if "(a, u, v) \<in> set (ballot x)" for a u v
  proof -
    have "(a, u, v) \<in> set (ballots (tasks c))" using that x by (auto simp: in_ballots)
    then show ?thesis using o by (auto simp: once_def)
  qed
  have d: "distinct (map peerID ps)" using ps by (simp add: well_configured_def)
  show ?thesis
  proof (cases x)
    case (Campaign a u)
    then show ?thesis
      using campaign_step [OF t(1) d _ _ _ up, of a u] t(2) fresh run by auto
  next
    case (VoteCall a v req)
    moreover have "a \<in> peerID ` set ps" using t(2) VoteCall by simp
    then have "a \<noteq> []" using ps unfolding well_configured_def by blast
    ultimately show ?thesis
      using vote_call_step [OF t(1) _ _ _ _ _ up, of a v req] t(2) fresh le run by auto
  next
    case (VoteReply a v u resp)
    then show ?thesis
      using vote_reply_step [OF t(1) d _ _ _ up, of a v u resp] t(2) fresh run by auto
  next
    case (Promote a u)
    then show ?thesis
      using promote_step [OF t(1) _ _ up, of a u] t(2) run by auto
  qed (use election_inv_neutral [OF t(1) up runTask_neutral [OF _ run]] in auto)
qed

lemma doEvent_election:
  assumes inv: "election_inv ps k G S c" and ps: "well_configured ps" and k: "k < 2 ^ 64 - 1"
    and ev: "fixedMembership ev" "doEvent ev c = Some c'"
  shows "\<exists>G' S'. G \<subseteq> G' \<and> election_inv ps (Suc k) G' S' c'"
proof -
  have up: "terms_upto (Suc k) c'"
    using doEvent_terms [OF _ ev] inv by (simp add: election_inv_def)
  have neutral: ?thesis if "neutral_step c c'"
    using election_inv_neutral [OF inv up that] by blast
  show ?thesis
  proof (cases ev)
    case (ElectionTimeout i)
    obtain u r where se: "startElection (node c i) = (u, r)"
      by (cases "startElection (node c i)") auto
    then have i: "i \<in> set (members c)" and c': "c' = spawn [Campaign i u] (setNode i r c)"
      using ev ElectionTimeout by (auto split: if_splits)
    have "i \<in> peerID ` set ps" using i inv by (simp add: election_inv_def configured_def)
    then have "i \<noteq> []" using ps unfolding well_configured_def by blast
    moreover have "unat (currentTerm (node c i)) < 2 ^ 64 - 1"
      using inv k terms_upto_node [of k c i] by (simp add: election_inv_def)
    ultimately show ?thesis
      using election_timeout_step [OF inv i _ se] up c' by blast
  next
    case (Heartbeat i)
    then show ?thesis using ev by (intro neutral) (auto split: if_splits)
  next
    case (Client i ch cmd)
    then show ?thesis using ev by (intro neutral) (auto split: if_splits apply_route.splits)
  next
    case (CommitTick i)
    have "quiet r (r\<lparr>commitCh := False\<rparr>)" for r by (rule quiet_voting) simp
    then show ?thesis using ev CommitTick by (intro neutral) (auto simp: Let_def split: if_splits)
  next
    case (Run x)
    then have x: "x \<in> set (tasks c)" "runTask x (c\<lparr>tasks := remove1 x (tasks c)\<rparr>) = Some c'"
      using ev by (auto split: if_splits)
    show ?thesis by (rule runTask_election [OF inv ps x up])
  next
    case (WaitTimeout i f)
    let ?c = "c\<lparr>tasks := remove1 (Wait i f) (tasks c)\<rparr>"
    have m: "Wait i f \<in> set (tasks c)"
      and c': "c' = answer (afChannel f) (Some ErrCommitTimedOut)
        (setNode i ((node c i)\<lparr>futures := AList.delete (afIndex f) (futures (node c i))\<rparr>) ?c)"
      using ev WaitTimeout by (auto split: if_splits)
    have "neutral_step ?c c'"
      unfolding c' by (simp add: quiet_voting)
    then show ?thesis
      using election_inv_neutral [OF election_inv_taken(1) [OF inv m] up] by blast
  next
    case (Lose x)
    then have x: "x \<in> set (tasks c)" and c': "c' = c\<lparr>tasks := remove1 x (tasks c)\<rparr>"
      using ev by (auto split: if_splits)
    have "neutral_step (c\<lparr>tasks := remove1 x (tasks c)\<rparr>) c'" unfolding c' by simp
    then show ?thesis
      using election_inv_neutral [OF election_inv_taken(1) [OF inv x] up] by blast
  qed (use ev in auto)
qed

lemma Start_voting:
  "\<not> started r \<Longrightarrow> peers r \<noteq> [] \<Longrightarrow> voting (Start r) = voting r"
proof -
  assume s: "\<not> started r" "peers r \<noteq> []"
  have "peers (trackPeers 1 r) = peers r"
    using trackPeers_voting [of 1 r] by (simp add: voting_def)
  moreover have "voting (q\<lparr>started := b\<rparr>) = voting q" for q b by (simp add: voting_def)
  ultimately show ?thesis using s by (simp add: Start_def Let_def)
qed

lemma startCluster_election:
  assumes ps: "well_configured ps" and two: "2 \<le> length ps"
  shows "election_inv ps 0 {} (\<lambda>_. {}) (startCluster boot ps)"
proof -
  let ?c = "startCluster boot ps"
  have "filter (\<lambda>p. peerID p \<noteq> i) ps \<noteq> []" for i
  proof
    assume "filter (\<lambda>p. peerID p \<noteq> i) ps = []"
    then have "peerID ` set ps \<subseteq> {i}" by (auto simp: filter_empty_conv)
    then have "card (peerID ` set ps) \<le> 1" using card_mono [of "{i}"] by fastforce
    then show False
      using ps two by (metis well_configured_def distinct_card length_map list.set_map
          numeral_le_one_iff order_trans semiring_norm(69))
  qed
  then have v: "voting (node ?c i) = (i, filter (\<lambda>p. peerID p \<noteq> i) ps, StateFollower, 0, [])" for i
    by (simp add: startCluster_def Start_voting NewRaftReplicator_def) (simp add: voting_def)
  then have "nodeID (node ?c i) = i" "peers (node ?c i) = filter (\<lambda>p. peerID p \<noteq> i) ps"
    "state (node ?c i) = StateFollower" "currentTerm (node ?c i) = 0" "votedFor (node ?c i) = []" for i
    using v [of i] by (simp_all add: voting_def)
  moreover have "tasks ?c = []" "tally ?c = []" "members ?c = map peerID ps"
    by (simp_all add: startCluster_def)
  ultimately show ?thesis
    by (simp add: election_inv_def configured_def terms_upto_def granted_def single_votes_def
        counted_def once_def leads_def)
qed

lemma reachable_election:
  "reachable c0 k c \<Longrightarrow> c0 = startCluster boot ps \<Longrightarrow> well_configured ps \<Longrightarrow> 2 \<le> length ps
     \<Longrightarrow> k < 2 ^ 64 \<Longrightarrow> \<exists>G S. election_inv ps k G S c"
proof (induction rule: reachable.induct)
  case init
  then show ?case using startCluster_election by blast
next
  case (step k c ev c')
  then obtain G S where "election_inv ps k G S c" by auto
  from doEvent_election [OF this _ _ step.hyps(2,3)] show ?case using step.prems by auto
qed

lemma reachable_members: "reachable c0 k c \<Longrightarrow> members c = members c0"
proof (induction rule: reachable.induct)
  case (step k c ev c')
  have run: "runTask x d = Some d' \<Longrightarrow> members d' = members d" for x d d'
    by (cases x) (auto simp: Let_def split: prod.splits option.splits sum.splits if_splits)
  have "members c' = members c"
    using step.hyps(2,3)
    by (cases ev) (auto simp: Let_def dest!: run split: prod.splits if_splits apply_route.splits)
  then show ?case using step.IH by simp
qed simp

text \<open>Claim C1. Election safety over time. Take a cluster whose nodes have distinct, non-empty
  identifiers and are configured with each other, and any run of at most \<open>2 ^ 64\<close> steps of timers,
  clients, messages and handlers in any order and with any losses, without restarts and membership
  changes. If one node leads a term at some moment of the run and a node leads the same term at a
  later moment, they are the same node.\<close>

theorem election_safety:
  assumes "well_configured ps" "reachable (startCluster boot ps) k c" "reachable c l d" "k + l < 2 ^ 64"
    and "i \<in> set (members c)" "j \<in> set (members c)" "IsLeader (node c i)" "IsLeader (node d j)"
    and "currentTerm (node c i) = currentTerm (node d j)"
  shows "i = j"
proof (cases "2 \<le> length ps")
  case False
  have "members c = map peerID ps"
    using reachable_members [OF assms(2)] by (simp add: startCluster_def)
  then show ?thesis
    using assms(5,6) False by (cases ps; cases "tl ps") auto
next
  case True
  obtain G S where inv: "election_inv ps k G S c"
    using reachable_election [OF assms(2) refl assms(1) True] assms(4) by auto
  have "\<exists>H T. G \<subseteq> H \<and> election_inv ps (k + l) H T d"
    using assms(3,4)
  proof (induction rule: reachable.induct)
    case init
    then show ?case using inv by auto
  next
    case (step m e ev e')
    then obtain H T where H: "G \<subseteq> H" "election_inv ps (k + m) H T e" by auto
    obtain H' T' where "H \<subseteq> H'" "election_inv ps (Suc (k + m)) H' T' e'"
      using doEvent_election [OF H(2) assms(1) _ step.hyps(2,3)] step.prems by auto
    then show ?case using H(1) by auto
  qed
  then obtain H T where H: "G \<subseteq> H" "election_inv ps (k + l) H T d" by blast
  have "majority (map peerID ps) (voters H (currentTerm (node d j)) i)"
  proof -
    have "leads ps H c" by (rule leads_mono [OF election_invD(7) [OF inv] H(1)]) simp
    then show ?thesis using assms(7) by (simp add: leads_def IsLeader_def assms(9) [symmetric])
  qed
  moreover have "majority (map peerID ps) (voters H (currentTerm (node d j)) j)"
    using election_invD(7) [OF H(2)] assms(8) by (simp add: leads_def IsLeader_def)
  moreover have "single_votes H" using election_invD(3) [OF H(2)] by (simp add: granted_def)
  ultimately show ?thesis using mj.one_elected by blast
qed


text \<open>A run of three nodes: the first asks the others for their votes, gets that of the second,
  and sends heartbeats.\<close>

definition three_nodes :: cluster where
  "three_nodes = startCluster (\<lambda>_. False)
     [\<lparr>peerID = ''a'', peerAddr = ''A''\<rparr>, \<lparr>peerID = ''b'', peerAddr = ''B''\<rparr>, \<lparr>peerID = ''c'', peerAddr = ''C''\<rparr>]"

definition first_request :: "string \<Rightarrow> u64 \<Rightarrow> vote_request" where
  "first_request i t = \<lparr>vqTerm = t, vqCandidateID = i, vqLastLogIndex = 0, vqLastLogTerm = 0\<rparr>"

definition elect_events :: "string \<Rightarrow> string \<Rightarrow> u64 \<Rightarrow> event list" where
  "elect_events i j t =
     [ElectionTimeout i, Run (Campaign i t), Run (VoteCall i j (first_request i t)),
      Run (VoteReply i j t \<lparr>vrTerm = t, vrVoteGranted = True, vrVoterID = j\<rparr>), Run (Promote i t)]"

definition elected_cluster :: cluster where
  "elected_cluster = the (run (elect_events ''a'' ''b'' 1) three_nodes)"

definition later_cluster :: cluster where
  "later_cluster = the (run [Heartbeat ''a'', ElectionTimeout ''c''] elected_cluster)"

lemma elected_run:
  "run (elect_events ''a'' ''b'' 1) three_nodes = Some elected_cluster"
  "run [Heartbeat ''a'', ElectionTimeout ''c''] elected_cluster = Some later_cluster"
  "IsLeader (node elected_cluster ''a'')" "currentTerm (node elected_cluster ''a'') = 1"
proof -
  have "run (elect_events ''a'' ''b'' 1) three_nodes \<noteq> None" by code_simp
  then show "run (elect_events ''a'' ''b'' 1) three_nodes = Some elected_cluster"
    by (simp add: elected_cluster_def)
  have "run [Heartbeat ''a'', ElectionTimeout ''c''] elected_cluster \<noteq> None" by code_simp
  then show "run [Heartbeat ''a'', ElectionTimeout ''c''] elected_cluster = Some later_cluster"
    by (simp add: later_cluster_def)
  show "IsLeader (node elected_cluster ''a'')" "currentTerm (node elected_cluster ''a'') = 1"
    by code_simp+
qed

lemma elected_reachable: "reachable three_nodes 5 elected_cluster"
proof -
  have f: "list_all fixedMembership (elect_events ''a'' ''b'' 1)" by code_simp
  show ?thesis
    using reachable_run [OF reachable.init f elected_run(1)] by (simp add: elect_events_def eval_nat_numeral)
qed

theorem election_safety_witness:
  "IsLeader (node elected_cluster ''a'') \<and> currentTerm (node elected_cluster ''a'') = 1 \<and>
     {j. j \<in> {''a'', ''b'', ''c''} \<and> IsLeader (node later_cluster j) \<and> currentTerm (node later_cluster j) = 1}
       \<subseteq> {''a''}"
proof -
  have f: "list_all fixedMembership [Heartbeat ''a'', ElectionTimeout ''c'']" by code_simp
  have "reachable elected_cluster 2 later_cluster"
    using reachable_run [OF reachable.init f elected_run(2)] by (simp add: numeral_2_eq_2)
  note safe = election_safety [OF _ elected_reachable [unfolded three_nodes_def] this, where i = "''a''"]
  have m: "members elected_cluster = [''a'', ''b'', ''c'']" by code_simp
  have "j = ''a''"
    if "j \<in> {''a'', ''b'', ''c''}" "IsLeader (node later_cluster j)" "currentTerm (node later_cluster j) = 1" for j
    using safe [of j] that elected_run(3,4) m by (auto simp: well_configured_def)
  then show ?thesis using elected_run(3,4) by blast
qed

end
