(* ===== verification/RaftLog.thy ===== *)
theory RaftLog
  imports RaftNode
begin

text \<open>
  The log operations of one node against reference definitions: what a follower stores, the index it
  reports on a conflict, what a leader commits, and what is applied.
\<close>

section \<open>Indexes\<close>

lemma sint_small: "unat (x :: u64) < 2 ^ 63 \<Longrightarrow> sint x = int (unat x)"
proof -
  assume "unat x < 2 ^ 63"
  then have "int (unat x) < int (2 ^ 63)" by (simp only: of_nat_less_iff)
  then have "uint x < 2 ^ 63" by (simp only: uint_nat) simp
  then have "sint x = uint x"
    unfolding sint_uint
    by (intro signed_take_bit_int_eq_self order_trans [OF _ uint_ge_0]) simp_all
  then show ?thesis by simp
qed

lemma sint_bounds:
  assumes "unat (x :: u64) < 2 ^ 63"
  shows "sint x < int n \<longleftrightarrow> unat x < n" "int n \<le> sint x \<longleftrightarrow> n \<le> unat x" "\<not> sint x < 0"
  unfolding sint_small [OF assms] by (simp_all only: of_nat_less_iff of_nat_le_iff of_nat_less_0_iff not_False_eq_True)

lemma unat_small_suc: "unat (x :: u64) < 2 ^ 63 \<Longrightarrow> unat (x + 1) = Suc (unat x)"
  by (simp add: unat_word_ariths)

lemma unat_of_small: "n < 2 ^ 63 \<Longrightarrow> unat (of_nat n :: u64) = n"
  by (simp add: unat_of_nat)

section \<open>Storing entries\<close>

text \<open>The rule of the Raft paper: keep the entries that agree, and replace what follows the first
  that does not by the new ones.\<close>

definition agreeing :: "nat \<Rightarrow> log_entry list \<Rightarrow> log_entry list \<Rightarrow> nat" where
  "agreeing n es l = length (takeWhile (\<lambda>(a, b). leTerm a = leTerm b) (zip (drop n l) es))"

definition mergeLog :: "nat \<Rightarrow> log_entry list \<Rightarrow> log_entry list \<Rightarrow> log_entry list" where
  "mergeLog n es l =
     (let k = agreeing n es l in if k = length es then l else take (n + k) l @ drop k es)"

lemma agreeing_Cons:
  "n < length l \<Longrightarrow> agreeing n (e # es) l =
     (if leTerm (l ! n) = leTerm e then Suc (agreeing (Suc n) es l) else 0)"
  by (simp add: agreeing_def Cons_nth_drop_Suc [symmetric])

lemma agreeing_end: "length l \<le> n \<Longrightarrow> agreeing n es l = 0"
  by (simp add: agreeing_def)

lemma mergeLog_end: "mergeLog (length l) es l = l @ es"
  by (simp add: mergeLog_def agreeing_end)

lemma appendEntries_merge:
  "unat idx \<le> length l \<Longrightarrow> length l < 2 ^ 63 \<Longrightarrow> unat idx + length es < 2 ^ 63 \<Longrightarrow>
     appendEntries idx es l = Some (mergeLog (unat idx) es l)"
proof (induction es arbitrary: idx l)
  case Nil
  then show ?case by (simp add: mergeLog_def agreeing_def)
next
  case (Cons e es)
  have "unat idx < 2 ^ 63" using Cons.prems by simp
  note small = sint_bounds [OF this] unat_small_suc [OF this]
  show ?case
  proof (cases "unat idx < length l \<and> leTerm (l ! unat idx) = leTerm e")
    case True
    then have "appendEntries idx (e # es) l = Some (mergeLog (Suc (unat idx)) es l)"
      using Cons.IH [of "idx + 1" l] Cons.prems small by simp
    moreover have "mergeLog (Suc (unat idx)) es l = mergeLog (unat idx) (e # es) l"
      using True by (simp add: mergeLog_def agreeing_Cons Let_def)
    ultimately show ?thesis by simp
  next
    case False
    let ?l = "take (unat idx) l @ [e]"
    have len: "length ?l = Suc (unat idx)" using Cons.prems by simp
    have "appendEntries idx (e # es) l = appendEntries (idx + 1) es ?l"
      using False Cons.prems small by auto
    also have "\<dots> = Some (mergeLog (Suc (unat idx)) es ?l)"
      using Cons.IH [of "idx + 1" ?l] Cons.prems small by simp
    also have "mergeLog (Suc (unat idx)) es ?l = ?l @ es"
      using mergeLog_end [of ?l es] len by simp
    also have "?l @ es = mergeLog (unat idx) (e # es) l"
    proof (cases "unat idx < length l")
      case True
      then show ?thesis using False by (simp add: mergeLog_def agreeing_Cons)
    next
      case F: False
      then have "unat idx = length l" using Cons.prems by simp
      then show ?thesis using mergeLog_end [of l "e # es"] by simp
    qed
    finally show ?thesis .
  qed
qed

text \<open>What the merged log holds.\<close>

lemma agreeing_le: "agreeing n es l \<le> length es" "agreeing n es l \<le> length l - n"
  using length_takeWhile_le [of "\<lambda>(a, b). leTerm a = leTerm b" "zip (drop n l) es"]
  by (simp_all add: agreeing_def)

lemma agreeing_nth:
  assumes "i < agreeing n es l"
  shows "leTerm (l ! (n + i)) = leTerm (es ! i)"
proof -
  let ?t = "takeWhile (\<lambda>(a, b). leTerm a = leTerm b) (zip (drop n l) es)"
  have i: "i < length es" "i < length (drop n l)"
    using assms agreeing_le [of n es l] by simp_all
  have "?t ! i \<in> set ?t" using assms by (simp add: agreeing_def)
  then have "case ?t ! i of (a, b) \<Rightarrow> leTerm a = leTerm b" by (rule set_takeWhileD [THEN conjunct2])
  moreover have "?t ! i = (drop n l ! i, es ! i)"
    using i assms by (simp add: takeWhile_nth agreeing_def)
  ultimately show ?thesis using i(2) by simp
qed

lemma length_mergeLog:
  "n \<le> length l \<Longrightarrow> length (mergeLog n es l) = max (n + length es) (length l) \<or>
     length (mergeLog n es l) = n + length es"
  using agreeing_le [of n es l] by (auto simp: mergeLog_def Let_def)

lemma mergeLog_prefix: "i < n \<Longrightarrow> n \<le> length l \<Longrightarrow> mergeLog n es l ! i = l ! i"
  by (simp add: mergeLog_def Let_def nth_append)

lemma mergeLog_nth:
  assumes "n \<le> length l" "i < length (mergeLog n es l)"
  shows "mergeLog n es l ! i =
    (if n + agreeing n es l \<le> i \<and> agreeing n es l \<noteq> length es then es ! (i - n) else l ! i)"
  using assms agreeing_le [of n es l] by (auto simp: mergeLog_def Let_def nth_append)

lemma mergeLog_terms:
  assumes "n \<le> length l" "i < length es"
  shows "n + i < length (mergeLog n es l) \<and> leTerm (mergeLog n es l ! (n + i)) = leTerm (es ! i)"
proof (cases "i < agreeing n es l")
  case True
  then show ?thesis
    using agreeing_nth [OF True] agreeing_le [of n es l] assms
    by (auto simp: mergeLog_def Let_def nth_append)
next
  case False
  then show ?thesis
    using agreeing_le [of n es l] assms by (auto simp: mergeLog_def Let_def nth_append)
qed

section \<open>The conflict index\<close>

lemma conflictIndex_first:
  assumes "0 < n" "n < length l" "length l < 2 ^ 63" "leTerm (l ! n) = t"
  shows "\<exists>m. conflictIndex l t n = of_nat m \<and> 0 < m \<and> m \<le> n
    \<and> (\<forall>i. m \<le> i \<and> i \<le> n \<longrightarrow> leTerm (l ! i) = t) \<and> (m = 1 \<or> leTerm (l ! (m - 1)) \<noteq> t)"
  using assms
proof (induction n)
  case (Suc n)
  show ?case
  proof (cases "n = 0")
    case True
    then show ?thesis using Suc.prems by (intro exI [of _ 1]) auto
  next
    case False
    show ?thesis
    proof (cases "leTerm (l ! n) = t")
      case True
      then obtain m where m: "conflictIndex l t n = of_nat m" "0 < m" "m \<le> n"
        "\<forall>i. m \<le> i \<and> i \<le> n \<longrightarrow> leTerm (l ! i) = t" "m = 1 \<or> leTerm (l ! (m - 1)) \<noteq> t"
        using Suc.IH False Suc.prems by auto
      have "leTerm (l ! i) = t" if "m \<le> i" "i \<le> Suc n" for i
        using m(4) that Suc.prems(4) by (cases "i = Suc n") auto
      then show ?thesis
        using m False Suc.prems by (intro exI [of _ m]) auto
    next
      case F: False
      then obtain j where "n = Suc j" using False by (cases n) auto
      then show ?thesis using F Suc.prems by (intro exI [of _ "Suc n"]) (auto simp: le_Suc_eq)
    qed
  qed
qed simp

section \<open>Applying\<close>

text \<open>The commands of the log at the indexes from \<open>a\<close> up to \<open>b\<close>.\<close>

definition commandsBetween :: "nat \<Rightarrow> nat \<Rightarrow> log_entry list \<Rightarrow> command list" where
  "commandsBetween a b l = List.map_filter leCommand (take (Suc b - a) (drop a l))"

lemma commandsBetween_step:
  "a \<le> b \<Longrightarrow> a < length l \<Longrightarrow>
     commandsBetween a b l = (case leCommand (l ! a) of None \<Rightarrow> [] | Some c \<Rightarrow> [c]) @ commandsBetween (Suc a) b l"
  by (simp add: commandsBetween_def Suc_diff_le Cons_nth_drop_Suc [symmetric] map_filter_simps split: option.split)

lemma commandsBetween_beyond: "length l \<le> a \<or> b < a \<Longrightarrow> commandsBetween a b l = []"
  by (auto simp: commandsBetween_def map_filter_simps)

lemma applyEntry_small:
  assumes "unat i < 2 ^ 63"
  shows "applyEntry i r = Some (r\<lparr>applied := applied r @ commandsBetween (unat i) (unat i) (rlog r)\<rparr>)"
proof (cases "unat i < length (rlog r)")
  case True
  then show ?thesis
    using commandsBetween_step [of "unat i" "unat i" "rlog r"] commandsBetween_beyond [of "rlog r" "Suc (unat i)" "unat i"]
    by (auto simp: applyEntry_def sint_bounds [OF assms] split: option.split)
next
  case False
  then show ?thesis
    by (simp add: applyEntry_def sint_bounds [OF assms] commandsBetween_beyond)
qed

lemma commandsBetween_join:
  "a \<le> Suc b \<Longrightarrow> b \<le> c \<Longrightarrow> commandsBetween a b l @ commandsBetween (Suc b) c l = commandsBetween a c l"
proof -
  assume ab: "a \<le> Suc b" "b \<le> c"
  have "take (Suc c - a) (drop a l) = take (Suc b - a) (drop a l) @ take (Suc c - Suc b) (drop (Suc b) l)"
    using ab take_add [of "Suc b - a" "Suc c - Suc b" "drop a l"] by simp
  then show ?thesis by (simp add: commandsBetween_def map_filter_def)
qed

lemma takeFuture_log [simp]:
  "rlog (snd (takeFuture i r)) = rlog r" "applied (snd (takeFuture i r)) = applied r"
  by (simp_all add: takeFuture_def split: option.split)

theorem applyCommitted_spec:
  assumes "unat (commitIndex r) < 2 ^ 63"
  shows "\<exists>fs r'. applyCommitted b r = Some (fs, r') \<and> rlog r' = rlog r \<and> commitIndex r' = commitIndex r
    \<and> lastApplied r' = max (lastApplied r) (commitIndex r)
    \<and> applied r' = applied r @ commandsBetween (Suc (unat (lastApplied r))) (unat (commitIndex r)) (rlog r)"
  using assms
proof (induction b r rule: applyCommitted.induct)
  case (1 b r)
  show ?case
  proof (cases "lastApplied r < commitIndex r")
    case False
    then have "unat (commitIndex r) \<le> unat (lastApplied r)" by (simp add: word_less_nat_alt)
    then show ?thesis
      using False by (subst applyCommitted.simps) (simp add: max_def commandsBetween_beyond)
  next
    case True
    let ?i = "lastApplied r + 1"
    let ?r = "r\<lparr>lastApplied := ?i\<rparr>"
    define r1 where "r1 = ?r\<lparr>applied := applied r @ commandsBetween (unat ?i) (unat ?i) (rlog r)\<rparr>"
    obtain gs r2 where t: "(gs, r2) = (if b then takeFuture ?i r1 else ([], r1))"
      by (cases "if b then takeFuture ?i r1 else ([], r1)") auto
    have less: "unat (lastApplied r) < unat (commitIndex r)" using True by (simp add: word_less_nat_alt)
    then have i: "unat ?i = Suc (unat (lastApplied r))" "unat ?i < 2 ^ 63"
      using "1.prems" unat_small_suc [of "lastApplied r"] by simp_all
    have a: "applyEntry ?i ?r = Some r1"
      using applyEntry_small [OF i(2), of ?r] by (simp add: r1_def)
    have r2: "rlog r2 = rlog r" "commitIndex r2 = commitIndex r" "lastApplied r2 = ?i"
      "applied r2 = applied r1"
      using t takeFuture_log [of ?i r1] takeFuture_indexes [of ?i r1]
      by (auto simp: r1_def split: if_splits dest!: arg_cong [of _ _ snd])
    then obtain hs r3 where c: "applyCommitted b r2 = Some (hs, r3)" and r3: "rlog r3 = rlog r"
      "commitIndex r3 = commitIndex r" "lastApplied r3 = max ?i (commitIndex r)"
      "applied r3 = applied r1 @ commandsBetween (Suc (unat ?i)) (unat (commitIndex r)) (rlog r)"
      using "1.IH" [OF True refl a t refl] "1.prems" by auto
    have "applyCommitted b r = Some (gs @ hs, r3)"
      using True a t c by (subst applyCommitted.simps) (cases b; auto simp: Let_def dest: sym)
    moreover have "max ?i (commitIndex r) = max (lastApplied r) (commitIndex r)"
      using True less i(1) by (simp add: max_def word_le_nat_alt)
    moreover have "applied r3 = applied r @ commandsBetween (Suc (unat (lastApplied r))) (unat (commitIndex r)) (rlog r)"
      using r3(4) i(1) less commandsBetween_join [of "unat ?i" "unat ?i" "unat (commitIndex r)" "rlog r"]
      by (simp add: r1_def)
    ultimately show ?thesis using r3 by auto
  qed
qed

section \<open>Committing\<close>

text \<open>An entry of the leader's term that a majority of the servers, the leader among them, is known
  to hold.\<close>

definition committable :: "u64 \<Rightarrow> raft \<Rightarrow> nat \<Rightarrow> bool" where
  "committable term r m \<longleftrightarrow> m < length (rlog r) \<and> leTerm (rlog r ! m) = term
     \<and> (length (peers r) + 1) div 2 < replicatedTo r (of_nat m)"

lemma replicatedTo_commit [simp]: "replicatedTo (r\<lparr>commitIndex := i\<rparr>) n = replicatedTo r n"
  by (simp add: replicatedTo_def)

lemma findCommit_spec:
  assumes "length (rlog r) < 2 ^ 63"
  shows "findCommit term n r = r\<lparr>commitIndex := commitIndex (findCommit term n r)\<rparr>
    \<and> (commitIndex (findCommit term n r) = commitIndex r
        \<or> unat n \<le> unat (commitIndex (findCommit term n r))
          \<and> committable term r (unat (commitIndex (findCommit term n r))))
    \<and> (\<forall>m. unat n \<le> m \<and> committable term r m \<longrightarrow>
        committable term r (unat (commitIndex (findCommit term n r)))
        \<and> m \<le> unat (commitIndex (findCommit term n r)))"
  using assms
proof (induction "term" n r rule: findCommit.induct)
  case (1 "term" n r)
  have len: "unat (of_nat (length (rlog r)) :: u64) = length (rlog r)"
    using "1.prems" by (simp add: unat_of_small)
  show ?case
  proof (cases "n < of_nat (length (rlog r))")
    case False
    then have "length (rlog r) \<le> unat n" using len by (simp add: word_less_nat_alt)
    then have "\<not> committable term r m" if "unat n \<le> m" for m using that by (simp add: committable_def)
    moreover have "findCommit term n r = r" using False by (subst findCommit.simps) simp
    ultimately show ?thesis by auto
  next
    case True
    then have n: "unat n < length (rlog r)" using len by (simp add: word_less_nat_alt)
    then have s: "unat (n + 1) = Suc (unat n)" using "1.prems" unat_small_suc [of n] by simp
    define q where "q \<longleftrightarrow> leTerm (rlog r ! unat n) = term \<and> replicatedTo r n > (length (peers r) + 1) div 2"
    define r1 where "r1 = (if q then r\<lparr>commitIndex := n\<rparr> else r)"
    have q: "q \<longleftrightarrow> committable term r (unat n)" using n by (auto simp: q_def committable_def)
    have eq: "findCommit term n r = findCommit term (n + 1) r1"
      using True by (subst findCommit.simps) (simp add: r1_def q_def)
    have same: "committable term r1 m = committable term r m" for m
      by (simp add: r1_def committable_def)
    have len1: "length (rlog r1) < 2 ^ 63" using "1.prems" by (simp add: r1_def)
    note IH = "1.IH" [OF True len1 [unfolded r1_def q_def], folded q_def, folded r1_def, folded eq,
        unfolded same s]
    let ?c = "commitIndex (findCommit term n r)"
    have A: "findCommit term n r = r\<lparr>commitIndex := ?c\<rparr>"
      using IH by (auto simp: r1_def split: if_splits)
    have B: "?c = commitIndex r \<or> unat n \<le> unat ?c \<and> committable term r (unat ?c)"
      using IH q by (auto simp: r1_def split: if_splits)
    have C: "committable term r (unat ?c) \<and> m \<le> unat ?c" if m: "unat n \<le> m" "committable term r m" for m
    proof (cases "m = unat n")
      case False
      then have "Suc (unat n) \<le> m" using m(1) by simp
      then show ?thesis using IH m(2) by blast
    next
      case m': True
      then have "q" using q m by simp
      then have "?c = n \<or> Suc (unat n) \<le> unat ?c \<and> committable term r (unat ?c)"
        using IH by (simp add: r1_def)
      then show ?thesis using m m' by auto
    qed
    show ?thesis using A B C by blast
  qed
qed

lemma receiveAppendEntries_accepts:
  assumes "currentTerm r \<le> aqTerm req"
  obtains resp r1 where "receiveAppendEntries req r = (Inr resp, r1)" "\<not> arSuccess resp" "arConflictTerm resp = 0"
    "rlog r1 = rlog r" "commitIndex r1 = commitIndex r" "lastApplied r1 = lastApplied r"
    "applied r1 = applied r" "currentTerm r1 = aqTerm req" "state r1 = StateFollower"
proof (cases "currentTerm r < aqTerm req")
  case True
  then show ?thesis using that assms by (simp add: receiveAppendEntries_def Let_def not_less)
next
  case False
  then have "currentTerm r = aqTerm req" using assms by simp
  then show ?thesis using that by (simp add: receiveAppendEntries_def Let_def)
qed

text \<open>Claim C25. A follower that has the entry before the new ones stores what the Raft paper's rule
  gives, although it works entry by entry on a slice: existing entries that agree stay, and from the
  first that does not on the new ones replace them, so that every entry of the request is in the log
  under its term. It takes the sender's term, follows its commit index, and applies exactly the
  commands of the log between its old applied index and the new commit index, in order.\<close>

theorem follower_stores_like_the_paper:
  assumes "currentTerm r \<le> aqTerm req" "unat (aqPrevLogIndex req) < length (rlog r)"
    and "aqPrevLogIndex req = 0 \<or> leTerm (rlog r ! unat (aqPrevLogIndex req)) = aqPrevLogTerm req"
    and "length (rlog r) + length (aqEntries req) < 2 ^ 63"
    and "unat (followCommit req (commitIndex r)) < 2 ^ 63"
  shows "\<exists>resp r'. handleAppendEntriesRequest req r = Some (resp, r') \<and> arSuccess resp
    \<and> rlog r' = mergeLog (Suc (unat (aqPrevLogIndex req))) (aqEntries req) (rlog r)
    \<and> (\<forall>i < length (aqEntries req). Suc (unat (aqPrevLogIndex req)) + i < length (rlog r')
        \<and> leTerm (rlog r' ! (Suc (unat (aqPrevLogIndex req)) + i)) = leTerm (aqEntries req ! i))
    \<and> currentTerm r' = aqTerm req \<and> state r' = StateFollower \<and> commitIndex r' = followCommit req (commitIndex r)
    \<and> lastApplied r' = max (lastApplied r) (commitIndex r')
    \<and> applied r' = applied r @ commandsBetween (Suc (unat (lastApplied r))) (unat (commitIndex r')) (rlog r')"
proof -
  let ?prev = "aqPrevLogIndex req"
  have p: "unat ?prev < 2 ^ 63" using assms(2,4) by simp
  obtain resp r1 where recv: "receiveAppendEntries req r = (Inr resp, r1)"
    and r1: "rlog r1 = rlog r" "commitIndex r1 = commitIndex r" "lastApplied r1 = lastApplied r"
      "applied r1 = applied r" "currentTerm r1 = aqTerm req" "state r1 = StateFollower"
    using receiveAppendEntries_accepts [OF assms(1)] by metis
  let ?l = "mergeLog (Suc (unat ?prev)) (aqEntries req) (rlog r)"
  have app: "appendEntries (?prev + 1) (aqEntries req) (rlog r1) = Some ?l"
    using appendEntries_merge [of "?prev + 1" "rlog r" "aqEntries req"] assms(2,4) unat_small_suc [OF p] r1
    by simp
  define r2 where "r2 = r1\<lparr>rlog := ?l, commitIndex := followCommit req (commitIndex r1)\<rparr>"
  have "unat (commitIndex r2) < 2 ^ 63" using assms(5) r1 by (simp add: r2_def)
  from applyCommitted_spec [OF this, of False]
  obtain fs r3 where c: "applyCommitted False r2 = Some (fs, r3)" and r3: "rlog r3 = ?l"
    "commitIndex r3 = followCommit req (commitIndex r)" "lastApplied r3 = max (lastApplied r) (commitIndex r3)"
    "applied r3 = applied r @ commandsBetween (Suc (unat (lastApplied r))) (unat (commitIndex r3)) ?l"
    using r1 by (auto simp: r2_def)
  have v: "currentTerm r3 = aqTerm req" "state r3 = StateFollower"
    using applyCommitted_voting [OF c] r1 by (auto simp: voting_def r2_def)
  have "storeAppendEntries req resp r1 = Some (resp\<lparr>arMatchIndex := matchedIndex req, arSuccess := True\<rparr>, r3)"
    using assms(2,3) app c sint_bounds [OF p] r1
    by (auto simp: storeAppendEntries_def Let_def r2_def)
  then have "handleAppendEntriesRequest req r = Some (resp\<lparr>arMatchIndex := matchedIndex req, arSuccess := True\<rparr>, r3)"
    by (simp add: handleAppendEntriesRequest_def recv)
  moreover have "\<forall>i < length (aqEntries req). Suc (unat ?prev) + i < length ?l
      \<and> leTerm (?l ! (Suc (unat ?prev) + i)) = leTerm (aqEntries req ! i)"
    using mergeLog_terms [of "Suc (unat ?prev)" "rlog r"] assms(2) by simp
  ultimately show ?thesis using r3 v by auto
qed

definition entry :: "u64 \<Rightarrow> u64 \<Rightarrow> byte \<Rightarrow> log_entry" where
  "entry i t n = \<lparr>leIndex = i, leTerm = t,
     leCommand = Some \<lparr>cmdType = n, cmdData = [], cmdTimestamp = 0, cmdRequestID = []\<rparr>\<rparr>"

definition demo_follower :: raft where
  "demo_follower = (NewRaftReplicator ''b'' ''B'' False [])\<lparr>currentTerm := 2,
     rlog := [dummy_entry, entry 1 1 10, entry 2 1 11, entry 3 1 12]\<rparr>"

definition demo_request :: append_request where
  "demo_request = \<lparr>aqTerm = 3, aqLeaderID = ''a'', aqLeaderAddr = ''A'', aqPrevLogIndex = 1, aqPrevLogTerm = 1,
     aqEntries = [entry 2 1 11, entry 3 3 13], aqLeaderCommit = 2, aqCodecVersion = 1\<rparr>"

theorem follower_stores_like_the_paper_witness:
  "\<exists>resp r'. handleAppendEntriesRequest demo_request demo_follower = Some (resp, r') \<and> arSuccess resp
    \<and> rlog r' = [dummy_entry, entry 1 1 10, entry 2 1 11, entry 3 3 13] \<and> commitIndex r' = 2 \<and> length (applied r') = 2"
proof -
  have c: "currentTerm demo_follower \<le> aqTerm demo_request"
    "unat (aqPrevLogIndex demo_request) < length (rlog demo_follower)"
    "leTerm (rlog demo_follower ! unat (aqPrevLogIndex demo_request)) = aqPrevLogTerm demo_request"
    "length (rlog demo_follower) + length (aqEntries demo_request) < 2 ^ 63"
    "unat (followCommit demo_request (commitIndex demo_follower)) < 2 ^ 63"
    by (simp_all add: demo_follower_def demo_request_def NewRaftReplicator_def entry_def followCommit_def)
  have e: "mergeLog (Suc (unat (aqPrevLogIndex demo_request))) (aqEntries demo_request) (rlog demo_follower)
      = [dummy_entry, entry 1 1 10, entry 2 1 11, entry 3 3 13]"
    "followCommit demo_request (commitIndex demo_follower) = 2"
    "applied demo_follower = []" "unat (lastApplied demo_follower) = 0"
    by code_simp+
  have "length (commandsBetween (Suc 0) (unat (2 :: u64)) [dummy_entry, entry 1 1 10, entry 2 1 11, entry 3 3 13]) = 2"
    by code_simp
  with follower_stores_like_the_paper [OF c(1,2) disjI2 [OF c(3)] c(4,5), unfolded e]
  show ?thesis by (elim exE conjE) (intro exI conjI, assumption+, simp)
qed



text \<open>Claim C27. The leader's loop raises the commit index to the greatest index above it whose entry is
  of the leader's term and held by a majority, and leaves it when there is none; it changes nothing
  else but to apply the commands up to the new index.\<close>

theorem leader_commits_majority:
  assumes "length (rlog r) < 2 ^ 63" "unat (commitIndex r) < length (rlog r)"
  shows "\<exists>fs r'. advanceCommitIndex term r = Some (fs, r') \<and> rlog r' = rlog r \<and> voting r' = voting r
    \<and> (if \<exists>m > unat (commitIndex r). committable term r m
       then unat (commitIndex r') = Max {m. unat (commitIndex r) < m \<and> committable term r m}
       else commitIndex r' = commitIndex r)
    \<and> applied r' = applied r @ commandsBetween (Suc (unat (lastApplied r))) (unat (commitIndex r')) (rlog r)"
proof -
  let ?n = "commitIndex r + 1"
  let ?r = "findCommit term ?n r"
  let ?c = "commitIndex ?r"
  have n: "unat ?n = Suc (unat (commitIndex r))"
    using assms unat_small_suc [of "commitIndex r"] by simp
  note F = findCommit_spec [OF assms(1), of "term" ?n]
  have fr: "?r = r\<lparr>commitIndex := ?c\<rparr>" using F by blast
  have alt: "?c = commitIndex r \<or> unat (commitIndex r) < unat ?c \<and> committable term r (unat ?c)"
    using F unfolding n Suc_le_eq by (elim conjE)
  have top: "committable term r (unat ?c) \<and> m \<le> unat ?c" if "unat (commitIndex r) < m" "committable term r m" for m
    using F that unfolding n Suc_le_eq by (elim conjE) simp
  have "unat ?c < 2 ^ 63"
    using alt assms by (auto simp: committable_def)
  from applyCommitted_spec [OF this, of True]
  obtain fs r' where r': "applyCommitted True ?r = Some (fs, r')" "rlog r' = rlog ?r" "commitIndex r' = ?c"
    "applied r' = applied ?r @ commandsBetween (Suc (unat (lastApplied ?r))) (unat ?c) (rlog ?r)" by blast
  have keep: "rlog ?r = rlog r" "applied ?r = applied r" "lastApplied ?r = lastApplied r"
    by (subst fr, simp)+
  have "unat ?c = Max {m. unat (commitIndex r) < m \<and> committable term r m}"
    if ex: "\<exists>m > unat (commitIndex r). committable term r m"
  proof (rule Max_eqI [symmetric])
    show "finite {m. unat (commitIndex r) < m \<and> committable term r m}"
      by (rule finite_subset [of _ "{..< length (rlog r)}"]) (auto simp: committable_def)
    show "m \<le> unat ?c" if "m \<in> {m. unat (commitIndex r) < m \<and> committable term r m}" for m
      using top that by auto
    show "unat ?c \<in> {m. unat (commitIndex r) < m \<and> committable term r m}"
      using ex top by fastforce
  qed
  moreover have "?c = commitIndex r" if "\<not> (\<exists>m > unat (commitIndex r). committable term r m)"
    using alt that by blast
  ultimately show ?thesis
    using r' keep advanceCommitIndex_voting [of "term" r fs r']
    by (intro exI [of _ fs] exI [of _ r']) (simp add: advanceCommitIndex_def)
qed

definition demo_leader :: raft where
  "demo_leader = (NewRaftReplicator ''a'' ''A'' False
       [\<lparr>peerID = ''b'', peerAddr = ''B''\<rparr>, \<lparr>peerID = ''c'', peerAddr = ''C''\<rparr>])
     \<lparr>currentTerm := 2, state := StateLeader, rlog := [dummy_entry, entry 1 1 10, entry 2 2 11, entry 3 2 12],
      matchIndex := [(''b'', 2), (''c'', 0)]\<rparr>"

theorem leader_commits_majority_witness:
  "\<exists>fs r'. advanceCommitIndex 2 demo_leader = Some (fs, r') \<and> unat (commitIndex r') = 2 \<and> length (applied r') = 2"
proof -
  have len: "length (rlog demo_leader) < 2 ^ 63"
    by (simp add: demo_leader_def NewRaftReplicator_def)
  have c: "unat (commitIndex demo_leader) < length (rlog demo_leader)"
    "unat (commitIndex demo_leader) = 0" "applied demo_leader = []" "unat (lastApplied demo_leader) = 0"
    "committable 2 demo_leader 2" "\<not> committable 2 demo_leader 1" "\<not> committable 2 demo_leader 3"
    "length (rlog demo_leader) = 4" "length (commandsBetween 1 2 (rlog demo_leader)) = 2"
    by code_simp+
  have "m = 2" if "0 < m" "committable 2 demo_leader m" for m
  proof -
    have "m < 4" using that(2) c(8) by (simp add: committable_def)
    then have "m = 1 \<or> m = 2 \<or> m = 3" using that(1) by auto
    then show ?thesis using that c(6,7) by auto
  qed
  then have "{m. 0 < m \<and> committable 2 demo_leader m} = {2}" using c(5) by auto
  moreover have "\<exists>m > 0. committable 2 demo_leader m" using c(5) by (intro exI [of _ 2]) simp
  ultimately show ?thesis
    using leader_commits_majority [OF len c(1), of 2, unfolded c(2,3,4)] c(9) by auto
qed

end
