(* ===== verification/RaftIndex.thy ===== *)
theory RaftIndex
  imports RaftElection RaftLog
begin

text \<open>
  The indexes of a cluster: every log holds the entry of index \<open>i\<close> at position \<open>i\<close>, every index a
  node keeps or a message carries is within the number of steps taken, and no handler panics.
\<close>

section \<open>Well-formed logs, requests and nodes\<close>

definition log_ok :: "nat \<Rightarrow> log_entry list \<Rightarrow> bool" where
  "log_ok k l \<longleftrightarrow> l \<noteq> [] \<and> length l \<le> Suc k \<and> (\<forall>i < length l. leIndex (l ! i) = of_nat i)"

definition request_ok :: "nat \<Rightarrow> append_request \<Rightarrow> bool" where
  "request_ok k req \<longleftrightarrow> unat (aqPrevLogIndex req) + length (aqEntries req) \<le> k \<and> unat (aqLeaderCommit req) \<le> k
     \<and> (\<forall>i < length (aqEntries req). leIndex (aqEntries req ! i) = of_nat (Suc (unat (aqPrevLogIndex req)) + i))"

definition node_ok :: "nat \<Rightarrow> raft \<Rightarrow> bool" where
  "node_ok k r \<longleftrightarrow> log_ok k (rlog r) \<and> unat (commitIndex r) \<le> k
     \<and> (\<forall>p \<in> set (peers r). 0 < unat (at0 (nextIndex r) (peerID p)) \<and> unat (at0 (nextIndex r) (peerID p)) \<le> Suc k)"

lemma log_ok_mono: "log_ok k l \<Longrightarrow> k \<le> k' \<Longrightarrow> log_ok k' l"
  by (simp add: log_ok_def)

lemma node_ok_mono: "node_ok k r \<Longrightarrow> k \<le> k' \<Longrightarrow> node_ok k' r"
  by (auto simp: node_ok_def intro: log_ok_mono)

lemma request_ok_mono: "request_ok k req \<Longrightarrow> k \<le> k' \<Longrightarrow> request_ok k' req"
  by (simp add: request_ok_def)

lemma request_ok_Suc: "request_ok k req \<Longrightarrow> request_ok (Suc k) req"
  by (erule request_ok_mono) simp

lemma log_ok_last:
  assumes "log_ok k l" "k < 2 ^ 63"
  shows "unat (leIndex (last l)) = length l - 1" "unat (leIndex (last l)) \<le> k"
proof -
  have "leIndex (last l) = of_nat (length l - 1)" using assms by (simp add: log_ok_def last_conv_nth)
  moreover have "length l - 1 \<le> k" using assms by (cases l) (simp_all add: log_ok_def)
  ultimately show "unat (leIndex (last l)) = length l - 1" "unat (leIndex (last l)) \<le> k"
    using assms(2) unat_of_small [of "length l - 1"] by simp_all
qed

lemma log_ok_append:
  assumes "log_ok k l" "k < 2 ^ 63" "leIndex e = leIndex (last l) + 1"
  shows "log_ok (Suc k) (l @ [e])"
proof -
  have "leIndex (last l) = of_nat (length l - 1)" "0 < length l"
    using assms(1) by (simp_all add: log_ok_def last_conv_nth)
  then have "leIndex e = of_nat (length l)" using assms(3) by (cases l) simp_all
  then show ?thesis using assms(1) by (auto simp: log_ok_def nth_append less_Suc_eq)
qed

lemma log_ok_merge:
  assumes "log_ok k l" "request_ok k req" "unat (aqPrevLogIndex req) < length l"
  shows "log_ok k (mergeLog (Suc (unat (aqPrevLogIndex req))) (aqEntries req) l)"
proof -
  let ?n = "Suc (unat (aqPrevLogIndex req))" and ?es = "aqEntries req"
  let ?m = "mergeLog ?n ?es l"
  have len: "length ?m \<le> Suc k"
    using length_mergeLog [of ?n l ?es] assms by (auto simp: log_ok_def request_ok_def)
  have "?m \<noteq> []" using assms(1,3) by (auto simp: mergeLog_def Let_def log_ok_def)
  moreover have "leIndex (?m ! i) = of_nat i" if "i < length ?m" for i
  proof -
    have n: "?n \<le> length l" using assms(3) by simp
    show ?thesis
    proof (cases "?n + agreeing ?n ?es l \<le> i \<and> agreeing ?n ?es l \<noteq> length ?es")
      case True
      then have "i - ?n < length ?es"
        using that agreeing_le [of ?n ?es l] by (auto simp: mergeLog_def Let_def)
      then have "leIndex (?es ! (i - ?n)) = of_nat (?n + (i - ?n))"
        using assms(2) by (simp add: request_ok_def)
      moreover have "?n + (i - ?n) = i" using True by simp
      ultimately show ?thesis using mergeLog_nth [OF n that] True by simp
    next
      case False
      then have "i < length l"
        using that n agreeing_le [of ?n ?es l] by (auto simp: mergeLog_def Let_def split: if_splits)
      moreover have "?m ! i = l ! i" using mergeLog_nth [OF n that] by (simp only: False if_False)
      ultimately show ?thesis using assms(1) by (simp add: log_ok_def)
    qed
  qed
  ultimately show ?thesis using len by (simp add: log_ok_def)
qed

section \<open>The operations of a node\<close>

lemma node_ok_eq:
  "node_ok k r \<Longrightarrow> rlog r' = rlog r \<Longrightarrow> commitIndex r' = commitIndex r \<Longrightarrow> nextIndex r' = nextIndex r
     \<Longrightarrow> peers r' = peers r \<Longrightarrow> node_ok k r'"
  by (simp add: node_ok_def)

lemma node_ok_stepDown [simp]: "node_ok k (stepDown t r) = node_ok k r"
  by (simp add: node_ok_def stepDown_def)

lemma node_ok_startElection: "startElection r = (t, r') \<Longrightarrow> node_ok k r \<Longrightarrow> node_ok k r'"
  by (auto simp: startElection_def Let_def node_ok_def)

lemma node_ok_voteRequest: "handleVoteRequest req r = (resp, r') \<Longrightarrow> node_ok k r \<Longrightarrow> node_ok k r'"
  by (auto simp: handleVoteRequest_def Let_def node_ok_def stepDown_def split: if_splits)

lemma node_ok_voteResponse: "handleVoteResponse t n v resp r = (r', v', won) \<Longrightarrow> node_ok k r \<Longrightarrow> node_ok k r'"
  by (auto simp: handleVoteResponse_def Let_def split: if_splits)

lemma node_ok_receive: "receiveAppendEntries req r = (a, r') \<Longrightarrow> node_ok k r \<Longrightarrow> node_ok k r'"
  by (auto simp: receiveAppendEntries_def Let_def node_ok_def split: if_splits)

lemma trackPeers_fold:
  "fold (\<lambda>p r. r\<lparr>nextIndex := AList.update (peerID p) n (nextIndex r),
                matchIndex := AList.update (peerID p) 0 (matchIndex r)\<rparr>) qs r
   = r\<lparr>nextIndex := fold (\<lambda>p. AList.update (peerID p) n) qs (nextIndex r),
       matchIndex := fold (\<lambda>p. AList.update (peerID p) 0) qs (matchIndex r)\<rparr>"
  by (induction qs arbitrary: r) simp_all

lemma at0_fold:
  "at0 (fold (\<lambda>p. AList.update (peerID p) n) qs m) j = (if j \<in> peerID ` set qs then n else at0 m j)"
  by (induction qs arbitrary: m) auto

lemma trackPeers_simps [simp]:
  "rlog (trackPeers n r) = rlog r" "commitIndex (trackPeers n r) = commitIndex r"
  "peers (trackPeers n r) = peers r" "applied (trackPeers n r) = applied r"
  "lastApplied (trackPeers n r) = lastApplied r"
  "at0 (nextIndex (trackPeers n r)) j = (if j \<in> peerID ` set (peers r) then n else at0 (nextIndex r) j)"
  by (simp_all add: trackPeers_def trackPeers_fold at0_fold)

lemma node_ok_becomeLeader:
  assumes "becomeLeader t r = (r', won)" "node_ok k r" "k < 2 ^ 63 - 1"
  shows "node_ok k r'"
proof (cases "currentTerm r \<noteq> t \<or> state r = StateLeader")
  case True
  then show ?thesis using assms by (auto simp: becomeLeader_def)
next
  case False
  have l: "log_ok k (rlog r)" using assms(2) by (simp add: node_ok_def)
  have s: "unat (lastLogIndex r) \<le> k" using log_ok_last(2) [OF l] assms(3) by (simp add: lastLogIndex_def)
  then have "unat (lastLogIndex r + 1) = Suc (unat (lastLogIndex r))"
    using unat_small_suc [of "lastLogIndex r"] assms(3) by simp
  moreover have r': "r' = trackPeers (lastLogIndex r + 1)
      (r\<lparr>state := StateLeader, leaderID := nodeID r, leaderAddr := advertiseAddr r\<rparr>)"
    using assms(1) False by (simp add: becomeLeader_def)
  ultimately show ?thesis using assms(2) s by (simp add: node_ok_def)
qed

definition response_ok :: "nat \<Rightarrow> append_response \<Rightarrow> bool" where
  "response_ok k resp \<longleftrightarrow> unat (arMatchIndex resp) \<le> k \<and> unat (arConflictIndex resp) \<le> Suc k"

lemma node_ok_updates [simp]:
  "node_ok k (r\<lparr>peerCodecVersions := m\<rparr>) = node_ok k r" "node_ok k (r\<lparr>matchIndex := ix\<rparr>) = node_ok k r"
  "node_ok k (r\<lparr>commitCh := b\<rparr>) = node_ok k r" "node_ok k (r\<lparr>futures := fs\<rparr>) = node_ok k r"
  by (simp_all add: node_ok_def)

lemma node_ok_nextIndex:
  "node_ok k r \<Longrightarrow> 0 < unat n \<Longrightarrow> unat n \<le> Suc k \<Longrightarrow> node_ok k (r\<lparr>nextIndex := AList.update p n (nextIndex r)\<rparr>)"
  by (auto simp: node_ok_def)

lemma node_ok_commit: "node_ok k r \<Longrightarrow> unat i \<le> k \<Longrightarrow> node_ok k (r\<lparr>commitIndex := i\<rparr>)"
  by (simp add: node_ok_def)

text \<open>Only a peer's index is lowered; that of an unknown identifier may be anything.\<close>

lemma node_ok_backoff:
  assumes "node_ok k r" "1 < at0 (nextIndex r) p"
  shows "node_ok k (r\<lparr>nextIndex := AList.update p (at0 (nextIndex r) p - 1) (nextIndex r)\<rparr>)"
proof -
  let ?n = "at0 (nextIndex r) p"
  have "1 < unat ?n" using assms(2) by (simp add: word_less_nat_alt)
  moreover have "?n \<noteq> 0" using assms(2) by auto
  ultimately have "0 < unat (?n - 1)" "unat (?n - 1) \<le> unat ?n"
    using unat_minus_one [of ?n] by simp_all
  then show ?thesis using assms(1) by (fastforce simp: node_ok_def)
qed

lemma receive_response_ok:
  "receiveAppendEntries req r = (ans, r') \<Longrightarrow> case ans of Inl resp \<Rightarrow> response_ok k resp | Inr resp \<Rightarrow> response_ok k resp"
  by (auto simp: receiveAppendEntries_def Let_def response_ok_def split: if_splits)

lemma node_ok_appendResponse:
  assumes "node_ok k r" "response_ok k resp" "k < 2 ^ 63 - 1"
  shows "node_ok k (handleAppendEntriesResponse p t resp r)"
proof -
  have m: "unat (arMatchIndex resp + 1) = Suc (unat (arMatchIndex resp))"
    using assms(2,3) unat_small_suc [of "arMatchIndex resp"] by (simp add: response_ok_def)
  let ?r = "r\<lparr>peerCodecVersions := AList.update p (arCodecVersion resp) (peerCodecVersions r)\<rparr>"
  have r: "node_ok k ?r" using assms(1) by simp
  have "0 < unat (arMatchIndex resp + 1)" "unat (arMatchIndex resp + 1) \<le> Suc k"
    using m assms(2) by (simp_all add: response_ok_def)
  moreover have "0 < unat (arConflictIndex resp)" "unat (arConflictIndex resp) \<le> Suc k" if "0 < arConflictIndex resp"
    using that assms(2) by (simp_all add: response_ok_def word_less_nat_alt)
  ultimately show ?thesis
    using assms(1) node_ok_nextIndex [OF r] node_ok_backoff [OF r, of p]
      node_ok_nextIndex [of k "?r\<lparr>matchIndex := AList.update p (arMatchIndex resp) (matchIndex r)\<rparr>"]
    by (simp add: handleAppendEntriesResponse_def Let_def)
qed

lemma node_ok_append:
  assumes "appendCommand t ch cmd r = (f, r', done)" "node_ok k r" "k < 2 ^ 63 - 1"
  shows "node_ok (Suc k) r'"
proof -
  have l: "log_ok k (rlog r)" using assms(2) by (simp add: node_ok_def)
  have s: "unat (lastLogIndex r) \<le> k" using log_ok_last(2) [OF l] assms(3) by (simp add: lastLogIndex_def)
  then have "unat (lastLogIndex r + 1) = Suc (unat (lastLogIndex r))"
    using unat_small_suc [of "lastLogIndex r"] assms(3) by simp
  moreover have "log_ok (Suc k) (rlog r @ [\<lparr>leIndex = lastLogIndex r + 1, leTerm = t, leCommand = Some cmd\<rparr>])"
    using log_ok_append [OF l] assms(3) by (simp add: lastLogIndex_def)
  ultimately show ?thesis
    using assms(1,2) s by (fastforce simp: appendCommand_def Let_def node_ok_def split: if_splits)
qed

text \<open>Applying never panics below \<open>2 ^ 63\<close>, and keeps a well-formed node.\<close>

lemma applyCommitted_ok:
  assumes "node_ok k r" "k < 2 ^ 63"
  shows "\<exists>fs r'. applyCommitted b r = Some (fs, r') \<and> node_ok k r'"
proof -
  have "unat (commitIndex r) < 2 ^ 63" using assms by (simp add: node_ok_def)
  from applyCommitted_spec [OF this, of b]
  obtain fs r' where a: "applyCommitted b r = Some (fs, r')" "rlog r' = rlog r" "commitIndex r' = commitIndex r"
    by blast
  have "peers r' = peers r" using applyCommitted_voting [OF a(1)] by (simp add: voting_def)
  then show ?thesis
    using a applyCommitted_nextIndex [OF a(1)] node_ok_eq [OF assms(1)] by blast
qed

lemma advanceCommitIndex_ok:
  assumes "node_ok k r" "k < 2 ^ 63 - 1"
  shows "\<exists>fs r'. advanceCommitIndex t r = Some (fs, r') \<and> node_ok k r'"
proof -
  let ?r = "findCommit t (commitIndex r + 1) r"
  have len: "length (rlog r) < 2 ^ 63" using assms by (simp add: node_ok_def log_ok_def)
  note F = findCommit_spec [OF len, of t "commitIndex r + 1"]
  have "unat (commitIndex ?r) \<le> k"
  proof (cases "commitIndex ?r = commitIndex r")
    case True
    then show ?thesis using assms(1) by (simp add: node_ok_def)
  next
    case False
    then have "committable t r (unat (commitIndex ?r))" using F by blast
    then show ?thesis using assms(1) by (simp add: committable_def node_ok_def log_ok_def)
  qed
  then have "node_ok k (r\<lparr>commitIndex := commitIndex ?r\<rparr>)"
    by (rule node_ok_commit [OF assms(1)])
  moreover have "?r = r\<lparr>commitIndex := commitIndex ?r\<rparr>" using F by blast
  ultimately have "node_ok k ?r" by simp
  then show ?thesis
    using applyCommitted_ok assms(2) by (simp add: advanceCommitIndex_def)
qed

lemma storeAppendEntries_ok:
  assumes r: "node_ok k r" and req: "request_ok k req" and k: "k < 2 ^ 63 - 1"
    and resp: "response_ok k resp"
  shows "\<exists>resp' r'. storeAppendEntries req resp r = Some (resp', r') \<and> node_ok k r' \<and> response_ok k resp'"
proof -
  let ?prev = "aqPrevLogIndex req" and ?l = "rlog r"
  have l: "log_ok k ?l" using r by (simp add: node_ok_def)
  then have len: "length ?l < 2 ^ 63" using k by (simp add: log_ok_def)
  have p: "unat ?prev < 2 ^ 63" using req k by (simp add: request_ok_def)
  note b = sint_bounds [OF p]
  consider (short) "0 < ?prev" "length ?l \<le> unat ?prev"
    | (conflict) "0 < ?prev" "unat ?prev < length ?l" "leTerm (?l ! unat ?prev) \<noteq> aqPrevLogTerm req"
    | (match) "unat ?prev < length ?l" "?prev = 0 \<or> leTerm (?l ! unat ?prev) = aqPrevLogTerm req"
  proof (cases "0 < ?prev")
    case False
    then have "?prev = 0" by (simp add: word_gt_0)
    then show ?thesis using match l by (simp add: log_ok_def)
  qed (use short conflict match in force)
  then show ?thesis
  proof cases
    case short
    then show ?thesis
      using r resp b l unat_of_small [OF len]
      by (simp add: storeAppendEntries_def Let_def response_ok_def log_ok_def)
  next
    case conflict
    then have "0 < unat ?prev" by (simp add: word_less_nat_alt)
    from conflictIndex_first [OF this conflict(2) len refl]
    obtain m where m: "conflictIndex ?l (leTerm (?l ! unat ?prev)) (unat ?prev) = of_nat m" "m \<le> unat ?prev"
      by (elim exE conjE) (rule that; assumption)
    have "unat (of_nat m :: u64) \<le> Suc k"
      using m(2) req unat_of_small [of m] p by (simp add: request_ok_def)
    then show ?thesis
      using r resp b conflict m(1) by (simp add: storeAppendEntries_def Let_def response_ok_def)
  next
    case match
    let ?m = "mergeLog (Suc (unat ?prev)) (aqEntries req) ?l"
    have size: "length ?l + length (aqEntries req) < 2 ^ 64" using l req k by (simp add: log_ok_def request_ok_def)
    have app: "appendEntries (?prev + 1) (aqEntries req) ?l = Some ?m"
      using appendEntries_merge [of "?prev + 1" ?l "aqEntries req"] match(1) len req k unat_small_suc [OF p]
      by (simp add: request_ok_def)
    have last: "unat (?prev + of_nat (length (aqEntries req))) = unat ?prev + length (aqEntries req)"
      using req k by (simp add: request_ok_def unat_word_ariths unat_of_small)
    have "unat (followCommit req (commitIndex r)) \<le> k"
      using r req last by (auto simp: followCommit_def Let_def node_ok_def request_ok_def)
    then have "node_ok k (r\<lparr>rlog := ?m, commitIndex := followCommit req (commitIndex r)\<rparr>)"
      using r log_ok_merge [OF l req match(1)] by (simp add: node_ok_def)
    from applyCommitted_ok [OF this, of False] k
    obtain fs r' where a: "applyCommitted False (r\<lparr>rlog := ?m, commitIndex := followCommit req (commitIndex r)\<rparr>)
        = Some (fs, r')" "node_ok k r'" by auto
    have "unat (matchedIndex req) \<le> k"
    proof (cases "aqEntries req = []")
      case True
      then show ?thesis using req by (simp add: matchedIndex_def request_ok_def)
    next
      case False
      then have "leIndex (last (aqEntries req)) = of_nat (Suc (unat ?prev) + (length (aqEntries req) - 1))"
        using req by (simp add: last_conv_nth request_ok_def)
      then show ?thesis
        using False req k unat_of_small [of "Suc (unat ?prev) + (length (aqEntries req) - 1)"]
        by (cases "aqEntries req") (simp_all add: matchedIndex_def request_ok_def)
    qed
    then show ?thesis
      using a app b match resp by (auto simp: storeAppendEntries_def Let_def response_ok_def)
  qed
qed

lemma buildAppendEntries_ok:
  assumes r: "node_ok k r" and n: "0 < unat n" "unat n \<le> Suc k" and k: "k < 2 ^ 63 - 1"
  shows "\<exists>req. buildAppendEntries p t n r = Some req \<and> request_ok k req"
proof -
  have l: "log_ok k (rlog r)" using r by (simp add: node_ok_def)
  have n0: "n \<noteq> 0" using n(1) by auto
  then have prev: "unat (n - 1) = unat n - 1" by (rule unat_minus_one)
  have "unat n < 2 ^ 63" "unat (n - 1) < 2 ^ 63" using n k prev by simp_all
  note b = sint_bounds [OF this(1)] sint_bounds [OF this(2)]
  let ?es = "if unat n < length (rlog r) then drop (unat n) (rlog r) else []"
  have "unat (n - 1) + length ?es \<le> k" using n l prev by (auto simp: log_ok_def)
  moreover have "leIndex (?es ! i) = of_nat (Suc (unat (n - 1)) + i)" if "i < length ?es" for i
    using that l n(1) prev by (auto simp: log_ok_def split: if_splits)
  moreover have "unat (commitIndex r) \<le> k" using r by (simp add: node_ok_def)
  ultimately show ?thesis
    using b by (auto simp: buildAppendEntries_def Let_def request_ok_def)
qed

section \<open>The cluster\<close>

definition peersOf :: "cluster \<Rightarrow> string \<Rightarrow> string set" where
  "peersOf c i = peerID ` set (peers (node c i))"

fun task_ok :: "nat \<Rightarrow> cluster \<Rightarrow> task \<Rightarrow> bool" where
  "task_ok k c (Replicate i j _) = (j \<in> peersOf c i)"
| "task_ok k c (ReplicateFrom i j _ n) = (0 < unat n \<and> unat n \<le> Suc k)"
| "task_ok k c (AppendCall i j req) = request_ok k req"
| "task_ok k c (StoreAppend i j req resp) = (request_ok k req \<and> response_ok k resp)"
| "task_ok k c (AppendReply i j t resp) = response_ok k resp"
| "task_ok k c _ = True"

definition index_inv :: "nat \<Rightarrow> cluster \<Rightarrow> bool" where
  "index_inv k c \<longleftrightarrow> (\<forall>i. node_ok k (node c i)) \<and> (\<forall>x \<in> set (tasks c). task_ok k c x)"

lemma task_ok_mono: "task_ok k c x \<Longrightarrow> k \<le> k' \<Longrightarrow> peersOf c' = peersOf c \<Longrightarrow> task_ok k' c' x"
  by (cases x) (auto simp: response_ok_def intro: request_ok_mono)

text \<open>A step gives one node a new state and adds tasks.\<close>

lemma index_inv_step:
  assumes "index_inv k c" "k \<le> k'" "peersOf c' = peersOf c"
    and "\<And>i. node c' i = node c i \<or> node_ok k' (node c' i)"
    and "\<And>x. x \<in> set (tasks c') \<Longrightarrow> x \<in> set (tasks c) \<or> task_ok k' c x"
  shows "index_inv k' c'"
proof -
  have "node_ok k' (node c' i)" for i
    using assms(1,2,4) node_ok_mono by (metis index_inv_def)
  moreover have "task_ok k' c' x" if "x \<in> set (tasks c')" for x
    using assms(5) [OF that] assms(1,2,3) task_ok_mono [of k c x k' c'] task_ok_mono [of k' c x k' c']
    by (auto simp: index_inv_def)
  ultimately show ?thesis by (simp add: index_inv_def)
qed

lemma peersOf_quiet: "(\<And>i. quiet (node c i) (node c' i)) \<Longrightarrow> peersOf c' = peersOf c"
  by (simp add: peersOf_def quiet_def fun_eq_iff)

lemma replicateAll_ok: "x \<in> set (replicateAll i t (node c i)) \<Longrightarrow> task_ok k c x"
  by (auto simp: replicateAll_def peersOf_def)

lemma runTask_index:
  assumes inv: "index_inv k c" and x: "task_ok k c x" and k: "k < 2 ^ 63 - 2"
    and run: "runTask x c = Some c'" and peers: "peersOf c' = peersOf c"
  shows "index_inv (Suc k) c'"
proof (rule index_inv_step [OF inv _ peers])
  show "k \<le> Suc k" by simp
  have node: "node_ok k (node c i)" for i using inv by (simp add: index_inv_def)
  have up: "node_ok (Suc k) r" if "node_ok k r" for r
    by (rule node_ok_mono [OF that]) simp
  have k1: "k < 2 ^ 63 - 1" using k by simp
  show "node c' i = node c i \<or> node_ok (Suc k) (node c' i)" for i
  proof (cases x)
    case (VoteCall a b req)
    then show ?thesis
      using run node by (auto simp: HandleRaftVote_def dest!: node_ok_voteRequest intro: up split: prod.splits)
  next
    case (VoteReply a b t resp)
    then show ?thesis
      using run node [of a]
      by (auto simp: Let_def dest!: node_ok_voteResponse intro: up split: option.splits prod.splits if_splits)
  next
    case (Promote a t)
    then show ?thesis
      using run node_ok_becomeLeader [OF _ node k1] by (auto intro: up split: prod.splits if_splits)
  next
    case (AppendCall a b req)
    have "node_ok (Suc k) r" if "receiveAppendEntries q (node c b) = (y, r)" for q y r
      by (rule up [OF node_ok_receive [OF that node]])
    then show ?thesis using run AppendCall by (auto split: prod.splits sum.splits)
  next
    case (StoreAppend a b req resp)
    then show ?thesis
      using run x storeAppendEntries_ok [OF node, of req resp b] k1 by (auto dest!: up)
  next
    case (AppendReply a b t resp)
    then show ?thesis
      using run x up [OF node_ok_appendResponse [OF node _ k1]] by auto
  next
    case (AppendLocal a t ch cmd)
    then show ?thesis
      using run node_ok_append [OF _ node k1] by (auto split: prod.splits if_splits)
  next
    case (CommitAt a t)
    then show ?thesis
      using run advanceCommitIndex_ok [OF node k1, of t a] by (auto dest!: up)
  qed (use run in \<open>auto simp: Let_def acceptApply_def split: if_splits sum.splits\<close>)
  show "y \<in> set (tasks c) \<or> task_ok (Suc k) c y" if "y \<in> set (tasks c')" for y
  proof (cases x)
    case (Promote a t)
    then have "y \<in> set (tasks c) \<or> (\<exists>r. becomeLeader t (node c a) = (r, True) \<and> y \<in> set (replicateAll a t r))"
      using that run by (auto split: prod.splits if_splits)
    moreover have "peers r = peers (node c a)" if "becomeLeader t (node c a) = (r, True)" for r
      using becomeLeader_voting [OF that] by (simp add: voting_def)
    ultimately show ?thesis by (auto simp: replicateAll_def peersOf_def)
  next
    case (Replicate a b t)
    then show ?thesis
      using that run x node_ok_mono [OF node [of a], of "Suc k"] by (auto simp: peersOf_def node_ok_def)
  next
    case (ReplicateFrom a b t n)
    then obtain req where "buildAppendEntries b t n (node c a) = Some req" "request_ok (Suc k) req"
      using x buildAppendEntries_ok [OF node, of n b t a] k1 request_ok_Suc by auto
    then show ?thesis using that run ReplicateFrom by auto
  next
    case (AppendCall a b req)
    have "request_ok (Suc k) (req\<lparr>aqCodecVersion := 0\<rparr>)" using x AppendCall by (simp add: request_ok_def)
    moreover obtain ans r where recv: "receiveAppendEntries (req\<lparr>aqCodecVersion := 0\<rparr>) (node c b) = (ans, r)"
      by (cases "receiveAppendEntries (req\<lparr>aqCodecVersion := 0\<rparr>) (node c b)") auto
    ultimately show ?thesis
      using that run AppendCall receive_response_ok [OF recv, of "Suc k"]
      by (cases ans) (auto simp: response_ok_def)
  next
    case (StoreAppend a b req resp)
    then show ?thesis
      using that run x storeAppendEntries_ok [OF node, of req resp b] k1 by (auto simp: response_ok_def)
  next
    case (Announce a)
    then show ?thesis using that run by (auto simp: replicateAll_def peersOf_def)
  qed (use that run in \<open>auto simp: Let_def acceptApply_def split: if_splits sum.splits prod.splits option.splits\<close>)
qed

lemma peersOf_configured: "configured ps c \<Longrightarrow> peersOf c = (\<lambda>i. peerID ` set ps - {i})"
  by (auto simp: configured_def peersOf_def fun_eq_iff)

lemma index_inv_taken: "index_inv k c \<Longrightarrow> index_inv k (c\<lparr>tasks := remove1 x (tasks c)\<rparr>)"
proof -
  assume i: "index_inv k c"
  have "task_ok k (c\<lparr>tasks := ts\<rparr>) y = task_ok k c y" for ts y by (cases y) (auto simp: peersOf_def)
  then show ?thesis using i set_remove1_subset [of x "tasks c"] by (auto simp: index_inv_def)
qed

lemma doEvent_index:
  assumes inv: "index_inv k c" and k: "k < 2 ^ 63 - 2" and ev: "fixedMembership ev" "doEvent ev c = Some c'"
    and conf: "configured ps c" "configured ps c'"
  shows "index_inv (Suc k) c'"
proof -
  have peers: "peersOf c' = peersOf c" using conf by (simp add: peersOf_configured)
  show ?thesis
  proof (cases ev)
    case (Run x)
    let ?c = "c\<lparr>tasks := remove1 x (tasks c)\<rparr>"
    have x: "x \<in> set (tasks c)" and run: "runTask x ?c = Some c'" using ev Run by (auto split: if_splits)
    have "task_ok k ?c x" using inv x by (cases x) (auto simp: index_inv_def peersOf_def)
    moreover have "peersOf c' = peersOf ?c" using peers by (simp add: peersOf_def fun_eq_iff)
    ultimately show ?thesis using runTask_index [OF index_inv_taken [OF inv] _ k run] by blast
  next
    case (ElectionTimeout i)
    have "node_ok (Suc k) r'" if "startElection (node c i) = (t, r')" for t r'
      using node_ok_startElection [OF that, of "Suc k"] inv node_ok_mono [of k "node c i" "Suc k"]
      by (simp add: index_inv_def)
    then show ?thesis
      using ev ElectionTimeout by (intro index_inv_step [OF inv _ peers]) (auto split: prod.splits if_splits)
  next
    case (CommitTick i)
    have "node_ok (Suc k) (node c i)" using inv node_ok_mono [of k "node c i" "Suc k"] by (simp add: index_inv_def)
    then show ?thesis
      using ev CommitTick
      by (intro index_inv_step [OF inv _ peers]) (auto simp: Let_def split: prod.splits if_splits)
  next
    case (WaitTimeout i f)
    have "node_ok (Suc k) (node c i)" using inv node_ok_mono [of k "node c i" "Suc k"] by (simp add: index_inv_def)
    moreover have c': "c' = answer (afChannel f) (Some ErrCommitTimedOut)
        (setNode i ((node c i)\<lparr>futures := AList.delete (afIndex f) (futures (node c i))\<rparr>)
          (c\<lparr>tasks := remove1 (Wait i f) (tasks c)\<rparr>))"
      using ev WaitTimeout by (simp split: if_splits)
    ultimately have "node c' j = node c j \<or> node_ok (Suc k) (node c' j)" for j by simp
    moreover have "y \<in> set (tasks c)" if "y \<in> set (tasks c')" for y
      using that c' set_remove1_subset [of "Wait i f" "tasks c"] by (simp add: subset_iff)
    ultimately show ?thesis by (intro index_inv_step [OF inv _ peers]) simp_all
  next
    case (Lose x)
    then show ?thesis
      using ev set_remove1_subset [of x "tasks c"]
      by (intro index_inv_step [OF inv _ peers]) (auto split: prod.splits if_splits)
  next
    case (Heartbeat i)
    then show ?thesis
      using ev
      by (intro index_inv_step [OF inv _ peers]) (auto intro: replicateAll_ok split: prod.splits if_splits)
  next
    case (Client i ch cmd)
    then show ?thesis
      using ev by (intro index_inv_step [OF inv _ peers]) (auto split: if_splits apply_route.splits)
  qed (use ev in auto)
qed

lemma startCluster_index:
  "index_inv 0 (startCluster boot ps)"
proof -
  have "node_ok 0 (Start (NewRaftReplicator i addr b qs))" for i addr b qs
    by (auto simp: Start_def NewRaftReplicator_def Let_def node_ok_def log_ok_def dummy_entry_def)
  then show ?thesis by (simp add: index_inv_def startCluster_def)
qed

lemma reachable_index:
  assumes "reachable (startCluster boot ps) k c" "well_configured ps" "2 \<le> length ps" "k < 2 ^ 63 - 1"
  shows "index_inv k c"
  using assms
proof (induction rule: reachable.induct)
  case init
  then show ?case by (simp add: startCluster_index)
next
  case (step k c ev c')
  obtain G S where G: "election_inv ps k G S c"
    using reachable_election [OF step.hyps(1) refl step.prems(1,2)] step.prems(3) by auto
  obtain G' S' where "election_inv ps (Suc k) G' S' c'"
    using doEvent_election [OF G step.prems(1) _ step.hyps(2,3)] step.prems(3) by auto
  then show ?case
    using doEvent_index [OF step.IH _ step.hyps(2,3) election_invD(1) [OF G]] step.prems election_invD(1) by auto
qed

text \<open>Claim C28. Index integrity. In every state that a cluster of two or more correctly configured
  nodes reaches in fewer than \<open>2 ^ 63 - 1\<close> steps, in any order and without membership changes and
  restarts, the log of every node starts with the dummy entry's index and holds at each position the
  entry of that index, no log has more entries than steps were taken, and every commit index and
  every index to send next to a peer is within that bound.\<close>

theorem log_positions_hold:
  assumes "well_configured ps" "2 \<le> length ps" "reachable (startCluster boot ps) k c" "k < 2 ^ 63 - 1"
  shows "rlog (node c i) \<noteq> [] \<and> length (rlog (node c i)) \<le> Suc k
    \<and> (\<forall>n < length (rlog (node c i)). leIndex (rlog (node c i) ! n) = of_nat n)
    \<and> unat (commitIndex (node c i)) \<le> k
    \<and> (\<forall>p \<in> set (peers (node c i)). 0 < at0 (nextIndex (node c i)) (peerID p)
          \<and> unat (at0 (nextIndex (node c i)) (peerID p)) \<le> Suc k)"
  using reachable_index [OF assms(3,1,2,4)]
  by (simp add: index_inv_def node_ok_def log_ok_def word_less_nat_alt)

theorem log_positions_hold_witness:
  "rlog (node elected_cluster ''b'') \<noteq> [] \<and> leIndex (rlog (node elected_cluster ''b'') ! 0) = 0"
proof -
  have k: "(5 :: nat) < 2 ^ 63 - 1" by simp
  note L = log_positions_hold [OF _ _ elected_reachable [unfolded three_nodes_def] k, of "''b''"]
  have ne: "rlog (node elected_cluster ''b'') \<noteq> []"
    by (rule L [THEN conjunct1]) (simp_all add: well_configured_def)
  have "\<forall>n < length (rlog (node elected_cluster ''b'')). leIndex (rlog (node elected_cluster ''b'') ! n) = of_nat n"
    by (rule L [THEN conjunct2, THEN conjunct2, THEN conjunct1]) (simp_all add: well_configured_def)
  from this [rule_format, of 0] ne show ?thesis by simp
qed

text \<open>Claim C29. No handler panics: in every state that a correctly configured cluster of at least two
  peers reaches in fewer than \<open>2 ^ 63 - 1\<close> steps, with a fixed membership and without a restart, every
  task that is due can be run, except a client's wait for an index that is not applied yet. In particular
  the conversions of indexes to signed integers and the slice expressions stay in range.\<close>

theorem handlers_never_panic:
  assumes "well_configured ps" "2 \<le> length ps" "reachable (startCluster boot ps) k c" "k < 2 ^ 63 - 1"
    and "x \<in> set (tasks c)" "\<And>i f. x \<noteq> Wait i f"
  shows "doEvent (Run x) c \<noteq> None"
proof -
  let ?c = "c\<lparr>tasks := remove1 x (tasks c)\<rparr>"
  have inv: "index_inv k c" by (rule reachable_index [OF assms(3,1,2,4)])
  then have x: "task_ok k c x" using assms(5) by (simp add: index_inv_def)
  have node: "node_ok k (node c i)" for i using inv by (simp add: index_inv_def)
  obtain G S where "election_inv ps k G S c"
    using reachable_election [OF assms(3) refl assms(1,2)] assms(4) by auto
  then have s: "sound ps G S c x" using assms(5) by (simp add: election_inv_def)
  have "runTask x ?c \<noteq> None"
  proof (cases x)
    case (VoteReply a b t resp)
    then show ?thesis using s by (auto simp: Let_def split: prod.split option.split)
  next
    case (ReplicateFrom a b t n)
    then show ?thesis using x buildAppendEntries_ok [OF node _ _ assms(4), of n b t a] by auto
  next
    case (AppendCall a b req)
    then show ?thesis by (auto split: prod.split sum.split)
  next
    case (StoreAppend a b req resp)
    then show ?thesis using x storeAppendEntries_ok [OF node _ assms(4), of req resp b] by auto
  next
    case (CommitAt a t)
    then show ?thesis using advanceCommitIndex_ok [OF node assms(4), of t a] by auto
  qed (use assms(6) in \<open>auto simp: Let_def split: prod.split sum.split\<close>)
  then show ?thesis using assms(5) by simp
qed

theorem handlers_never_panic_witness: "doEvent (Run (Replicate ''a'' ''b'' 1)) elected_cluster \<noteq> None"
proof -
  have t: "Replicate ''a'' ''b'' 1 \<in> set (tasks elected_cluster)" by code_simp
  show ?thesis
    by (rule handlers_never_panic [OF _ _ elected_reachable [unfolded three_nodes_def] _ t])
      (simp_all add: well_configured_def)
qed

end
