(* ===== verification/RaftTraces.thy ===== *)
theory RaftTraces
  imports RaftElection
begin

text \<open>
  Runs of the cluster that break what Raft promises: each is a schedule of steps the code allows,
  evaluated on the model.
\<close>

section \<open>Schedules\<close>

text \<open>A step of a schedule is a fixed event, or the latest task of a kind between two nodes.\<close>

fun tag :: "task \<Rightarrow> string \<times> string \<times> string" where
  "tag (Campaign i _) = (''campaign'', i, [])"
| "tag (VoteCall i j _) = (''vote'', i, j)"
| "tag (VoteReply i j _ _) = (''voted'', i, j)"
| "tag (Promote i _) = (''promote'', i, [])"
| "tag (Replicate i j _) = (''replicate'', i, j)"
| "tag (ReplicateFrom i j _ _) = (''build'', i, j)"
| "tag (AppendCall i j _) = (''append'', i, j)"
| "tag (StoreAppend i j _ _) = (''store'', i, j)"
| "tag (AppendReply i j _ _) = (''appended'', i, j)"
| "tag (Queued i _ _) = (''queued'', i, [])"
| "tag (AppendLocal i _ _ _) = (''local'', i, [])"
| "tag (Announce i) = (''announce'', i, [])"
| "tag (Wait i _) = (''wait'', i, [])"
| "tag (CommitAt i _) = (''commit'', i, [])"

datatype move = Do event | Latest string string string

fun moveEvent :: "move \<Rightarrow> cluster \<Rightarrow> event option" where
  "moveEvent (Do ev) c = Some ev"
| "moveEvent (Latest k i j) c =
     (case rev (filter (\<lambda>t. tag t = (k, i, j)) (tasks c)) of [] \<Rightarrow> None | t # _ \<Rightarrow> Some (Run t))"

fun play :: "move list \<Rightarrow> cluster \<Rightarrow> (event list \<times> cluster) option" where
  "play [] c = Some ([], c)"
| "play (m # ms) c =
     (case moveEvent m c of
        None \<Rightarrow> None
      | Some ev \<Rightarrow>
          (case doEvent ev c of
             None \<Rightarrow> None
           | Some c1 \<Rightarrow> (case play ms c1 of None \<Rightarrow> None | Some (evs, c2) \<Rightarrow> Some (ev # evs, c2))))"

lemma play_run: "play ms c = Some (evs, c') \<Longrightarrow> run evs c = Some c'"
  by (induction ms arbitrary: c evs c') (auto split: option.splits)

definition elect :: "string \<Rightarrow> string list \<Rightarrow> move list" where
  "elect i js = Do (ElectionTimeout i) # Latest ''campaign'' i []
     # concat (map (\<lambda>j. [Latest ''vote'' i j, Latest ''voted'' i j]) js) @ [Latest ''promote'' i []]"

definition submit :: "string \<Rightarrow> nat \<Rightarrow> command \<Rightarrow> move list" where
  "submit i ch cmd = [Do (Client i ch cmd), Latest ''queued'' i [], Latest ''local'' i [], Latest ''announce'' i []]"

definition deliver :: "string \<Rightarrow> string \<Rightarrow> move list" where
  "deliver i j = [Latest ''replicate'' i j, Latest ''build'' i j, Latest ''append'' i j,
                  Latest ''store'' i j, Latest ''appended'' i j]"

definition commit :: "string \<Rightarrow> move list" where
  "commit i = [Do (CommitTick i), Latest ''commit'' i []]"

definition put :: "byte \<Rightarrow> command" where
  "put n = \<lparr>cmdType = n, cmdData = [], cmdTimestamp = 0, cmdRequestID = []\<rparr>"

section \<open>Two leaders in one term\<close>

text \<open>Claim C24. A node keeps its term and its vote in memory only. In a cluster of three, with a fixed
  membership and no crash but one restart, node b votes for a in term 1 and, after the restart, for c
  in the same term, and then a and c lead term 1 at the same time.\<close>

theorem restart_breaks_election_safety:
  "\<exists>evs1 evs2 c1 c2. run evs1 three_nodes = Some c1 \<and> run (Restart ''b'' # evs2) c1 = Some c2
     \<and> list_all fixedMembership (evs1 @ evs2)
     \<and> votedFor (node c1 ''b'') = ''a'' \<and> currentTerm (node c1 ''b'') = 1
     \<and> votedFor (node c2 ''b'') = ''c'' \<and> currentTerm (node c2 ''b'') = 1
     \<and> IsLeader (node c2 ''a'') \<and> currentTerm (node c2 ''a'') = 1
     \<and> IsLeader (node c2 ''c'') \<and> currentTerm (node c2 ''c'') = 1"
proof -
  have "case play (elect ''a'' [''b'']) three_nodes of None \<Rightarrow> False
    | Some (evs1, c1) \<Rightarrow> list_all fixedMembership evs1
        \<and> votedFor (node c1 ''b'') = ''a'' \<and> currentTerm (node c1 ''b'') = 1
        \<and> (case doEvent (Restart ''b'') c1 of None \<Rightarrow> False
           | Some d \<Rightarrow> (case play (elect ''c'' [''b'']) d of None \<Rightarrow> False
             | Some (evs2, c2) \<Rightarrow> list_all fixedMembership evs2
                 \<and> votedFor (node c2 ''b'') = ''c'' \<and> currentTerm (node c2 ''b'') = 1
                 \<and> IsLeader (node c2 ''a'') \<and> currentTerm (node c2 ''a'') = 1
                 \<and> IsLeader (node c2 ''c'') \<and> currentTerm (node c2 ''c'') = 1))"
    by code_simp
  then obtain evs1 c1 d evs2 c2 where p: "play (elect ''a'' [''b'']) three_nodes = Some (evs1, c1)"
      "doEvent (Restart ''b'') c1 = Some d" "play (elect ''c'' [''b'']) d = Some (evs2, c2)"
    and q: "list_all fixedMembership evs1" "list_all fixedMembership evs2"
      "votedFor (node c1 ''b'') = ''a''" "currentTerm (node c1 ''b'') = 1"
      "votedFor (node c2 ''b'') = ''c''" "currentTerm (node c2 ''b'') = 1"
      "IsLeader (node c2 ''a'')" "currentTerm (node c2 ''a'') = 1"
      "IsLeader (node c2 ''c'')" "currentTerm (node c2 ''c'') = 1"
    by (auto split: option.splits)
  have "run (Restart ''b'' # evs2) c1 = Some c2" using p(2) play_run [OF p(3)] by simp
  moreover have "list_all fixedMembership (evs1 @ evs2)" using q(1,2) by simp
  ultimately show ?thesis using play_run [OF p(1)] q(3-) by blast
qed

text \<open>\<^verbatim>\<open>RemoveServer\<close> changes the peer list of the leader alone. A leader that removed both
  peers later elects itself without them, while they still elect each other: without any crash, two
  of three nodes lead the same term.\<close>

theorem removal_breaks_election_safety:
  "\<exists>evs c. run evs three_nodes = Some c \<and> (\<forall>i. Restart i \<notin> set evs) \<and>
     IsLeader (node c ''a'') \<and> IsLeader (node c ''b'') \<and> currentTerm (node c ''a'') = currentTerm (node c ''b'')"
proof -
  define ms where "ms = elect ''a'' [''b''] @ [Latest ''replicate'' ''a'' ''b'', Latest ''build'' ''a'' ''b'',
      Do (RemovePeer ''a'' ''b''), Do (RemovePeer ''a'' ''c''), Do (ElectionTimeout ''c'')]
    @ elect ''c'' [''b''] @ [Latest ''append'' ''a'' ''b'', Latest ''appended'' ''a'' ''b'']
    @ elect ''a'' [] @ elect ''b'' [''c'']"
  have "case play ms three_nodes of None \<Rightarrow> False
    | Some (evs, c) \<Rightarrow> list_all (\<lambda>ev. case ev of Restart _ \<Rightarrow> False | _ \<Rightarrow> True) evs
        \<and> IsLeader (node c ''a'') \<and> IsLeader (node c ''b'')
        \<and> currentTerm (node c ''a'') = currentTerm (node c ''b'')"
    unfolding ms_def by code_simp
  then show ?thesis
    by (fastforce simp: list_all_iff dest: play_run split: option.splits)
qed

section \<open>Logs that disagree\<close>

definition five_nodes :: cluster where
  "five_nodes = startCluster (\<lambda>_. False)
     (map (\<lambda>i. \<lparr>peerID = i, peerAddr = i\<rparr>) [''a'', ''b'', ''c'', ''d'', ''e''])"

text \<open>\<^verbatim>\<open>processApply\<close> reads the term under one lock and appends under another. A leader
  that loses its term in between appends the entry with the old term to the log of its successor. A
  later leader takes the entry for its own one of that index and term: with five nodes, no crash and
  no membership change, two nodes apply different commands at the first index.\<close>

theorem late_append_diverges:
  "\<exists>evs c. run evs five_nodes = Some c \<and> list_all fixedMembership evs \<and>
     applied (node c ''a'') = [put 3, put 4, put 5] \<and> applied (node c ''b'') = [put 1, put 2, put 5]"
proof -
  define ms where "ms = elect ''a'' [''b'', ''c''] @ submit ''a'' 1 (put 1) @ submit ''a'' 2 (put 2)
    @ deliver ''a'' ''b''
    @ [Do (Client ''a'' 3 (put 4)), Latest ''queued'' ''a'' []]
    @ elect ''c'' [''d'', ''e''] @ submit ''c'' 4 (put 3) @ deliver ''c'' ''a''
    @ [Latest ''local'' ''a'' []]
    @ [Do (ElectionTimeout ''b'')] @ elect ''b'' [''a'', ''d''] @ submit ''b'' 5 (put 5)
    @ deliver ''b'' ''a'' @ [Do (Heartbeat ''b'')] @ deliver ''b'' ''d'' @ deliver ''b'' ''d''
    @ commit ''b'' @ [Do (Heartbeat ''b'')] @ deliver ''b'' ''a''"
  have "case play ms five_nodes of None \<Rightarrow> False
    | Some (evs, c) \<Rightarrow> list_all fixedMembership evs \<and>
        applied (node c ''a'') = [put 3, put 4, put 5] \<and> applied (node c ''b'') = [put 1, put 2, put 5]"
    unfolding ms_def by code_simp
  then show ?thesis by (auto dest: play_run split: option.splits)
qed

text \<open>\<^verbatim>\<open>handleAppendEntriesRequest\<close> checks the term under one lock and writes the log
  under another. A request that passed the check before a new leader was elected may write after the
  new leader's entries were stored and acknowledged: with three nodes, no crash and no membership
  change, an entry that was committed, applied and answered to the client is overwritten, and the
  cluster commits and applies a different one in its place.\<close>

theorem late_store_loses_committed_entry:
  "\<exists>evs c. run evs three_nodes = Some c \<and> list_all fixedMembership evs \<and> (2, None) \<in> set (replies c) \<and>
     applied (node c ''b'') = [put 2] \<and> applied (node c ''c'') = [put 1, put 3]"
proof -
  define ms where "ms = elect ''a'' [''b''] @ submit ''a'' 1 (put 1)
    @ [Latest ''replicate'' ''a'' ''c'', Latest ''build'' ''a'' ''c'', Latest ''append'' ''a'' ''c'']
    @ elect ''b'' [''c''] @ submit ''b'' 2 (put 2) @ deliver ''b'' ''c'' @ commit ''b''
    @ [Latest ''store'' ''a'' ''c'']
    @ elect ''c'' [''a''] @ submit ''c'' 3 (put 3) @ deliver ''c'' ''a'' @ commit ''c''"
  have "case play ms three_nodes of None \<Rightarrow> False
    | Some (evs, c) \<Rightarrow> list_all fixedMembership evs \<and> (2, None) \<in> set (replies c) \<and>
        applied (node c ''b'') = [put 2] \<and> applied (node c ''c'') = [put 1, put 3]"
    unfolding ms_def by code_simp
  then show ?thesis by (auto dest: play_run split: option.splits)
qed

section \<open>An answer for a lost command\<close>

text \<open>\<^verbatim>\<open>waitForCommit\<close> compares the index of its future with the applied index, and not the
  term. With three nodes and every handler run without interruption, a client is told that its
  command was applied although no node's log contains it any more and no node has applied it.\<close>

theorem lost_command_acknowledged:
  "\<exists>evs c. run evs three_nodes = Some c \<and> list_all fixedMembership evs \<and> (1, None) \<in> set (replies c) \<and>
     put 1 \<notin> (\<Union>i \<in> set (members c). set (applied (node c i))) \<and>
     Some (put 1) \<notin> (\<Union>i \<in> set (members c). leCommand ` set (rlog (node c i)))"
proof -
  define ms where "ms = elect ''a'' [''b''] @ submit ''a'' 1 (put 1)
    @ [Do (ElectionTimeout ''b'')] @ elect ''b'' [''c''] @ submit ''b'' 2 (put 2) @ deliver ''b'' ''c'' @ commit ''b''
    @ [Do (Heartbeat ''b'')] @ deliver ''b'' ''a'' @ [Latest ''wait'' ''a'' []]"
  have "case play ms three_nodes of None \<Rightarrow> False
    | Some (evs, c) \<Rightarrow> list_all fixedMembership evs \<and> (1, None) \<in> set (replies c) \<and>
        list_all (\<lambda>i. list_all (\<lambda>x. x \<noteq> put 1) (applied (node c i))
           \<and> list_all (\<lambda>e. leCommand e \<noteq> Some (put 1)) (rlog (node c i))) (members c)"
    unfolding ms_def by code_simp
  then obtain evs c where "run evs three_nodes = Some c" "list_all fixedMembership evs" "(1, None) \<in> set (replies c)"
      "list_all (\<lambda>i. list_all (\<lambda>x. x \<noteq> put 1) (applied (node c i))
           \<and> list_all (\<lambda>e. leCommand e \<noteq> Some (put 1)) (rlog (node c i))) (members c)"
    by (auto dest: play_run split: option.splits)
  then show ?thesis by (intro exI [of _ evs] exI [of _ c]) (fastforce simp: list_all_iff)
qed

end
