(* ===== verification/RaftMatching.thy ===== *)
theory RaftMatching
  imports RaftIndex RaftTraces
begin

text \<open>
  Log matching. RaftTraces shows that two handlers, split over two locks, break it; here the
  handlers run without interruption, and it holds.
\<close>

section \<open>Uninterrupted handlers\<close>

text \<open>The second halves of the handlers that read the term under one lock and write the log under
  another.\<close>

fun secondHalf :: "task \<Rightarrow> bool" where
  "secondHalf (StoreAppend _ _ _ _) = True"
| "secondHalf (AppendLocal _ _ _ _) = True"
| "secondHalf (Announce _) = True"
| "secondHalf _ = False"

text \<open>A second half that is due is the next thing to run.\<close>

definition uninterrupted :: "event \<Rightarrow> cluster \<Rightarrow> bool" where
  "uninterrupted ev c \<longleftrightarrow> list_all (\<lambda>x. secondHalf x \<longrightarrow> ev = Run x) (tasks c)"

inductive serial :: "cluster \<Rightarrow> nat \<Rightarrow> cluster \<Rightarrow> bool" for c0 where
  init: "serial c0 0 c0"
| step: "serial c0 k c \<Longrightarrow> fixedMembership ev \<Longrightarrow> uninterrupted ev c \<Longrightarrow> doEvent ev c = Some c'
    \<Longrightarrow> serial c0 (Suc k) c'"

lemma serial_reachable: "serial c0 k c \<Longrightarrow> reachable c0 k c"
  by (induction rule: serial.induct) (auto intro: reachable.intros)

section \<open>The tree of all logs\<close>

text \<open>A history: for an index and a term the log up to the entry that a leader of the term created
  at the index. A log is grown in it when every prefix is the one recorded under its last entry.\<close>

type_synonym log_tree = "nat \<times> u64 \<Rightarrow> log_entry list option"

definition grown :: "log_tree \<Rightarrow> log_entry list \<Rightarrow> bool" where
  "grown T l \<longleftrightarrow> l \<noteq> [] \<and> l ! 0 = dummy_entry \<and> (\<forall>n < length l. T (n, leTerm (l ! n)) = Some (take (Suc n) l))"

lemma grown_agree:
  assumes "grown T l" "grown T p" "n < length l" "n < length p" "leTerm (l ! n) = leTerm (p ! n)"
  shows "take (Suc n) l = take (Suc n) p"
proof -
  have "T (n, leTerm (l ! n)) = Some (take (Suc n) l)" "T (n, leTerm (p ! n)) = Some (take (Suc n) p)"
    using assms(1-4) by (simp_all add: grown_def)
  then show ?thesis using assms(5) by simp
qed

lemma grown_agree_nth:
  assumes "grown T l" "grown T p" "n < length l" "n < length p" "leTerm (l ! n) = leTerm (p ! n)" "m \<le> n"
  shows "l ! m = p ! m"
proof -
  have "l ! m = take (Suc n) l ! m" using assms(3,6) by simp
  also have "\<dots> = take (Suc n) p ! m" using grown_agree [OF assms(1-5)] by simp
  also have "\<dots> = p ! m" using assms(4,6) by simp
  finally show ?thesis .
qed

lemma grown_extend:
  assumes "grown T l" "T (length l, leTerm e) = None"
  shows "grown (T((length l, leTerm e) := Some (l @ [e]))) (l @ [e])"
  using assms by (auto simp: grown_def nth_append less_Suc_eq)

lemma grown_keep:
  assumes "grown T l" "T x = None"
  shows "grown (T(x := y)) l"
  using assms by (auto simp: grown_def)

text \<open>Storing entries of one grown log on top of an entry that another grown log shares gives one of
  the two logs.\<close>

lemma merge_grown:
  assumes l: "grown T l" and p: "grown T p" and n: "n < length l" "n < length p"
    and e: "leTerm (l ! n) = leTerm (p ! n)" and es: "es = drop (Suc n) p"
  shows "mergeLog (Suc n) es l = l \<or> mergeLog (Suc n) es l = p"
proof (cases "agreeing (Suc n) es l = length es")
  case True
  then show ?thesis by (simp add: mergeLog_def)
next
  case False
  let ?k = "agreeing (Suc n) es l"
  have k: "Suc n + ?k \<le> length l" "Suc n + ?k \<le> length p"
    using agreeing_le [of "Suc n" es l] n es by auto
  have "leTerm (l ! (n + ?k)) = leTerm (p ! (n + ?k))"
  proof (cases ?k)
    case (Suc j)
    then have "leTerm (l ! (Suc n + j)) = leTerm (es ! j)" using agreeing_nth [of j "Suc n" es l] by simp
    then show ?thesis using Suc es k by (simp add: add.commute)
  qed (use e in simp)
  then have "take (Suc n + ?k) l = take (Suc n + ?k) p"
    using grown_agree [OF l p, of "n + ?k"] k by simp
  then have "mergeLog (Suc n) es l = take (Suc n + ?k) p @ drop (Suc n + ?k) p"
    using False es by (simp add: mergeLog_def Let_def add.commute)
  then show ?thesis by simp
qed

text \<open>What a request carries is a part of a grown log.\<close>

definition carried :: "log_tree \<Rightarrow> append_request \<Rightarrow> bool" where
  "carried T req \<longleftrightarrow> aqEntries req = [] \<or>
     (\<exists>p. grown T p \<and> unat (aqPrevLogIndex req) < length p \<and> aqEntries req = drop (Suc (unat (aqPrevLogIndex req))) p
       \<and> (aqPrevLogIndex req = 0 \<or> leTerm (p ! unat (aqPrevLogIndex req)) = aqPrevLogTerm req))"

lemma carried_keep: "carried T req \<Longrightarrow> T x = None \<Longrightarrow> carried (T(x := y)) req"
  unfolding carried_def using grown_keep by blast

lemma carried_codec [simp]: "carried T (req\<lparr>aqCodecVersion := v\<rparr>) = carried T req"
  by (simp add: carried_def)

lemma buildAppendEntries_carried:
  assumes "buildAppendEntries p t n r = Some req" "grown T (rlog r)" "0 < unat n" "unat n < 2 ^ 63"
  shows "carried T req"
proof -
  have n0: "n \<noteq> 0" using assms(3) by auto
  have prev: "unat (n - 1) = unat n - 1" by (rule unat_minus_one [OF n0])
  have "unat (n - 1) < 2 ^ 63" using assms(4) prev by simp
  note b = sint_bounds [OF assms(4)] sint_bounds [OF this]
  show ?thesis
  proof (cases "unat n < length (rlog r)")
    case False
    then show ?thesis using assms(1) b by (auto simp: buildAppendEntries_def Let_def carried_def split: if_splits)
  next
    case True
    then have req: "aqPrevLogIndex req = n - 1" "aqEntries req = drop (unat n) (rlog r)"
      using assms(1) b prev by (auto simp: buildAppendEntries_def Let_def split: if_splits)
    have "n - 1 = 0 \<or> leTerm (rlog r ! unat (n - 1)) = aqPrevLogTerm req"
      using assms(1) b prev True by (auto simp: buildAppendEntries_def Let_def word_gt_0 split: if_splits)
    then show ?thesis
      using assms(2,3) True prev req by (auto simp: carried_def intro!: exI [of _ "rlog r"])
  qed
qed

lemma storeAppendEntries_grown:
  assumes "storeAppendEntries req resp r = Some (resp', r')" "grown T (rlog r)" "carried T req"
    and "request_ok k req" "node_ok k r" "k < 2 ^ 63 - 1"
  shows "grown T (rlog r')"
proof -
  let ?prev = "aqPrevLogIndex req" and ?l = "rlog r"
  have p: "unat ?prev < 2 ^ 63" using assms(4,6) by (simp add: request_ok_def)
  note b = sint_bounds [OF p]
  show ?thesis
  proof (cases "unat ?prev < length ?l \<and> (?prev = 0 \<or> leTerm (?l ! unat ?prev) = aqPrevLogTerm req)")
    case False
    have "?prev \<noteq> 0" using False assms(2) by (auto simp: grown_def)
    then show ?thesis
      using assms(1,2) False b by (auto simp: storeAppendEntries_def Let_def word_gt_0 split: if_splits)
  next
    case True
    let ?m = "mergeLog (Suc (unat ?prev)) (aqEntries req) ?l"
    have "length ?l < 2 ^ 63" using assms(5,6) by (simp add: node_ok_def log_ok_def)
    then have app: "appendEntries (?prev + 1) (aqEntries req) ?l = Some ?m"
      using appendEntries_merge [of "?prev + 1" ?l "aqEntries req"] True assms(4,6) unat_small_suc [OF p]
      by (simp add: request_ok_def)
    then obtain fs where "applyCommitted False (r\<lparr>rlog := ?m, commitIndex := followCommit req (commitIndex r)\<rparr>) = Some (fs, r')"
      using assms(1) True b by (auto simp: storeAppendEntries_def Let_def split: if_splits option.splits)
    then have r': "rlog r' = ?m" by (simp add: applyCommitted_rlog)
    have "grown T ?m"
    proof (cases "aqEntries req = []")
      case True
      then have "?m = ?l" by (simp add: mergeLog_def agreeing_def)
      then show ?thesis using assms(2) by simp
    next
      case False
      then obtain q where q: "grown T q" "unat ?prev < length q" "aqEntries req = drop (Suc (unat ?prev)) q"
        "?prev = 0 \<or> leTerm (q ! unat ?prev) = aqPrevLogTerm req"
        using assms(3) by (auto simp: carried_def)
      have "leTerm (?l ! unat ?prev) = leTerm (q ! unat ?prev)"
        using True q(1,4) assms(2) by (auto simp: grown_def)
      then show ?thesis
        using merge_grown [OF assms(2) q(1) conjunct1 [OF True] q(2) _ q(3)] assms(2) q(1) by auto
    qed
    then show ?thesis using r' by simp
  qed
qed

section \<open>Steps that leave the logs alone\<close>

definition steady :: "raft \<Rightarrow> raft \<Rightarrow> bool" where
  "steady r r' \<longleftrightarrow> rlog r' = rlog r \<and> currentTerm r \<le> currentTerm r' \<and>
     (state r = StateLeader \<and> currentTerm r' = currentTerm r \<longrightarrow> state r' = StateLeader)"

lemma steady_refl [simp]: "steady r r"
  by (simp add: steady_def)

lemma steady_stepDown: "currentTerm r < t \<Longrightarrow> steady r (stepDown t r)"
  by (auto simp: steady_def stepDown_def)

lemma steady_startElection:
  "startElection r = (t, r') \<Longrightarrow> state r \<noteq> StateLeader \<Longrightarrow> unat (currentTerm r) < 2 ^ 64 - 1 \<Longrightarrow> steady r r'"
  by (auto simp: startElection_def Let_def steady_def word_le_nat_alt unat_word_ariths)

lemma steady_voteRequest: "handleVoteRequest req r = (resp, r') \<Longrightarrow> steady r r'"
  by (auto simp: handleVoteRequest_def Let_def steady_def stepDown_def split: if_splits)

lemma steady_voteResponse: "handleVoteResponse t n v resp r = (r', v', won) \<Longrightarrow> steady r r'"
  by (auto simp: handleVoteResponse_def Let_def steady_stepDown split: if_splits)

lemma steady_becomeLeader:
  assumes "becomeLeader t r = (r', won)"
  shows "steady r r'"
proof (cases "currentTerm r \<noteq> t \<or> state r = StateLeader")
  case True
  then show ?thesis using assms by (auto simp: becomeLeader_def)
next
  case False
  then have "rlog r' = rlog r" using assms by (auto simp: becomeLeader_def)
  then show ?thesis using becomeLeader_term [OF assms] False by (simp add: steady_def)
qed

lemma steady_receive:
  assumes "receiveAppendEntries req r = (ans, r')" "\<not> (state r = StateLeader \<and> currentTerm r = aqTerm req)"
  shows "steady r r'"
  using assms by (auto simp: receiveAppendEntries_def Let_def steady_def split: if_splits)

lemma steady_appendResponse: "steady r (handleAppendEntriesResponse p t resp r)"
  by (simp add: handleAppendEntriesResponse_def Let_def steady_stepDown) (simp add: steady_def)

lemma findCommit_rlog [simp]: "rlog (findCommit t n r) = rlog r"
  by (induction t n r rule: findCommit.induct) (subst findCommit.simps, simp)

lemma steady_advance:
  assumes "advanceCommitIndex t r = Some (fs, r')"
  shows "steady r r'"
  using advanceCommitIndex_voting [OF assms] assms
  by (auto simp: advanceCommitIndex_def steady_def voting_def dest!: applyCommitted_rlog)

section \<open>The invariant\<close>

abbreviation elected :: "peer_config list \<Rightarrow> votes \<Rightarrow> u64 \<Rightarrow> string \<Rightarrow> bool" where
  "elected ps G t a \<equiv> majority (map peerID ps) (voters G t a)"

fun matched :: "peer_config list \<Rightarrow> votes \<Rightarrow> log_tree \<Rightarrow> cluster \<Rightarrow> task \<Rightarrow> bool" where
  "matched ps G T c (Replicate i j t) = (elected ps G t i \<and> i \<noteq> j)"
| "matched ps G T c (ReplicateFrom i j t n) = (elected ps G t i \<and> i \<noteq> j)"
| "matched ps G T c (AppendCall i j req) = (elected ps G (aqTerm req) i \<and> i \<noteq> j \<and> carried T req)"
| "matched ps G T c (StoreAppend i j req resp) = (carried T req \<and> state (node c j) \<noteq> StateLeader)"
| "matched ps G T c (AppendLocal i t ch cmd) = (state (node c i) = StateLeader \<and> currentTerm (node c i) = t)"
| "matched ps G T c (Announce i) = (state (node c i) = StateLeader)"
| "matched ps G T c _ = True"

text \<open>Entries of a term were created by the node elected in it, which leads as long as it keeps the
  term, and still has them then.\<close>

definition created :: "peer_config list \<Rightarrow> votes \<Rightarrow> log_tree \<Rightarrow> cluster \<Rightarrow> bool" where
  "created ps G T c \<longleftrightarrow> (\<forall>n t p. T (n, t) = Some p \<longrightarrow> n = 0 \<or> (\<exists>a. elected ps G t a
     \<and> t \<le> currentTerm (node c a)
     \<and> (t = currentTerm (node c a) \<longrightarrow> state (node c a) = StateLeader \<and> n < length (rlog (node c a)))))"

definition tree_inv :: "peer_config list \<Rightarrow> votes \<Rightarrow> log_tree \<Rightarrow> cluster \<Rightarrow> bool" where
  "tree_inv ps G T c \<longleftrightarrow> (\<forall>i. grown T (rlog (node c i))) \<and> created ps G T c
     \<and> (\<forall>x \<in> set (tasks c). matched ps G T c x) \<and> length (filter secondHalf (tasks c)) \<le> 1"

lemma matched_mono:
  "matched ps G T c x \<Longrightarrow> \<not> secondHalf x \<Longrightarrow> G \<subseteq> H \<Longrightarrow> matched ps H T c' x"
  by (cases x) (auto intro: mj.stays_elected)

lemma created_mono:
  assumes "created ps G T c" "G \<subseteq> H"
    and "\<And>i. currentTerm (node c i) \<le> currentTerm (node c' i)"
    and "\<And>i. state (node c i) = StateLeader \<Longrightarrow> currentTerm (node c' i) = currentTerm (node c i) \<Longrightarrow>
      state (node c' i) = StateLeader \<and> length (rlog (node c i)) \<le> length (rlog (node c' i))"
  shows "created ps H T c'"
  unfolding created_def
proof (intro allI impI)
  fix n t p
  assume "T (n, t) = Some p"
  then consider "n = 0" | a where "elected ps G t a" "t \<le> currentTerm (node c a)"
    "t = currentTerm (node c a) \<Longrightarrow> state (node c a) = StateLeader \<and> n < length (rlog (node c a))"
    using assms(1) unfolding created_def by blast
  then show "n = 0 \<or> (\<exists>a. elected ps H t a \<and> t \<le> currentTerm (node c' a) \<and>
     (t = currentTerm (node c' a) \<longrightarrow> state (node c' a) = StateLeader \<and> n < length (rlog (node c' a))))"
  proof cases
    case (2 a)
    have "state (node c' a) = StateLeader \<and> n < length (rlog (node c' a))" if "t = currentTerm (node c' a)"
    proof -
      have "t = currentTerm (node c a)" using that 2(2) assms(3) [of a] by simp
      then show ?thesis using 2(3) assms(4) [of a] that by fastforce
    qed
    then show ?thesis
      using 2(1,2) assms(2) order_trans [OF _ assms(3)] by (blast intro: mj.stays_elected)
  qed simp
qed

text \<open>A step from a state where no second half is left.\<close>

lemma tree_step:
  assumes inv: "tree_inv ps G T c" and sub: "G \<subseteq> H"
    and none: "\<And>x. x \<in> set ts \<Longrightarrow> x \<in> set (tasks c) \<and> \<not> secondHalf x"
    and ts: "tasks c' = ts @ new" "length (filter secondHalf new) \<le> 1"
    and new: "\<And>x. x \<in> set new \<Longrightarrow> matched ps H T c' x"
    and node: "\<And>i. steady (node c i) (node c' i)
      \<or> state (node c i) \<noteq> StateLeader \<and> currentTerm (node c i) \<le> currentTerm (node c' i) \<and> grown T (rlog (node c' i))"
  shows "tree_inv ps H T c'"
proof -
  have "grown T (rlog (node c' i))" for i
    using node [of i] inv by (auto simp: steady_def tree_inv_def)
  moreover have "created ps H T c'"
  proof (rule created_mono [OF _ sub])
    show "created ps G T c" using inv by (simp add: tree_inv_def)
    show "currentTerm (node c i) \<le> currentTerm (node c' i)" for i
      using node [of i] by (auto simp: steady_def)
    show "state (node c' i) = StateLeader \<and> length (rlog (node c i)) \<le> length (rlog (node c' i))"
      if "state (node c i) = StateLeader" "currentTerm (node c' i) = currentTerm (node c i)" for i
      using node [of i] that by (auto simp: steady_def)
  qed
  moreover have "matched ps H T c' x" if "x \<in> set (tasks c')" for x
  proof (cases "x \<in> set ts")
    case True
    then have "matched ps G T c x" "\<not> secondHalf x" using none inv by (auto simp: tree_inv_def)
    then show ?thesis using sub by (rule matched_mono)
  next
    case False
    then show ?thesis using that ts(1) new by simp
  qed
  moreover have "filter secondHalf ts = []" using none by (auto simp: filter_empty_conv)
  then have "length (filter secondHalf (tasks c')) \<le> 1" using ts by simp
  ultimately show ?thesis by (simp add: tree_inv_def)
qed

lemma no_second_half:
  assumes "length (filter secondHalf (tasks c)) \<le> 1" "uninterrupted ev c"
  shows "ev = Run x \<Longrightarrow> y \<in> set (remove1 x (tasks c)) \<Longrightarrow> y \<in> set (tasks c) \<and> \<not> secondHalf y"
    and "(\<And>x. ev \<noteq> Run x) \<Longrightarrow> y \<in> set (tasks c) \<Longrightarrow> \<not> secondHalf y"
proof -
  show "ev = Run x \<Longrightarrow> y \<in> set (remove1 x (tasks c)) \<Longrightarrow> y \<in> set (tasks c) \<and> \<not> secondHalf y"
  proof
    assume ev: "ev = Run x" and y: "y \<in> set (remove1 x (tasks c))"
    show m: "y \<in> set (tasks c)" using y set_remove1_subset by fastforce
    show "\<not> secondHalf y"
    proof
      assume s: "secondHalf y"
      then have "y = x" using assms(2) ev m by (auto simp: uninterrupted_def list_all_iff)
      then obtain as bs where "tasks c = as @ y # bs" "y \<in> set (as @ bs)"
        using y split_list_first [OF m] by (auto simp: remove1_append)
      then show False using s assms(1) by (auto simp: filter_empty_conv)
    qed
  qed
  show "(\<And>x. ev \<noteq> Run x) \<Longrightarrow> y \<in> set (tasks c) \<Longrightarrow> \<not> secondHalf y"
    using assms(2) by (auto simp: uninterrupted_def list_all_iff)
qed

section \<open>Every uninterrupted step\<close>

lemma leads_elected: "election_inv ps k G S c \<Longrightarrow> state (node c i) = StateLeader \<Longrightarrow> elected ps G (currentTerm (node c i)) i"
  by (simp add: election_inv_def leads_def)

lemma not_own_peer: "election_inv ps k G S c \<Longrightarrow> p \<in> set (peers (node c i)) \<Longrightarrow> i \<noteq> peerID p"
  by (auto simp: election_inv_def configured_def)

lemma replicateAll_matched:
  assumes "x \<in> set (replicateAll i t r)" "elected ps G t i" "\<And>p. p \<in> set (peers r) \<Longrightarrow> i \<noteq> peerID p"
  shows "matched ps G T c x" "\<not> secondHalf x"
  using assms by (auto simp: replicateAll_def)

lemma filter_replicateAll [simp]: "filter secondHalf (replicateAll i t r) = []"
  by (simp add: replicateAll_def filter_empty_conv)

text \<open>Appending a command: the tree gets the new log under the new entry.\<close>

lemma append_local_step:
  assumes inv: "tree_inv ps G T c" and e: "election_inv ps k G S c" and sub: "G \<subseteq> H"
    and m: "state (node c i) = StateLeader" "currentTerm (node c i) = t"
    and app: "appendCommand t ch cmd (node c i) = (f, r, done)"
    and none: "\<And>x. x \<in> set ts \<Longrightarrow> x \<in> set (tasks c) \<and> \<not> secondHalf x"
    and c': "node c' = (node c)(i := r)" "tasks c' = ts \<or> tasks c' = ts @ [Wait i f, Announce i]"
  shows "\<exists>U. tree_inv ps H U c'"
proof -
  let ?l = "rlog (node c i)"
  let ?e = "\<lparr>leIndex = lastLogIndex (node c i) + 1, leTerm = t, leCommand = Some cmd\<rparr>"
  let ?U = "T((length ?l, t) := Some (?l @ [?e]))"
  have r: "rlog r = ?l @ [?e]" using app by (auto simp: appendCommand_def Let_def split: if_splits)
  have v: "state r = StateLeader" "currentTerm r = t"
    using appendCommand_voting [OF app] m by (simp_all add: voting_def)
  have g: "grown T (rlog (node c j))" for j using inv by (simp add: tree_inv_def)
  have el: "elected ps G t i" using leads_elected [OF e m(1)] m(2) by simp
  have one: "a = i" if "elected ps G t a" for a
    using mj.one_elected [OF _ that el] e by (simp add: election_inv_def granted_def)
  have cr: "created ps G T c" using inv by (simp add: tree_inv_def)
  have fresh: "T (length ?l, t) = None"
  proof (rule ccontr)
    assume "T (length ?l, t) \<noteq> None"
    then obtain p where "T (length ?l, t) = Some p" by auto
    then have "length ?l = 0 \<or> (\<exists>a. elected ps G t a \<and>
        (t = currentTerm (node c a) \<longrightarrow> length ?l < length (rlog (node c a))))"
      using cr unfolding created_def by blast
    then show False using one m(2) g [of i] by (auto simp: grown_def)
  qed
  have "grown ?U (rlog (node c' j))" for j
  proof (cases "j = i")
    case True
    then show ?thesis using grown_extend [OF g, of i ?e] fresh r c'(1) by simp
  qed (use grown_keep [OF g] fresh c'(1) in simp)
  moreover have "created ps H ?U c'"
  proof -
    have "created ps H T c'"
      by (rule created_mono [OF cr sub]) (use c'(1) m r v in auto)
    moreover have "elected ps H t i" using el sub by (rule mj.stays_elected)
    ultimately show ?thesis
      unfolding created_def using c'(1) v r by (auto intro!: exI [of _ i])
  qed
  moreover have "matched ps H ?U c' x" if "x \<in> set (tasks c')" for x
  proof (cases "x \<in> set ts")
    case True
    then have "matched ps G T c x" "\<not> secondHalf x" using none inv by (auto simp: tree_inv_def)
    then show ?thesis using carried_keep [of T _ "(length ?l, t)"] fresh sub
      by (cases x) (auto intro: mj.stays_elected)
  next
    case False
    then show ?thesis using that c' v by auto
  qed
  moreover have "filter secondHalf ts = []" using none by (auto simp: filter_empty_conv)
  then have "length (filter secondHalf (tasks c')) \<le> 1" using c'(2) by auto
  ultimately show ?thesis by (auto simp: tree_inv_def)
qed

lemma runTask_tree:
  assumes inv: "tree_inv ps G T c" and e: "election_inv ps k G S c" and ix: "index_inv k c" and k: "k < 2 ^ 63 - 1"
    and sub: "G \<subseteq> H" and x: "x \<in> set (tasks c)" and run: "runTask x (c\<lparr>tasks := ts\<rparr>) = Some c'"
    and none: "\<And>y. y \<in> set ts \<Longrightarrow> y \<in> set (tasks c) \<and> \<not> secondHalf y"
  shows "\<exists>U. tree_inv ps H U c'"
proof -
  have mx: "matched ps G T c x" using inv x by (simp add: tree_inv_def)
  have g: "grown T (rlog (node c j))" for j using inv by (simp add: tree_inv_def)
  have nk: "node_ok k (node c j)" for j using ix by (simp add: index_inv_def)
  have tk: "task_ok k c x" using ix x by (simp add: index_inv_def)
  have plain: ?thesis if "tasks c' = ts @ new" "\<And>i. steady (node c i) (node c' i)"
    "\<And>y. y \<in> set new \<Longrightarrow> matched ps H T c' y" "length (filter secondHalf new) \<le> 1" for new
  proof -
    have "tree_inv ps H T c'"
      by (rule tree_step [OF inv sub none that(1,4) that(3)]) (use that(2) in auto)
    then show ?thesis by blast
  qed
  show ?thesis
  proof (cases x)
    case (Campaign i t)
    then show ?thesis
      using run by (intro plain [of "drop (length ts) (tasks c')"]) (auto simp: Let_def filter_map comp_def split: if_splits)
  next
    case (VoteCall i j req)
    then show ?thesis
      using run
      by (intro plain [of "drop (length ts) (tasks c')"])
        (auto simp: HandleRaftVote_def dest!: steady_voteRequest split: prod.splits)
  next
    case (VoteReply i j t resp)
    then show ?thesis
      using run
      by (intro plain [of "drop (length ts) (tasks c')"])
        (auto simp: Let_def dest!: steady_voteResponse split: option.splits prod.splits if_splits)
  next
    case (Promote i t)
    obtain r won where b: "becomeLeader t (node c i) = (r, won)"
      by (cases "becomeLeader t (node c i)") auto
    have "elected ps G t i" using e x Promote by (auto simp: election_inv_def)
    then have el: "elected ps H t i" using sub by (rule mj.stays_elected)
    have p: "i \<noteq> peerID p" if "won" "p \<in> set (peers r)" for p
      using that becomeLeader_voting [OF b] not_own_peer [OF e, of p i] by (simp add: voting_def)
    show ?thesis
    proof (cases won)
      case True
      then show ?thesis
        using run b Promote steady_becomeLeader [OF b] replicateAll_matched(1) [OF _ el p]
        by (intro plain [of "replicateAll i t r"]) auto
    next
      case False
      then show ?thesis using run b Promote by (intro plain [of "[]"]) auto
    qed
  next
    case (Replicate i j t)
    then show ?thesis
      using run mx sub by (intro plain [of "[ReplicateFrom i j t (at0 (nextIndex (node c i)) j)]"])
        (auto intro: mj.stays_elected)
  next
    case (ReplicateFrom i j t n)
    obtain req where req: "buildAppendEntries j t n (node c i) = Some req" and c': "c' = spawn [AppendCall i j req] (c\<lparr>tasks := ts\<rparr>)"
      using run ReplicateFrom by auto
    have n: "0 < unat n" "unat n < 2 ^ 63" using tk ReplicateFrom k by auto
    have "carried T req" by (rule buildAppendEntries_carried [OF req g n])
    then show ?thesis
      using c' mx ReplicateFrom buildAppendEntries_term [OF req] sub
      by (intro plain [of "[AppendCall i j req]"]) (auto intro: mj.stays_elected)
  next
    case (AppendCall i j req)
    let ?q = "req\<lparr>aqCodecVersion := 0\<rparr>"
    obtain ans r where recv: "receiveAppendEntries ?q (node c j) = (ans, r)"
      by (cases "receiveAppendEntries ?q (node c j)") auto
    have "\<not> (state (node c j) = StateLeader \<and> currentTerm (node c j) = aqTerm ?q)"
    proof
      assume "state (node c j) = StateLeader \<and> currentTerm (node c j) = aqTerm ?q"
      then have "elected ps G (aqTerm req) j" using leads_elected [OF e, of j] by simp
      then show False
        using mj.one_elected [of G "map peerID ps" "aqTerm req" i j] mx AppendCall e by (auto simp: election_inv_def granted_def)
    qed
    note st = steady_receive [OF recv this]
    show ?thesis
    proof (cases ans)
      case (Inl resp)
      then show ?thesis
        using run recv AppendCall st
        by (intro plain [of "[AppendReply i j (aqTerm req) (resp\<lparr>arCodecVersion := 0\<rparr>)]"]) auto
    next
      case (Inr resp)
      then have "state r = StateFollower" using recv by (auto simp: receiveAppendEntries_def Let_def split: if_splits)
      then show ?thesis
        using run recv AppendCall st Inr mx by (intro plain [of "[StoreAppend i j ?q resp]"]) auto
    qed
  next
    case (StoreAppend i j req resp)
    obtain resp' r where st: "storeAppendEntries req resp (node c j) = Some (resp', r)"
      and c': "c' = spawn [AppendReply i j (aqTerm req) (resp'\<lparr>arCodecVersion := 0\<rparr>)] (setNode j r (c\<lparr>tasks := ts\<rparr>))"
      using run StoreAppend by auto
    have "grown T (rlog r)"
      using storeAppendEntries_grown [OF st g _ _ nk k] mx tk StoreAppend by simp
    moreover have "currentTerm r = currentTerm (node c j)"
      using storeAppendEntries_voting [OF st] by (simp add: voting_def)
    ultimately have "tree_inv ps H T c'"
      by (intro tree_step [OF inv sub none, where
            new = "[AppendReply i j (aqTerm req) (resp'\<lparr>arCodecVersion := 0\<rparr>)]"])
        (use c' mx StoreAppend in auto)
    then show ?thesis by blast
  next
    case (AppendReply i j t resp)
    then show ?thesis using run steady_appendResponse by (intro plain [of "[]"]) auto
  next
    case (Queued i ch cmd)
    then show ?thesis
      using run
      by (intro plain [of "drop (length ts) (tasks c')"]) (auto simp: acceptApply_def split: sum.splits if_splits)
  next
    case (AppendLocal i t ch cmd)
    obtain f r d where app: "appendCommand t ch cmd (node c i) = (f, r, d)"
      by (cases "appendCommand t ch cmd (node c i)") auto
    show ?thesis
      by (rule append_local_step [OF inv e sub _ _ app none, where c' = c'])
        (use run app AppendLocal mx in \<open>auto split: if_splits\<close>)
  next
    case (Announce i)
    have "elected ps H (currentTerm (node c i)) i"
      using leads_elected [OF e, of i] mx Announce sub by (auto intro: mj.stays_elected)
    then show ?thesis
      using run Announce replicateAll_matched(1) [OF _ _ not_own_peer [OF e, of _ i]]
      by (intro plain [of "replicateAll i (currentTerm (node c i)) (node c i)"]) auto
  next
    case (Wait i f)
    then show ?thesis using run by (intro plain [of "[]"]) (auto split: if_splits)
  next
    case (CommitAt i t)
    then show ?thesis using run steady_advance by (intro plain [of "[]"]) auto
  qed
qed

lemma doEvent_tree:
  assumes inv: "tree_inv ps G T c" and e: "election_inv ps k G S c" and ix: "index_inv k c" and k: "k < 2 ^ 63 - 1"
    and sub: "G \<subseteq> H" and ev: "uninterrupted ev c" "fixedMembership ev" "doEvent ev c = Some c'"
  shows "\<exists>U. tree_inv ps H U c'"
proof -
  have one: "length (filter secondHalf (tasks c)) \<le> 1" using inv by (simp add: tree_inv_def)
  note n1 = no_second_half(1) [OF one ev(1)] and n2 = no_second_half(2) [OF one ev(1)]
  have plain: ?thesis if "\<And>x. ev \<noteq> Run x" "set ts \<subseteq> set (tasks c)" "tasks c' = ts @ new"
    "\<And>i. steady (node c i) (node c' i)" "\<And>y. y \<in> set new \<Longrightarrow> matched ps H T c' y"
    "length (filter secondHalf new) \<le> 1" for ts new
  proof -
    have none: "y \<in> set (tasks c) \<and> \<not> secondHalf y" if "y \<in> set ts" for y
      using n2 \<open>\<And>x. ev \<noteq> Run x\<close> \<open>set ts \<subseteq> set (tasks c)\<close> that by blast
    have "tree_inv ps H T c'"
      by (rule tree_step [OF inv sub none that(3,6) that(5)]) (use that(4) in auto)
    then show ?thesis by blast
  qed
  show ?thesis
  proof (cases ev)
    case (Run x)
    then have x: "x \<in> set (tasks c)" and run: "runTask x (c\<lparr>tasks := remove1 x (tasks c)\<rparr>) = Some c'"
      using ev by (auto split: if_splits)
    show ?thesis by (rule runTask_tree [OF inv e ix k sub x run n1 [OF Run]])
  next
    case (ElectionTimeout i)
    obtain t r where s: "startElection (node c i) = (t, r)" by (cases "startElection (node c i)") auto
    then have c': "c' = spawn [Campaign i t] (setNode i r c)" "state (node c i) \<noteq> StateLeader"
      using ev ElectionTimeout by (auto split: if_splits)
    have "unat (currentTerm (node c i)) < 2 ^ 64 - 1"
      using e k terms_upto_node [of k c i] by (simp add: election_inv_def)
    then show ?thesis
      using steady_startElection [OF s c'(2)] c' ElectionTimeout
      by (intro plain [of "tasks c" "[Campaign i t]"]) auto
  next
    case (Heartbeat i)
    then have l: "state (node c i) = StateLeader"
      and c': "c' = spawn (replicateAll i (currentTerm (node c i)) (node c i)) c"
      using ev by (auto split: if_splits)
    have "elected ps H (currentTerm (node c i)) i"
      using leads_elected [OF e l] sub by (rule mj.stays_elected)
    then show ?thesis
      using c' Heartbeat replicateAll_matched(1) [OF _ _ not_own_peer [OF e, of _ i]]
      by (intro plain [of "tasks c" "replicateAll i (currentTerm (node c i)) (node c i)"]) auto
  next
    case (Client i ch cmd)
    then show ?thesis
      using ev by (intro plain [of "tasks c" "drop (length (tasks c)) (tasks c')"])
        (auto split: if_splits apply_route.splits)
  next
    case (CommitTick i)
    have "steady r (r\<lparr>commitCh := False\<rparr>)" for r by (simp add: steady_def)
    then show ?thesis
      using ev CommitTick by (intro plain [of "tasks c" "drop (length (tasks c)) (tasks c')"])
        (auto simp: Let_def split: if_splits)
  next
    case (WaitTimeout i f)
    have "steady r (r\<lparr>futures := fs\<rparr>)" for r fs by (simp add: steady_def)
    moreover have "c' = answer (afChannel f) (Some ErrCommitTimedOut)
        (setNode i ((node c i)\<lparr>futures := AList.delete (afIndex f) (futures (node c i))\<rparr>)
          (c\<lparr>tasks := remove1 (Wait i f) (tasks c)\<rparr>))"
      using ev WaitTimeout by (simp split: if_splits)
    ultimately show ?thesis
      using WaitTimeout set_remove1_subset [of "Wait i f" "tasks c"]
      by (intro plain [of "remove1 (Wait i f) (tasks c)" "[]"]) simp_all
  next
    case (Lose x)
    then have "c' = c\<lparr>tasks := remove1 x (tasks c)\<rparr>" using ev by (simp split: if_splits)
    then show ?thesis
      using Lose set_remove1_subset [of x "tasks c"]
      by (intro plain [of "remove1 x (tasks c)" "[]"]) simp_all
  qed (use ev in auto)
qed

definition root_tree :: log_tree where
  "root_tree = (\<lambda>x. if x = (0, 0) then Some [dummy_entry] else None)"

lemma startCluster_tree: "tree_inv ps {} root_tree (startCluster boot ps)"
proof -
  have "rlog (Start (NewRaftReplicator i a b qs)) = [dummy_entry]" for i a b qs
    by (simp add: Start_def NewRaftReplicator_def Let_def)
  then show ?thesis
    by (auto simp: tree_inv_def startCluster_def grown_def created_def root_tree_def dummy_entry_def)
qed

lemma serial_tree:
  assumes "serial (startCluster boot ps) k c" "well_configured ps" "2 \<le> length ps" "k < 2 ^ 63 - 1"
  shows "\<exists>G S T. election_inv ps k G S c \<and> tree_inv ps G T c"
  using assms
proof (induction rule: serial.induct)
  case init
  then show ?case using startCluster_election startCluster_tree by blast
next
  case (step k c ev c')
  then obtain G S T where G: "election_inv ps k G S c" and T: "tree_inv ps G T c" by auto
  obtain G' S' where G': "G \<subseteq> G'" "election_inv ps (Suc k) G' S' c'"
    using doEvent_election [OF G step.prems(1) _ step.hyps(2,4)] step.prems(3) by auto
  have "index_inv k c"
    using reachable_index [OF serial_reachable [OF step.hyps(1)]] step.prems by simp
  then obtain U where "tree_inv ps G' U c'"
    using doEvent_tree [OF T G _ _ G'(1) step.hyps(3,2,4)] step.prems(3) by auto
  then show ?case using G'(2) by blast
qed


fun runSerial :: "event list \<Rightarrow> cluster \<Rightarrow> cluster option" where
  "runSerial [] c = Some c"
| "runSerial (ev # evs) c =
     (if fixedMembership ev \<and> uninterrupted ev c then
        (case doEvent ev c of None \<Rightarrow> None | Some c1 \<Rightarrow> runSerial evs c1)
      else None)"

lemma runSerial_serial: "serial c0 k c \<Longrightarrow> runSerial evs c = Some c' \<Longrightarrow> serial c0 (k + length evs) c'"
proof (induction evs arbitrary: k c)
  case (Cons ev evs)
  then show ?case
    using Cons.IH [of "Suc k"] by (auto intro: serial.step split: option.splits if_splits)
qed simp

text \<open>A run in which the leader stores two commands and sends them to a follower.\<close>

definition stored_moves :: "move list" where
  "stored_moves = elect ''a'' [''b''] @ submit ''a'' 1 (put 1) @ submit ''a'' 2 (put 2) @ deliver ''a'' ''b''"

definition stored_cluster :: cluster where
  "stored_cluster = snd (the (play stored_moves three_nodes))"

definition stored_events :: "event list" where
  "stored_events = fst (the (play stored_moves three_nodes))"


end
