(* ===== verification/GoFloat.thy ===== *)
theory GoFloat
  imports Complex_Main GoBase "HOL-Library.Multiset"
begin

text \<open>
  The part of \<^verbatim>\<open>float64\<close> the schedulers use, on finite values: a float is the rational it denotes,
  and an operation is the exact one followed by rounding to 53 significant bits, ties to even. The
  scores computed here stay far below the largest float, so infinities and NaNs do not occur, and
  subnormal numbers do not either.

  Also here: signed arithmetic that wraps at 64 bits, decimal printing, and stable sorting by a
  comparison function, \<^verbatim>\<open>sort.SliceStable\<close>.
\<close>

section \<open>Rounding\<close>

text \<open>Round a rational to an integer, ties to even.\<close>

definition round_even :: "rat \<Rightarrow> int" where
  "round_even x =
     (let f = \<lfloor>x\<rfloor>; r = x - of_int f
      in if r < 1 / 2 then f else if r > 1 / 2 then f + 1 else if even f then f else f + 1)"

function bit_length :: "int \<Rightarrow> int" where
  "bit_length n = (if n \<le> 0 then 0 else 1 + bit_length (n div 2))"
  by pat_completeness auto

termination
  by (relation "measure nat") auto

declare bit_length.simps [simp del]

text \<open>A float with 53 significant bits at or next to a positive fraction \<open>n / d\<close>: the quotient is
  scaled so that its integer part has 53 or 54 bits, then once more when it has 54.\<close>

definition pow2 :: "int \<Rightarrow> rat" where
  "pow2 k = (if k \<ge> 0 then 2 ^ nat k else 1 / 2 ^ nat (- k))"

definition round53 :: "rat \<Rightarrow> rat" where
  "round53 x =
     (if x = 0 then 0
      else let (n, d) = quotient_of \<bar>x\<bar>;
               k = 53 - (bit_length n - bit_length d);
               k' = (if \<bar>x\<bar> * pow2 k \<ge> 2 ^ 53 then k - 1 else k);
               m = round_even (\<bar>x\<bar> * pow2 k')
           in (if x < 0 then - 1 else 1) * (of_int m / pow2 k'))"

definition float_of_int :: "int \<Rightarrow> rat" where "float_of_int n = round53 (of_int n)"
definition float_add :: "rat \<Rightarrow> rat \<Rightarrow> rat" where "float_add x y = round53 (x + y)"
definition float_mult :: "rat \<Rightarrow> rat \<Rightarrow> rat" where "float_mult x y = round53 (x * y)"
definition float_sub :: "rat \<Rightarrow> rat \<Rightarrow> rat" where "float_sub x y = round53 (x - y)"
definition float_div :: "rat \<Rightarrow> rat \<Rightarrow> rat" where "float_div x y = round53 (x / y)"

text \<open>The conversion of a float to an integer truncates.\<close>

definition trunc_float :: "rat \<Rightarrow> int" where
  "trunc_float x = (if x \<ge> 0 then \<lfloor>x\<rfloor> else - \<lfloor>- x\<rfloor>)"

text \<open>\<^verbatim>\<open>Duration.Seconds\<close>: whole seconds plus the rest, each converted.\<close>

definition seconds :: "int \<Rightarrow> rat" where
  "seconds d =
     float_add (float_of_int (sgn d * (\<bar>d\<bar> div 10 ^ 9)))
               (float_div (float_of_int (sgn d * (\<bar>d\<bar> mod 10 ^ 9))) (10 ^ 9))"

text \<open>Rules that compute with literals.\<close>

named_theorems float_compute \<open>evaluating float operations on literals\<close>

lemma quotient_of_numerals [float_compute]:
  "quotient_of (numeral a / numeral b) = Rat.normalize (numeral a, numeral b)"
  "quotient_of (1 / numeral b) = Rat.normalize (1, numeral b)"
  by (metis Fract_of_int_quotient of_int_numeral of_int_1 quotient_of_Fract)+

lemma round_even_div:
  assumes "0 < d"
  shows "round_even (of_int n / of_int d) =
    (let q = n div d; r = n mod d
     in if 2 * r < d then q else if 2 * r > d then q + 1 else if even q then q else q + 1)"
proof -
  let ?x = "of_int n / of_int d :: rat" and ?r = "n mod d"
  have f: "\<lfloor>?x\<rfloor> = n div d" by (rule floor_divide_of_int_eq)
  have "of_int n = of_int (n div d) * of_int d + (of_int ?r :: rat)"
    by (metis div_mult_mod_eq of_int_add of_int_mult)
  then have r: "?x - of_int (n div d) = of_int ?r / of_int d"
    using assms by (simp add: add_divide_distrib)
  have "of_int ?r / of_int d < (1 / 2 :: rat) \<longleftrightarrow> 2 * of_int ?r < (of_int d :: rat)"
    "of_int ?r / of_int d > (1 / 2 :: rat) \<longleftrightarrow> 2 * of_int ?r > (of_int d :: rat)"
    using assms by (simp_all add: divide_simps mult.commute)
  then have half: "of_int ?r / of_int d < (1 / 2 :: rat) \<longleftrightarrow> 2 * ?r < d"
    "of_int ?r / of_int d > (1 / 2 :: rat) \<longleftrightarrow> 2 * ?r > d"
    by (metis of_int_less_iff of_int_mult of_int_numeral)+
  show ?thesis unfolding round_even_def Let_def f r half ..
qed

lemma round_even_numerals [float_compute]:
  "round_even (numeral a / numeral b) =
    (let n = numeral a; d = numeral b; q = n div d; r = n mod d
     in if 2 * r < d then q else if 2 * r > d then q + 1 else if even q then q else q + 1)"
  using round_even_div [of "numeral b" "numeral a"] by (simp add: Let_def)

lemma round_even_int [float_compute]: "round_even (numeral a) = numeral a" "round_even 1 = 1" "round_even 0 = 0"
  using round_even_div [of 1 "numeral a"] round_even_div [of 1 1] round_even_div [of 1 0]
  by (simp_all add: Let_def)

lemma gcd_numerals [float_compute]:
  "gcd (numeral a) (numeral b :: int) = gcd (numeral b) (numeral a mod numeral b)"
  by (rule gcd_red_int)

lemmas float_literals = float_compute round53_def Rat.normalize_def bit_length.simps pow2_def Let_def

section \<open>Signed 64-bit results\<close>

text \<open>An exact result reduced to an \<^verbatim>\<open>int64\<close>.\<close>

definition int64 :: "int \<Rightarrow> int" where
  "int64 n = sint (word_of_int n :: u64)"

text \<open>\<^verbatim>\<open>d << n\<close> on a signed 64-bit value.\<close>

definition shl64 :: "int \<Rightarrow> nat \<Rightarrow> int" where
  "shl64 d n = sint (push_bit n (word_of_int d :: u64))"

lemma int64_id: "- (2 ^ 63) \<le> n \<Longrightarrow> n < 2 ^ 63 \<Longrightarrow> int64 n = n"
  by (simp add: int64_def signed_of_int signed_take_bit_int_eq_self)

text \<open>\<^verbatim>\<open>Time.Sub\<close> gives a duration, clamped to the \<^verbatim>\<open>int64\<close> range.\<close>

definition time_sub :: "go_time \<Rightarrow> go_time \<Rightarrow> int" where
  "time_sub t u = max (- (2 ^ 63)) (min (2 ^ 63 - 1) (t - u))"

section \<open>Decimal printing\<close>

fun decimal :: "nat \<Rightarrow> string" where
  "decimal n = (if n < 10 then [char_of (48 + n)] else decimal (n div 10) @ [char_of (48 + n mod 10)])"

declare decimal.simps [simp del]

section \<open>Stable sorting\<close>

text \<open>\<^verbatim>\<open>sort.SliceStable\<close> with a comparison: an element moves before the elements it is less
  than, and stays behind those it ties with.\<close>

fun insert_stable :: "('a \<Rightarrow> 'a \<Rightarrow> bool) \<Rightarrow> 'a \<Rightarrow> 'a list \<Rightarrow> 'a list" where
  "insert_stable before x [] = [x]"
| "insert_stable before x (y # ys) = (if before y x then y # insert_stable before x ys else x # y # ys)"

definition sliceStable :: "('a \<Rightarrow> 'a \<Rightarrow> bool) \<Rightarrow> 'a list \<Rightarrow> 'a list" where
  "sliceStable before xs = foldr (insert_stable before) xs []"

lemma set_insert_stable [simp]: "set (insert_stable before x xs) = insert x (set xs)"
  by (induction xs) auto

lemma length_insert_stable [simp]: "length (insert_stable before x xs) = Suc (length xs)"
  by (induction xs) auto

lemma mset_insert_stable [simp]: "mset (insert_stable before x xs) = add_mset x (mset xs)"
  by (induction xs) auto

lemma mset_sliceStable [simp]: "mset (sliceStable before xs) = mset xs"
  unfolding sliceStable_def by (induction xs) auto

lemma set_sliceStable [simp]: "set (sliceStable before xs) = set xs"
  by (metis mset_sliceStable set_mset_mset)

lemma length_sliceStable [simp]: "length (sliceStable before xs) = length xs"
  by (metis mset_sliceStable size_mset)

lemma sorted_insert_stable:
  assumes "\<And>a b c. before a b \<Longrightarrow> before b c \<Longrightarrow> before a c" "\<And>a b. before a b \<Longrightarrow> \<not> before b a"
    "\<And>a b c. \<not> before a b \<Longrightarrow> \<not> before b c \<Longrightarrow> \<not> before a c"
    "sorted_wrt (\<lambda>a b. \<not> before b a) xs"
  shows "sorted_wrt (\<lambda>a b. \<not> before b a) (insert_stable before x xs)"
  using assms(4)
proof (induction xs)
  case Nil
  then show ?case by simp
next
  case (Cons y ys)
  show ?case
  proof (cases "before y x")
    case True
    then show ?thesis using Cons assms(2) by auto
  next
    case False
    then have "\<not> before z x" if "z \<in> set ys" for z
      using Cons.prems that assms(3) [of z y x] by auto
    then show ?thesis using False Cons.prems by auto
  qed
qed

lemma sorted_sliceStable:
  assumes "\<And>a b c. before a b \<Longrightarrow> before b c \<Longrightarrow> before a c" "\<And>a b. before a b \<Longrightarrow> \<not> before b a"
    "\<And>a b c. \<not> before a b \<Longrightarrow> \<not> before b c \<Longrightarrow> \<not> before a c"
  shows "sorted_wrt (\<lambda>a b. \<not> before b a) (sliceStable before xs)"
proof -
  have "sorted_wrt (\<lambda>a b. \<not> before b a) (foldr (insert_stable before) xs [])"
  proof (induction xs)
    case (Cons a xs)
    have "sorted_wrt (\<lambda>a b. \<not> before b a) (insert_stable before a (foldr (insert_stable before) xs []))"
      by (rule sorted_insert_stable [OF assms Cons.IH])
    then show ?case by simp
  qed simp
  then show ?thesis by (simp add: sliceStable_def)
qed

end
