(* ===== verification/LcReaders.thy ===== *)
theory LcReaders
  imports MvccVersion GoFloat
begin

text \<open>
  The lifecycle manager's configuration (\<^verbatim>\<open>pkg/storage/lifecycle/config.go\<close>), the registry of
  snapshot readers (\<^verbatim>\<open>reader_registry.go\<close>) and the prune floor computed from bounds
  (\<^verbatim>\<open>watermark.go\<close>).

  Durations and byte counts are \<^verbatim>\<open>int64\<close> values; they are written as \<open>int\<close> here and in the other
  Lc theories, with the wrap written out where a shift or a product can leave the range. A clock
  reading is an argument. A Go map is an association list with distinct keys; where the code ranges
  over a map, the order of the list stands for the order the runtime chooses.
\<close>

section \<open>Configuration\<close>

record namespace_budget =
  MaxBytesPerCycle :: int
  MinSliceFraction :: rat

record lifecycle_config =
  lcEnabled :: bool
  CycleInterval :: int
  lcMaxVersionsPerKey :: int
  lcTTL :: int
  MaxChainHardCap :: int
  HighEnterBytes :: int
  HighExitBytes :: int
  CriticalEnterBytes :: int
  CriticalExitBytes :: int
  PressureEnterWindow :: int
  PressureExitWindow :: int
  MaxSnapshotLifetime :: int
  MaxCPUShare :: rat
  MaxIOBudgetBytesPerInterval :: int
  MaxRuntimePerCycle :: int
  FenceRetryInitialDelay :: int
  FenceRetryMaxDelay :: int
  FenceRetryPerKeyLimit :: int
  FenceRetryCrossRunLimit :: int
  FenceRetryCooldown :: int
  DebtSampleFraction :: rat
  FullScanEveryNCycles :: int
  NamespaceBudgets :: "(string \<times> namespace_budget) list"
  DebtGrowthSlopeThreshold :: rat

definition second :: int where "second = 10 ^ 9"
definition gib :: int where "gib = 1024 * 1024 * 1024"

definition DefaultLifecycleConfig :: lifecycle_config where
  "DefaultLifecycleConfig =
     \<lparr>lcEnabled = False, CycleInterval = 30 * second, lcMaxVersionsPerKey = 100, lcTTL = 0,
      MaxChainHardCap = 1000, HighEnterBytes = 5 * gib, HighExitBytes = 4 * gib,
      CriticalEnterBytes = 20 * gib, CriticalExitBytes = 16 * gib,
      PressureEnterWindow = 30 * second, PressureExitWindow = 120 * second,
      MaxSnapshotLifetime = 3600 * second, MaxCPUShare = 1 / 4,
      MaxIOBudgetBytesPerInterval = 512 * 1024 * 1024, MaxRuntimePerCycle = 5 * second,
      FenceRetryInitialDelay = 10 ^ 8, FenceRetryMaxDelay = 5 * second, FenceRetryPerKeyLimit = 3,
      FenceRetryCrossRunLimit = 20, FenceRetryCooldown = 60 * second,
      DebtSampleFraction = float_div 5 100, FullScanEveryNCycles = 20, NamespaceBudgets = [],
      DebtGrowthSlopeThreshold = 2 ^ 20\<rparr>"

section \<open>Snapshot readers\<close>

record snapshot_reader_info =
  ReaderID :: string
  SnapshotVersion :: mvcc_version
  StartTime :: go_time
  Namespace :: string

record active_reader =
  arInfo :: snapshot_reader_info
  arRegistered :: go_time

record reader_registry =
  regReaders :: "(string \<times> active_reader) list"
  regSeq :: u64

definition NewReaderRegistry :: reader_registry where
  "NewReaderRegistry = \<lparr>regReaders = [], regSeq = 0\<rparr>"

text \<open>The callback \<^verbatim>\<open>Register\<close> returns is \<open>deregister\<close> at the returned identifier.\<close>

definition Register :: "go_time \<Rightarrow> snapshot_reader_info \<Rightarrow> reader_registry \<Rightarrow> string \<times> reader_registry" where
  "Register now info r =
     (let (ident, r1) =
            (if ReaderID info = []
             then (''reader-'' @ decimal (unat (regSeq r + 1)), r\<lparr>regSeq := regSeq r + 1\<rparr>)
             else (ReaderID info, r))
      in (ident, r1\<lparr>regReaders := AList.update ident
            \<lparr>arInfo = info\<lparr>ReaderID := ident\<rparr>, arRegistered = now\<rparr> (regReaders r1)\<rparr>))"

definition deregister :: "string \<Rightarrow> reader_registry \<Rightarrow> reader_registry" where
  "deregister ident r = r\<lparr>regReaders := AList.delete ident (regReaders r)\<rparr>"

definition ActiveCount :: "reader_registry \<Rightarrow> int" where
  "ActiveCount r = int (length (regReaders r))"

definition readerInfos :: "reader_registry \<Rightarrow> snapshot_reader_info list" where
  "readerInfos r = map (arInfo \<circ> snd) (regReaders r)"

definition OldestReaderVersion :: "reader_registry \<Rightarrow> mvcc_version \<times> bool" where
  "OldestReaderVersion r =
     fold (\<lambda>info (oldest, have).
        if \<not> have \<or> Compare (SnapshotVersion info) oldest < 0 then (SnapshotVersion info, True)
        else (oldest, have)) (readerInfos r) (zero_version, False)"

definition keepOldest :: "snapshot_reader_info \<Rightarrow> (string \<times> mvcc_version) list \<Rightarrow> (string \<times> mvcc_version) list" where
  "keepOldest info out =
     (case map_of out (Namespace info) of
        Some existing \<Rightarrow>
          if Compare (SnapshotVersion info) existing < 0
          then AList.update (Namespace info) (SnapshotVersion info) out else out
      | None \<Rightarrow> AList.update (Namespace info) (SnapshotVersion info) out)"

definition OldestReaderVersionsByNamespace :: "reader_registry \<Rightarrow> (string \<times> mvcc_version) list" where
  "OldestReaderVersionsByNamespace r = fold keepOldest (readerInfos r) []"

definition OldestReaderAge :: "go_time \<Rightarrow> reader_registry \<Rightarrow> int" where
  "OldestReaderAge now r =
     fold (\<lambda>info maxAge. if time_sub now (StartTime info) > maxAge then time_sub now (StartTime info) else maxAge)
       (readerInfos r) 0"

definition Snapshot :: "reader_registry \<Rightarrow> snapshot_reader_info list" where
  "Snapshot r = readerInfos r"

definition ReadersOlderThan :: "go_time \<Rightarrow> int \<Rightarrow> reader_registry \<Rightarrow> snapshot_reader_info list" where
  "ReadersOlderThan now age r = filter (\<lambda>info. time_sub now (StartTime info) > age) (readerInfos r)"

section \<open>The safe floor\<close>

definition minVersion :: "mvcc_version list \<Rightarrow> mvcc_version" where
  "minVersion versions =
     fold (\<lambda>version best. if IsZero version then best
                          else if Compare version best < 0 then version else best)
       versions maxMVCCVersion"

definition monotonicMax :: "mvcc_version \<Rightarrow> mvcc_version \<Rightarrow> mvcc_version" where
  "monotonicMax a b =
     (if IsZero a then b else if IsZero b then a else if Compare a b \<ge> 0 then a else b)"

definition ComputeSafeFloor ::
    "mvcc_version \<Rightarrow> mvcc_version \<Rightarrow> mvcc_version \<Rightarrow> mvcc_version \<Rightarrow> mvcc_version" where
  "ComputeSafeFloor oldestReader ttlBound maxVersionsBound previousFloor =
     monotonicMax previousFloor (minVersion [oldestReader, ttlBound, maxVersionsBound])"

definition TTLBoundVersion :: "go_time \<Rightarrow> int \<Rightarrow> mvcc_version" where
  "TTLBoundVersion now ttl = (if ttl \<le> 0 then maxMVCCVersion else MVCCVersion (now - ttl) (NOT 0))"

text \<open>With versions whose times fit \<^verbatim>\<open>UnixNano\<close>, the floor is the least of the bounds, raised to
  the previous floor.\<close>

lemma minVersion_norm:
  assumes "\<forall>v \<in> set vs. norm_version v"
  shows "minVersion vs = Min (set (maxMVCCVersion # vs))"
proof -
  have "norm_version b \<Longrightarrow> \<forall>v \<in> set vs. norm_version v \<Longrightarrow>
      fold (\<lambda>version best. if IsZero version then best
        else if Compare version best < 0 then version else best) vs b = fold min vs b" for b
  proof (induction vs arbitrary: b)
    case (Cons v vs)
    have "(if IsZero v then b else if Compare v b < 0 then v else b) = min v b"
      using Cons.prems norm_version_not_zero by (auto simp: Compare_less min_def)
    moreover have "norm_version (min v b)"
      using Cons.prems by (simp add: min_def)
    ultimately show ?case
      using Cons.IH [of "min v b"] Cons.prems by simp
  qed simp
  from this [of maxMVCCVersion] show ?thesis
    using assms unfolding minVersion_def Min.set_eq_fold by simp
qed

lemma monotonicMax_norm: "norm_version a \<Longrightarrow> norm_version b \<Longrightarrow> monotonicMax a b = max a b"
  using linear [of a b]
  by (auto simp: monotonicMax_def norm_version_not_zero Compare_ge_iff max_def intro: antisym)

lemma ComputeSafeFloor_norm:
  assumes "norm_version r" "norm_version t" "norm_version m" "norm_version p"
  shows "ComputeSafeFloor r t m p = max p (min r (min t m))"
proof -
  have "minVersion [r, t, m] = min r (min t m)"
    using minVersion_norm [of "[r, t, m]"] le_maxMVCCVersion [OF assms(3)] assms
    by (simp add: min.absorb2 min_le_iff_disj)
  moreover have "norm_version (min r (min t m))"
    using assms by (simp add: min_def)
  ultimately show ?thesis
    using assms(4) by (simp add: ComputeSafeFloor_def monotonicMax_norm)
qed

end
