(* ===== verification/LcPlan.thy ===== *)
theory LcPlan
  imports MvccHistory LcReaders
begin

text \<open>
  The prune planner (\<^verbatim>\<open>pkg/storage/lifecycle/planner.go\<close>): the storage interface the lifecycle
  manager works against, and the plan it computes from heads and version chains.

  The interface is a record of functions on a state of the storage. A logical key is a prefix byte
  and the 8-byte number of the row; \<open>numID\<close> is the dictionary that gives the number, and a key is
  named by its row. An iteration that is cancelled ends with an error, as one that fails does.
\<close>

section \<open>The storage interface\<close>

record version_info =
  viVersion :: mvcc_version
  viTombstoned :: bool
  viSizeBytes :: int

record 's lifecycle_storage =
  IterateMVCCHeads :: "'s \<Rightarrow> storage_error + (ent \<times> mvcc_head) list"
  IterateMVCCVersions :: "'s \<Rightarrow> ent \<Rightarrow> storage_error + version_info list"
  DeleteMVCCVersion :: "ent \<Rightarrow> mvcc_version \<Rightarrow> 's \<Rightarrow> storage_error option \<times> 's"
  WriteMVCCHead :: "ent \<Rightarrow> mvcc_head \<Rightarrow> 's \<Rightarrow> storage_error option \<times> 's"
  ReadMVCCHead :: "'s \<Rightarrow> ent \<Rightarrow> storage_error + mvcc_head"

section \<open>Keys\<close>

definition logicalKey :: "(ent \<Rightarrow> u64) \<Rightarrow> ent \<Rightarrow> byte list" where
  "logicalKey numID x =
     (case x of N _ \<Rightarrow> prefixMVCCNode | E _ \<Rightarrow> prefixMVCCEdge) # encodeNumID (numID x)"

definition bytes_string :: "byte list \<Rightarrow> string" where
  "bytes_string bs = map (\<lambda>b. char_of (unat b)) bs"

text \<open>\<^verbatim>\<open>plannerNamespaceFromLogicalKey\<close> and \<^verbatim>\<open>namespaceFromLogicalKey\<close>: what stands between the
  prefix byte and the first colon.\<close>

definition namespaceFromLogicalKey :: "byte list \<Rightarrow> string" where
  "namespaceFromLogicalKey key =
     (if length key \<le> 1 then [] else takeWhile (\<lambda>c. c \<noteq> CHR '':'') (bytes_string (drop 1 key)))"

definition plannerNamespaceFromLogicalKey :: "byte list \<Rightarrow> string" where
  "plannerNamespaceFromLogicalKey key = namespaceFromLogicalKey key"

section \<open>Plans\<close>

record prune_plan_entry =
  peCreatedAt :: go_time
  peLogicalKey :: ent
  peHeadVersion :: mvcc_version
  peFloorVersion :: mvcc_version
  peNewFloorVersion :: mvcc_version
  peVersionsToDelete :: "mvcc_version list"
  peDebtBytes :: int
  peTombstoneDepth :: nat

record prune_plan =
  ppCreatedAt :: go_time
  ppKeysScanned :: nat
  ppEntries :: "prune_plan_entry list"

record prune_planner =
  plConfig :: lifecycle_config
  plCycleCount :: int

definition NewPrunePlanner :: "lifecycle_config \<Rightarrow> prune_planner" where
  "NewPrunePlanner config = \<lparr>plConfig = config, plCycleCount = 0\<rparr>"

text \<open>\<^verbatim>\<open>fnv.New32a\<close> of the standard library.\<close>

definition fnv32a :: "byte list \<Rightarrow> 32 word" where
  "fnv32a bs = fold (\<lambda>b h. (h XOR ucast b) * 16777619) bs 2166136261"

definition shouldScanKey :: "prune_planner \<Rightarrow> byte list \<Rightarrow> bool" where
  "shouldScanKey p key =
     (let c = plConfig p
      in if FullScanEveryNCycles c > 0 \<and> plCycleCount p mod FullScanEveryNCycles c = 0 then True
         else if DebtSampleFraction c \<le> 0 \<or> DebtSampleFraction c \<ge> 1 then True
         else float_div (float_of_int (uint (fnv32a key))) (float_of_int (2 ^ 32 - 1))
                \<le> DebtSampleFraction c)"

definition keepHistorical :: "lifecycle_config \<Rightarrow> int" where
  "keepHistorical c =
     (let keep = max 0 (lcMaxVersionsPerKey c)
      in if MaxChainHardCap c > 0 then
           let cap = max 0 (MaxChainHardCap c - 1)
           in if keep = 0 \<or> keep > cap then cap else keep
         else keep)"

definition maxVersionsBoundVersion :: "lifecycle_config \<Rightarrow> version_info list \<Rightarrow> mvcc_version" where
  "maxVersionsBoundVersion c versions =
     (let idx = int (length versions) - keepHistorical c - 1
      in viVersion (versions ! nat (max 0 idx)))"

text \<open>The body of the callback for one head, from its version chain on.\<close>

definition planKey :: "lifecycle_config \<Rightarrow> mvcc_version \<Rightarrow> mvcc_version \<Rightarrow> go_time \<Rightarrow> ent \<Rightarrow> mvcc_head
    \<Rightarrow> version_info list \<Rightarrow> prune_plan_entry option" where
  "planKey c ttlBound nsFloor created x head versions =
     (if versions = [] then None
      else
        let newFloor = ComputeSafeFloor nsFloor ttlBound (maxVersionsBoundVersion c versions)
                         (FloorVersion head);
            toDelete = filter (\<lambda>v. Compare v newFloor < 0 \<and> Compare v (Version head) \<noteq> 0)
                         (map viVersion versions)
        in if toDelete = [] \<and> Compare (FloorVersion head) newFloor = 0 then None
           else Some \<lparr>peCreatedAt = created, peLogicalKey = x, peHeadVersion = Version head,
                      peFloorVersion = FloorVersion head, peNewFloorVersion = newFloor,
                      peVersionsToDelete = toDelete,
                      peDebtBytes = sum_list (map viSizeBytes versions),
                      peTombstoneDepth = length (filter viTombstoned versions)\<rparr>)"

text \<open>The iteration over the heads. \<open>created\<close> gives the clock readings of the entries.\<close>

fun planHeads :: "(ent \<Rightarrow> u64) \<Rightarrow> 's lifecycle_storage \<Rightarrow> 's \<Rightarrow> prune_planner \<Rightarrow> mvcc_version
    \<Rightarrow> (string \<Rightarrow> mvcc_version) \<Rightarrow> (ent \<Rightarrow> go_time) \<Rightarrow> (ent \<times> mvcc_head) list
    \<Rightarrow> storage_error + nat \<times> prune_plan_entry list" where
  "planHeads numID eng s p ttlBound floorFor created [] = Inr (0, [])"
| "planHeads numID eng s p ttlBound floorFor created ((x, head) # heads) =
     (let key = logicalKey numID x
      in if \<not> shouldScanKey p key then planHeads numID eng s p ttlBound floorFor created heads
         else case IterateMVCCVersions eng s x of
                Inl e \<Rightarrow> Inl e
              | Inr versions \<Rightarrow>
                  (case planHeads numID eng s p ttlBound floorFor created heads of
                     Inl e \<Rightarrow> Inl e
                   | Inr (n, entries) \<Rightarrow>
                       (case planKey (plConfig p) ttlBound
                               (floorFor (plannerNamespaceFromLogicalKey key)) (created x) x head versions of
                          None \<Rightarrow> Inr (n + 1, entries)
                        | Some entry \<Rightarrow> Inr (n + 1, entry # entries))))"

text \<open>\<open>now\<close> is read for the TTL bound and \<open>finished\<close> for the plan. Without a callback no reader is
  active.\<close>

definition Plan :: "(ent \<Rightarrow> u64) \<Rightarrow> 's lifecycle_storage \<Rightarrow> go_time \<Rightarrow> (ent \<Rightarrow> go_time) \<Rightarrow> go_time
    \<Rightarrow> (string \<Rightarrow> mvcc_version) option \<Rightarrow> 's \<Rightarrow> prune_planner
    \<Rightarrow> (storage_error + prune_plan) \<times> prune_planner" where
  "Plan numID eng now created finished safeFloor s p0 =
     (let p = p0\<lparr>plCycleCount := plCycleCount p0 + 1\<rparr>;
          ttlBound = TTLBoundVersion now (lcTTL (plConfig p));
          floorFor = (case safeFloor of Some f \<Rightarrow> f | None \<Rightarrow> (\<lambda>_. maxMVCCVersion))
      in (case IterateMVCCHeads eng s of
            Inl e \<Rightarrow> Inl e
          | Inr heads \<Rightarrow>
              (case planHeads numID eng s p ttlBound floorFor created heads of
                 Inl e \<Rightarrow> Inl e
               | Inr (n, entries) \<Rightarrow>
                   Inr \<lparr>ppCreatedAt = finished, ppKeysScanned = n, ppEntries = entries\<rparr>), p))"

section \<open>What a plan holds\<close>

lemma planKey_Some:
  "planKey c ttlBound nsFloor created x head versions = Some entry \<longleftrightarrow>
     versions \<noteq> [] \<and>
     (let f = ComputeSafeFloor nsFloor ttlBound (maxVersionsBoundVersion c versions) (FloorVersion head);
          del = filter (\<lambda>v. Compare v f < 0 \<and> Compare v (Version head) \<noteq> 0) (map viVersion versions)
      in (del \<noteq> [] \<or> Compare (FloorVersion head) f \<noteq> 0)
         \<and> entry = \<lparr>peCreatedAt = created, peLogicalKey = x, peHeadVersion = Version head,
                    peFloorVersion = FloorVersion head, peNewFloorVersion = f, peVersionsToDelete = del,
                    peDebtBytes = sum_list (map viSizeBytes versions),
                    peTombstoneDepth = length (filter viTombstoned versions)\<rparr>)"
  by (auto simp: planKey_def Let_def)

lemma planKey_key: "planKey c ttlBound nsFloor created x head versions = Some entry \<Longrightarrow> peLogicalKey entry = x"
  by (auto simp: planKey_Some Let_def)

lemma maxVersionsBound_in:
  assumes "versions \<noteq> []"
  shows "maxVersionsBoundVersion c versions \<in> viVersion ` set versions"
proof -
  let ?i = "nat (max 0 (int (length versions) - keepHistorical c - 1))"
  have "0 \<le> keepHistorical c"
    by (auto simp: keepHistorical_def Let_def)
  then have "?i < length versions"
    using assms by (cases versions) auto
  then show ?thesis
    by (auto simp: maxVersionsBoundVersion_def Let_def)
qed

text \<open>The floor a plan sets, for versions whose times fit \<^verbatim>\<open>UnixNano\<close>.\<close>

lemma planKey_floor:
  assumes "planKey c ttlBound nsFloor created x head versions = Some entry"
    and "norm_version ttlBound" "norm_version nsFloor" "norm_version (FloorVersion head)"
    and "\<forall>v \<in> viVersion ` set versions. norm_version v"
  shows "peNewFloorVersion entry =
    max (FloorVersion head) (min nsFloor (min ttlBound (maxVersionsBoundVersion c versions)))"
proof -
  have "versions \<noteq> []" using assms(1) by (simp add: planKey_Some)
  then have "norm_version (maxVersionsBoundVersion c versions)"
    using maxVersionsBound_in assms(5) by blast
  then show ?thesis
    using assms by (auto simp: planKey_Some Let_def ComputeSafeFloor_norm)
qed

lemma planHeads_entry:
  assumes "planHeads numID eng s p ttlBound floorFor created heads = Inr (n, entries)" "entry \<in> set entries"
  shows "\<exists>x head versions. (x, head) \<in> set heads \<and> IterateMVCCVersions eng s x = Inr versions
    \<and> planKey (plConfig p) ttlBound (floorFor (plannerNamespaceFromLogicalKey (logicalKey numID x)))
        (created x) x head versions = Some entry"
  using assms
proof (induction heads arbitrary: n entries)
  case Nil
  then show ?case by simp
next
  case (Cons h heads)
  obtain x head where h: "h = (x, head)" by fastforce
  show ?case
  proof (cases "shouldScanKey p (logicalKey numID x)")
    case False
    then show ?thesis using Cons h by fastforce
  next
    case True
    then obtain versions m es where v: "IterateMVCCVersions eng s x = Inr versions"
      "planHeads numID eng s p ttlBound floorFor created heads = Inr (m, es)"
      using Cons.prems(1) h by (auto simp: Let_def split: sum.splits)
    let ?o = "planKey (plConfig p) ttlBound (floorFor (plannerNamespaceFromLogicalKey (logicalKey numID x)))
        (created x) x head versions"
    have "entries = (case ?o of None \<Rightarrow> es | Some entry \<Rightarrow> entry # es)"
      using Cons.prems(1) h True v by (auto simp: Let_def split: option.splits)
    then consider "entry \<in> set es" | "?o = Some entry"
      using Cons.prems(2) by (auto split: option.splits)
    then show ?thesis
    proof cases
      case 1
      then show ?thesis using Cons.IH [OF v(2)] by fastforce
    next
      case 2
      then show ?thesis using v h by auto
    qed
  qed
qed

section \<open>Planning again\<close>

lemma maxVersionsBound_nth:
  "versions \<noteq> [] \<Longrightarrow> maxVersionsBoundVersion c versions =
     map viVersion versions ! nat (max 0 (int (length versions) - keepHistorical c - 1))"
proof -
  assume a: "versions \<noteq> []"
  have "0 \<le> keepHistorical c"
    by (auto simp: keepHistorical_def Let_def)
  then have "nat (max 0 (int (length versions) - keepHistorical c - 1)) < length versions"
    using a by (cases versions) auto
  then show ?thesis by (simp add: maxVersionsBoundVersion_def)
qed

text \<open>Whether a row is planned depends on the versions of its chain alone.\<close>

lemma planKey_chain:
  assumes "map viVersion versions' = map viVersion versions"
    and "planKey c ttlBound nsFloor created' x head versions' = Some entry'"
  shows "\<exists>entry. planKey c ttlBound nsFloor created x head versions = Some entry"
proof -
  have ne: "versions' \<noteq> []" "versions \<noteq> []"
    using assms by (auto simp: planKey_Some)
  then have "maxVersionsBoundVersion c versions' = maxVersionsBoundVersion c versions"
    using assms(1) maxVersionsBound_nth by (metis length_map)
  then show ?thesis
    using assms ne by (auto simp: planKey_def Let_def split: if_splits)
qed

lemma filter_ge_sorted:
  "sorted_wrt (<) xs \<Longrightarrow> filter (\<lambda>u. f \<le> u) xs = drop (length (takeWhile (\<lambda>u. u < f) xs)) (xs :: 'a::linorder list)"
proof (induction xs)
  case (Cons x xs)
  show ?case
  proof (cases "x < f")
    case False
    then have "\<forall>u \<in> set (x # xs). f \<le> u" using Cons.prems by fastforce
    then have "filter (\<lambda>u. f \<le> u) (x # xs) = x # xs" by (intro filter_True) auto
    then show ?thesis using False by simp
  qed (use Cons in auto)
qed simp

text \<open>Dropping what lies below a floor keeps the bound by number, when that bound is above the
  floor.\<close>

lemma bound_after_drop:
  fixes xs :: "'a::linorder list" and d :: int
  assumes "sorted_wrt (<) xs" "i = nat (max 0 (int (length xs) - d))" "i < length xs" "f \<le> xs ! i"
    and "ys = filter (\<lambda>u. f \<le> u) xs"
  shows "ys ! nat (max 0 (int (length ys) - d)) = xs ! i"
proof -
  let ?r = "length (takeWhile (\<lambda>u. u < f) xs)"
  have ys: "ys = drop ?r xs"
    using assms(5) filter_ge_sorted [OF assms(1)] by simp
  have r: "?r \<le> i"
  proof (rule ccontr)
    assume "\<not> ?r \<le> i"
    then have "xs ! i = takeWhile (\<lambda>u. u < f) xs ! i" "i < ?r"
      by (simp_all add: takeWhile_nth)
    then have "xs ! i < f"
      using set_takeWhileD [of "xs ! i" "\<lambda>u. u < f" xs] nth_mem [of i "takeWhile (\<lambda>u. u < f) xs"] by auto
    then show False using assms(4) by simp
  qed
  then have "nat (max 0 (int (length ys) - d)) = i - ?r"
    using assms(2,3) ys by (cases "int (length xs) - d \<ge> 0") auto
  then show ?thesis
    using ys r assms(3) by simp
qed

text \<open>Once the versions below the new floor are gone and the head has the floor, the same bounds
  plan nothing for the row.\<close>

lemma replan_nothing:
  assumes p: "planKey c ttlBound nsFloor created x head versions = Some entry"
    and n: "norm_version ttlBound" "norm_version nsFloor" "norm_version (FloorVersion head)"
    and nv: "\<forall>v \<in> set (map viVersion versions). norm_version v \<and> FloorVersion head \<le> v \<and> v \<le> Version head"
    and nh: "norm_version (Version head)" "FloorVersion head \<le> Version head"
    and s: "sorted_wrt (<) (map viVersion versions)"
    and v': "map viVersion versions' = filter (\<lambda>u. u \<notin> set (peVersionsToDelete entry)) (map viVersion versions)"
    and h': "Version head' = Version head" "FloorVersion head' = peNewFloorVersion entry"
  shows "planKey c ttlBound nsFloor created' x head' versions' = None"
proof (cases "versions' = []")
  case True
  then show ?thesis by (simp add: planKey_def)
next
  case ne': False
  let ?m = "maxVersionsBoundVersion c versions" and ?f = "peNewFloorVersion entry"
  let ?i = "nat (max 0 (int (length versions) - keepHistorical c - 1))"
  have ne: "versions \<noteq> []" using p by (simp add: planKey_Some)
  have m: "?m \<in> set (map viVersion versions)" "norm_version ?m" "?m \<le> Version head"
    using maxVersionsBound_in [OF ne, of c] nv by auto
  have f: "?f = max (FloorVersion head) (min nsFloor (min ttlBound ?m))"
    using planKey_floor [OF p] n nv by auto
  then have nf: "norm_version ?f" using n m by (simp add: max_def min_def)
  have fh: "?f \<le> Version head" using f m(3) nh(2) by (simp add: min_le_iff_disj)
  have del: "peVersionsToDelete entry = filter (\<lambda>v. v < ?f) (map viVersion versions)"
  proof -
    have "peVersionsToDelete entry =
        filter (\<lambda>v. Compare v ?f < 0 \<and> Compare v (Version head) \<noteq> 0) (map viVersion versions)"
      using p by (auto simp: planKey_Some Let_def)
    also have "\<dots> = filter (\<lambda>v. v < ?f) (map viVersion versions)"
      using nv nf nh(1) fh by (intro filter_cong) (auto simp: Compare_less Compare_eq)
    finally show ?thesis .
  qed
  then have kept: "map viVersion versions' = filter (\<lambda>u. ?f \<le> u) (map viVersion versions)"
    using v' by (auto intro: filter_cong simp: not_less)
  have nv': "\<forall>v \<in> viVersion ` set versions'. norm_version v \<and> ?f \<le> v"
  proof -
    have "viVersion ` set versions' = set (filter (\<lambda>u. ?f \<le> u) (map viVersion versions))"
      using kept by (metis list.set_map)
    then show ?thesis using nv by auto
  qed
  have bound: "min nsFloor (min ttlBound (maxVersionsBoundVersion c versions')) \<le> ?f"
  proof (cases "?f = FloorVersion head")
    case True
    then have "map viVersion versions' = map viVersion versions"
      using kept nv by (auto intro: filter_True)
    then have "maxVersionsBoundVersion c versions' = ?m"
      using maxVersionsBound_nth [OF ne] maxVersionsBound_nth [OF ne'] by (metis length_map)
    then show ?thesis using f by (metis max.cobounded2)
  next
    case False
    then have "?f \<le> ?m" using f by (auto simp: max_def min_le_iff_disj split: if_splits)
    moreover have i: "?i < length (map viVersion versions)"
      using ne by (cases versions) (auto simp: keepHistorical_def Let_def)
    ultimately have "maxVersionsBoundVersion c versions' = ?m"
      using bound_after_drop [OF s _ i _ kept, of "keepHistorical c + 1"]
        maxVersionsBound_nth [OF ne] maxVersionsBound_nth [OF ne']
      by (simp add: algebra_simps)
    then show ?thesis using f by simp
  qed
  have "norm_version (maxVersionsBoundVersion c versions')"
    using maxVersionsBound_in [OF ne', of c] nv' by auto
  then have f': "ComputeSafeFloor nsFloor ttlBound (maxVersionsBoundVersion c versions') (FloorVersion head') = ?f"
    using ComputeSafeFloor_norm [OF n(2) n(1) _ nf] bound h'(2) by (simp add: max_absorb1)
  have "filter (\<lambda>v. Compare v ?f < 0 \<and> Compare v (Version head') \<noteq> 0) (map viVersion versions') = []"
    using nv' nf by (auto simp: filter_empty_conv Compare_less)
  then show ?thesis
    using f' h'(2) ne' by (simp add: planKey_def Let_def)
qed

section \<open>Readers have no say\<close>

text \<open>
  The first byte of a row's number is zero unless the dictionary has handed out \<open>2 ^ 56\<close> numbers, so
  the namespace the planner reads out of a key begins with a NUL character.
\<close>

lemma hd_encodeNumID: "numID x < 2 ^ 56 \<Longrightarrow> encodeNumID (numID x) = 0 # tl (encodeNumID (numID x))"
proof -
  assume a: "numID x < 2 ^ 56"
  have "unat (drop_bit 56 (numID x)) = unat (numID x) div 2 ^ 56"
    by (subst unat_drop_bit_eq, subst drop_bit_eq_div) (rule refl)
  also have "\<dots> = 0" using a by (simp add: word_less_nat_alt)
  finally have "unat (drop_bit 56 (numID x)) = 0" .
  then have "drop_bit 56 (numID x) = 0" by (simp only: unat_eq_0)
  then show ?thesis by (simp add: encodeNumID_def be64_def)
qed

lemma planner_namespace_of_row:
  assumes "numID x < 2 ^ 56"
  shows "\<exists>rest. plannerNamespaceFromLogicalKey (logicalKey numID x) = CHR 0x00 # rest"
proof -
  obtain bs where "encodeNumID (numID x) = 0 # bs"
    using hd_encodeNumID [of numID x] assms by blast
  moreover have "char_of (0 :: nat) = CHR 0x00" by (simp add: char_of_def)
  ultimately show ?thesis
    by (auto simp: plannerNamespaceFromLogicalKey_def namespaceFromLogicalKey_def logicalKey_def
        bytes_string_def)
qed

end
