(* ===== verification/LcApply.thy ===== *)
theory LcApply
  imports LcPlan
begin

text \<open>
  The prune applier (\<^verbatim>\<open>pkg/storage/lifecycle/apply.go\<close>): the queue of keys that back off after a
  fence mismatch, and the loop that deletes the planned versions of each key and raises its floor.
  The storage may change between any two calls, so the loop is also given as the steps one key
  takes: \<open>checkFence\<close>, then \<open>finishKey\<close>.
\<close>

section \<open>Backing off\<close>

record backoff_entry =
  boRetryCount :: nat
  boLastAttempt :: go_time
  boNextEligible :: go_time
  boCooldownUntil :: go_time
  boMismatchTimes :: "go_time list"

record backoff_queue =
  boEntries :: "(ent \<times> backoff_entry) list"
  boConfig :: lifecycle_config

definition newBackoffQueue :: "lifecycle_config \<Rightarrow> backoff_queue" where
  "newBackoffQueue config = \<lparr>boEntries = [], boConfig = config\<rparr>"

definition fresh_backoff :: backoff_entry where
  "fresh_backoff = \<lparr>boRetryCount = 0, boLastAttempt = zero_time, boNextEligible = zero_time,
     boCooldownUntil = zero_time, boMismatchTimes = []\<rparr>"

definition entryOf :: "ent \<Rightarrow> backoff_queue \<Rightarrow> backoff_entry" where
  "entryOf key b = (case map_of (boEntries b) key of Some e \<Rightarrow> e | None \<Rightarrow> fresh_backoff)"

definition isEligible :: "go_time \<Rightarrow> ent \<Rightarrow> backoff_queue \<Rightarrow> bool" where
  "isEligible now key b =
     (case map_of (boEntries b) key of
        None \<Rightarrow> True
      | Some entry \<Rightarrow> \<not> (now < boCooldownUntil entry \<or> now < boNextEligible entry))"

text \<open>The delay doubles with each retry; the shift is the machine's. \<open>rnd\<close> is the number
  \<^verbatim>\<open>rand.Int63n\<close> draws below its bound from.\<close>

definition retryDelay :: "lifecycle_config \<Rightarrow> nat \<Rightarrow> int" where
  "retryDelay c retryCount =
     (let delay = shl64 (FenceRetryInitialDelay c) (retryCount - 1)
      in if delay > FenceRetryMaxDelay c then FenceRetryMaxDelay c else delay)"

definition recordMismatch :: "go_time \<Rightarrow> nat \<Rightarrow> ent \<Rightarrow> backoff_queue \<Rightarrow> nat \<times> bool \<times> backoff_queue" where
  "recordMismatch now rnd key b =
     (let entry = entryOf key b;
          cutoff = now - 600 * second;
          times = filter (\<lambda>ts. ts > cutoff) (boMismatchTimes entry) @ [now];
          retries = boRetryCount entry + 1;
          delay = retryDelay (boConfig b) retries;
          e1 = entry\<lparr>boMismatchTimes := times, boRetryCount := retries, boLastAttempt := now\<rparr>;
          e2 = (if delay > 0
                then e1\<lparr>boNextEligible := now + (delay + int rnd mod (delay div 4 + 1))\<rparr> else e1);
          limit = FenceRetryCrossRunLimit (boConfig b)
      in (retries, limit > 0 \<and> int (length times) \<ge> limit,
          b\<lparr>boEntries := AList.update key e2 (boEntries b)\<rparr>))"

definition markHotContention :: "go_time \<Rightarrow> ent \<Rightarrow> int \<Rightarrow> backoff_queue \<Rightarrow> backoff_queue" where
  "markHotContention now key cooldown b =
     b\<lparr>boEntries := AList.update key
         ((entryOf key b)\<lparr>boCooldownUntil := now + cooldown, boRetryCount := 0,
                          boNextEligible := now + cooldown, boMismatchTimes := []\<rparr>) (boEntries b)\<rparr>"

definition clearBackoff :: "ent \<Rightarrow> backoff_queue \<Rightarrow> backoff_queue" where
  "clearBackoff key b = b\<lparr>boEntries := AList.delete key (boEntries b)\<rparr>"

section \<open>One key\<close>

datatype fence = FenceError | FenceMismatch | FencePassed mvcc_head

definition checkFence :: "'s lifecycle_storage \<Rightarrow> prune_plan_entry \<Rightarrow> 's \<Rightarrow> fence" where
  "checkFence eng entry s =
     (case ReadMVCCHead eng s (peLogicalKey entry) of
        Inl _ \<Rightarrow> FenceError
      | Inr head \<Rightarrow> if Compare (Version head) (peHeadVersion entry) \<noteq> 0 then FenceMismatch
                    else FencePassed head)"

text \<open>A failed delete does not stop the loop. The results: did one fail, and how many succeeded.\<close>

fun deleteVersions :: "'s lifecycle_storage \<Rightarrow> ent \<Rightarrow> mvcc_version list \<Rightarrow> 's \<Rightarrow> bool \<times> nat \<times> 's" where
  "deleteVersions eng x [] s = (False, 0, s)"
| "deleteVersions eng x (v # vs) s =
     (case DeleteMVCCVersion eng x v s of
        (Some _, s1) \<Rightarrow> (let (_, n, s2) = deleteVersions eng x vs s1 in (True, n, s2))
      | (None, s1) \<Rightarrow> (let (failed, n, s2) = deleteVersions eng x vs s1 in (failed, n + 1, s2)))"

datatype finish = DeleteFailed | WriteFailed | Finished

definition finishKey :: "'s lifecycle_storage \<Rightarrow> prune_plan_entry \<Rightarrow> mvcc_head \<Rightarrow> 's \<Rightarrow> finish \<times> nat \<times> 's" where
  "finishKey eng entry head s =
     (let x = peLogicalKey entry; (failed, n, s1) = deleteVersions eng x (peVersionsToDelete entry) s
      in if failed then (DeleteFailed, n, s1)
         else case WriteMVCCHead eng x (head\<lparr>FloorVersion := peNewFloorVersion entry\<rparr>) s1 of
                (Some _, s2) \<Rightarrow> (WriteFailed, n, s2)
              | (None, s2) \<Rightarrow> (Finished, n, s2))"

section \<open>The loop\<close>

record apply_result =
  KeysProcessed :: nat
  VersionsDeleted :: nat
  BytesFreed :: int
  FenceMismatches :: nat
  HotContentionKeys :: nat
  NamespaceBytesFreed :: "(string \<times> int) list"

definition no_result :: apply_result where
  "no_result = \<lparr>KeysProcessed = 0, VersionsDeleted = 0, BytesFreed = 0, FenceMismatches = 0,
     HotContentionKeys = 0, NamespaceBytesFreed = []\<rparr>"

text \<open>What the surroundings answer during one turn of the loop.\<close>

record apply_turn =
  atElapsed :: int           \<comment> \<open>since the cycle started\<close>
  atCancelled :: bool
  atNowEligible :: go_time
  atNowMismatch :: go_time
  atRandom :: nat
  atNowHot :: go_time
  atWorked :: int            \<comment> \<open>since the turn started\<close>
  atSleepCancelled :: bool

text \<open>\<^verbatim>\<open>throttleCPUShare\<close> sleeps in proportion to the work; it answers whether it was cancelled.\<close>

definition throttleCPUShare :: "lifecycle_config \<Rightarrow> int \<Rightarrow> bool \<Rightarrow> bool" where
  "throttleCPUShare c workDuration cancelled =
     (if MaxCPUShare c \<le> 0 \<or> MaxCPUShare c \<ge> 1 \<or> workDuration \<le> 0 then False
      else
        let sleepFor = trunc_float (float_mult (float_of_int workDuration)
                         (float_sub (float_div 1 (MaxCPUShare c)) 1))
        in if sleepFor \<le> 0 then False else cancelled)"

definition outOfBudget :: "lifecycle_config \<Rightarrow> apply_turn \<Rightarrow> prune_plan_entry \<Rightarrow> apply_result \<Rightarrow> bool" where
  "outOfBudget c turn entry result \<longleftrightarrow>
     MaxRuntimePerCycle c > 0 \<and> KeysProcessed result > 0 \<and> atElapsed turn \<ge> MaxRuntimePerCycle c
     \<or> MaxIOBudgetBytesPerInterval c > 0 \<and> KeysProcessed result > 0
       \<and> BytesFreed result + peDebtBytes entry > MaxIOBudgetBytesPerInterval c
     \<or> atCancelled turn"

definition at0i :: "('k \<times> int) list \<Rightarrow> 'k \<Rightarrow> int" where
  "at0i m k = (case map_of m k of Some n \<Rightarrow> n | None \<Rightarrow> 0)"

text \<open>One turn, after the budget checks. The last component says that the loop stops here.\<close>

definition applyTurn :: "(ent \<Rightarrow> u64) \<Rightarrow> 's lifecycle_storage \<Rightarrow> lifecycle_config \<Rightarrow> apply_turn
    \<Rightarrow> prune_plan_entry \<Rightarrow> apply_result \<times> backoff_queue \<times> 's
    \<Rightarrow> (apply_result \<times> backoff_queue \<times> 's) \<times> bool" where
  "applyTurn numID eng c turn entry = (\<lambda>(result, backoff, s).
     let key = peLogicalKey entry
     in if \<not> isEligible (atNowEligible turn) key backoff then ((result, backoff, s), False)
        else case checkFence eng entry s of
          FenceError \<Rightarrow> ((result, backoff, s), False)
        | FenceMismatch \<Rightarrow>
            let r1 = result\<lparr>FenceMismatches := FenceMismatches result + 1\<rparr>;
                (retries, exhausted, b1) = recordMismatch (atNowMismatch turn) (atRandom turn) key backoff
            in if int retries \<ge> FenceRetryPerKeyLimit c \<or> exhausted
               then ((r1\<lparr>HotContentionKeys := HotContentionKeys r1 + 1\<rparr>,
                      markHotContention (atNowHot turn) key (FenceRetryCooldown c) b1, s), False)
               else ((r1, b1, s), False)
        | FencePassed head \<Rightarrow>
            (case finishKey eng entry head s of
               (DeleteFailed, n, s1) \<Rightarrow>
                 ((result\<lparr>VersionsDeleted := VersionsDeleted result + n\<rparr>, backoff, s1), False)
             | (WriteFailed, n, s1) \<Rightarrow>
                 ((result\<lparr>VersionsDeleted := VersionsDeleted result + n\<rparr>, backoff, s1),
                  throttleCPUShare c (atWorked turn) (atSleepCancelled turn))
             | (Finished, n, s1) \<Rightarrow>
                 let ns = namespaceFromLogicalKey (logicalKey numID key)
                 in ((result\<lparr>VersionsDeleted := VersionsDeleted result + n,
                             KeysProcessed := KeysProcessed result + 1,
                             BytesFreed := BytesFreed result + peDebtBytes entry,
                             NamespaceBytesFreed :=
                               AList.update ns (at0i (NamespaceBytesFreed result) ns + peDebtBytes entry)
                                 (NamespaceBytesFreed result)\<rparr>,
                      clearBackoff key backoff, s1),
                     throttleCPUShare c (atWorked turn) (atSleepCancelled turn))))"

fun applyEntries :: "(ent \<Rightarrow> u64) \<Rightarrow> 's lifecycle_storage \<Rightarrow> lifecycle_config \<Rightarrow> (nat \<Rightarrow> apply_turn) \<Rightarrow> nat
    \<Rightarrow> prune_plan_entry list \<Rightarrow> apply_result \<times> backoff_queue \<times> 's
    \<Rightarrow> apply_result \<times> backoff_queue \<times> 's" where
  "applyEntries numID eng c turns i [] st = st"
| "applyEntries numID eng c turns i (entry # entries) st =
     (if outOfBudget c (turns i) entry (fst st) then st
      else case applyTurn numID eng c (turns i) entry st of
             (st1, True) \<Rightarrow> st1
           | (st1, False) \<Rightarrow> applyEntries numID eng c turns (i + 1) entries st1)"

text \<open>\<^verbatim>\<open>PruneApplier.Apply\<close>; the queue is part of the applier.\<close>

definition Apply :: "(ent \<Rightarrow> u64) \<Rightarrow> 's lifecycle_storage \<Rightarrow> lifecycle_config \<Rightarrow> (nat \<Rightarrow> apply_turn)
    \<Rightarrow> prune_plan option \<Rightarrow> backoff_queue \<Rightarrow> 's \<Rightarrow> apply_result \<times> backoff_queue \<times> 's" where
  "Apply numID eng c turns plan backoff s =
     (case plan of
        None \<Rightarrow> (no_result, backoff, s)
      | Some p \<Rightarrow> applyEntries numID eng c turns 0 (ppEntries p) (no_result, backoff, s))"

section \<open>The budget of a cycle\<close>

lemma applyTurn_bytes:
  assumes "applyTurn numID eng c turn entry (result, backoff, s) = ((result', backoff', s'), stop)"
  shows "BytesFreed result' = BytesFreed result \<and> KeysProcessed result' = KeysProcessed result
    \<or> BytesFreed result' = BytesFreed result + peDebtBytes entry
      \<and> KeysProcessed result' = KeysProcessed result + 1"
  using assms
  by (auto simp: applyTurn_def Let_def split: if_splits fence.splits finish.splits prod.splits)

lemma applyEntries_bytes:
  assumes "0 < MaxIOBudgetBytesPerInterval c" "\<forall>entry \<in> set entries. 0 \<le> peDebtBytes entry"
    and "KeysProcessed (fst st) \<le> 1 \<or> BytesFreed (fst st) \<le> MaxIOBudgetBytesPerInterval c"
    and "KeysProcessed (fst st) = 0 \<longrightarrow> BytesFreed (fst st) = 0"
  shows "KeysProcessed (fst (applyEntries numID eng c turns i entries st)) \<le> 1
    \<or> BytesFreed (fst (applyEntries numID eng c turns i entries st)) \<le> MaxIOBudgetBytesPerInterval c"
  using assms
proof (induction numID eng c turns i entries st rule: applyEntries.induct)
  case (2 numID eng c turns i entry entries st)
  show ?case
  proof (cases "outOfBudget c (turns i) entry (fst st)")
    case True
    then show ?thesis using "2.prems"(3) by simp
  next
    case False
    obtain st1 stop where t: "applyTurn numID eng c (turns i) entry st = (st1, stop)"
      by fastforce
    obtain r b s where st: "st = (r, b, s)" by (cases st) auto
    obtain r1 b1 s1 where st1: "st1 = (r1, b1, s1)" by (cases st1) auto
    have step: "BytesFreed r1 = BytesFreed r \<and> KeysProcessed r1 = KeysProcessed r
        \<or> BytesFreed r1 = BytesFreed r + peDebtBytes entry \<and> KeysProcessed r1 = KeysProcessed r + 1"
      using applyTurn_bytes [of numID eng c "turns i" entry r b s r1 b1 s1 stop] t st st1 by simp
    then have keep: "KeysProcessed r1 \<le> 1 \<or> BytesFreed r1 \<le> MaxIOBudgetBytesPerInterval c"
      "KeysProcessed r1 = 0 \<longrightarrow> BytesFreed r1 = 0"
      using False "2.prems" st by (auto simp: outOfBudget_def)
    show ?thesis
    proof (cases stop)
      case True
      then show ?thesis using False t keep st1 by simp
    next
      case stop: False
      then show ?thesis
        using False t keep st1 "2.IH" [OF False t [symmetric]] "2.prems"(1,2) by simp
    qed
  qed
qed simp

end
