(* ===== verification/LcSchedule.thy ===== *)
theory LcSchedule
  imports LcApply
begin

text \<open>
  The scheduler of a prune plan (\<^verbatim>\<open>pkg/storage/lifecycle/priority.go\<close>): entries are ranked by score
  per cost and admitted within the byte budgets of their namespaces; a tenth of the entries may
  exceed theirs. In emergency mode the largest debts come first.
\<close>

section \<open>Scores\<close>

record cost_estimate =
  IteratorSeeks :: nat
  ValueLogReads :: nat
  BytesRewritten :: int

record priority_scheduler =
  skipCounts :: "(ent \<times> nat) list"
  maxSkipCount :: nat
  reservedSliceFraction :: rat
  schedBudgets :: "(string \<times> namespace_budget) list"

definition NewPriorityScheduler :: "lifecycle_config \<Rightarrow> priority_scheduler" where
  "NewPriorityScheduler config =
     \<lparr>skipCounts = [], maxSkipCount = 50, reservedSliceFraction = float_div 1 10,
      schedBudgets = NamespaceBudgets config\<rparr>"

definition PriorityScore :: "int \<Rightarrow> nat \<Rightarrow> rat \<Rightarrow> int \<Rightarrow> rat" where
  "PriorityScore debtBytes tombstoneDepth keyHotness keyAge =
     float_add (float_add (float_add (float_of_int debtBytes)
                             (float_mult (float_of_int (int tombstoneDepth)) 1024))
                          (float_mult keyHotness 2048))
               (seconds keyAge)"

definition EstimateCost :: "prune_plan_entry \<Rightarrow> cost_estimate" where
  "EstimateCost entry =
     \<lparr>IteratorSeeks = length (peVersionsToDelete entry) + 1,
      ValueLogReads = length (peVersionsToDelete entry), BytesRewritten = peDebtBytes entry\<rparr>"

definition skipsOf :: "priority_scheduler \<Rightarrow> ent \<Rightarrow> nat" where
  "skipsOf s key = (case map_of (skipCounts s) key of Some n \<Rightarrow> n | None \<Rightarrow> 0)"

record scored_entry =
  seEntry :: prune_plan_entry
  seScore :: rat
  seCost :: rat

definition scoreEntry :: "(prune_plan_entry \<Rightarrow> int) \<Rightarrow> priority_scheduler \<Rightarrow> prune_plan_entry \<Rightarrow> scored_entry" where
  "scoreEntry age s entry =
     (let cost = EstimateCost entry;
          value = float_add (float_of_int (int (IteratorSeeks cost + ValueLogReads cost)))
                    (float_div (float_of_int (BytesRewritten cost)) 1024);
          costValue = (if value < 1 then 1 else value);
          boost = float_mult (float_of_int (int (skipsOf s (peLogicalKey entry)))) 4096
      in \<lparr>seEntry = entry,
          seScore = float_add (PriorityScore (peDebtBytes entry) (peTombstoneDepth entry) 0 (age entry)) boost,
          seCost = costValue\<rparr>)"

text \<open>Ties on the quotient are broken by the bytes of the keys.\<close>

definition ranksBefore :: "(ent \<Rightarrow> u64) \<Rightarrow> scored_entry \<Rightarrow> scored_entry \<Rightarrow> bool" where
  "ranksBefore numID a b =
     (let left = float_div (seScore a) (seCost a); right = float_div (seScore b) (seCost b)
      in if left = right
         then bytes_less (logicalKey numID (peLogicalKey (seEntry a))) (logicalKey numID (peLogicalKey (seEntry b)))
         else left > right)"

section \<open>Skipping\<close>

definition RecordProcessed :: "ent \<Rightarrow> priority_scheduler \<Rightarrow> priority_scheduler" where
  "RecordProcessed key s = s\<lparr>skipCounts := AList.delete key (skipCounts s)\<rparr>"

definition RecordSkipped :: "ent \<Rightarrow> priority_scheduler \<Rightarrow> priority_scheduler" where
  "RecordSkipped key s =
     (if skipsOf s key < maxSkipCount s
      then s\<lparr>skipCounts := AList.update key (skipsOf s key + 1) (skipCounts s)\<rparr> else s)"

section \<open>Scheduling\<close>

definition overBudget :: "priority_scheduler \<Rightarrow> string \<Rightarrow> int \<Rightarrow> bool" where
  "overBudget s ns bytes =
     (case map_of (schedBudgets s) ns of
        None \<Rightarrow> False
      | Some budget \<Rightarrow> MaxBytesPerCycle budget > 0 \<and> bytes > MaxBytesPerCycle budget)"

fun admit :: "(ent \<Rightarrow> u64) \<Rightarrow> int \<Rightarrow> prune_plan_entry list \<Rightarrow> (string \<times> int) list \<Rightarrow> int
    \<Rightarrow> priority_scheduler \<Rightarrow> prune_plan_entry list \<times> priority_scheduler" where
  "admit numID reserved [] consumed reservedUsed s = ([], s)"
| "admit numID reserved (entry # entries) consumed reservedUsed s =
     (let ns = namespaceFromLogicalKey (logicalKey numID (peLogicalKey entry));
          over = overBudget s ns (at0i consumed ns + peDebtBytes entry)
      in if over \<and> reservedUsed \<ge> reserved
         then admit numID reserved entries consumed reservedUsed (RecordSkipped (peLogicalKey entry) s)
         else
           let (ordered, s1) = admit numID reserved entries
                 (AList.update ns (at0i consumed ns + peDebtBytes entry) consumed)
                 (if over then reservedUsed + 1 else reservedUsed) s
           in (entry # ordered, s1))"

definition reservedSlots :: "priority_scheduler \<Rightarrow> nat \<Rightarrow> int" where
  "reservedSlots s n =
     trunc_float (float_add (float_mult (float_of_int (int n)) (reservedSliceFraction s)) (1 / 2))"

definition Schedule :: "(ent \<Rightarrow> u64) \<Rightarrow> (prune_plan_entry \<Rightarrow> int) \<Rightarrow> prune_plan_entry list \<Rightarrow> priority_scheduler
    \<Rightarrow> prune_plan_entry list \<times> priority_scheduler" where
  "Schedule numID age entries s =
     (let scored = sliceStable (ranksBefore numID) (map (scoreEntry age s) entries)
      in admit numID (reservedSlots s (length scored)) (map seEntry scored) [] 0 s)"

definition urgentBefore :: "(ent \<Rightarrow> u64) \<Rightarrow> prune_plan_entry \<Rightarrow> prune_plan_entry \<Rightarrow> bool" where
  "urgentBefore numID a b =
     (if peDebtBytes a = peDebtBytes b then
        if peTombstoneDepth a = peTombstoneDepth b
        then bytes_less (logicalKey numID (peLogicalKey a)) (logicalKey numID (peLogicalKey b))
        else peTombstoneDepth a > peTombstoneDepth b
      else peDebtBytes a > peDebtBytes b)"

definition ScheduleEmergency :: "(ent \<Rightarrow> u64) \<Rightarrow> prune_plan_entry list \<Rightarrow> prune_plan_entry list" where
  "ScheduleEmergency numID entries = sliceStable (urgentBefore numID) entries"

section \<open>Budgets\<close>

lemma at0i_update [simp]: "at0i (AList.update k v m) k' = (if k' = k then v else at0i m k')"
  by (simp add: at0i_def update_conv')

lemma at0i_Nil [simp]: "at0i [] k = 0"
  by (simp add: at0i_def)

lemma RecordSkipped_fields [simp]:
  "schedBudgets (RecordSkipped key s) = schedBudgets s" "maxSkipCount (RecordSkipped key s) = maxSkipCount s"
  by (simp_all add: RecordSkipped_def)

lemma overBudget_skipped [simp]: "overBudget (RecordSkipped key s) = overBudget s"
  by (simp add: overBudget_def fun_eq_iff)

lemma seEntry_score [simp]: "seEntry (scoreEntry age s entry) = entry"
  by (simp add: scoreEntry_def Let_def)

definition debtIn :: "(ent \<Rightarrow> u64) \<Rightarrow> string \<Rightarrow> prune_plan_entry list \<Rightarrow> int" where
  "debtIn numID ns entries =
     sum_list (map peDebtBytes
       (filter (\<lambda>e. namespaceFromLogicalKey (logicalKey numID (peLogicalKey e)) = ns) entries))"

lemma debtIn_Cons:
  "debtIn numID ns (e # es) =
     (if namespaceFromLogicalKey (logicalKey numID (peLogicalKey e)) = ns then peDebtBytes e else 0)
     + debtIn numID ns es"
  by (simp add: debtIn_def)

text \<open>The admitted entries interleave those that used a reserved slot and those within budget.\<close>

lemma admit_budget:
  assumes "\<forall>e \<in> set entries. 0 \<le> peDebtBytes e"
  shows "mset (fst (admit numID reserved entries consumed used s)) \<subseteq># mset entries
    \<and> (\<exists>extra rest. mset (fst (admit numID reserved entries consumed used s)) = mset extra + mset rest
         \<and> int (length extra) \<le> max 0 (reserved - used)
         \<and> (\<forall>ns budget. map_of (schedBudgets s) ns = Some budget \<longrightarrow> 0 < MaxBytesPerCycle budget \<longrightarrow>
              debtIn numID ns rest = 0 \<or> at0i consumed ns + debtIn numID ns rest \<le> MaxBytesPerCycle budget))"
  using assms
proof (induction entries arbitrary: consumed used s)
  case Nil
  have "debtIn numID ns [] = 0" for ns by (simp add: debtIn_def)
  then show ?case by (auto intro!: exI [of _ "[]"])
next
  case (Cons e es)
  let ?ns = "namespaceFromLogicalKey (logicalKey numID (peLogicalKey e))"
  let ?over = "overBudget s ?ns (at0i consumed ?ns + peDebtBytes e)"
  have nn: "0 \<le> peDebtBytes e" "\<forall>e \<in> set es. 0 \<le> peDebtBytes e" using Cons.prems by auto
  show ?case
  proof (cases "?over \<and> used \<ge> reserved")
    case True
    then show ?thesis
      using Cons.IH [OF nn(2), of consumed used "RecordSkipped (peLogicalKey e) s"]
      by (auto simp: Let_def intro: subset_mset.order_trans)
  next
    case False
    let ?c = "AList.update ?ns (at0i consumed ?ns + peDebtBytes e) consumed"
    let ?u = "if ?over then used + 1 else used"
    have step: "fst (admit numID reserved (e # es) consumed used s) = e # fst (admit numID reserved es ?c ?u s)"
      using False by (simp add: Let_def split: prod.splits)
    obtain extra rest where IH: "mset (fst (admit numID reserved es ?c ?u s)) = mset extra + mset rest"
        "int (length extra) \<le> max 0 (reserved - ?u)"
        "\<And>ns budget. map_of (schedBudgets s) ns = Some budget \<Longrightarrow> 0 < MaxBytesPerCycle budget \<Longrightarrow>
           debtIn numID ns rest = 0 \<or> at0i ?c ns + debtIn numID ns rest \<le> MaxBytesPerCycle budget"
        and sub: "mset (fst (admit numID reserved es ?c ?u s)) \<subseteq># mset es"
      using Cons.IH [OF nn(2), of ?c ?u s] by blast
    have "mset (fst (admit numID reserved (e # es) consumed used s)) \<subseteq># mset (e # es)"
      using step sub by simp
    moreover have "\<exists>extra rest. mset (fst (admit numID reserved (e # es) consumed used s)) = mset extra + mset rest
         \<and> int (length extra) \<le> max 0 (reserved - used)
         \<and> (\<forall>ns budget. map_of (schedBudgets s) ns = Some budget \<longrightarrow> 0 < MaxBytesPerCycle budget \<longrightarrow>
              debtIn numID ns rest = 0 \<or> at0i consumed ns + debtIn numID ns rest \<le> MaxBytesPerCycle budget)"
    proof (cases ?over)
      case True
      have "debtIn numID ns rest = 0 \<or> at0i consumed ns + debtIn numID ns rest \<le> MaxBytesPerCycle budget"
        if "map_of (schedBudgets s) ns = Some budget" "0 < MaxBytesPerCycle budget" for ns budget
        using IH(3) [OF that] nn(1) by (auto split: if_splits)
      then show ?thesis
        using True False IH(1,2) step by (intro exI [of _ "e # extra"] exI [of _ rest]) auto
    next
      case within: False
      have "debtIn numID ns (e # rest) = 0 \<or> at0i consumed ns + debtIn numID ns (e # rest) \<le> MaxBytesPerCycle budget"
        if "map_of (schedBudgets s) ns = Some budget" "0 < MaxBytesPerCycle budget" for ns budget
        using IH(3) [OF that] nn(1) within that
        by (auto simp: debtIn_Cons overBudget_def split: if_splits)
      then show ?thesis
        using within IH(1,2) step by (intro exI [of _ extra] exI [of _ "e # rest"]) auto
    qed
    ultimately show ?thesis by blast
  qed
qed

lemma schedule_bound:
  assumes "\<forall>e \<in> set entries. 0 \<le> peDebtBytes e" "Schedule numID age entries s = (ordered, s')"
  shows "mset ordered \<subseteq># mset entries
    \<and> (\<exists>extra rest. mset ordered = mset extra + mset rest
         \<and> int (length extra) \<le> max 0 (reservedSlots s (length entries))
         \<and> (\<forall>ns budget. map_of (schedBudgets s) ns = Some budget \<longrightarrow> 0 < MaxBytesPerCycle budget \<longrightarrow>
              debtIn numID ns rest \<le> MaxBytesPerCycle budget))"
proof -
  let ?scored = "sliceStable (ranksBefore numID) (map (scoreEntry age s) entries)"
  have m: "mset (map seEntry ?scored) = mset entries"
    by (simp add: image_mset.compositionality comp_def)
  then have "\<forall>e \<in> set (map seEntry ?scored). 0 \<le> peDebtBytes e"
    using assms(1) by (metis set_mset_mset)
  from admit_budget [OF this, of numID "reservedSlots s (length ?scored)" "[]" 0 s]
  show ?thesis
    using assms(2) m by (fastforce simp: Schedule_def Let_def)
qed

text \<open>With fewer than five entries no slot is reserved, so an entry larger than its namespace's
  budget is never scheduled, however often it was skipped.\<close>

lemma float_tenth: "float_div 1 10 = 3602879701896397 / 36028797018963968"
  by (simp add: float_div_def float_literals)

lemma few_entries_no_slot:
  assumes "n < 5" "reservedSliceFraction s = float_div 1 10"
  shows "reservedSlots s n = 0"
proof -
  have i: "float_of_int 0 = 0" "float_of_int 1 = 1" "float_of_int 2 = 2" "float_of_int 3 = 3" "float_of_int 4 = 4"
    by (simp_all add: float_of_int_def float_literals)
  have m: "trunc_float (float_add (float_mult 0 (float_div 1 10)) (1 / 2)) = 0"
    "trunc_float (float_add (float_mult 1 (float_div 1 10)) (1 / 2)) = 0"
    "trunc_float (float_add (float_mult 2 (float_div 1 10)) (1 / 2)) = 0"
    "trunc_float (float_add (float_mult 3 (float_div 1 10)) (1 / 2)) = 0"
    "trunc_float (float_add (float_mult 4 (float_div 1 10)) (1 / 2)) = 0"
    by (simp_all add: float_tenth float_mult_def float_add_def trunc_float_def float_literals floor_eq_iff)
  have "int n = 0 \<or> int n = 1 \<or> int n = 2 \<or> int n = 3 \<or> int n = 4" using assms(1) by auto
  then show ?thesis
    unfolding reservedSlots_def assms(2) by (elim disjE) (simp_all only: i m)
qed

lemma elem_le_sum: "x \<in> set xs \<Longrightarrow> \<forall>y \<in> set xs. 0 \<le> y \<Longrightarrow> x \<le> sum_list (xs :: int list)"
  using sum_list_nonneg by (induction xs) fastforce+

lemma oversized_key_starves:
  assumes "length entries < 5" "reservedSliceFraction s = float_div 1 10"
    and "\<forall>e \<in> set entries. 0 \<le> peDebtBytes e"
    and "map_of (schedBudgets s) (namespaceFromLogicalKey (logicalKey numID (peLogicalKey entry))) = Some budget"
    and "0 < MaxBytesPerCycle budget" "MaxBytesPerCycle budget < peDebtBytes entry"
  shows "entry \<notin> set (fst (Schedule numID age entries s))"
proof
  let ?ns = "namespaceFromLogicalKey (logicalKey numID (peLogicalKey entry))"
  obtain ordered s' where o: "Schedule numID age entries s = (ordered, s')" by fastforce
  assume "entry \<in> set (fst (Schedule numID age entries s))"
  then have e: "entry \<in> set ordered" using o by simp
  obtain rest where rest: "mset ordered = mset rest" "debtIn numID ?ns rest \<le> MaxBytesPerCycle budget"
    using schedule_bound [OF assms(3) o] few_entries_no_slot [OF assms(1,2)] assms(4,5) by auto
  have sub: "set rest \<subseteq> set entries"
    using rest(1) schedule_bound [OF assms(3) o] by (metis set_mset_mono set_mset_mset)
  have "entry \<in> set rest" using e rest(1) by (metis set_mset_mset)
  then have "peDebtBytes entry \<in> set (map peDebtBytes (filter (\<lambda>e. namespaceFromLogicalKey
      (logicalKey numID (peLogicalKey e)) = ?ns) rest))" by simp
  moreover have "\<forall>x \<in> set (map peDebtBytes (filter (\<lambda>e. namespaceFromLogicalKey
      (logicalKey numID (peLogicalKey e)) = ?ns) rest)). 0 \<le> x"
    using assms(3) sub by auto
  ultimately have "peDebtBytes entry \<le> debtIn numID ?ns rest"
    unfolding debtIn_def by (rule elem_le_sum)
  then show False using rest(2) assms(6) by simp
qed

text \<open>The scheduler looks budgets up by what stands in the key behind the prefix byte, and these are bytes
  of a number: entries whose namespace has no budget are all admitted, in the order of their ranks.\<close>

lemma admit_without_budget:
  assumes "\<forall>e \<in> set entries.
      map_of (schedBudgets s) (namespaceFromLogicalKey (logicalKey numID (peLogicalKey e))) = None"
  shows "admit numID reserved entries consumed used s = (entries, s)"
  using assms by (induction entries arbitrary: consumed used) (simp_all add: overBudget_def)

lemma no_budget_of_row:
  assumes "numID x < 2 ^ 56" "list_all (\<lambda>name. take 1 name \<noteq> [CHR 0x00]) (map fst (schedBudgets s))"
  shows "map_of (schedBudgets s) (namespaceFromLogicalKey (logicalKey numID x)) = None"
proof -
  obtain rest where "namespaceFromLogicalKey (logicalKey numID x) = CHR 0x00 # rest"
    using planner_namespace_of_row assms(1) unfolding plannerNamespaceFromLogicalKey_def by blast
  moreover have "take 1 name \<noteq> [CHR 0x00]" if "name \<in> fst ` set (schedBudgets s)" for name
    using assms(2) that by (auto simp: list_all_iff)
  then have "CHR 0x00 # rest \<notin> fst ` set (schedBudgets s)" by fastforce
  ultimately show ?thesis by (simp add: map_of_eq_None_iff)
qed

text \<open>
  Claim C30. The budgets of databases bound nothing: as long as the numbers of entities are below
  \<open>2 ^ 56\<close>, a scheduler whose budgets are named by databases, none of which starts with a zero byte,
  admits every entry of every plan, however large, only reorders them, and never counts one as skipped.
\<close>

theorem database_budgets_bound_nothing:
  assumes "list_all (\<lambda>name. take 1 name \<noteq> [CHR 0x00]) (map fst (schedBudgets s))"
    and "\<And>e. e \<in> set entries \<Longrightarrow> numID (peLogicalKey e) < 2 ^ 56"
  shows "mset (fst (Schedule numID age entries s)) = mset entries \<and> snd (Schedule numID age entries s) = s"
proof -
  let ?scored = "sliceStable (ranksBefore numID) (map (scoreEntry age s) entries)"
  have m: "mset (map seEntry ?scored) = mset entries"
    by (simp add: image_mset.compositionality comp_def)
  then have "set (map seEntry ?scored) = set entries" by (metis set_mset_mset)
  then have "admit numID reserved (map seEntry ?scored) consumed used s = (map seEntry ?scored, s)"
    for reserved consumed used
    using assms(2) no_budget_of_row [OF _ assms(1)] by (intro admit_without_budget) blast
  then show ?thesis using m by (simp add: Schedule_def Let_def)
qed

definition demo_entry :: "string \<Rightarrow> int \<Rightarrow> prune_plan_entry" where
  "demo_entry i bytes = \<lparr>peCreatedAt = 0, peLogicalKey = N i, peHeadVersion = MVCCVersion 20 2,
     peFloorVersion = MVCCVersion 10 1, peNewFloorVersion = MVCCVersion 20 2,
     peVersionsToDelete = [MVCCVersion 10 1], peDebtBytes = bytes, peTombstoneDepth = 0\<rparr>"

theorem database_budgets_bound_nothing_witness:
  "mset (fst (Schedule (\<lambda>_. 7) (\<lambda>_. 0) [demo_entry ''neo4j:1'' 100, demo_entry ''neo4j:2'' 120]
        (NewPriorityScheduler (DefaultLifecycleConfig\<lparr>NamespaceBudgets :=
           [(''neo4j'', \<lparr>MaxBytesPerCycle = 1, MinSliceFraction = 0\<rparr>)]\<rparr>))))
      = {#demo_entry ''neo4j:1'' 100, demo_entry ''neo4j:2'' 120#}"
  using database_budgets_bound_nothing [of "NewPriorityScheduler (DefaultLifecycleConfig\<lparr>NamespaceBudgets :=
      [(''neo4j'', \<lparr>MaxBytesPerCycle = 1, MinSliceFraction = 0\<rparr>)]\<rparr>)"
      "[demo_entry ''neo4j:1'' 100, demo_entry ''neo4j:2'' 120]" "\<lambda>_. 7" "\<lambda>_. 0"]
  by (simp add: NewPriorityScheduler_def)

end
