(* ===== verification/LcPressure.thy ===== *)
theory LcPressure
  imports LcReaders
begin

text \<open>
  The pressure bands of the lifecycle manager (\<^verbatim>\<open>pkg/storage/lifecycle/pressure.go\<close>) and its
  emergency mode (\<^verbatim>\<open>emergency.go\<close>). An update reads the clock once and the pinned bytes once; a
  run is a list of such readings.
\<close>

section \<open>Pressure bands\<close>

datatype pressure_band = PressureNormal | PressureHigh | PressureCritical

record pressure_config =
  pcHighEnterBytes :: int
  pcHighExitBytes :: int
  pcCriticalEnterBytes :: int
  pcCriticalExitBytes :: int
  pcEnterWindow :: int
  pcExitWindow :: int

record pressure_controller =
  currentBand :: pressure_band
  pressureConfig :: pressure_config
  highEnterStart :: go_time
  highExitStart :: go_time
  criticalEnterStart :: go_time
  criticalExitStart :: go_time

definition NewPressureController :: "pressure_config \<Rightarrow> pressure_controller" where
  "NewPressureController config =
     \<lparr>currentBand = PressureNormal, pressureConfig = config, highEnterStart = zero_time,
      highExitStart = zero_time, criticalEnterStart = zero_time, criticalExitStart = zero_time\<rparr>"

lemma New_config [simp]: "pressureConfig (NewPressureController c) = c"
  by (simp add: NewPressureController_def)

text \<open>\<^verbatim>\<open>if start.IsZero() { start = now }\<close>\<close>

definition startedAt :: "go_time \<Rightarrow> go_time \<Rightarrow> go_time" where
  "startedAt now start = (if start = zero_time then now else start)"

definition is_critical :: "pressure_config \<Rightarrow> int \<Rightarrow> bool" where
  "is_critical c pinned \<longleftrightarrow> pinned \<ge> pcCriticalEnterBytes c \<and> pcCriticalEnterBytes c > 0"

definition is_high :: "pressure_config \<Rightarrow> int \<Rightarrow> bool" where
  "is_high c pinned \<longleftrightarrow> pinned \<ge> pcHighEnterBytes c \<and> pcHighEnterBytes c > 0"

text \<open>The step towards the critical band, in the normal and the high band alike.\<close>

definition enterCritical :: "go_time \<Rightarrow> pressure_controller \<Rightarrow> pressure_controller" where
  "enterCritical now p =
     (let start = startedAt now (criticalEnterStart p)
      in p\<lparr>criticalEnterStart := start,
           currentBand := (if time_sub now start \<ge> pcEnterWindow (pressureConfig p)
                           then PressureCritical else currentBand p)\<rparr>)"

definition Update :: "go_time \<Rightarrow> int \<Rightarrow> pressure_controller \<Rightarrow> pressure_controller" where
  "Update now pinned p =
     (let c = pressureConfig p; critical = is_critical c pinned; high = is_high c pinned;
          p1 = (case currentBand p of
              PressureNormal \<Rightarrow>
                if critical then enterCritical now p
                else if high then
                  let start = startedAt now (highEnterStart p)
                  in p\<lparr>highEnterStart := start,
                       currentBand := (if time_sub now start \<ge> pcEnterWindow c
                                       then PressureHigh else PressureNormal)\<rparr>
                else p
            | PressureHigh \<Rightarrow>
                if critical then (enterCritical now p)\<lparr>highExitStart := zero_time\<rparr>
                else if pinned \<le> pcHighExitBytes c then
                  let start = startedAt now (highExitStart p)
                  in p\<lparr>highExitStart := start,
                       currentBand := (if time_sub now start \<ge> pcExitWindow c
                                       then PressureNormal else PressureHigh)\<rparr>
                else p
            | PressureCritical \<Rightarrow>
                if pinned \<le> pcCriticalExitBytes c then
                  let start = startedAt now (criticalExitStart p)
                  in p\<lparr>criticalExitStart := start,
                       currentBand := (if time_sub now start \<ge> pcExitWindow c
                                       then if pinned > pcHighExitBytes c then PressureHigh
                                            else PressureNormal
                                       else PressureCritical)\<rparr>
                else p);
          p2 = (if critical then p1 else p1\<lparr>criticalEnterStart := zero_time\<rparr>)
      in (if high then p2 else p2\<lparr>highEnterStart := zero_time\<rparr>))"

definition CurrentBand :: "pressure_controller \<Rightarrow> pressure_band" where
  "CurrentBand p = currentBand p"

definition ShouldRejectLongSnapshot :: "int \<Rightarrow> int \<Rightarrow> pressure_controller \<Rightarrow> bool" where
  "ShouldRejectLongSnapshot snapshotAge maxLifetime p =
     (case CurrentBand p of
        PressureHigh \<Rightarrow> maxLifetime > 0 \<and> snapshotAge > maxLifetime
      | PressureCritical \<Rightarrow> maxLifetime > 0 \<and> snapshotAge > maxLifetime div 2
      | PressureNormal \<Rightarrow> False)"

text \<open>The results are \<open>graceful\<close> and \<open>hard\<close>.\<close>

definition ShouldExpireReader ::
    "go_time \<Rightarrow> snapshot_reader_info \<Rightarrow> int \<Rightarrow> pressure_controller \<Rightarrow> bool \<times> bool" where
  "ShouldExpireReader now reader maxLifetime p =
     (let age = time_sub now (StartTime reader)
      in case CurrentBand p of
           PressureHigh \<Rightarrow> (maxLifetime > 0 \<and> age > maxLifetime, False)
         | PressureCritical \<Rightarrow>
             (maxLifetime > 0 \<and> age > maxLifetime div 2, maxLifetime > 0 \<and> age > maxLifetime)
         | PressureNormal \<Rightarrow> (False, False))"

section \<open>Emergency mode\<close>

record emergency_config =
  ecSlopeThreshold :: rat
  ecMaxCPUShare :: rat
  ecMaxIOBudget :: int
  ecMaxRuntime :: int

record emergency_controller =
  emActive :: bool
  emActiveSince :: go_time
  debtHistory :: "(go_time \<times> int) list"
  emConfig :: emergency_config
  emCritical :: bool

definition NewEmergencyController :: "emergency_config \<Rightarrow> emergency_controller" where
  "NewEmergencyController config =
     \<lparr>emActive = False, emActiveSince = zero_time, debtHistory = [], emConfig = config,
      emCritical = False\<rparr>"

definition RecordDebt :: "go_time \<Rightarrow> int \<Rightarrow> emergency_controller \<Rightarrow> emergency_controller" where
  "RecordDebt now bytes e =
     (let h = debtHistory e @ [(now, bytes)]
      in e\<lparr>debtHistory := (if length h > 16 then drop (length h - 16) h else h)\<rparr>)"

definition SetCritical :: "bool \<Rightarrow> emergency_controller \<Rightarrow> emergency_controller" where
  "SetCritical critical e = e\<lparr>emCritical := critical\<rparr>"

definition Evaluate :: "go_time \<Rightarrow> emergency_controller \<Rightarrow> bool \<times> emergency_controller" where
  "Evaluate now e =
     (if \<not> emCritical e \<or> length (debtHistory e) < 2 then (False, e\<lparr>emActive := False\<rparr>)
      else
        let first = hd (debtHistory e); last = last (debtHistory e);
            deltaSeconds = seconds (time_sub (fst last) (fst first))
        in if deltaSeconds \<le> 0 then (emActive e, e)
           else
             let slope = float_div (float_of_int (int64 (snd last - snd first))) deltaSeconds;
                 active = (slope > ecSlopeThreshold (emConfig e));
                 e1 = e\<lparr>emActive := active\<rparr>;
                 e2 = (if active \<and> emActiveSince e1 = zero_time then e1\<lparr>emActiveSince := now\<rparr> else e1)
             in (active, if active then e2 else e2\<lparr>emActiveSince := zero_time\<rparr>))"

definition IsActive :: "emergency_controller \<Rightarrow> bool" where
  "IsActive e = emActive e"

text \<open>\<^verbatim>\<open>minDuration\<close>, \<^verbatim>\<open>minInt64\<close> and \<^verbatim>\<open>minFloat\<close>: a bound that is not positive is no bound.\<close>

definition minBound :: "'a::linordered_idom \<Rightarrow> 'a \<Rightarrow> 'a" where
  "minBound a b = (if b \<le> 0 \<or> a < b then a else b)"

text \<open>Go divides a duration by two towards zero; the lifetime is positive there.\<close>

definition AdjustCompactionBudget :: "lifecycle_config \<Rightarrow> emergency_controller \<Rightarrow> lifecycle_config" where
  "AdjustCompactionBudget basis e =
     (if \<not> IsActive e then basis
      else
        let c1 = basis\<lparr>MaxRuntimePerCycle :=
                     minBound (int64 (MaxRuntimePerCycle basis * 2)) (ecMaxRuntime (emConfig e)),
                   MaxIOBudgetBytesPerInterval :=
                     minBound (int64 (MaxIOBudgetBytesPerInterval basis * 2)) (ecMaxIOBudget (emConfig e)),
                   MaxCPUShare :=
                     minBound (float_mult (MaxCPUShare basis) (3 / 2)) (ecMaxCPUShare (emConfig e))\<rparr>
        in if MaxSnapshotLifetime c1 > 0
           then c1\<lparr>MaxSnapshotLifetime := MaxSnapshotLifetime c1 div 2\<rparr> else c1)"

section \<open>Runs of updates\<close>

definition updates :: "(go_time \<times> int) list \<Rightarrow> pressure_controller \<Rightarrow> pressure_controller" where
  "updates us p = fold (\<lambda>(now, pinned). Update now pinned) us p"

lemma updates_simps [simp]:
  "updates [] p = p" "updates ((now, pinned) # us) p = updates us (Update now pinned p)"
  "updates (us @ vs) p = updates vs (updates us p)"
  by (simp_all add: updates_def)

lemma Update_config [simp]: "pressureConfig (Update now pinned p) = pressureConfig p"
  by (simp add: Update_def enterCritical_def Let_def split: pressure_band.split)

lemma updates_config [simp]: "pressureConfig (updates us p) = pressureConfig p"
  by (induction us arbitrary: p) auto

text \<open>
  The start of an entry window is either unset or an earlier reading since which the threshold was
  exceeded without a gap. \<open>us\<close> are the readings so far.
\<close>

definition unbroken :: "(int \<Rightarrow> bool) \<Rightarrow> go_time \<Rightarrow> (go_time \<times> int) list \<Rightarrow> bool" where
  "unbroken P start us \<longleftrightarrow> start = zero_time
     \<or> (\<exists>xs pinned ys. us = xs @ (start, pinned) # ys \<and> P pinned \<and> (\<forall>y \<in> set ys. P (snd y)))"

lemma unbroken_keep: "unbroken P start us \<Longrightarrow> P pinned \<Longrightarrow> unbroken P start (us @ [(now, pinned)])"
  by (fastforce simp: unbroken_def)

lemma unbroken_start:
  "unbroken P start us \<Longrightarrow> P pinned \<Longrightarrow> unbroken P (startedAt now start) (us @ [(now, pinned)])"
  by (fastforce simp: unbroken_def startedAt_def)

lemma unbroken_zero [simp]: "unbroken P zero_time us"
  by (simp add: unbroken_def)

definition windows_ok :: "(go_time \<times> int) list \<Rightarrow> pressure_controller \<Rightarrow> bool" where
  "windows_ok us p \<longleftrightarrow> unbroken (is_critical (pressureConfig p)) (criticalEnterStart p) us
     \<and> unbroken (is_high (pressureConfig p)) (highEnterStart p) us"

lemma windows_ok_Update:
  assumes "windows_ok us p"
  shows "windows_ok (us @ [(now, pinned)]) (Update now pinned p)"
  using assms
  by (auto simp: windows_ok_def Update_def enterCritical_def Let_def
      intro: unbroken_keep unbroken_start split: pressure_band.split)

lemma windows_ok_updates: "windows_ok us p \<Longrightarrow> windows_ok (us @ vs) (updates vs p)"
proof (induction vs arbitrary: us p)
  case (Cons v vs)
  then show ?case
    using Cons.IH [OF windows_ok_Update [OF Cons.prems, of "fst v" "snd v"]] by (cases v) simp
qed simp

lemma windows_ok_New: "windows_ok us (updates us (NewPressureController c))"
  using windows_ok_updates [of "[]" "NewPressureController c" us]
  by (simp add: windows_ok_def NewPressureController_def)

text \<open>What an update may do to the band.\<close>

lemma Update_enters_critical:
  assumes "currentBand p \<noteq> PressureCritical" "currentBand (Update now pinned p) = PressureCritical"
  shows "is_critical (pressureConfig p) pinned
    \<and> time_sub now (startedAt now (criticalEnterStart p)) \<ge> pcEnterWindow (pressureConfig p)"
  using assms
  by (auto simp: Update_def enterCritical_def Let_def split: pressure_band.splits if_splits)

lemma Update_enters_high:
  assumes "currentBand p = PressureNormal" "currentBand (Update now pinned p) = PressureHigh"
  shows "is_high (pressureConfig p) pinned
    \<and> time_sub now (startedAt now (highEnterStart p)) \<ge> pcEnterWindow (pressureConfig p)"
  using assms by (auto simp: Update_def enterCritical_def Let_def split: if_splits)

section \<open>Hysteresis\<close>

lemma unbroken_startedAt:
  assumes "unbroken P start us" "P pinned"
  shows "\<exists>xs q ys. us @ [(now, pinned)] = xs @ (startedAt now start, q) # ys
    \<and> P q \<and> (\<forall>y \<in> set ys. P (snd y))"
proof (cases "start = zero_time")
  case True
  then show ?thesis using assms(2) by (intro exI [of _ us]) (simp add: startedAt_def)
next
  case False
  then obtain xs q ys where "us = xs @ (start, q) # ys" "P q" "\<forall>y \<in> set ys. P (snd y)"
    using assms(1) by (auto simp: unbroken_def)
  then show ?thesis
    using False assms(2)
    by (intro exI [of _ xs] exI [of _ q] exI [of _ "ys @ [(now, pinned)]"]) (auto simp: startedAt_def)
qed

text \<open>A reading at which no threshold is exceeded and both exits are allowed.\<close>

definition calm :: "pressure_config \<Rightarrow> int \<Rightarrow> bool" where
  "calm c pinned \<longleftrightarrow> \<not> is_critical c pinned \<and> \<not> is_high c pinned
     \<and> pinned \<le> pcHighExitBytes c \<and> pinned \<le> pcCriticalExitBytes c"

lemma calm_normal:
  "calm (pressureConfig p) pinned \<Longrightarrow> currentBand p = PressureNormal \<Longrightarrow>
     currentBand (Update now pinned p) = PressureNormal"
  by (simp add: calm_def Update_def Let_def)

lemma calm_high:
  assumes "calm (pressureConfig p) pinned" "currentBand p = PressureHigh"
  shows "highExitStart (Update now pinned p) = startedAt now (highExitStart p)
    \<and> currentBand (Update now pinned p) =
        (if time_sub now (startedAt now (highExitStart p)) \<ge> pcExitWindow (pressureConfig p)
         then PressureNormal else PressureHigh)"
  using assms by (simp add: calm_def Update_def Let_def)

lemma calm_critical:
  assumes "calm (pressureConfig p) pinned" "currentBand p = PressureCritical"
  shows "criticalExitStart (Update now pinned p) = startedAt now (criticalExitStart p)
    \<and> currentBand (Update now pinned p) =
        (if time_sub now (startedAt now (criticalExitStart p)) \<ge> pcExitWindow (pressureConfig p)
         then PressureNormal else PressureCritical)"
  using assms by (simp add: calm_def Update_def Let_def)

text \<open>The exit window that counts for the current band began at or before \<open>t\<close>.\<close>

definition leaving_since :: "go_time \<Rightarrow> pressure_controller \<Rightarrow> bool" where
  "leaving_since t p \<longleftrightarrow>
     (case currentBand p of
        PressureNormal \<Rightarrow> True
      | PressureHigh \<Rightarrow> highExitStart p \<noteq> zero_time \<and> highExitStart p \<le> t
      | PressureCritical \<Rightarrow> criticalExitStart p \<noteq> zero_time \<and> criticalExitStart p \<le> t)"

lemma startedAt_running [simp]: "start \<noteq> zero_time \<Longrightarrow> startedAt now start = start"
  by (simp add: startedAt_def)

lemma leaving_starts:
  assumes "calm (pressureConfig p) pinned" "highExitStart p \<le> t" "criticalExitStart p \<le> t" "t \<noteq> zero_time"
  shows "leaving_since t (Update t pinned p)"
proof (cases "currentBand p")
  case PressureNormal
  then show ?thesis using calm_normal [OF assms(1)] by (simp add: leaving_since_def)
next
  case PressureHigh
  then show ?thesis
    using calm_high [OF assms(1), of t] assms by (auto simp: leaving_since_def startedAt_def)
next
  case PressureCritical
  then show ?thesis
    using calm_critical [OF assms(1), of t] assms by (auto simp: leaving_since_def startedAt_def)
qed

lemma leaving_continues:
  assumes "calm (pressureConfig p) pinned" "leaving_since t p"
  shows "leaving_since t (Update now pinned p)"
  using assms calm_normal [OF assms(1), of now] calm_high [OF assms(1), of now]
    calm_critical [OF assms(1), of now]
  by (cases "currentBand p") (auto simp: leaving_since_def)

lemma leaving_updates:
  "(\<forall>u \<in> set us. calm (pressureConfig p) (snd u)) \<Longrightarrow> leaving_since t p \<Longrightarrow>
     leaving_since t (updates us p)"
  by (induction us arbitrary: p) (auto simp: leaving_continues)

lemma leaving_ends:
  assumes "calm (pressureConfig p) pinned" "leaving_since t p"
    "time_sub now t \<ge> pcExitWindow (pressureConfig p)"
  shows "currentBand (Update now pinned p) = PressureNormal"
proof -
  have "time_sub now start \<ge> pcExitWindow (pressureConfig p)" if "start \<le> t" for start
    using assms(3) that by (auto simp: time_sub_def)
  then show ?thesis
    using assms calm_normal [OF assms(1), of now] calm_high [OF assms(1), of now]
      calm_critical [OF assms(1), of now]
    by (cases "currentBand p") (auto simp: leaving_since_def)
qed

text \<open>
  The exit windows are never reset, so they debounce once: after a first short dip the next dip
  leaves the band at its first reading.
\<close>

definition dip_config :: pressure_config where
  "dip_config = \<lparr>pcHighEnterBytes = 50, pcHighExitBytes = 40, pcCriticalEnterBytes = 200,
     pcCriticalExitBytes = 160, pcEnterWindow = 0, pcExitWindow = 120\<rparr>"

lemma exit_window_is_not_reset:
  "map (\<lambda>n. currentBand (updates (take n [(1, 50), (10, 40), (11, 60), (500, 60), (600, 40)])
          (NewPressureController dip_config))) [1, 4, 5]
   = [PressureHigh, PressureHigh, PressureNormal]"
  by code_simp

text \<open>
  Claim C13. The band rises only after its threshold was exceeded at every reading of a full entry
  window, up to and including the reading at which it rises.
\<close>

theorem band_rises_after_window:
  assumes "currentBand (updates us (NewPressureController c)) \<noteq> PressureCritical"
    and "currentBand (updates (us @ [(t, pinned)]) (NewPressureController c)) = band"
    and "band = PressureCritical \<or> band = PressureHigh"
    and "band = PressureHigh \<longrightarrow> currentBand (updates us (NewPressureController c)) = PressureNormal"
  shows "\<exists>xs start q ys. us @ [(t, pinned)] = xs @ (start, q) # ys
    \<and> (\<forall>r \<in> set ((start, q) # ys). (if band = PressureCritical then is_critical c else is_high c) (snd r))
    \<and> time_sub t start \<ge> pcEnterWindow c"
proof -
  let ?p = "updates us (NewPressureController c)"
  have c: "pressureConfig ?p = c" by simp
  have w: "unbroken (is_critical c) (criticalEnterStart ?p) us" "unbroken (is_high c) (highEnterStart ?p) us"
    using windows_ok_New [of us c] by (simp_all add: windows_ok_def c)
  from assms(3) show ?thesis
  proof
    assume b: "band = PressureCritical"
    then have e: "is_critical c pinned" "time_sub t (startedAt t (criticalEnterStart ?p)) \<ge> pcEnterWindow c"
      using Update_enters_critical [of ?p t pinned] assms(1,2) c by auto
    show ?thesis
      using unbroken_startedAt [OF w(1) e(1), of t] e(2) b by auto
  next
    assume b: "band = PressureHigh"
    then have e: "is_high c pinned" "time_sub t (startedAt t (highEnterStart ?p)) \<ge> pcEnterWindow c"
      using Update_enters_high [of ?p t pinned] assms(2,4) c by auto
    show ?thesis
      using unbroken_startedAt [OF w(2) e(1), of t] e(2) b by auto
  qed
qed

theorem band_rises_after_window_witness:
  "\<exists>xs start q ys. [(1, 60), (20, 70)] @ [(40, 80)] = xs @ (start, q :: int) # ys
    \<and> time_sub 40 start \<ge> pcEnterWindow (dip_config\<lparr>pcEnterWindow := 30\<rparr>)"
proof -
  let ?c = "dip_config\<lparr>pcEnterWindow := 30\<rparr>"
  have b: "currentBand (updates [(1, 60), (20, 70)] (NewPressureController ?c)) = PressureNormal"
    "currentBand (updates ([(1, 60), (20, 70)] @ [(40, 80)]) (NewPressureController ?c)) = PressureHigh"
    by code_simp+
  have "\<exists>xs start q ys. [(1, 60), (20, 70)] @ [(40, 80)] = xs @ (start, q) # ys
      \<and> (\<forall>r \<in> set ((start, q) # ys). (if PressureHigh = PressureCritical then is_critical ?c else is_high ?c) (snd r))
      \<and> time_sub 40 start \<ge> pcEnterWindow ?c"
    by (rule band_rises_after_window [OF _ b(2)]) (simp_all only: b pressure_band.simps simp_thms)
  then show ?thesis by blast
qed

text \<open>
  Claim C12. Pressure is released: whatever the state, once the pinned bytes stay below the exit and
  entry thresholds for an exit window, the band is normal.
\<close>

theorem pressure_is_released:
  assumes "\<forall>b \<in> snd ` set ((t0, b0) # us @ [(t1, b1)]). calm (pressureConfig p) b"
    and "highExitStart p \<le> t0" "criticalExitStart p \<le> t0" "t0 \<noteq> zero_time"
    and "time_sub t1 t0 \<ge> pcExitWindow (pressureConfig p)"
  shows "currentBand (updates ((t0, b0) # us @ [(t1, b1)]) p) = PressureNormal"
proof -
  have "leaving_since t0 (updates us (Update t0 b0 p))"
    using assms by (intro leaving_updates leaving_starts) auto
  then show ?thesis
    using leaving_ends [of "updates us (Update t0 b0 p)" b1 t0 t1] assms by simp
qed

theorem pressure_is_released_witness:
  "currentBand (updates ((10, 40) # [(60, 30)] @ [(130, 0)])
     ((NewPressureController dip_config)\<lparr>currentBand := PressureCritical\<rparr>)) = PressureNormal"
proof (rule pressure_is_released)
  show "\<forall>b \<in> snd ` set ((10, 40) # [(60, 30)] @ [(130, 0)]).
      calm (pressureConfig ((NewPressureController dip_config)\<lparr>currentBand := PressureCritical\<rparr>)) b"
    by (simp add: calm_def is_critical_def is_high_def dip_config_def)
qed (simp_all add: NewPressureController_def zero_time_def dip_config_def time_sub_def)

end
