(* ===== verification/LcStore.thy ===== *)
theory LcStore
  imports LcApply
begin

text \<open>
  The contract between the lifecycle manager and its storage (the interface
  \<^verbatim>\<open>LifecycleStorageEngine\<close> of \<^verbatim>\<open>pkg/storage/lifecycle/planner.go\<close>): the locale \<open>prune_storage\<close>, in
  which the planner and the applier are proved. \<open>headAt\<close> and \<open>chainAt\<close> are what the storage holds for
  a row. LcBadger interprets it on the Badger functions.
\<close>

section \<open>The contract\<close>

locale prune_storage =
  fixes eng :: "'s lifecycle_storage"
    and headAt :: "'s \<Rightarrow> ent \<Rightarrow> mvcc_head option"
    and chainAt :: "'s \<Rightarrow> ent \<Rightarrow> mvcc_version list"
  assumes heads: "IterateMVCCHeads eng s = Inr hs \<Longrightarrow>
      distinct (map fst hs) \<and> (\<forall>x head. (x, head) \<in> set hs \<longleftrightarrow> headAt s x = Some head)"
    and chain: "IterateMVCCVersions eng s x = Inr versions \<Longrightarrow> map viVersion versions = chainAt s x"
    and chain_sorted: "sorted_wrt (<) (chainAt s x)"
    and read_head: "ReadMVCCHead eng s x = Inr head \<Longrightarrow> headAt s x = Some head"
    and delete_version: "DeleteMVCCVersion eng x v s = (r, s') \<Longrightarrow>
      s' = s \<and> r \<noteq> None \<or> r = None \<and> headAt s' = headAt s
        \<and> chainAt s' = (chainAt s)(x := filter (\<lambda>u. u \<noteq> keyVersion v) (chainAt s x))"
    and write_head: "WriteMVCCHead eng x head s = (r, s') \<Longrightarrow>
      s' = s \<and> r \<noteq> None \<or> r = None \<and> chainAt s' = chainAt s
        \<and> headAt s' = (headAt s)(x := Some (normalizeMVCCHead head))"
begin

lemma deleteVersions_effect:
  "deleteVersions eng x vs s = (failed, n, s') \<Longrightarrow>
     headAt s' = headAt s \<and> (\<forall>y. y \<noteq> x \<longrightarrow> chainAt s' y = chainAt s y)
     \<and> (\<not> failed \<longrightarrow> n = length vs
         \<and> chainAt s' x = filter (\<lambda>u. u \<notin> keyVersion ` set vs) (chainAt s x))"
proof (induction vs arbitrary: s failed n s')
  case (Cons v vs)
  obtain r s1 where d: "DeleteMVCCVersion eng x v s = (r, s1)" by fastforce
  obtain f m s2 where rest: "deleteVersions eng x vs s1 = (f, m, s2)" by (cases "deleteVersions eng x vs s1")
  show ?case
  proof (cases r)
    case None
    then show ?thesis
      using Cons.prems d rest delete_version [OF d] Cons.IH [OF rest] by auto
  next
    case (Some e)
    then show ?thesis
      using Cons.prems d rest delete_version [OF d] Cons.IH [OF rest] by auto
  qed
qed auto

lemma finishKey_frame:
  assumes "finishKey eng entry head s = (r, n, s')" "y \<noteq> peLogicalKey entry"
  shows "headAt s' y = headAt s y \<and> chainAt s' y = chainAt s y"
proof -
  obtain f m s1 where d: "deleteVersions eng (peLogicalKey entry) (peVersionsToDelete entry) s = (f, m, s1)"
    by (cases "deleteVersions eng (peLogicalKey entry) (peVersionsToDelete entry) s")
  obtain e s2 where w: "WriteMVCCHead eng (peLogicalKey entry)
      (head\<lparr>FloorVersion := peNewFloorVersion entry\<rparr>) s1 = (e, s2)" by fastforce
  show ?thesis
    using assms d w deleteVersions_effect [OF d] write_head [OF w]
    by (auto simp: finishKey_def split: if_splits option.splits)
qed

lemma finishKey_effect:
  assumes "finishKey eng entry head s = (Finished, n, s')"
  shows "headAt s' (peLogicalKey entry) =
      Some (normalizeMVCCHead (head\<lparr>FloorVersion := peNewFloorVersion entry\<rparr>))
    \<and> chainAt s' (peLogicalKey entry) =
        filter (\<lambda>u. u \<notin> keyVersion ` set (peVersionsToDelete entry)) (chainAt s (peLogicalKey entry))
    \<and> n = length (peVersionsToDelete entry)"
proof -
  obtain f m s1 where d: "deleteVersions eng (peLogicalKey entry) (peVersionsToDelete entry) s = (f, m, s1)"
    by (cases "deleteVersions eng (peLogicalKey entry) (peVersionsToDelete entry) s")
  obtain e s2 where w: "WriteMVCCHead eng (peLogicalKey entry)
      (head\<lparr>FloorVersion := peNewFloorVersion entry\<rparr>) s1 = (e, s2)" by fastforce
  show ?thesis
    using assms d w deleteVersions_effect [OF d] write_head [OF w]
    by (auto simp: finishKey_def split: if_splits option.splits)
qed

text \<open>A turn touches the row of its entry alone, and counts a key exactly when it finished it.\<close>

lemma applyTurn_effect:
  assumes "applyTurn numID eng c turn entry (result, backoff, s) = ((result', backoff', s'), stop)"
  shows "(\<forall>y. y \<noteq> peLogicalKey entry \<longrightarrow> headAt s' y = headAt s y \<and> chainAt s' y = chainAt s y)
    \<and> (KeysProcessed result' = KeysProcessed result
       \<or> KeysProcessed result' = KeysProcessed result + 1
         \<and> (\<exists>head n. checkFence eng entry s = FencePassed head
              \<and> finishKey eng entry head s = (Finished, n, s')))"
proof -
  consider (same) "s' = s" "KeysProcessed result' = KeysProcessed result"
    | (run) head r n where "checkFence eng entry s = FencePassed head"
        "finishKey eng entry head s = (r, n, s')"
        "KeysProcessed result' = KeysProcessed result + (if r = Finished then 1 else 0)"
    using assms
    by (auto simp: applyTurn_def Let_def split: if_splits fence.splits finish.splits prod.splits)
  then show ?thesis
  proof cases
    case run
    then show ?thesis using finishKey_frame by (cases r) auto
  qed auto
qed

definition finished :: "prune_plan_entry \<Rightarrow> 's \<Rightarrow> 's \<Rightarrow> bool" where
  "finished entry s s' \<longleftrightarrow>
     (\<exists>head. headAt s (peLogicalKey entry) = Some head
        \<and> Compare (Version head) (peHeadVersion entry) = 0
        \<and> headAt s' (peLogicalKey entry) =
            Some (normalizeMVCCHead (head\<lparr>FloorVersion := peNewFloorVersion entry\<rparr>))
        \<and> chainAt s' (peLogicalKey entry) =
            filter (\<lambda>u. u \<notin> keyVersion ` set (peVersionsToDelete entry)) (chainAt s (peLogicalKey entry)))"

lemma checkFence_head:
  "checkFence eng entry s = FencePassed head \<Longrightarrow>
     headAt s (peLogicalKey entry) = Some head \<and> Compare (Version head) (peHeadVersion entry) = 0"
  by (auto simp: checkFence_def split: sum.splits if_splits intro: read_head)

lemma applyEntries_keys:
  "KeysProcessed (fst (applyEntries numID eng c turns i entries st)) \<le> KeysProcessed (fst st) + length entries"
proof (induction entries arbitrary: i st)
  case (Cons entry entries)
  obtain r b s where st: "st = (r, b, s)" by (cases st)
  obtain r1 b1 s1 stop where t: "applyTurn numID eng c (turns i) entry (r, b, s) = ((r1, b1, s1), stop)"
    by (cases "applyTurn numID eng c (turns i) entry (r, b, s)") auto
  show ?case
    using applyTurn_effect [OF t] Cons.IH [of "i + 1" "(r1, b1, s1)"] t st by (cases stop) auto
qed simp

text \<open>A pass that counts every entry finished every row it was given.\<close>

lemma applyEntries_all:
  assumes "KeysProcessed (fst (applyEntries numID eng c turns i entries st)) = KeysProcessed (fst st) + length entries"
    and "distinct (map peLogicalKey entries)"
  shows "(\<forall>entry \<in> set entries. finished entry (snd (snd st)) (snd (snd (applyEntries numID eng c turns i entries st))))
    \<and> (\<forall>y. y \<notin> peLogicalKey ` set entries \<longrightarrow>
         headAt (snd (snd (applyEntries numID eng c turns i entries st))) y = headAt (snd (snd st)) y
         \<and> chainAt (snd (snd (applyEntries numID eng c turns i entries st))) y = chainAt (snd (snd st)) y)"
  using assms
proof (induction entries arbitrary: i st)
  case (Cons entry entries)
  obtain r b s where st: "st = (r, b, s)" by (cases st)
  obtain r1 b1 s1 stop where t: "applyTurn numID eng c (turns i) entry (r, b, s) = ((r1, b1, s1), stop)"
    by (cases "applyTurn numID eng c (turns i) entry (r, b, s)") auto
  let ?rest = "\<lambda>i st. applyEntries numID eng c turns i entries st"
  let ?s' = "snd (snd (applyEntries numID eng c turns i (entry # entries) st))"
  have run: "\<not> outOfBudget c (turns i) entry r"
    using Cons.prems(1) st by auto
  have k: "KeysProcessed r1 = KeysProcessed r + 1 \<and> (stop \<longrightarrow> entries = [])
      \<and> applyEntries numID eng c turns i (entry # entries) st = ?rest (i + 1) (r1, b1, s1)"
    using Cons.prems(1) run st t applyTurn_effect [OF t]
      applyEntries_keys [of numID c turns "i + 1" entries "(r1, b1, s1)"]
    by (cases stop) auto
  obtain head n where h: "checkFence eng entry s = FencePassed head"
      "finishKey eng entry head s = (Finished, n, s1)"
    using applyTurn_effect [OF t] k by auto
  have IH: "(\<forall>entry \<in> set entries. finished entry s1 ?s')
      \<and> (\<forall>y. y \<notin> peLogicalKey ` set entries \<longrightarrow> headAt ?s' y = headAt s1 y \<and> chainAt ?s' y = chainAt s1 y)"
    using Cons.IH [of "i + 1" "(r1, b1, s1)"] Cons.prems k st by simp
  have frame: "\<forall>y. y \<noteq> peLogicalKey entry \<longrightarrow> headAt s1 y = headAt s y \<and> chainAt s1 y = chainAt s y"
    using applyTurn_effect [OF t] by blast
  have "finished entry s ?s'"
    using checkFence_head [OF h(1)] finishKey_effect [OF h(2)] IH Cons.prems(2)
    by (auto simp: finished_def)
  moreover have "finished e s ?s'" if "e \<in> set entries" for e
  proof -
    have "peLogicalKey e \<noteq> peLogicalKey entry" using that Cons.prems(2) by (auto simp: image_iff)
    then show ?thesis using IH that frame by (auto simp: finished_def)
  qed
  ultimately show ?case
    using IH frame st by auto
qed simp

text \<open>The rows of a storage whose versions are well formed: the floor, the chain and the head's
  version are in order, and their times fit \<^verbatim>\<open>UnixNano\<close>.\<close>

definition ordered_rows :: "'s \<Rightarrow> bool" where
  "ordered_rows s \<longleftrightarrow> (\<forall>x head. headAt s x = Some head \<longrightarrow>
     norm_version (Version head) \<and> norm_version (FloorVersion head) \<and> FloorVersion head \<le> Version head
     \<and> (\<forall>v \<in> set (chainAt s x). norm_version v \<and> FloorVersion head \<le> v \<and> v \<le> Version head))"

lemma planned_keys:
  assumes "planHeads numID eng s p ttlBound floorFor created hs = Inr (n, entries)" "distinct (map fst hs)"
  shows "distinct (map peLogicalKey entries) \<and> peLogicalKey ` set entries \<subseteq> fst ` set hs"
  using assms
proof (induction hs arbitrary: n entries)
  case (Cons h hs)
  obtain x head where h: "h = (x, head)" by fastforce
  show ?case
  proof (cases "shouldScanKey p (logicalKey numID x)")
    case False
    then show ?thesis using Cons h by auto
  next
    case True
    then obtain versions m es where v: "IterateMVCCVersions eng s x = Inr versions"
      "planHeads numID eng s p ttlBound floorFor created hs = Inr (m, es)"
      using Cons.prems(1) h by (auto simp: Let_def split: sum.splits)
    have IH: "distinct (map peLogicalKey es) \<and> peLogicalKey ` set es \<subseteq> fst ` set hs"
      using Cons.IH [OF v(2)] Cons.prems(2) by simp
    let ?o = "planKey (plConfig p) ttlBound (floorFor (plannerNamespaceFromLogicalKey (logicalKey numID x)))
        (created x) x head versions"
    have "entries = (case ?o of None \<Rightarrow> es | Some entry \<Rightarrow> entry # es)"
      using Cons.prems(1) h True v by (auto simp: Let_def split: option.splits)
    moreover have "x \<notin> peLogicalKey ` set es"
      using IH Cons.prems(2) h by auto
    ultimately show ?thesis
      using IH h planKey_key by (auto split: option.splits)
  qed
qed simp

lemma planned_all:
  assumes "planHeads numID eng s p ttlBound floorFor created hs = Inr (n, entries)"
    and "(x, head) \<in> set hs" "shouldScanKey p (logicalKey numID x)"
  shows "\<exists>versions. IterateMVCCVersions eng s x = Inr versions
    \<and> (case planKey (plConfig p) ttlBound (floorFor (plannerNamespaceFromLogicalKey (logicalKey numID x)))
            (created x) x head versions of
         None \<Rightarrow> True | Some entry \<Rightarrow> entry \<in> set entries)"
  using assms
proof (induction hs arbitrary: n entries)
  case (Cons h hs)
  obtain y head' where h: "h = (y, head')" by fastforce
  show ?case
  proof (cases "shouldScanKey p (logicalKey numID y)")
    case False
    then show ?thesis using Cons h by auto
  next
    case True
    then obtain versions m es where v: "IterateMVCCVersions eng s y = Inr versions"
      "planHeads numID eng s p ttlBound floorFor created hs = Inr (m, es)"
      using Cons.prems(1) h by (auto simp: Let_def split: sum.splits)
    let ?o = "planKey (plConfig p) ttlBound (floorFor (plannerNamespaceFromLogicalKey (logicalKey numID y)))
        (created y) y head' versions"
    have e: "entries = (case ?o of None \<Rightarrow> es | Some entry \<Rightarrow> entry # es)"
      using Cons.prems(1) h True v by (auto simp: Let_def split: option.splits)
    show ?thesis
    proof (cases "(x, head) \<in> set hs")
      case True
      then show ?thesis
        using Cons.IH [OF v(2) _ Cons.prems(3)] e by (auto split: option.splits)
    next
      case False
      then have "x = y" "head = head'" using Cons.prems(2) h by auto
      then show ?thesis using v(1) e by (auto split: option.split)
    qed
  qed
qed simp

lemma replan_row:
  assumes "ordered_rows s" "headAt s x = Some head" "IterateMVCCVersions eng s x = Inr versions"
    and "planKey c ttlBound nsFloor created x head versions = Some entry" "finished entry s s'"
    and "norm_version ttlBound" "norm_version nsFloor"
    and "headAt s' x = Some head'" "IterateMVCCVersions eng s' x = Inr versions'"
  shows "planKey c ttlBound nsFloor created' x head' versions' = None"
proof -
  have x: "peLogicalKey entry = x"
    using assms(4) by (auto simp: planKey_Some Let_def)
  have row: "norm_version (Version head)" "norm_version (FloorVersion head)" "FloorVersion head \<le> Version head"
    "\<forall>v \<in> set (map viVersion versions). norm_version v \<and> FloorVersion head \<le> v \<and> v \<le> Version head"
    using assms(1,2) chain [OF assms(3)] by (auto simp: ordered_rows_def)
  have ne: "versions \<noteq> []" using assms(4) by (simp add: planKey_Some)
  have nf: "norm_version (peNewFloorVersion entry)"
    using planKey_floor [OF assms(4,6,7) row(2)] row(2,4) assms(6,7) maxVersionsBound_in [OF ne, of c]
    by (auto simp: max_def min_def)
  have del: "keyVersion ` set (peVersionsToDelete entry) = set (peVersionsToDelete entry)"
  proof -
    have "\<forall>v \<in> set (peVersionsToDelete entry). norm_version v"
      using assms(4) row(4) by (auto simp: planKey_Some Let_def)
    then show ?thesis by force
  qed
  have h': "head' = normalizeMVCCHead (head\<lparr>FloorVersion := peNewFloorVersion entry\<rparr>)"
    using assms(5,2,8) x by (auto simp: finished_def)
  show ?thesis
  proof (rule replan_nothing [OF assms(4,6,7) row(2,4,1,3)])
    show "sorted_wrt (<) (map viVersion versions)"
      using chain [OF assms(3)] chain_sorted by simp
    show "map viVersion versions' =
        filter (\<lambda>u. u \<notin> set (peVersionsToDelete entry)) (map viVersion versions)"
      using assms(5) x chain [OF assms(3)] chain [OF assms(9)] del by (auto simp: finished_def)
    show "Version head' = Version head" "FloorVersion head' = peNewFloorVersion entry"
      using h' nf by (simp_all add: normalizeMVCCHead_def norm_version_not_zero)
  qed
qed

text \<open>After a full scan whose plan was carried out, planning again finds nothing to do.\<close>

lemma cycle_converges:
  assumes rows: "ordered_rows s"
    and plan: "Plan numID eng now created fin safeFloor s p0 = (Inr plan, p)"
    and full: "\<forall>x. shouldScanKey p (logicalKey numID x)"
    and n: "norm_version (TTLBoundVersion now (lcTTL (plConfig p)))"
      "\<forall>f ns. safeFloor = Some f \<longrightarrow> norm_version (f ns)"
    and perm: "mset entries = mset (ppEntries plan)"
    and run: "Apply numID eng c turns (Some (plan\<lparr>ppEntries := entries\<rparr>)) backoff s = (result, backoff', s')"
    and all: "KeysProcessed result = length entries"
    and again: "Plan numID eng now created' fin' safeFloor s' p = (Inr plan', p')"
  shows "ppEntries plan' = []"
proof -
  let ?ttl = "TTLBoundVersion now (lcTTL (plConfig p))"
  let ?floor = "case safeFloor of Some f \<Rightarrow> f | None \<Rightarrow> (\<lambda>_. maxMVCCVersion)"
  have nf: "norm_version (?floor ns)" for ns
    using n(2) by (cases safeFloor) auto
  obtain hs where hs: "IterateMVCCHeads eng s = Inr hs"
      and ph: "planHeads numID eng s p ?ttl ?floor created hs = Inr (ppKeysScanned plan, ppEntries plan)"
    using plan by (auto simp: Plan_def Let_def split: sum.splits)
  obtain hs' where hs': "IterateMVCCHeads eng s' = Inr hs'"
      and ph': "planHeads numID eng s' (p\<lparr>plCycleCount := plCycleCount p + 1\<rparr>) ?ttl ?floor created' hs'
        = Inr (ppKeysScanned plan', ppEntries plan')"
    using again by (auto simp: Plan_def Let_def split: sum.splits)
  have keys: "distinct (map peLogicalKey entries)" "set entries = set (ppEntries plan)"
    using planned_keys [OF ph] heads [OF hs] perm
    by (auto dest: mset_eq_setD) (metis mset_map distinct_count_atmost_1 mset_eq_imp_distinct_iff)
  have fin: "\<forall>entry \<in> set entries. finished entry s s'"
      "\<forall>y. y \<notin> peLogicalKey ` set entries \<longrightarrow> headAt s' y = headAt s y \<and> chainAt s' y = chainAt s y"
    using applyEntries_all [of numID c turns 0 entries "(no_result, backoff, s)"] run all keys(1)
    by (simp_all add: Apply_def no_result_def)
  have False if e': "entry' \<in> set (ppEntries plan')" for entry'
  proof -
    obtain x head' versions' where x: "(x, head') \<in> set hs'" "IterateMVCCVersions eng s' x = Inr versions'"
        "planKey (plConfig p) ?ttl (?floor (plannerNamespaceFromLogicalKey (logicalKey numID x)))
           (created' x) x head' versions' = Some entry'"
      using planHeads_entry [OF ph' e'] by auto
    then have h': "headAt s' x = Some head'" using heads [OF hs'] by blast
    show False
    proof (cases "x \<in> peLogicalKey ` set entries")
      case True
      then obtain entry where e: "entry \<in> set (ppEntries plan)" "peLogicalKey entry = x"
        using keys(2) by auto
      then obtain y head versions where y: "(y, head) \<in> set hs" "IterateMVCCVersions eng s y = Inr versions"
          "planKey (plConfig p) ?ttl (?floor (plannerNamespaceFromLogicalKey (logicalKey numID y)))
             (created y) y head versions = Some entry"
        using planHeads_entry [OF ph] by blast
      then have "y = x" using e(2) by (auto simp: planKey_Some Let_def)
      moreover have "headAt s y = Some head" using y(1) heads [OF hs] by blast
      ultimately show False
        using replan_row [OF rows _ _ _ _ n(1) nf h' x(2)] y e(1) keys(2) fin(1) x(3) by fastforce
    next
      case False
      then have same: "headAt s x = Some head'" "chainAt s' x = chainAt s x"
        using fin(2) h' by auto
      then have "(x, head') \<in> set hs" using heads [OF hs] by blast
      then obtain versions where v: "IterateMVCCVersions eng s x = Inr versions"
          "case planKey (plConfig p) ?ttl (?floor (plannerNamespaceFromLogicalKey (logicalKey numID x)))
             (created x) x head' versions of None \<Rightarrow> True | Some entry \<Rightarrow> entry \<in> set (ppEntries plan)"
        using planned_all [OF ph] full by blast
      have "map viVersion versions' = map viVersion versions"
        using chain [OF v(1)] chain [OF x(2)] same(2) by simp
      then obtain entry where e: "planKey (plConfig p) ?ttl (?floor (plannerNamespaceFromLogicalKey (logicalKey numID x)))
             (created x) x head' versions = Some entry"
        using planKey_chain [OF _ x(3)] by blast
      then have "entry \<in> set entries" using v(2) keys(2) by simp
      then show False using planKey_key [OF e] False by blast
    qed
  qed
  then show ?thesis by (cases "ppEntries plan'") auto
qed

end

end
