(* ===== verification/LcBadger.thy ===== *)
theory LcBadger
  imports LcStore
begin

text \<open>
  The storage the lifecycle manager runs on (\<^verbatim>\<open>pkg/storage/badger_lifecycle.go\<close> and the helpers it
  calls in \<^verbatim>\<open>badger_mvcc.go\<close>), what a pruned row reads as afterwards, and how the pruning goes wrong:
  floors between two versions, changes between the fence check and the head write, readers whose
  namespace is not found.

  Every call is a transaction of the key-value store of its own. \<open>kvReject\<close> says whether the store
  refuses a commit, \<open>valueSize\<close> is the size of a stored value.
\<close>

section \<open>The Badger storage\<close>

fun traverse :: "('a \<Rightarrow> 'e + 'b) \<Rightarrow> 'a list \<Rightarrow> 'e + 'b list" where
  "traverse f [] = Inr []"
| "traverse f (x # xs) =
     (case f x of
        Inl e \<Rightarrow> Inl e
      | Inr y \<Rightarrow> (case traverse f xs of Inl e \<Rightarrow> Inl e | Inr ys \<Rightarrow> Inr (y # ys)))"

definition withView :: "(btxn \<Rightarrow> storage_error + 'a) \<Rightarrow> engine \<Rightarrow> storage_error + 'a" where
  "withView f b = (if engineClosed b then Inl ErrStorageClosed else f (begin_txn (edb b)))"

definition withUpdate :: "(btxn \<Rightarrow> db \<Rightarrow> storage_error option) \<Rightarrow> (btxn \<Rightarrow> btxn) \<Rightarrow> engine
    \<Rightarrow> storage_error option \<times> engine" where
  "withUpdate kvReject f b =
     (if engineClosed b then (Some ErrStorageClosed, b)
      else let t = f (begin_txn (edb b))
           in case kvReject t (edb b) of
                Some e \<Rightarrow> (Some e, b)
              | None \<Rightarrow> (None, b\<lparr>edb := db_commit (edb b) (writes t)\<rparr>))"

definition headRows :: "btxn \<Rightarrow> ent list" where
  "headRows t = concat (map (\<lambda>k. case k of HeadKey x \<Rightarrow> [x] | _ \<Rightarrow> []) (txn_keys t))"

definition is_node :: "ent \<Rightarrow> bool" where
  "is_node x = (case x of N _ \<Rightarrow> True | E _ \<Rightarrow> False)"

text \<open>Nodes first, then edges, each in the order of their numbers.\<close>

definition iterateMVCCHeads :: "(ent \<Rightarrow> u64) \<Rightarrow> engine \<Rightarrow> storage_error + (ent \<times> mvcc_head) list" where
  "iterateMVCCHeads numID = withView (\<lambda>t.
     traverse (\<lambda>x. map_sum id (Pair x) (loadHeadInTxn t x))
       (sort_key numID (filter is_node (headRows t))
        @ sort_key numID (filter (\<lambda>x. \<not> is_node x) (headRows t))))"

definition iterateMVCCVersions :: "(val \<Rightarrow> int) \<Rightarrow> engine \<Rightarrow> ent \<Rightarrow> storage_error + version_info list" where
  "iterateMVCCVersions valueSize b x = withView (\<lambda>t.
     traverse (\<lambda>v. case txn_get t (VersionKey x v) of
         Some (Record ob tombstoned) \<Rightarrow>
           Inr \<lparr>viVersion = v, viTombstoned = tombstoned, viSizeBytes = valueSize (Record ob tombstoned)\<rparr>
       | _ \<Rightarrow> Inl ErrDecode) (sort (versionsOf t x))) b"

definition deleteMVCCVersion :: "(btxn \<Rightarrow> db \<Rightarrow> storage_error option) \<Rightarrow> ent \<Rightarrow> mvcc_version \<Rightarrow> engine
    \<Rightarrow> storage_error option \<times> engine" where
  "deleteMVCCVersion kvReject x version =
     withUpdate kvReject (\<lambda>t. txn_delete t (VersionKey x (keyVersion version)))"

text \<open>\<^verbatim>\<open>writeMVCCHeadForLogicalKeyInTxn\<close> writes the head as given.\<close>

definition writeMVCCHead :: "(btxn \<Rightarrow> db \<Rightarrow> storage_error option) \<Rightarrow> ent \<Rightarrow> mvcc_head \<Rightarrow> engine
    \<Rightarrow> storage_error option \<times> engine" where
  "writeMVCCHead kvReject x head =
     withUpdate kvReject
       (\<lambda>t. writeHeadWithFloorInTxn t x (Version head) (Tombstoned head) (FloorVersion head))"

definition readMVCCHead :: "engine \<Rightarrow> ent \<Rightarrow> storage_error + mvcc_head" where
  "readMVCCHead b x = withView (\<lambda>t. loadHeadInTxn t x) b"

definition badgerStorage :: "(ent \<Rightarrow> u64) \<Rightarrow> (val \<Rightarrow> int) \<Rightarrow> (btxn \<Rightarrow> db \<Rightarrow> storage_error option)
    \<Rightarrow> engine lifecycle_storage" where
  "badgerStorage numID valueSize kvReject =
     \<lparr>IterateMVCCHeads = iterateMVCCHeads numID, IterateMVCCVersions = iterateMVCCVersions valueSize,
      DeleteMVCCVersion = deleteMVCCVersion kvReject, WriteMVCCHead = writeMVCCHead kvReject,
      ReadMVCCHead = readMVCCHead\<rparr>"

section \<open>It keeps the contract\<close>

text \<open>What the store holds for a row.\<close>

definition storedHead :: "engine \<Rightarrow> ent \<Rightarrow> mvcc_head option" where
  "storedHead b x = (case kv_get (kv (edb b)) (HeadKey x) of Some (Head h) \<Rightarrow> Some h | _ \<Rightarrow> None)"

definition storedChain :: "engine \<Rightarrow> ent \<Rightarrow> mvcc_version list" where
  "storedChain b x = sort (versionsOf (begin_txn (edb b)) x)"

lemma traverse_map:
  "traverse f xs = Inr ys \<Longrightarrow> (\<And>x y. f x = Inr y \<Longrightarrow> g y = x) \<Longrightarrow> map g ys = xs"
  by (induction xs arbitrary: ys) (auto split: sum.splits)

lemma traverse_set:
  "traverse f xs = Inr ys \<Longrightarrow> y \<in> set ys \<longleftrightarrow> (\<exists>x \<in> set xs. f x = Inr y)"
  by (induction xs arbitrary: ys) (auto split: sum.splits)

lemma map_sum_Pair: "map_sum id (Pair y) r = Inr (x, h) \<longleftrightarrow> y = x \<and> r = Inr h"
  by (cases r) auto

lemma set_headRows: "x \<in> set (headRows t) \<longleftrightarrow> txn_get t (HeadKey x) \<noteq> None"
proof -
  have "x \<in> set (headRows t) \<longleftrightarrow> HeadKey x \<in> set (txn_keys t)"
    by (force simp: headRows_def split: key.splits)
  then show ?thesis by (simp add: set_txn_keys)
qed

lemma distinct_headRows: "distinct (headRows t)"
proof -
  let ?f = "\<lambda>k. case k of HeadKey x \<Rightarrow> [x] | _ \<Rightarrow> []"
  have "distinct ks \<Longrightarrow> distinct (concat (map ?f ks))" for ks
  proof (induction ks)
    case (Cons k ks)
    have "HeadKey x \<in> set ks" if "x \<in> set (concat (map ?f ks))" for x
      using that by (force split: key.splits)
    then show ?case using Cons by (cases k) auto
  qed simp
  then show ?thesis by (simp add: headRows_def txn_keys_def)
qed

lemma loadHeadInTxn_stored:
  "loadHeadInTxn (begin_txn (edb b)) x = Inr h \<longleftrightarrow> storedHead b x = Some h"
  by (auto simp: loadHeadInTxn_def storedHead_def split: option.splits val.splits)

lemma withUpdate_cases:
  assumes "withUpdate kvReject f b = (r, b')"
  shows "b' = b \<and> r \<noteq> None
    \<or> r = None \<and> b' = b\<lparr>edb := db_commit (edb b) (writes (f (begin_txn (edb b))))\<rparr>"
  using assms by (auto simp: withUpdate_def Let_def split: if_splits option.splits)

lemma base_begin: "base (begin_txn d) = kv d"
  by (simp add: begin_txn_def)

lemma get_after_delete:
  "kv_get (kv (db_commit d (writes (txn_delete (begin_txn d) k)))) = (kv_get (kv d))(k := None)"
  by (rule ext) (simp add: commit_unchanged base_begin)

lemma get_after_head:
  "kv_get (kv (db_commit d (writes (writeHeadWithFloorInTxn (begin_txn d) x v tomb f)))) =
     (kv_get (kv d))(HeadKey x \<mapsto> Head (normalizeMVCCHead \<lparr>Version = v, Tombstoned = tomb, FloorVersion = f\<rparr>))"
  by (rule ext) (simp add: commit_unchanged base_begin writeHeadWithFloorInTxn_def)

lemma head_eta: "\<lparr>Version = Version h, Tombstoned = Tombstoned h, FloorVersion = FloorVersion h\<rparr> = h"
  by (cases h) simp

lemma head_with_floor:
  "h\<lparr>FloorVersion := f\<rparr> = \<lparr>Version = Version h, Tombstoned = Tombstoned h, FloorVersion = f\<rparr>"
  by (cases h) simp

text \<open>The chain is a function of what the store maps the row's version keys to.\<close>

lemma set_storedChain: "set (storedChain b x) = {v. kv_get (kv (edb b)) (VersionKey x v) \<noteq> None}"
  by (simp add: storedChain_def set_versionsOf)

lemma sorted_storedChain: "sorted_wrt (<) (storedChain b x)"
  unfolding storedChain_def strict_sorted_iff by (simp only: sorted_sort distinct_sort distinct_versionsOf)

lemma storedChain_eq:
  "set (storedChain b x) = set vs \<Longrightarrow> sorted_wrt (<) vs \<Longrightarrow> storedChain b x = vs"
  using sorted_storedChain [of b x] unfolding strict_sorted_iff by (metis sorted_distinct_set_unique)

interpretation badger: prune_storage "badgerStorage numID valueSize kvReject" storedHead storedChain
proof
  fix s hs
  assume "IterateMVCCHeads (badgerStorage numID valueSize kvReject) s = Inr hs"
  then have t: "traverse (\<lambda>x. map_sum id (Pair x) (loadHeadInTxn (begin_txn (edb s)) x))
      (sort_key numID (filter is_node (headRows (begin_txn (edb s))))
       @ sort_key numID (filter (\<lambda>x. \<not> is_node x) (headRows (begin_txn (edb s))))) = Inr hs"
    by (simp add: badgerStorage_def iterateMVCCHeads_def withView_def split: if_splits)
  have "map fst hs = sort_key numID (filter is_node (headRows (begin_txn (edb s))))
       @ sort_key numID (filter (\<lambda>x. \<not> is_node x) (headRows (begin_txn (edb s))))"
    by (rule traverse_map [OF t]) (auto simp: map_sum_def split: sum.splits)
  then have "distinct (map fst hs)"
    using distinct_headRows [of "begin_txn (edb s)"] by auto
  moreover have "(x, head) \<in> set hs \<longleftrightarrow> storedHead s x = Some head" for x head
  proof -
    let ?t = "begin_txn (edb s)"
    have "(x, head) \<in> set hs \<longleftrightarrow> x \<in> set (headRows ?t) \<and> loadHeadInTxn ?t x = Inr head"
      unfolding traverse_set [OF t] map_sum_Pair by auto
    also have "\<dots> \<longleftrightarrow> storedHead s x = Some head"
      unfolding loadHeadInTxn_stored set_headRows by (auto simp: storedHead_def split: option.splits)
    finally show ?thesis .
  qed
  ultimately show "distinct (map fst hs) \<and> (\<forall>x head. (x, head) \<in> set hs \<longleftrightarrow> storedHead s x = Some head)"
    by blast
next
  fix s x versions
  assume "IterateMVCCVersions (badgerStorage numID valueSize kvReject) s x = Inr versions"
  then show "map viVersion versions = storedChain s x"
    unfolding storedChain_def badgerStorage_def iterateMVCCVersions_def withView_def
    by (auto split: if_splits elim!: traverse_map split: option.splits val.splits)
next
  fix s x
  show "sorted_wrt (<) (storedChain s x)" by (rule sorted_storedChain)
next
  fix s x head
  assume "ReadMVCCHead (badgerStorage numID valueSize kvReject) s x = Inr head"
  then show "storedHead s x = Some head"
    by (auto simp: badgerStorage_def readMVCCHead_def withView_def loadHeadInTxn_stored split: if_splits)
next
  fix x v s r s'
  assume "DeleteMVCCVersion (badgerStorage numID valueSize kvReject) x v s = (r, s')"
  then have "withUpdate kvReject (\<lambda>t. txn_delete t (VersionKey x (keyVersion v))) s = (r, s')"
    by (simp add: badgerStorage_def deleteMVCCVersion_def)
  from withUpdate_cases [OF this]
  show "s' = s \<and> r \<noteq> None \<or> r = None \<and> storedHead s' = storedHead s
      \<and> storedChain s' = (storedChain s)(x := filter (\<lambda>u. u \<noteq> keyVersion v) (storedChain s x))"
  proof
    assume a: "r = None \<and> s' = s\<lparr>edb := db_commit (edb s)
        (writes (txn_delete (begin_txn (edb s)) (VersionKey x (keyVersion v))))\<rparr>"
    then have g: "kv_get (kv (edb s')) = (kv_get (kv (edb s)))(VersionKey x (keyVersion v) := None)"
      by (simp add: get_after_delete)
    have "storedChain s' y = ((storedChain s)(x := filter (\<lambda>u. u \<noteq> keyVersion v) (storedChain s x))) y" for y
      by (rule storedChain_eq) (auto simp: set_storedChain g sorted_storedChain sorted_wrt_filter)
    then show ?thesis
      using a g by (auto simp: storedHead_def fun_eq_iff)
  qed blast
next
  fix x head s r s'
  assume "WriteMVCCHead (badgerStorage numID valueSize kvReject) x head s = (r, s')"
  then have "withUpdate kvReject
      (\<lambda>t. writeHeadWithFloorInTxn t x (Version head) (Tombstoned head) (FloorVersion head)) s = (r, s')"
    by (simp add: badgerStorage_def writeMVCCHead_def)
  from withUpdate_cases [OF this]
  show "s' = s \<and> r \<noteq> None \<or> r = None \<and> storedChain s' = storedChain s
      \<and> storedHead s' = (storedHead s)(x := Some (normalizeMVCCHead head))"
  proof
    assume a: "r = None \<and> s' = s\<lparr>edb := db_commit (edb s) (writes (writeHeadWithFloorInTxn
        (begin_txn (edb s)) x (Version head) (Tombstoned head) (FloorVersion head)))\<rparr>"
    then have g: "kv_get (kv (edb s')) = (kv_get (kv (edb s)))(HeadKey x \<mapsto> Head (normalizeMVCCHead head))"
      by (simp add: get_after_head head_eta)
    have "storedChain s' y = storedChain s y" for y
      by (rule storedChain_eq) (auto simp: set_storedChain g sorted_storedChain)
    then show ?thesis
      using a g by (auto simp: storedHead_def fun_eq_iff)
  qed blast
qed

section \<open>An undisturbed pass\<close>

definition accept :: "btxn \<Rightarrow> db \<Rightarrow> storage_error option" where
  "accept t d = None"

abbreviation committed :: "engine \<Rightarrow> key \<Rightarrow> val option" where
  "committed b \<equiv> kv_get (kv (edb b))"

lemma badger_ops:
  "DeleteMVCCVersion (badgerStorage numID valueSize kvReject) = deleteMVCCVersion kvReject"
  "WriteMVCCHead (badgerStorage numID valueSize kvReject) = writeMVCCHead kvReject"
  "ReadMVCCHead (badgerStorage numID valueSize kvReject) = readMVCCHead"
  "IterateMVCCHeads (badgerStorage numID valueSize kvReject) = iterateMVCCHeads numID"
  "IterateMVCCVersions (badgerStorage numID valueSize kvReject) = iterateMVCCVersions valueSize"
  by (simp_all add: badgerStorage_def)

lemma deleteVersions_accept:
  "\<not> engineClosed b \<Longrightarrow>
   \<exists>b'. deleteVersions (badgerStorage numID valueSize accept) x vs b = (False, length vs, b')
     \<and> \<not> engineClosed b'
     \<and> committed b' = (\<lambda>k. if k \<in> VersionKey x ` keyVersion ` set vs then None else committed b k)"
proof (induction vs arbitrary: b)
  case (Cons v vs)
  let ?b = "b\<lparr>edb := db_commit (edb b) (writes (txn_delete (begin_txn (edb b)) (VersionKey x (keyVersion v))))\<rparr>"
  have d: "DeleteMVCCVersion (badgerStorage numID valueSize accept) x v b = (None, ?b)"
    using Cons.prems by (simp add: badger_ops deleteMVCCVersion_def withUpdate_def accept_def Let_def)
  obtain b' where b': "deleteVersions (badgerStorage numID valueSize accept) x vs ?b = (False, length vs, b')"
      "\<not> engineClosed b'"
      "committed b' = (\<lambda>k. if k \<in> VersionKey x ` keyVersion ` set vs then None else committed ?b k)"
    using Cons.IH [of ?b] Cons.prems by auto
  show ?case
    using d b'(1,2) by (intro exI [of _ b']) (auto simp: b'(3) get_after_delete fun_eq_iff)
qed auto

lemma finishKey_accept:
  assumes "\<not> engineClosed b"
  shows "\<exists>b'. finishKey (badgerStorage numID valueSize accept) entry head b
        = (Finished, length (peVersionsToDelete entry), b')
     \<and> \<not> engineClosed b'
     \<and> committed b' = (\<lambda>k. if k = HeadKey (peLogicalKey entry)
          then Some (Head (normalizeMVCCHead (head\<lparr>FloorVersion := peNewFloorVersion entry\<rparr>)))
          else if k \<in> VersionKey (peLogicalKey entry) ` keyVersion ` set (peVersionsToDelete entry)
          then None else committed b k)"
proof -
  let ?x = "peLogicalKey entry" and ?h = "head\<lparr>FloorVersion := peNewFloorVersion entry\<rparr>"
  obtain b1 where b1: "deleteVersions (badgerStorage numID valueSize accept) ?x (peVersionsToDelete entry) b
        = (False, length (peVersionsToDelete entry), b1)" "\<not> engineClosed b1"
      "committed b1 = (\<lambda>k. if k \<in> VersionKey ?x ` keyVersion ` set (peVersionsToDelete entry)
          then None else committed b k)"
    using deleteVersions_accept [OF assms, of numID valueSize ?x "peVersionsToDelete entry"] by blast
  let ?b = "b1\<lparr>edb := db_commit (edb b1) (writes (writeHeadWithFloorInTxn (begin_txn (edb b1)) ?x
      (Version ?h) (Tombstoned ?h) (FloorVersion ?h)))\<rparr>"
  have w: "WriteMVCCHead (badgerStorage numID valueSize accept) ?x ?h b1 = (None, ?b)"
    using b1(2) by (simp add: badger_ops writeMVCCHead_def withUpdate_def accept_def Let_def)
  have "committed ?b = (committed b1)(HeadKey ?x \<mapsto> Head (normalizeMVCCHead ?h))"
    by (simp add: get_after_head head_with_floor)
  then show ?thesis
    using b1 w by (intro exI [of _ ?b]) (auto simp: finishKey_def fun_eq_iff)
qed

text \<open>A row pruned to a floor that is one of its versions keeps the newer part of its history.\<close>

lemma represents_floor:
  assumes r: "represents g x h" and h: "h = (w, ob) # old"
    and f: "f \<in> fst ` set h"
    and g': "g' = (\<lambda>k. if k = HeadKey x then Some (Head \<lparr>Version = w, Tombstoned = (ob = None), FloorVersion = f\<rparr>)
                    else if k \<in> VersionKey x ` {v \<in> fst ` set old. v < f} then None else g k)"
  shows "\<exists>k > 0. represents g' x (take k h) \<and> fst (last (take k h)) = f"
proof -
  let ?t = "\<lparr>base = [], readTs = 0, writes = [], readKeys = []\<rparr>"
  have good: "good_history x h" using represents_good [OF r] .
  obtain j where j: "j < length h" "fst (h ! j) = f"
    using f by (auto simp: in_set_conv_nth)
  let ?k = "Suc j"
  have split: "h = take ?k h @ drop ?k h" by simp
  have s: "sorted_wrt (\<lambda>a b. fst b < fst a) h" using good by (simp add: good_history_def)
  have last: "last (take ?k h) = h ! j"
    using j by (simp add: take_Suc_conv_app_nth)
  have below: "\<forall>e \<in> set (drop ?k h). fst e < f"
  proof
    fix e assume "e \<in> set (drop ?k h)"
    then obtain i where "i < length h - ?k" "e = h ! (?k + i)"
      by (auto simp: in_set_conv_nth)
    then show "fst e < f" using s j by (auto simp: sorted_wrt_iff_nth_less)
  qed
  have above: "\<forall>e \<in> set (take ?k h). f \<le> fst e"
  proof
    fix e assume "e \<in> set (take ?k h)"
    then obtain i where "i < ?k" "i < length h" "e = h ! i"
      by (auto simp: in_set_conv_nth)
    then show "f \<le> fst e"
      using s j by (cases "i = j") (auto simp: sorted_wrt_iff_nth_less less_imp_le)
  qed
  have hk: "take ?k h = (w, ob) # take j old" "drop ?k h = drop j old" using h by auto
  have del: "v \<in> fst ` set old \<and> v < f \<longleftrightarrow> v \<in> fst ` set (drop j old)" for v
  proof
    assume v: "v \<in> fst ` set old \<and> v < f"
    then obtain e where e: "e \<in> set old" "fst e = v" by auto
    then have "e \<in> set (take j old) \<or> e \<in> set (drop j old)"
      by (metis Un_iff append_take_drop_id set_append)
    then show "v \<in> fst ` set (drop j old)"
      using above e v hk(1) by auto
  next
    assume "v \<in> fst ` set (drop j old)"
    then show "v \<in> fst ` set old \<and> v < f" using below hk(2) by (auto dest: in_set_dropD)
  qed
  have keep: "map_of (take j old) v = (if v \<in> fst ` set (drop j old) then None else map_of old v)" for v
  proof -
    have "map_of old v = (case map_of (take j old) v of Some e \<Rightarrow> Some e | None \<Rightarrow> map_of (drop j old) v)"
      by (metis append_take_drop_id map_add_def map_of_append option.exhaust option.simps(4,5))
    moreover have "map_of (take j old) v = None" if "v \<in> fst ` set (drop j old)"
    proof -
      have "v < f" using that del by blast
      then show ?thesis using above hk(1) by (auto simp: map_of_eq_None_iff)
    qed
    moreover have "map_of (drop j old) v = None" if "v \<notin> fst ` set (drop j old)"
      using that by (simp add: map_of_eq_None_iff)
    ultimately show ?thesis by (auto split: option.splits)
  qed
  have w: "w \<notin> fst ` set (drop j old)"
    using good_history_less [OF good [unfolded h]] by (auto dest: in_set_dropD)
  have rec: "g' (VersionKey x v) = (if v = w then (if ob = None then Some (Record None True) else None)
      else map_option history_val (map_of (take j old) v))" for v
  proof -
    have "{u \<in> fst ` set old. u < f} = fst ` set (drop j old)" using del by blast
    then have "g' (VersionKey x v) = (if v \<in> fst ` set (drop j old) then None else g (VersionKey x v))"
      by (auto simp: g')
    then show ?thesis
      using r [unfolded h] w keep [of v] represents_record [OF r [unfolded h], of v]
      by (cases "v = w") (simp_all add: represents_def)
  qed
  have good': "good_history x (take ?k h)"
    using good by (auto simp: good_history_def sorted_wrt_take dest: in_set_takeD)
  have "g' (HeadKey x) = Some (Head \<lparr>Version = w, Tombstoned = (ob = None), FloorVersion = f\<rparr>)"
    "g' (Primary x) = map_option Body ob"
    using r [unfolded h] by (auto simp: g' represents_def)
  then have "represents g' x (take ?k h)"
    using rec good' last j(2) hk(1) by (simp add: represents_def)
  then show ?thesis using last j(2) by auto
qed

end
