(* ===== verification/LcManager.thy ===== *)
theory LcManager
  imports LcSchedule LcPressure LcBadger
begin

text \<open>
  The lifecycle manager (\<^verbatim>\<open>pkg/storage/lifecycle/manager.go\<close>) with its counters (\<^verbatim>\<open>metrics.go\<close>): a
  cycle measures the pressure, plans, schedules and applies; readers are admitted and expired by the
  pressure band. The background loop is the flag and the interval of its ticker; a tick runs a cycle
  unless the manager is paused. The rendering of the status as a map of strings is left out.
\<close>

section \<open>Counters\<close>

record namespace_metrics =
  nmDebtBytes :: int
  nmDebtKeys :: int
  nmPrunableBytes :: int
  nmPrunedBytes :: int

record namespace_debt_summary =
  ndDebtBytes :: int
  ndDebtKeys :: int
  ndPrunableBytes :: int

record prune_run_sample =
  prTimestamp :: go_time
  prKeysProcessed :: nat
  prVersionsDeleted :: nat
  prBytesFreed :: int
  prFenceMismatches :: nat

record debt_metric_sample =
  dmTimestamp :: go_time
  dmDebtBytes :: int
  dmDebtKeys :: int

record debt_key =
  dkLogicalKey :: ent
  dkNamespace :: string
  dkDebtBytes :: int
  dkTombstoneDepth :: nat
  dkFloorLagVersions :: nat
  dkVersionsToDelete :: nat

record lifecycle_metrics =
  BytesPinnedByOldestReader :: int
  CompactionDebtBytes :: int
  CompactionDebtKeys :: int
  GracefulReaderExpires :: int
  HardReaderExpires :: int
  PrunableBytesTotal :: int
  PrunedBytesTotal :: int
  TombstoneChainMaxDepth :: int
  FloorLagVersions :: int
  PruneRunKeysScannedTotal :: int
  PruneStalePlanSkipsTotal :: int
  lastRunDuration :: int
  lastRunResult :: "apply_result option"
  namespaceMetrics :: "(string \<times> namespace_metrics) list"
  topDebtKeys :: "debt_key list"
  pruneHistory :: "prune_run_sample list"
  debtMetricHistory :: "debt_metric_sample list"

definition NewLifecycleMetrics :: lifecycle_metrics where
  "NewLifecycleMetrics =
     \<lparr>BytesPinnedByOldestReader = 0, CompactionDebtBytes = 0, CompactionDebtKeys = 0,
      GracefulReaderExpires = 0, HardReaderExpires = 0, PrunableBytesTotal = 0, PrunedBytesTotal = 0,
      TombstoneChainMaxDepth = 0, FloorLagVersions = 0, PruneRunKeysScannedTotal = 0,
      PruneStalePlanSkipsTotal = 0, lastRunDuration = 0, lastRunResult = None, namespaceMetrics = [],
      topDebtKeys = [], pruneHistory = [], debtMetricHistory = []\<rparr>"

definition trimPruneHistory :: "prune_run_sample list \<Rightarrow> go_time \<Rightarrow> prune_run_sample list" where
  "trimPruneHistory samples now = filter (\<lambda>s. \<not> prTimestamp s < now - 60 * second) samples"

definition trimDebtHistory :: "debt_metric_sample list \<Rightarrow> go_time \<Rightarrow> debt_metric_sample list" where
  "trimDebtHistory samples now = filter (\<lambda>s. \<not> dmTimestamp s < now - 60 * second) samples"

definition RecordPruneRun :: "go_time \<Rightarrow> apply_result \<Rightarrow> int \<Rightarrow> lifecycle_metrics \<Rightarrow> lifecycle_metrics" where
  "RecordPruneRun now result duration m =
     (let sample = \<lparr>prTimestamp = now, prKeysProcessed = KeysProcessed result,
            prVersionsDeleted = VersionsDeleted result, prBytesFreed = BytesFreed result,
            prFenceMismatches = FenceMismatches result\<rparr>
      in m\<lparr>lastRunDuration := duration, PrunedBytesTotal := PrunedBytesTotal m + BytesFreed result,
           PruneStalePlanSkipsTotal := PruneStalePlanSkipsTotal m + int (FenceMismatches result),
           pruneHistory := trimPruneHistory (pruneHistory m @ [sample]) now,
           lastRunResult := Some result\<rparr>)"

definition RecordReaderExpiration :: "bool \<Rightarrow> bool \<Rightarrow> lifecycle_metrics \<Rightarrow> lifecycle_metrics" where
  "RecordReaderExpiration graceful hard m =
     (if hard then m\<lparr>HardReaderExpires := HardReaderExpires m + 1\<rparr>
      else if graceful then m\<lparr>GracefulReaderExpires := GracefulReaderExpires m + 1\<rparr> else m)"

definition UpdateDebt :: "go_time \<Rightarrow> int \<Rightarrow> int \<Rightarrow> lifecycle_metrics \<Rightarrow> lifecycle_metrics" where
  "UpdateDebt now bytes keys m =
     m\<lparr>CompactionDebtBytes := bytes, CompactionDebtKeys := keys,
       debtMetricHistory := trimDebtHistory (debtMetricHistory m
         @ [\<lparr>dmTimestamp = now, dmDebtBytes = bytes, dmDebtKeys = keys\<rparr>]) now\<rparr>"

definition UpdatePinnedBytes :: "int \<Rightarrow> lifecycle_metrics \<Rightarrow> lifecycle_metrics" where
  "UpdatePinnedBytes bytes m = m\<lparr>BytesPinnedByOldestReader := bytes\<rparr>"

definition no_namespace_metrics :: namespace_metrics where
  "no_namespace_metrics = \<lparr>nmDebtBytes = 0, nmDebtKeys = 0, nmPrunableBytes = 0, nmPrunedBytes = 0\<rparr>"

definition metricsOf :: "string \<Rightarrow> (string \<times> namespace_metrics) list \<Rightarrow> namespace_metrics" where
  "metricsOf ns ms = (case map_of ms ns of Some m \<Rightarrow> m | None \<Rightarrow> no_namespace_metrics)"

definition ReplaceNamespaceDebt :: "(string \<times> namespace_debt_summary) list \<Rightarrow> lifecycle_metrics \<Rightarrow> lifecycle_metrics" where
  "ReplaceNamespaceDebt summaries m =
     (let kept = filter (\<lambda>(ns, _). ns \<in> fst ` set summaries) (namespaceMetrics m)
      in m\<lparr>namespaceMetrics :=
             fold (\<lambda>(ns, d) ms. AList.update ns
               ((metricsOf ns ms)\<lparr>nmDebtBytes := ndDebtBytes d, nmDebtKeys := ndDebtKeys d,
                                  nmPrunableBytes := ndPrunableBytes d\<rparr>) ms) summaries kept\<rparr>)"

definition AddNamespacePrunedBytes :: "string \<Rightarrow> int \<Rightarrow> lifecycle_metrics \<Rightarrow> lifecycle_metrics" where
  "AddNamespacePrunedBytes ns bytes m =
     (if ns = [] \<or> bytes = 0 then m
      else let metric = metricsOf ns (namespaceMetrics m)
           in m\<lparr>namespaceMetrics := AList.update ns
                  (metric\<lparr>nmPrunedBytes := nmPrunedBytes metric + bytes\<rparr>) (namespaceMetrics m)\<rparr>)"

definition debtsBefore :: "(ent \<Rightarrow> u64) \<Rightarrow> debt_key \<Rightarrow> debt_key \<Rightarrow> bool" where
  "debtsBefore numID a b =
     (if dkDebtBytes a = dkDebtBytes b
      then bytes_less (logicalKey numID (dkLogicalKey a)) (logicalKey numID (dkLogicalKey b))
      else dkDebtBytes a > dkDebtBytes b)"

definition topDebtKeySummaries :: "(ent \<Rightarrow> u64) \<Rightarrow> prune_plan_entry list \<Rightarrow> nat \<Rightarrow> debt_key list" where
  "topDebtKeySummaries numID entries limit =
     (let summaries = sliceStable (debtsBefore numID) (map (\<lambda>e.
            \<lparr>dkLogicalKey = peLogicalKey e,
             dkNamespace = namespaceFromLogicalKey (logicalKey numID (peLogicalKey e)),
             dkDebtBytes = peDebtBytes e, dkTombstoneDepth = peTombstoneDepth e,
             dkFloorLagVersions = length (peVersionsToDelete e),
             dkVersionsToDelete = length (peVersionsToDelete e)\<rparr>) entries)
      in if limit > 0 \<and> length summaries > limit then take limit summaries else summaries)"

definition UpdatePlanInsights :: "(ent \<Rightarrow> u64) \<Rightarrow> prune_plan \<Rightarrow> lifecycle_metrics \<Rightarrow> lifecycle_metrics" where
  "UpdatePlanInsights numID plan m =
     m\<lparr>TombstoneChainMaxDepth := fold max (map (int \<circ> peTombstoneDepth) (ppEntries plan)) 0,
       FloorLagVersions := fold max (map (int \<circ> length \<circ> peVersionsToDelete) (ppEntries plan)) 0,
       PruneRunKeysScannedTotal := PruneRunKeysScannedTotal m + int (ppKeysScanned plan),
       topDebtKeys := topDebtKeySummaries numID (ppEntries plan) 16\<rparr>"

definition TopDebtKeys :: "int \<Rightarrow> lifecycle_metrics \<Rightarrow> debt_key list" where
  "TopDebtKeys limit m =
     (if limit \<le> 0 \<or> limit \<ge> int (length (topDebtKeys m)) then topDebtKeys m
      else take (nat limit) (topDebtKeys m))"

text \<open>The rollups of the status: sums over the runs and maxima over the debts of a window.\<close>

record window_summary =
  wsPruneRuns :: nat
  wsKeysProcessed :: nat
  wsVersionsDeleted :: nat
  wsBytesFreed :: int
  wsFenceMismatches :: nat
  wsDebtBytesMax :: int
  wsDebtKeysMax :: int

definition summarizeLifecycleWindow ::
    "go_time \<Rightarrow> prune_run_sample list \<Rightarrow> debt_metric_sample list \<Rightarrow> window_summary" where
  "summarizeLifecycleWindow cutoff runs debts =
     (let rs = filter (\<lambda>s. \<not> prTimestamp s < cutoff) runs; ds = filter (\<lambda>s. \<not> dmTimestamp s < cutoff) debts
      in \<lparr>wsPruneRuns = length rs, wsKeysProcessed = sum_list (map prKeysProcessed rs),
          wsVersionsDeleted = sum_list (map prVersionsDeleted rs),
          wsBytesFreed = sum_list (map prBytesFreed rs),
          wsFenceMismatches = sum_list (map prFenceMismatches rs),
          wsDebtBytesMax = fold max (map dmDebtBytes ds) 0, wsDebtKeysMax = fold max (map dmDebtKeys ds) 0\<rparr>)"

section \<open>The manager\<close>

record 's manager =
  mgConfig :: lifecycle_config
  mgCurrentCfg :: lifecycle_config
  mgRegistry :: reader_registry
  mgMetrics :: lifecycle_metrics
  mgPressure :: pressure_controller
  mgPlanner :: prune_planner
  mgApplierConfig :: lifecycle_config
  mgBackoff :: backoff_queue
  mgPriority :: priority_scheduler
  mgEmergency :: emergency_controller
  mgEngine :: 's
  mgRunning :: bool
  mgPaused :: bool
  mgTicker :: int            \<comment> \<open>the interval of the running loop\<close>

definition NewMVCCLifecycleManager :: "lifecycle_config \<Rightarrow> 's \<Rightarrow> 's manager" where
  "NewMVCCLifecycleManager config engine =
     \<lparr>mgConfig = config, mgCurrentCfg = config, mgRegistry = NewReaderRegistry,
      mgMetrics = NewLifecycleMetrics,
      mgPressure = NewPressureController
        \<lparr>pcHighEnterBytes = HighEnterBytes config, pcHighExitBytes = HighExitBytes config,
         pcCriticalEnterBytes = CriticalEnterBytes config, pcCriticalExitBytes = CriticalExitBytes config,
         pcEnterWindow = PressureEnterWindow config, pcExitWindow = PressureExitWindow config\<rparr>,
      mgPlanner = NewPrunePlanner config, mgApplierConfig = config,
      mgBackoff = newBackoffQueue config, mgPriority = NewPriorityScheduler config,
      mgEmergency = NewEmergencyController
        \<lparr>ecSlopeThreshold = DebtGrowthSlopeThreshold config, ecMaxCPUShare = MaxCPUShare config,
         ecMaxIOBudget = MaxIOBudgetBytesPerInterval config, ecMaxRuntime = MaxRuntimePerCycle config\<rparr>,
      mgEngine = engine, mgRunning = False, mgPaused = False, mgTicker = 0\<rparr>"

definition StartLifecycle :: "'s manager \<Rightarrow> 's manager" where
  "StartLifecycle m =
     (if mgRunning m \<or> \<not> lcEnabled (mgConfig m) \<or> CycleInterval (mgConfig m) \<le> 0 then m
      else m\<lparr>mgRunning := True, mgTicker := CycleInterval (mgConfig m)\<rparr>)"

definition StopLifecycle :: "'s manager \<Rightarrow> 's manager" where
  "StopLifecycle m = (if \<not> mgRunning m then m else m\<lparr>mgRunning := False\<rparr>)"

definition PauseLifecycle :: "'s manager \<Rightarrow> 's manager" where
  "PauseLifecycle m = m\<lparr>mgPaused := True\<rparr>"

definition ResumeLifecycle :: "'s manager \<Rightarrow> 's manager" where
  "ResumeLifecycle m = m\<lparr>mgPaused := False\<rparr>"

definition IsLifecycleEnabled :: "'s manager \<Rightarrow> bool" where
  "IsLifecycleEnabled m = lcEnabled (mgConfig m)"

definition IsLifecycleRunning :: "'s manager \<Rightarrow> bool" where
  "IsLifecycleRunning m = mgRunning m"

text \<open>An invalid interval is refused; a valid one restarts the loop.\<close>

definition SetLifecycleSchedule :: "int \<Rightarrow> 's manager \<Rightarrow> bool \<times> 's manager" where
  "SetLifecycleSchedule interval m =
     (if interval < 0 then (False, m)
      else
        let m1 = m\<lparr>mgConfig := (mgConfig m)\<lparr>CycleInterval := interval\<rparr>,
                   mgCurrentCfg := (mgCurrentCfg m)\<lparr>CycleInterval := interval\<rparr>, mgRunning := False\<rparr>
        in (True, if interval > 0 \<and> lcEnabled (mgConfig m1) then StartLifecycle m1 else m1))"

definition RegisterSnapshotReader :: "go_time \<Rightarrow> snapshot_reader_info \<Rightarrow> 's manager \<Rightarrow> string \<times> 's manager" where
  "RegisterSnapshotReader now info m =
     (let (ident, r) = Register now info (mgRegistry m) in (ident, m\<lparr>mgRegistry := r\<rparr>))"

text \<open>\<open>None\<close> is \<^verbatim>\<open>ErrMVCCResourcePressure\<close>.\<close>

definition AcquireSnapshotReader :: "go_time \<Rightarrow> snapshot_reader_info \<Rightarrow> 's manager \<Rightarrow> string option \<times> 's manager" where
  "AcquireSnapshotReader now info m =
     (if ShouldRejectLongSnapshot (time_sub now (StartTime info)) (MaxSnapshotLifetime (mgCurrentCfg m)) (mgPressure m)
      then (None, m)
      else let (ident, m1) = RegisterSnapshotReader now info m in (Some ident, m1))"

definition EvaluateSnapshotReader :: "go_time \<Rightarrow> snapshot_reader_info \<Rightarrow> 's manager \<Rightarrow> (bool \<times> bool) \<times> 's manager" where
  "EvaluateSnapshotReader now info m =
     (let (graceful, hard) = ShouldExpireReader now info (MaxSnapshotLifetime (mgCurrentCfg m)) (mgPressure m)
      in ((graceful, hard),
          if graceful \<or> hard then m\<lparr>mgMetrics := RecordReaderExpiration graceful hard (mgMetrics m)\<rparr> else m))"

definition TopLifecycleDebtKeys :: "int \<Rightarrow> 's manager \<Rightarrow> debt_key list" where
  "TopLifecycleDebtKeys limit m = TopDebtKeys limit (mgMetrics m)"

section \<open>A cycle\<close>

text \<open>What the surroundings answer during a cycle.\<close>

record cycle_env =
  ceNow :: "nat \<Rightarrow> go_time"                  \<comment> \<open>successive clock readings outside the loops\<close>
  ceCreated :: "ent \<Rightarrow> go_time"
  ceAge :: "prune_plan_entry \<Rightarrow> int"
  ceTurns :: "nat \<Rightarrow> apply_turn"

definition safeFloorOf :: "(string \<times> mvcc_version) list \<Rightarrow> string \<Rightarrow> mvcc_version" where
  "safeFloorOf floors ns = (case map_of floors ns of Some v \<Rightarrow> v | None \<Rightarrow> maxMVCCVersion)"

definition namespaceDebt :: "(ent \<Rightarrow> u64) \<Rightarrow> prune_plan_entry list \<Rightarrow> (string \<times> namespace_debt_summary) list" where
  "namespaceDebt numID entries =
     fold (\<lambda>e ds.
        let ns = namespaceFromLogicalKey (logicalKey numID (peLogicalKey e));
            d = (case map_of ds ns of Some d \<Rightarrow> d | None \<Rightarrow> \<lparr>ndDebtBytes = 0, ndDebtKeys = 0, ndPrunableBytes = 0\<rparr>)
        in AList.update ns
             \<lparr>ndDebtBytes = ndDebtBytes d + peDebtBytes e, ndDebtKeys = ndDebtKeys d + 1,
              ndPrunableBytes = ndPrunableBytes d + peDebtBytes e\<rparr> ds) entries []"

definition settlePriority :: "prune_plan_entry list \<Rightarrow> priority_scheduler \<Rightarrow> priority_scheduler" where
  "settlePriority ordered s =
     fold (\<lambda>e s. if peVersionsToDelete e \<noteq> [] then RecordProcessed (peLogicalKey e) s
                 else RecordSkipped (peLogicalKey e) s) ordered s"

definition measurePressure :: "cycle_env \<Rightarrow> 's manager \<Rightarrow> 's manager" where
  "measurePressure env m =
     (let p = Update (ceNow env 0) (BytesPinnedByOldestReader (mgMetrics m)) (mgPressure m)
      in m\<lparr>mgPressure := p, mgEmergency := SetCritical (CurrentBand p = PressureCritical) (mgEmergency m)\<rparr>)"

definition recordPlan :: "(ent \<Rightarrow> u64) \<Rightarrow> cycle_env \<Rightarrow> prune_plan \<Rightarrow> 's manager \<Rightarrow> 's manager" where
  "recordPlan numID env plan m =
     (let debtBytes = sum_list (map peDebtBytes (ppEntries plan));
          debtKeys = int (length (ppEntries plan));
          m1 = UpdatePlanInsights numID plan (mgMetrics m);
          m2 = ReplaceNamespaceDebt (namespaceDebt numID (ppEntries plan)) m1;
          m3 = UpdatePinnedBytes debtBytes (UpdateDebt (ceNow env 3) debtBytes debtKeys m2);
          m4 = m3\<lparr>PrunableBytesTotal := debtBytes\<rparr>
      in m\<lparr>mgMetrics := m4, mgEmergency := RecordDebt (ceNow env 4) debtBytes (mgEmergency m)\<rparr>)"

definition scheduleCycle :: "(ent \<Rightarrow> u64) \<Rightarrow> cycle_env \<Rightarrow> prune_plan \<Rightarrow> 's manager
    \<Rightarrow> prune_plan_entry list \<times> 's manager" where
  "scheduleCycle numID env plan m =
     (let (emergencyActive, e) = Evaluate (ceNow env 5) (mgEmergency m);
          m1 = m\<lparr>mgEmergency := e,
                 mgCurrentCfg := (if emergencyActive then AdjustCompactionBudget (mgConfig m) e
                                  else mgConfig m)\<rparr>;
          (ordered, s) = Schedule numID (ceAge env) (ppEntries plan) (mgPriority m1);
          ordered' = (if emergencyActive then ScheduleEmergency numID ordered else ordered)
      in (ordered', m1\<lparr>mgPriority := s\<rparr>))"

definition runCycle :: "(ent \<Rightarrow> u64) \<Rightarrow> 's lifecycle_storage \<Rightarrow> cycle_env \<Rightarrow> 's manager
    \<Rightarrow> (storage_error + apply_result) \<times> 's manager" where
  "runCycle numID eng env m =
     (let m1 = measurePressure env m;
          floors = OldestReaderVersionsByNamespace (mgRegistry m1);
          (planned, planner) = Plan numID eng (ceNow env 1) (ceCreated env) (ceNow env 2)
                                 (Some (safeFloorOf floors)) (mgEngine m1) (mgPlanner m1);
          m2 = m1\<lparr>mgPlanner := planner\<rparr>
      in case planned of
           Inl e \<Rightarrow> (Inl e, m2)
         | Inr plan \<Rightarrow>
             let m3 = recordPlan numID env plan m2;
                 (ordered, m4) = scheduleCycle numID env plan m3;
                 (result, backoff, engine) = Apply numID eng (mgApplierConfig m4) (ceTurns env)
                                 (Some (plan\<lparr>ppEntries := ordered\<rparr>)) (mgBackoff m4) (mgEngine m4);
                 metrics = fold (\<lambda>(ns, bytes). AddNamespacePrunedBytes ns bytes)
                                (NamespaceBytesFreed result) (mgMetrics m4)
             in (Inr result, m4\<lparr>mgBackoff := backoff, mgEngine := engine, mgMetrics := metrics,
                               mgPriority := settlePriority ordered (mgPriority m4)\<rparr>))"

text \<open>\<^verbatim>\<open>RunPruneNow\<close>; \<^verbatim>\<open>TriggerPruneNow\<close> drops the number. A tick of the loop does the same unless
  the manager is paused or the cycle fails.\<close>

definition RunPruneNow :: "(ent \<Rightarrow> u64) \<Rightarrow> 's lifecycle_storage \<Rightarrow> cycle_env \<Rightarrow> 's manager
    \<Rightarrow> (storage_error + nat) \<times> 's manager" where
  "RunPruneNow numID eng env m =
     (case runCycle numID eng env m of
        (Inl e, m1) \<Rightarrow> (Inl e, m1)
      | (Inr result, m1) \<Rightarrow>
          (Inr (VersionsDeleted result),
           m1\<lparr>mgMetrics := RecordPruneRun (ceNow env 7) result (time_sub (ceNow env 7) (ceNow env 6)) (mgMetrics m1)\<rparr>))"

definition tick :: "(ent \<Rightarrow> u64) \<Rightarrow> 's lifecycle_storage \<Rightarrow> cycle_env \<Rightarrow> 's manager \<Rightarrow> 's manager" where
  "tick numID eng env m =
     (if \<not> mgRunning m \<or> mgPaused m then m else snd (RunPruneNow numID eng env m))"

section \<open>Emergency mode changes no budget\<close>

text \<open>The ceilings of emergency mode are the configured budgets themselves, so doubling under a
  ceiling gives the budget back.\<close>

lemma emergency_keeps_runtime:
  assumes "0 < MaxRuntimePerCycle config" "MaxRuntimePerCycle config < 2 ^ 62"
    and "ecMaxRuntime (emConfig e) = MaxRuntimePerCycle config"
  shows "MaxRuntimePerCycle (AdjustCompactionBudget config e) = MaxRuntimePerCycle config"
proof -
  have "int64 (MaxRuntimePerCycle config * 2) = MaxRuntimePerCycle config * 2"
    using assms by (intro int64_id) auto
  then show ?thesis
    using assms by (simp add: AdjustCompactionBudget_def Let_def minBound_def)
qed

lemma emergency_keeps_io_budget:
  assumes "0 < MaxIOBudgetBytesPerInterval config" "MaxIOBudgetBytesPerInterval config < 2 ^ 62"
    and "ecMaxIOBudget (emConfig e) = MaxIOBudgetBytesPerInterval config"
  shows "MaxIOBudgetBytesPerInterval (AdjustCompactionBudget config e) = MaxIOBudgetBytesPerInterval config"
proof -
  have "int64 (MaxIOBudgetBytesPerInterval config * 2) = MaxIOBudgetBytesPerInterval config * 2"
    using assms by (intro int64_id) auto
  then show ?thesis
    using assms by (simp add: AdjustCompactionBudget_def Let_def minBound_def)
qed

section \<open>Readers have no say\<close>

lemma AList_update_keys: "fst ` set (AList.update k v m) = insert k (fst ` set m)"
  by (metis dom_map_of_conv_image_fst update_conv' dom_fun_upd option.distinct(1))

text \<open>The floors are filed under the namespaces of the registered readers.\<close>

lemma floors_keys:
  "fst ` set (OldestReaderVersionsByNamespace r) \<subseteq> Namespace ` set (readerInfos r)"
proof -
  have step: "fst ` set (keepOldest info out) \<subseteq> insert (Namespace info) (fst ` set out)" for info out
    by (auto simp: keepOldest_def AList_update_keys split: option.splits)
  have "fst ` set (fold keepOldest infos out) \<subseteq> fst ` set out \<union> Namespace ` set infos" for infos out
  proof (induction infos arbitrary: out)
    case (Cons info infos)
    have "fst ` set (fold keepOldest infos (keepOldest info out))
        \<subseteq> fst ` set (keepOldest info out) \<union> Namespace ` set infos"
      by (rule Cons.IH)
    then show ?case using step [of info out] unfolding fold_simps by auto
  qed simp
  from this [of _ "[]"] show ?thesis
    by (simp add: OldestReaderVersionsByNamespace_def)
qed

lemma planHeads_floor_cong:
  assumes "\<forall>x. floorFor (plannerNamespaceFromLogicalKey (logicalKey numID x))
    = floorFor' (plannerNamespaceFromLogicalKey (logicalKey numID x))"
  shows "planHeads numID eng s p ttl floorFor created hs = planHeads numID eng s p ttl floorFor' created hs"
  using assms by (induction hs) (auto simp: Let_def split: sum.splits option.splits)

lemma plan_ignores_readers:
  assumes "\<forall>x. numID x < 2 ^ 56"
    and "\<forall>ns \<in> Namespace ` set (readerInfos r). take 1 ns \<noteq> [CHR 0x00]"
  shows "Plan numID eng now created fin (Some (safeFloorOf (OldestReaderVersionsByNamespace r))) s p
    = Plan numID eng now created fin None s p"
proof -
  have "safeFloorOf (OldestReaderVersionsByNamespace r) (plannerNamespaceFromLogicalKey (logicalKey numID x))
      = maxMVCCVersion" for x
  proof -
    obtain rest where ns: "plannerNamespaceFromLogicalKey (logicalKey numID x) = CHR 0x00 # rest"
      using planner_namespace_of_row assms(1) by blast
    have "CHR 0x00 # rest \<notin> fst ` set (OldestReaderVersionsByNamespace r)"
    proof
      assume "CHR 0x00 # rest \<in> fst ` set (OldestReaderVersionsByNamespace r)"
      then have "take 1 (CHR 0x00 # rest) \<noteq> [CHR 0x00]"
        using floors_keys [of r] assms(2) by blast
      then show False by simp
    qed
    then have "map_of (OldestReaderVersionsByNamespace r) (CHR 0x00 # rest) = None"
      by (simp add: map_of_eq_None_iff)
    then show ?thesis by (simp add: safeFloorOf_def ns)
  qed
  then have eq: "planHeads numID eng s q ttl (safeFloorOf (OldestReaderVersionsByNamespace r)) created hs
      = planHeads numID eng s q ttl (\<lambda>_. maxMVCCVersion) created hs" for q ttl hs
    by (intro planHeads_floor_cong) simp
  show ?thesis unfolding Plan_def Let_def option.case eq ..
qed

end
