(* ===== verification/LcProps.thy ===== *)
theory LcProps
  imports LcManager
begin

text \<open>
  What a prune cycle of the lifecycle manager does to reads (\<^verbatim>\<open>pkg/storage/lifecycle\<close> over
  \<^verbatim>\<open>badger_lifecycle.go\<close>): an undisturbed pass keeps every read at or above the floors it leaves, and
  repeating the cycle finds nothing to do. Then the ways it goes wrong.
\<close>

section \<open>Entries that fit their row\<close>

definition sound_entry :: "engine \<Rightarrow> prune_plan_entry \<Rightarrow> bool" where
  "sound_entry b entry \<longleftrightarrow> (\<exists>w ob old.
     represents (committed b) (peLogicalKey entry) ((w, ob) # old)
     \<and> peHeadVersion entry = w \<and> peNewFloorVersion entry \<in> fst ` set ((w, ob) # old)
     \<and> set (peVersionsToDelete entry) = {v \<in> fst ` set old. v < peNewFloorVersion entry})"

lemma represents_committed: "represents (txn_get (begin_txn (edb b))) x h = represents (committed b) x h"
  by (rule represents_cong) simp

lemma storedChain_history:
  "represents (committed b) x ((w, ob) # old) \<Longrightarrow>
     storedChain b x = rev (map fst old) @ (if ob = None then [w] else [])"
  unfolding storedChain_def by (rule sorted_versionsOf) (simp add: represents_committed)

lemma storedHead_history:
  "represents (committed b) x ((w, ob) # old) \<Longrightarrow>
     storedHead b x = Some \<lparr>Version = w, Tombstoned = (ob = None), FloorVersion = fst (last ((w, ob) # old))\<rparr>"
  by (simp add: represents_def storedHead_def)

lemma storedHead_none: "represents (committed b) x [] \<Longrightarrow> storedHead b x = None"
  by (simp add: represents_def storedHead_def)

text \<open>A row the history of which is known is well ordered, as the planner's contract asks.\<close>

lemma history_ordered:
  assumes "represents (committed b) x ((w, ob) # old)"
  shows "norm_version w \<and> norm_version (fst (last ((w, ob) # old))) \<and> fst (last ((w, ob) # old)) \<le> w
    \<and> (\<forall>v \<in> set (storedChain b x). norm_version v \<and> fst (last ((w, ob) # old)) \<le> v \<and> v \<le> w)"
proof -
  have good: "good_history x ((w, ob) # old)" using represents_good [OF assms] .
  have l: "norm_version (fst (last ((w, ob) # old)))" "\<forall>e \<in> set ((w, ob) # old). fst (last ((w, ob) # old)) \<le> fst e"
    using good_history_last [OF good] by auto
  have "v \<in> fst ` set ((w, ob) # old)" if "v \<in> set (storedChain b x)" for v
    using that storedChain_history [OF assms] by (auto split: if_splits)
  moreover have "norm_version (fst e) \<and> fst e \<le> w" if "e \<in> set ((w, ob) # old)" for e
    using that good good_history_less [OF good] by (auto simp: good_history_def less_imp_le)
  ultimately show ?thesis using l by fastforce
qed

lemma planned_entry_sound:
  assumes r: "represents (committed b) x h" and head: "storedHead b x = Some head"
    and vs: "map viVersion versions = storedChain b x"
    and p: "planKey c ttlBound nsFloor created x head versions = Some entry"
    and n: "norm_version ttlBound" "norm_version nsFloor"
    and f: "peNewFloorVersion entry \<in> insert (peFloorVersion entry) (set (storedChain b x))"
  shows "sound_entry b entry"
proof -
  obtain w ob old where h: "h = (w, ob) # old"
    using r head storedHead_none by (cases h) auto
  note r = r [unfolded h]
  have hd: "head = \<lparr>Version = w, Tombstoned = (ob = None), FloorVersion = fst (last ((w, ob) # old))\<rparr>"
    using storedHead_history [OF r] head by simp
  note o = history_ordered [OF r]
  let ?f = "peNewFloorVersion entry"
  have key: "peLogicalKey entry = x" "peHeadVersion entry = w" "peFloorVersion entry = FloorVersion head"
    "peVersionsToDelete entry = filter (\<lambda>v. Compare v ?f < 0 \<and> Compare v w \<noteq> 0) (storedChain b x)"
    using p vs hd by (auto simp: planKey_Some Let_def)
  have ne: "versions \<noteq> []" using p by (simp add: planKey_Some)
  have nv: "\<forall>v \<in> viVersion ` set versions. norm_version v"
    using o vs by (metis list.set_map)
  have ff: "?f \<in> fst ` set ((w, ob) # old)"
  proof -
    have "fst (last ((w, ob) # old)) \<in> fst ` set ((w, ob) # old)"
      by (intro imageI last_in_set) simp
    then show ?thesis
      using f key(3) hd storedChain_history [OF r] by (auto split: if_splits)
  qed
  then have nf: "norm_version ?f" "?f \<le> w"
    using represents_good [OF r] good_history_less [OF represents_good [OF r]]
    by (auto simp: good_history_def less_imp_le)
  have "set (peVersionsToDelete entry) = {v \<in> set (storedChain b x). v < ?f \<and> v \<noteq> w}"
    using key(4) o nf by (auto simp: Compare_less Compare_eq)
  also have "\<dots> = {v \<in> fst ` set old. v < ?f}"
    using storedChain_history [OF r] nf(2) by (auto split: if_splits)
  finally show ?thesis
    using r key ff unfolding sound_entry_def by blast
qed

text \<open>Two histories of one row differ in what archiving drops from a body, and in nothing else.\<close>

lemma represents_shape:
  assumes r: "represents g x ((w, ob) # old)" and r': "represents g x h"
  shows "\<exists>old'. h = (w, ob) # old' \<and> fst ` set old' = fst ` set old"
proof -
  have v: "fst ` set ol = {v. v \<noteq> u \<and> g (VersionKey x v) \<noteq> None}" if "represents g x ((u, o') # ol)" for u o' ol
  proof -
    have "v \<in> fst ` set ol \<longleftrightarrow> v \<noteq> u \<and> g (VersionKey x v) \<noteq> None" for v
      using that represents_record [OF that, of v] good_history_less [OF represents_good [OF that]]
        map_of_eq_None_iff [of ol v] by (cases "v = u") auto
    then show ?thesis by blast
  qed
  obtain u o' old' where h: "h = (u, o') # old'"
    using r r' by (cases h) (auto simp: represents_def)
  have "u = w" "o' = ob"
    using r r' h by (auto simp: represents_def)
  then show ?thesis using h v [OF r] v [OF r' [unfolded h]] by simp
qed

section \<open>A turn\<close>

lemma applyTurn_sound:
  assumes e: "sound_entry b entry"
    and t: "applyTurn numID (badgerStorage numID valueSize accept) c turn entry (result, backoff, b)
      = ((result', backoff', b'), stop)"
  shows "(\<forall>x h. represents (committed b) x h \<longrightarrow>
            (\<exists>k. (h \<noteq> [] \<longrightarrow> 0 < k) \<and> represents (committed b') x (take k h)))
    \<and> (\<forall>y k. y \<noteq> peLogicalKey entry \<longrightarrow> row_key y k \<longrightarrow> committed b' k = committed b k)"
proof -
  let ?x = "peLogicalKey entry" and ?eng = "badgerStorage numID valueSize accept"
  obtain w ob old where r: "represents (committed b) ?x ((w, ob) # old)"
    and w: "peHeadVersion entry = w" and f: "peNewFloorVersion entry \<in> fst ` set ((w, ob) # old)"
    and del: "set (peVersionsToDelete entry) = {v \<in> fst ` set old. v < peNewFloorVersion entry}"
    using e by (auto simp: sound_entry_def)
  have same: ?thesis if "b' = b"
    using that by (auto intro: exI [of _ "length h" for h])
  show ?thesis
  proof (cases "engineClosed b")
    case True
    then have "checkFence ?eng entry b = FenceError"
      by (simp add: checkFence_def badger_ops readMVCCHead_def withView_def)
    then show ?thesis using t same by (auto simp: applyTurn_def Let_def split: if_splits)
  next
    case False
    let ?h = "\<lparr>Version = w, Tombstoned = (ob = None), FloorVersion = fst (last ((w, ob) # old))\<rparr>"
    have fence: "checkFence ?eng entry b = FencePassed ?h"
      using False r w by (simp add: checkFence_def badger_ops readMVCCHead_def withView_def
          loadHeadInTxn_def represents_def)
    obtain b1 where b1: "finishKey ?eng entry ?h b = (Finished, length (peVersionsToDelete entry), b1)"
        "committed b1 = (\<lambda>k. if k = HeadKey ?x
          then Some (Head (normalizeMVCCHead (?h\<lparr>FloorVersion := peNewFloorVersion entry\<rparr>)))
          else if k \<in> VersionKey ?x ` keyVersion ` set (peVersionsToDelete entry)
          then None else committed b k)"
      using finishKey_accept [OF False, of numID valueSize entry ?h] by blast
    show ?thesis
    proof (cases "isEligible (atNowEligible turn) ?x backoff")
      case False
      then show ?thesis using t same by (simp add: applyTurn_def Let_def)
    next
      case True
      then have b': "b' = b1"
        using t fence b1(1) by (auto simp: applyTurn_def Let_def)
      have good: "good_history ?x ((w, ob) # old)" using represents_good [OF r] .
      have nf: "norm_version (peNewFloorVersion entry)"
        using f good by (auto simp: good_history_def)
      have kv: "keyVersion ` set (peVersionsToDelete entry) = set (peVersionsToDelete entry)"
      proof -
        have "\<forall>v \<in> set (peVersionsToDelete entry). norm_version v"
          using del good by (auto simp: good_history_def)
        then show ?thesis by force
      qed
      have nh: "normalizeMVCCHead (?h\<lparr>FloorVersion := peNewFloorVersion entry\<rparr>)
          = \<lparr>Version = w, Tombstoned = (ob = None), FloorVersion = peNewFloorVersion entry\<rparr>"
        using nf by (simp add: normalize_norm_floor)
      have g': "committed b' = (\<lambda>k. if k = HeadKey ?x
          then Some (Head \<lparr>Version = w, Tombstoned = (ob = None), FloorVersion = peNewFloorVersion entry\<rparr>)
          else if k \<in> VersionKey ?x ` {v \<in> fst ` set old. v < peNewFloorVersion entry}
          then None else committed b k)"
        unfolding b' b1(2) nh del kv [unfolded del] ..
      have frame: "committed b' k = committed b k" if "y \<noteq> ?x" "row_key y k" for y k
        using that by (cases k) (auto simp: g')
      have "\<exists>k. (h \<noteq> [] \<longrightarrow> 0 < k) \<and> represents (committed b') x (take k h)"
        if rx: "represents (committed b) x h" for x h
      proof (cases "x = ?x")
        case True
        obtain old' where h: "h = (w, ob) # old'" "fst ` set old' = fst ` set old"
          using represents_shape [OF r rx [unfolded True]] by blast
        have fh: "peNewFloorVersion entry \<in> fst ` set h" using f h by simp
        have gh: "committed b' = (\<lambda>k. if k = HeadKey ?x
            then Some (Head \<lparr>Version = w, Tombstoned = (ob = None), FloorVersion = peNewFloorVersion entry\<rparr>)
            else if k \<in> VersionKey ?x ` {v \<in> fst ` set old'. v < peNewFloorVersion entry}
            then None else committed b k)"
          unfolding h(2) by (rule g')
        show ?thesis
          using represents_floor [OF rx [unfolded True] h(1) fh gh] unfolding True by blast
      next
        case False
        then have "represents (committed b') x h"
          using rx frame represents_cong [of x "committed b'" "committed b" h] by blast
        then show ?thesis by (intro exI [of _ "length h"]) simp
      qed
      then show ?thesis using frame by blast
    qed
  qed
qed

lemma sound_entry_frame:
  assumes "sound_entry b e" "\<forall>k. row_key (peLogicalKey e) k \<longrightarrow> committed b' k = committed b k"
  shows "sound_entry b' e"
  using assms represents_cong [of "peLogicalKey e" "committed b'" "committed b"]
  by (fastforce simp: sound_entry_def)

lemma applyEntries_sound:
  assumes "\<forall>e \<in> set entries. sound_entry (snd (snd st)) e" "distinct (map peLogicalKey entries)"
    and "represents (committed (snd (snd st))) x h"
  shows "\<exists>k. (h \<noteq> [] \<longrightarrow> 0 < k) \<and>
    represents (committed (snd (snd (applyEntries numID (badgerStorage numID valueSize accept) c turns i entries st)))) x
      (take k h)"
  using assms
proof (induction entries arbitrary: i st h)
  case Nil
  then show ?case by (intro exI [of _ "length h"]) auto
next
  case (Cons entry entries)
  let ?eng = "badgerStorage numID valueSize accept"
  obtain r bo b where st: "st = (r, bo, b)" by (cases st)
  obtain r1 bo1 b1 stop where t: "applyTurn numID ?eng c (turns i) entry (r, bo, b) = ((r1, bo1, b1), stop)"
    by (cases "applyTurn numID ?eng c (turns i) entry (r, bo, b)") auto
  have s: "sound_entry b entry" using Cons.prems(1) st by simp
  note turn = applyTurn_sound [OF s t]
  have rx: "represents (committed b) x h" using Cons.prems(3) st by simp
  then obtain k where k: "h \<noteq> [] \<longrightarrow> 0 < k" "represents (committed b1) x (take k h)"
    using conjunct1 [OF turn] by blast
  show ?case
  proof (cases "outOfBudget c (turns i) entry r")
    case True
    then show ?thesis using Cons.prems(3) st by (intro exI [of _ "length h"]) auto
  next
    case False
    show ?thesis
    proof (cases stop)
      case True
      then show ?thesis using False k st t by auto
    next
      case go: False
      have "sound_entry b1 e" if e: "e \<in> set entries" for e
      proof (rule sound_entry_frame)
        show "sound_entry b e" using Cons.prems(1) st e by simp
        have "peLogicalKey e \<noteq> peLogicalKey entry" using e Cons.prems(2) by (auto simp: image_iff)
        then show "\<forall>k. row_key (peLogicalKey e) k \<longrightarrow> committed b1 k = committed b k"
          using turn by blast
      qed
      then obtain k' where "take k h \<noteq> [] \<longrightarrow> 0 < k'"
          "represents (committed (snd (snd (applyEntries numID ?eng c turns (i + 1) entries (r1, bo1, b1))))) x
             (take k' (take k h))"
        using Cons.IH [of "(r1, bo1, b1)" "take k h" "i + 1"] k(2) Cons.prems(2) by auto
      then show ?thesis
        using False go k(1) st t by (intro exI [of _ "min k' k"]) auto
    qed
  qed
qed

section \<open>Reads across a cycle\<close>

lemma distinct_submset: "mset xs \<subseteq># mset ys \<Longrightarrow> distinct ys \<Longrightarrow> distinct xs"
proof -
  assume "mset xs \<subseteq># mset ys" and d: "distinct ys"
  then obtain zs where "mset ys = mset (xs @ zs)"
    by (metis ex_mset mset_append mset_subset_eq_exists_conv)
  then have "distinct (xs @ zs)" using d by (metis mset_eq_imp_distinct_iff)
  then show ?thesis by simp
qed

lemma safeFloor_norm:
  "(\<forall>f ns. safeFloor = Some f \<longrightarrow> norm_version (f ns)) \<Longrightarrow>
     norm_version ((case safeFloor of Some f \<Rightarrow> f | None \<Rightarrow> (\<lambda>_. maxMVCCVersion)) ns)"
  by (cases safeFloor) auto


section \<open>A store to try a cycle on\<close>

definition demo_row :: "mvcc_version list \<Rightarrow> mvcc_version \<Rightarrow> engine" where
  "demo_row vs w = demo_engine\<lparr>edb := \<lparr>kv = (Primary (N ''a:1''), 9, Body (BN (demo_node ''a:1'' [''NEW''])))
        # (HeadKey (N ''a:1''), 9, Head \<lparr>Version = w, Tombstoned = False, FloorVersion = hd (vs @ [w])\<rparr>)
        # map (\<lambda>v. (VersionKey (N ''a:1'') v, 9,
             Record (Some (BN (demo_node ''a:1'' [decimal (nat (CommitTimestamp v))]))) False)) vs,
     commitTs = 9\<rparr>\<rparr>"

definition demo_config :: lifecycle_config where
  "demo_config = DefaultLifecycleConfig\<lparr>lcMaxVersionsPerKey := 0, MaxChainHardCap := 0,
     DebtSampleFraction := 1, MaxCPUShare := 1\<rparr>"

definition demo_turn :: apply_turn where
  "demo_turn = \<lparr>atElapsed = 0, atCancelled = False, atNowEligible = 0, atNowMismatch = 0, atRandom = 0,
     atNowHot = 0, atWorked = 0, atSleepCancelled = False\<rparr>"

definition demo_storage :: "(btxn \<Rightarrow> db \<Rightarrow> storage_error option) \<Rightarrow> engine lifecycle_storage" where
  "demo_storage kvReject = badgerStorage (\<lambda>_. 7) (\<lambda>_. 100) kvReject"

definition demo_cycle :: "(btxn \<Rightarrow> db \<Rightarrow> storage_error option) \<Rightarrow> lifecycle_config \<Rightarrow> go_time \<Rightarrow> engine \<Rightarrow> engine" where
  "demo_cycle kvReject c now b =
     (case fst (Plan (\<lambda>_. 7) (demo_storage kvReject) now (\<lambda>_. now) now None b (NewPrunePlanner c)) of
        Inl _ \<Rightarrow> b
      | Inr plan \<Rightarrow> snd (snd (Apply (\<lambda>_. 7) (demo_storage kvReject) c (\<lambda>_. demo_turn) (Some plan)
                                 (newBackoffQueue c) b)))"

definition demo_read :: "engine \<Rightarrow> int \<Rightarrow> storage_error + body" where
  "demo_read b t = visibleAtInTxn (\<lambda>_. False) (begin_txn (edb b)) (N ''a:1'') (MVCCVersion t 5)"

definition chain3 :: engine where
  "chain3 = demo_row [MVCCVersion 10 1, MVCCVersion 20 2, MVCCVersion 30 3] (MVCCVersion 40 4)"

definition chain3_history :: history where
  "chain3_history =
     [(MVCCVersion 40 4, Some (BN (demo_node ''a:1'' [''NEW'']))),
      (MVCCVersion 30 3, Some (BN (demo_node ''a:1'' [''30'']))),
      (MVCCVersion 20 2, Some (BN (demo_node ''a:1'' [''20'']))),
      (MVCCVersion 10 1, Some (BN (demo_node ''a:1'' [''10''])))]"

lemma decimal_demo: "decimal 10 = ''10''" "decimal 20 = ''20''" "decimal 30 = ''30''"
  by code_simp+

lemma represents_chain3: "represents (committed chain3) (N ''a:1'') chain3_history"
  by (auto simp: represents_def good_history_def chain3_history_def chain3_def demo_row_def
      demo_engine_def kv_get_def norm_version_def in_nano_range_def less_mvcc_version_def
      history_val_def decimal_demo)

lemma represents_other:
  "x \<noteq> N ''a:1'' \<Longrightarrow> represents (committed chain3) x []"
  by (simp add: represents_def good_history_def chain3_def demo_row_def demo_engine_def kv_get_def)

lemma chain3_rows: "\<forall>x. \<exists>h. represents (committed chain3) x h"
  using represents_chain3 represents_other by (metis (full_types))

definition chain3_entry :: prune_plan_entry where
  "chain3_entry = \<lparr>peCreatedAt = 100, peLogicalKey = N ''a:1'', peHeadVersion = MVCCVersion 40 4,
     peFloorVersion = MVCCVersion 10 1, peNewFloorVersion = MVCCVersion 30 3,
     peVersionsToDelete = [MVCCVersion 10 1, MVCCVersion 20 2], peDebtBytes = 300,
     peTombstoneDepth = 0\<rparr>"

lemma chain3_plan:
  "Plan (\<lambda>_. 7) (badgerStorage (\<lambda>_. 7) (\<lambda>_. 100) accept) 100 (\<lambda>_. 100) 100 None chain3 (NewPrunePlanner demo_config)
   = (Inr \<lparr>ppCreatedAt = 100, ppKeysScanned = 1, ppEntries = [chain3_entry]\<rparr>,
      \<lparr>plConfig = demo_config, plCycleCount = 1\<rparr>)"
  by code_simp

lemma chain3_apply_result:
  "fst (Apply (\<lambda>_. 7) (badgerStorage (\<lambda>_. 7) (\<lambda>_. 100) accept) demo_config (\<lambda>_. demo_turn)
      (Some \<lparr>ppCreatedAt = 100, ppKeysScanned = 1, ppEntries = [chain3_entry]\<rparr>)
      (newBackoffQueue demo_config) chain3)
   = \<lparr>KeysProcessed = 1, VersionsDeleted = 2, BytesFreed = 300, FenceMismatches = 0,
      HotContentionKeys = 0,
      NamespaceBytesFreed = [(namespaceFromLogicalKey (logicalKey (\<lambda>_. 7) (N ''a:1'')), 300)]\<rparr>"
  by code_simp

lemma norm_TTL_none [simp]: "norm_version (TTLBoundVersion now 0)"
  by (simp add: TTLBoundVersion_def)


text \<open>
  Claim C11. The cycle converges: after a full scan, one that passes over no row, whose plan was carried
  out, in any order, planning again with the same bounds plans nothing. (By default one cycle in twenty
  is a full scan.)
\<close>

theorem prune_cycle_converges:
  assumes "\<forall>x. \<exists>h. represents (committed b) x h"
    and "Plan numID (badgerStorage numID valueSize kvReject) now created fin safeFloor b p0 = (Inr plan, p)"
    and "\<forall>x. shouldScanKey p (logicalKey numID x)"
    and "norm_version (TTLBoundVersion now (lcTTL (plConfig p)))"
    and "\<forall>f ns. safeFloor = Some f \<longrightarrow> norm_version (f ns)"
    and "mset entries = mset (ppEntries plan)"
    and "Apply numID (badgerStorage numID valueSize kvReject) c turns (Some (plan\<lparr>ppEntries := entries\<rparr>)) backoff b
      = (result, backoff', b')"
    and "KeysProcessed result = length entries"
    and "Plan numID (badgerStorage numID valueSize kvReject) now created' fin' safeFloor b' p = (Inr plan', p')"
  shows "ppEntries plan' = []"
proof (rule badger.cycle_converges [OF _ assms(2-9)])
  show "badger.ordered_rows b"
    unfolding badger.ordered_rows_def
  proof (intro allI impI)
    fix x head
    assume head: "storedHead b x = Some head"
    obtain h where r: "represents (committed b) x h" using assms(1) by blast
    then obtain w ob old where h: "h = (w, ob) # old"
      using head storedHead_none by (cases h) auto
    show "norm_version (Version head) \<and> norm_version (FloorVersion head) \<and> FloorVersion head \<le> Version head
      \<and> (\<forall>v \<in> set (storedChain b x). norm_version v \<and> FloorVersion head \<le> v \<and> v \<le> Version head)"
      using history_ordered [OF r [unfolded h]] storedHead_history [OF r [unfolded h]] head by simp
  qed
qed

theorem prune_cycle_converges_witness:
  "\<exists>b'. snd (snd (Apply (\<lambda>_. 7) (badgerStorage (\<lambda>_. 7) (\<lambda>_. 100) accept) demo_config (\<lambda>_. demo_turn)
        (Some \<lparr>ppCreatedAt = 100, ppKeysScanned = 1, ppEntries = [chain3_entry]\<rparr>)
        (newBackoffQueue demo_config) chain3)) = b'
     \<and> (\<nexists>plan p. Plan (\<lambda>_. 7) (badgerStorage (\<lambda>_. 7) (\<lambda>_. 100) accept) 100 (\<lambda>_. 200) 200 None b'
            \<lparr>plConfig = demo_config, plCycleCount = 1\<rparr> = (Inr plan, p) \<and> ppEntries plan \<noteq> [])"
proof -
  let ?plan = "\<lparr>ppCreatedAt = 100, ppKeysScanned = 1, ppEntries = [chain3_entry]\<rparr>"
  let ?eng = "badgerStorage (\<lambda>_. 7) (\<lambda>_. 100) accept" and ?p = "\<lparr>plConfig = demo_config, plCycleCount = 1\<rparr>"
  obtain r q b' where run: "Apply (\<lambda>_. 7) ?eng demo_config (\<lambda>_. demo_turn)
      (Some (?plan\<lparr>ppEntries := [chain3_entry]\<rparr>)) (newBackoffQueue demo_config) chain3 = (r, q, b')"
    by (cases "Apply (\<lambda>_. 7) ?eng demo_config (\<lambda>_. demo_turn)
      (Some (?plan\<lparr>ppEntries := [chain3_entry]\<rparr>)) (newBackoffQueue demo_config) chain3")
  have all: "KeysProcessed r = length [chain3_entry]"
    using chain3_apply_result run by simp
  have full: "\<forall>x. shouldScanKey ?p (logicalKey (\<lambda>_. 7) x)"
    by (simp add: shouldScanKey_def demo_config_def)
  have ttl: "norm_version (TTLBoundVersion 100 (lcTTL (plConfig ?p)))"
    by (simp add: demo_config_def DefaultLifecycleConfig_def)
  have "ppEntries plan = []" if "Plan (\<lambda>_. 7) ?eng 100 (\<lambda>_. 200) 200 None b' ?p = (Inr plan, p)" for plan p
    by (rule prune_cycle_converges [OF chain3_rows chain3_plan full ttl _ _ run all that]) simp_all
  then show ?thesis using run by auto
qed

section \<open>How it goes wrong\<close>

text \<open>
  A floor between two versions deletes the version the reads above it need: after a cycle
  with a time to live, a snapshot inside the time to live no longer finds a row that existed then,
  and is not told that its history is gone.
\<close>

theorem ttl_floor_hides_live_row:
  "demo_read chain3 25 = Inr (BN (demo_node ''a:1'' [''20'']))
   \<and> demo_read (demo_cycle accept (demo_config\<lparr>lcTTL := 80\<rparr>) 104 chain3) 25 = Inl ErrNotFound"
proof
  show "demo_read chain3 25 = Inr (BN (demo_node ''a:1'' [''20'']))"
    by code_simp
  show "demo_read (demo_cycle accept (demo_config\<lparr>lcTTL := 80\<rparr>) 104 chain3) 25 = Inl ErrNotFound"
    by code_simp
qed

text \<open>A store that refuses one delete: that of the oldest version.\<close>

definition keep_oldest :: "btxn \<Rightarrow> db \<Rightarrow> storage_error option" where
  "keep_oldest t d =
     (if map fst (writes t) = [VersionKey (N ''a:1'') (MVCCVersion 10 1)] then Some ErrCommitFailed else None)"

text \<open>
  Versions are deleted before the floor is raised: when one delete fails, the floor stays,
  and a snapshot above it reads an older body than the one committed before it.
\<close>

theorem failed_delete_serves_stale_body:
  "demo_read chain3 25 = Inr (BN (demo_node ''a:1'' [''20'']))
   \<and> demo_read (demo_cycle keep_oldest demo_config 104 chain3) 25 = Inr (BN (demo_node ''a:1'' [''10'']))"
proof
  show "demo_read chain3 25 = Inr (BN (demo_node ''a:1'' [''20'']))"
    by code_simp
  show "demo_read (demo_cycle keep_oldest demo_config 104 chain3) 25 = Inr (BN (demo_node ''a:1'' [''10'']))"
    by code_simp
qed

text \<open>
  The fence is checked in one transaction and the head written in another: a commit in
  between is undone in the head. The row's head falls back to the version the plan saw, and a
  snapshot at that version reads the body committed after it.
\<close>

theorem late_head_write_exposes_newer_body:
  assumes "represents (committed b) x ((w, Some seen_body) # seen)"
    and "checkFence (badgerStorage numID valueSize accept) entry b = FencePassed head"
    and "peLogicalKey entry = x" "norm_version (peNewFloorVersion entry)" "peNewFloorVersion entry \<le> w"
    and "represents (committed b1) x ((v, Some new_body) # (w, Some old_body) # old)" "\<not> engineClosed b1"
    and "finishKey (badgerStorage numID valueSize accept) entry head b1 = (r, n, b2)"
  shows "visibleAtInTxn decayed (begin_txn (edb b1)) x w = hide_decayed decayed (Inr (archived old_body))
    \<and> storedHead b2 x = Some \<lparr>Version = w, Tombstoned = False, FloorVersion = peNewFloorVersion entry\<rparr>
    \<and> visibleAtInTxn decayed (begin_txn (edb b2)) x w = hide_decayed decayed (Inr new_body)"
proof -
  have good: "good_history x ((v, Some new_body) # (w, Some old_body) # old)"
    using represents_good [OF assms(6)] .
  then have w: "norm_version w" "w < v" by (auto simp: good_history_def)
  have before: "visibleAtInTxn decayed (begin_txn (edb b1)) x w = hide_decayed decayed (Inr (archived old_body))"
    using visible_history [of "begin_txn (edb b1)" x "(v, Some new_body) # (w, Some old_body) # old" w decayed]
      assms(6) w not_le [of v w] by (simp add: represents_committed history_at_def of_state_def)
  have "storedHead b x = Some head"
    using badger.checkFence_head [OF assms(2)] assms(3) by simp
  then have head: "Version head = w" "Tombstoned head = False"
    using storedHead_history [OF assms(1)] by auto
  have f: "committed b2 = (\<lambda>k. if k = HeadKey x
      then Some (Head (normalizeMVCCHead (head\<lparr>FloorVersion := peNewFloorVersion entry\<rparr>)))
      else if k \<in> VersionKey x ` keyVersion ` set (peVersionsToDelete entry) then None else committed b1 k)"
    using finishKey_accept [OF assms(7), of numID valueSize entry head] assms(8,3) by auto
  have h2: "committed b2 (HeadKey x) =
      Some (Head \<lparr>Version = w, Tombstoned = False, FloorVersion = peNewFloorVersion entry\<rparr>)"
    using assms(4) head by (simp add: f normalize_norm_floor head_with_floor)
  have p2: "committed b2 (Primary x) = Some (Body new_body)"
    using assms(6) by (auto simp: f represents_def)
  have "0 \<le> Compare w (peNewFloorVersion entry)"
    using w(1) assms(4,5) by (simp add: Compare_ge_iff)
  then have "visibleAtInTxn decayed (begin_txn (edb b2)) x w = hide_decayed decayed (Inr new_body)"
    using h2 p2 by (simp add: visibleAtInTxn_def loadHeadInTxn_def readPrimary_def nodeOf_def hide_decayed_def)
  then show ?thesis using before h2 by (simp add: storedHead_def)
qed

theorem late_head_write_exposes_newer_body_witness:
  "\<exists>b1 b2. visibleAtInTxn (\<lambda>_. False) (begin_txn (edb b1)) (N ''a:1'') (MVCCVersion 40 4)
      = Inr (BN (demo_node ''a:1'' [''40'']))
    \<and> snd (snd (finishKey (badgerStorage (\<lambda>_. 7) (\<lambda>_. 100) accept) chain3_entry
        \<lparr>Version = MVCCVersion 40 4, Tombstoned = False, FloorVersion = MVCCVersion 10 1\<rparr> b1)) = b2
    \<and> visibleAtInTxn (\<lambda>_. False) (begin_txn (edb b2)) (N ''a:1'') (MVCCVersion 40 4)
      = Inr (BN (demo_node ''a:1'' [''NEW'']))"
proof -
  let ?eng = "badgerStorage (\<lambda>_. 7) (\<lambda>_. 100) accept"
  let ?head = "\<lparr>Version = MVCCVersion 40 4, Tombstoned = False, FloorVersion = MVCCVersion 10 1\<rparr>"
  let ?b1 = "demo_row [MVCCVersion 10 1, MVCCVersion 20 2, MVCCVersion 30 3, MVCCVersion 40 4] (MVCCVersion 50 5)"
  let ?h = "[(MVCCVersion 30 3, Some (BN (demo_node ''a:1'' [''30'']))),
      (MVCCVersion 20 2, Some (BN (demo_node ''a:1'' [''20'']))),
      (MVCCVersion 10 1, Some (BN (demo_node ''a:1'' [''10''])))]"
  have d: "decimal 40 = ''40''" by code_simp
  have r1: "represents (committed ?b1) (N ''a:1'') ((MVCCVersion 50 5, Some (BN (demo_node ''a:1'' [''NEW''])))
      # (MVCCVersion 40 4, Some (BN (demo_node ''a:1'' [''40'']))) # ?h)"
    by (auto simp: represents_def good_history_def demo_row_def demo_engine_def kv_get_def d
        norm_version_def in_nano_range_def less_mvcc_version_def history_val_def decimal_demo)
  have fence: "checkFence ?eng chain3_entry chain3 = FencePassed ?head"
    by code_simp
  have f: "peLogicalKey chain3_entry = N ''a:1''" "norm_version (peNewFloorVersion chain3_entry)"
    "peNewFloorVersion chain3_entry \<le> MVCCVersion 40 4" "\<not> engineClosed ?b1"
    by (simp_all add: chain3_entry_def norm_version_def in_nano_range_def less_eq_mvcc_version_def
        demo_row_def demo_engine_def)
  obtain r n b2 where fin: "finishKey ?eng chain3_entry ?head ?b1 = (r, n, b2)"
    by (cases "finishKey ?eng chain3_entry ?head ?b1")
  have reads: "visibleAtInTxn (\<lambda>_. False) (begin_txn (edb ?b1)) (N ''a:1'') (MVCCVersion 40 4)
      = Inr (BN (demo_node ''a:1'' [''40'']))"
    "visibleAtInTxn (\<lambda>_. False) (begin_txn (edb b2)) (N ''a:1'') (MVCCVersion 40 4)
      = Inr (BN (demo_node ''a:1'' [''NEW'']))"
    using late_head_write_exposes_newer_body
        [OF represents_chain3 [unfolded chain3_history_def] fence f(1-3) r1 f(4) fin, of "\<lambda>_. False"]
    by (simp_all add: hide_decayed_def)
  have "snd (snd (finishKey ?eng chain3_entry ?head ?b1)) = b2"
    using fin by simp
  then show ?thesis using reads by blast
qed

text \<open>
  Registered readers do not hold back the planner: unless a namespace begins with a NUL
  character, or the dictionary has numbered \<open>2 ^ 56\<close> rows, the plan of a cycle is the plan made
  with no reader at all.
\<close>

theorem readers_do_not_hold_back_pruning:
  assumes "\<forall>x. numID x < 2 ^ 56"
    and "\<forall>ns \<in> Namespace ` set (readerInfos r). take 1 ns \<noteq> [CHR 0x00]"
  shows "Plan numID eng now created fin (Some (safeFloorOf (OldestReaderVersionsByNamespace r))) s p
    = Plan numID eng now created fin None s p"
  using assms by (rule plan_ignores_readers)

text \<open>The reader of this registry reads its row at version 15; the cycle plans to delete what it reads.\<close>

theorem readers_do_not_hold_back_pruning_witness:
  "\<exists>plan p. Plan (\<lambda>_. 7) (badgerStorage (\<lambda>_. 7) (\<lambda>_. 100) accept) 100 (\<lambda>_. 100) 100
      (Some (safeFloorOf (OldestReaderVersionsByNamespace (snd (Register 0
         \<lparr>ReaderID = ''tx'', SnapshotVersion = MVCCVersion 15 5, StartTime = 0, Namespace = ''a''\<rparr>
         NewReaderRegistry))))) chain3 (NewPrunePlanner demo_config) = (Inr plan, p)
    \<and> MVCCVersion 10 1 \<in> \<Union> (set ` peVersionsToDelete ` set (ppEntries plan))"
proof -
  let ?r = "snd (Register 0
     \<lparr>ReaderID = ''tx'', SnapshotVersion = MVCCVersion 15 5, StartTime = 0, Namespace = ''a''\<rparr> NewReaderRegistry)"
  have "\<forall>ns \<in> Namespace ` set (readerInfos ?r). take 1 ns \<noteq> [CHR 0x00]"
    by (simp add: Register_def NewReaderRegistry_def readerInfos_def)
  moreover have "\<forall>x :: ent. (7 :: u64) < 2 ^ 56" by simp
  ultimately show ?thesis
    using readers_do_not_hold_back_pruning [of "\<lambda>_. 7" ?r "badgerStorage (\<lambda>_. 7) (\<lambda>_. 100) accept" 100
      "\<lambda>_. 100" 100 chain3 "NewPrunePlanner demo_config"] chain3_plan
    by (simp add: chain3_entry_def)
qed

end
