(* ===== verification/WalRecord.thy ===== *)
theory WalRecord
  imports GraphStore
begin

text \<open>
  The records of the write-ahead log: their framing (\<^verbatim>\<open>pkg/storage/wal_atomic_record.go\<close>), the reader
  and the integrity check (\<^verbatim>\<open>wal.go\<close>), and the repair of a torn tail (\<^verbatim>\<open>wal_repair.go\<close>).

  A file is its bytes. The payload of a record is JSON of the standard library: a value of the record
  \<open>json\<close> says what marshalling gives and what unmarshalling accepts; the theorems assume that an entry
  that is marshalled is read back.
\<close>

section \<open>Little-endian words\<close>

definition le32 :: "32 word \<Rightarrow> byte list" where
  "le32 v = [ucast v, ucast (drop_bit 8 v), ucast (drop_bit 16 v), ucast (drop_bit 24 v)]"

definition le64 :: "u64 \<Rightarrow> byte list" where
  "le64 v = rev (be64 v)"

fun le_horner :: "byte list \<Rightarrow> 'a::len word" where
  "le_horner [] = 0"
| "le_horner (b # bs) = push_bit 8 (le_horner bs) OR ucast b"

definition le32_read :: "byte list \<Rightarrow> 32 word" where
  "le32_read bs = le_horner (take 4 bs)"

definition le64_read :: "byte list \<Rightarrow> u64" where
  "le64_read bs = le_horner (take 8 bs)"

lemma length_le32 [simp]: "length (le32 v) = 4"
  by (simp add: le32_def)

lemma length_le64 [simp]: "length (le64 v) = 8"
  by (simp add: le64_def)

lemma le_join_byte32:
  "push_bit 8 (drop_bit (k + 8) v) OR ucast (ucast (drop_bit k v) :: byte) = drop_bit k (v :: 32 word)"
  by (rule bit_word_eqI) (auto simp: bit_simps ac_simps dest: bit_imp_le_length split: nat_diff_split)

lemma le32_read_le32 [simp, codec_simps]: "le32_read (le32 v @ xs) = v"
proof -
  have "ucast (ucast (drop_bit 24 v) :: byte) = drop_bit 24 (v :: 32 word)"
    by (rule bit_word_eqI) (auto simp: bit_simps dest: bit_imp_le_length)
  then show ?thesis
    using le_join_byte32 [of 16 v] le_join_byte32 [of 8 v] le_join_byte32 [of 0 v]
    by (simp add: le32_read_def le32_def)
qed

lemma le64_read_le64 [simp, codec_simps]: "le64_read (le64 v @ xs) = v"
  using join_bytes [of v] top_byte [of v]
  by (simp add: le64_read_def le64_def be64_def)

lemma le_read_alone [simp]: "le32_read (le32 v) = v" "le64_read (le64 w) = w"
  using le32_read_le32 [of v "[]"] le64_read_le64 [of w "[]"] by simp_all

section \<open>Checksums\<close>

text \<open>\<^verbatim>\<open>crc32.Checksum\<close> of the standard library with the Castagnoli polynomial, bit by bit.\<close>

definition castagnoli :: "32 word" where
  "castagnoli = 0x82F63B78"

definition crc_bit :: "32 word \<Rightarrow> 32 word" where
  "crc_bit c = (if bit c 0 then drop_bit 1 c XOR castagnoli else drop_bit 1 c)"

definition crc_byte :: "byte \<Rightarrow> 32 word \<Rightarrow> 32 word" where
  "crc_byte b c = (crc_bit ^^ 8) (c XOR ucast b)"

definition crc32Checksum :: "byte list \<Rightarrow> 32 word" where
  "crc32Checksum bs = NOT (fold crc_byte bs (NOT 0))"

lemma xor_inject: "c XOR b = d XOR b \<longleftrightarrow> c = (d :: 'a::len word)"
  by (metis xor.assoc xor_self_eq xor.right_neutral)

text \<open>No step forgets a difference: shifting is injective because the polynomial has its top bit
  set, which no shifted word has.\<close>

lemma crc_bit_inject: "crc_bit c = crc_bit d \<longleftrightarrow> c = d"
proof
  assume eq: "crc_bit c = crc_bit d"
  have top: "bit (crc_bit x) 31 \<longleftrightarrow> bit x 0" for x
    by (auto simp: crc_bit_def castagnoli_def bit_simps dest: bit_imp_le_length)
  have low: "bit c 0 \<longleftrightarrow> bit d 0"
    using top [of c] top [of d] eq by simp
  have form: "crc_bit x = drop_bit 1 x XOR (if bit x 0 then castagnoli else 0)" for x
    by (simp add: crc_bit_def)
  have shift: "drop_bit 1 c = drop_bit 1 d"
  proof -
    have "drop_bit 1 c XOR (if bit d 0 then castagnoli else 0) = drop_bit 1 d XOR (if bit d 0 then castagnoli else 0)"
      using eq low by (simp only: form)
    then show ?thesis by (simp only: xor_inject)
  qed
  show "c = d"
  proof (rule bit_word_eqI)
    fix n
    assume "n < LENGTH(32)"
    show "bit c n \<longleftrightarrow> bit d n"
    proof (cases n)
      case 0
      then show ?thesis using low by simp
    next
      case (Suc m)
      have "bit (drop_bit 1 c) m \<longleftrightarrow> bit (drop_bit 1 d) m" using shift by simp
      then show ?thesis using Suc by (simp add: bit_simps)
    qed
  qed
qed simp

lemma crc_bits_inject: "(crc_bit ^^ n) c = (crc_bit ^^ n) d \<longleftrightarrow> c = d"
  by (induction n) (simp_all add: crc_bit_inject)

lemma crc_byte_inject: "crc_byte b c = crc_byte b d \<longleftrightarrow> c = d"
  by (simp add: crc_byte_def crc_bits_inject xor_inject)

lemma crc_byte_differ: "crc_byte b c = crc_byte b' c \<longleftrightarrow> b = b'"
proof
  assume "crc_byte b c = crc_byte b' c"
  then have "ucast b XOR c = (ucast b' XOR c :: 32 word)"
    by (simp add: crc_byte_def crc_bits_inject xor.commute)
  then have "ucast b = (ucast b' :: 32 word)"
    by (simp only: xor_inject)
  moreover have "ucast (ucast x :: 32 word) = x" for x :: byte
    by (rule bit_word_eqI) (auto simp: bit_simps)
  ultimately show "b = b'"
    by metis
qed simp

lemma crc_bytes_inject: "fold crc_byte bs c = fold crc_byte bs d \<longleftrightarrow> c = d"
  by (induction bs arbitrary: c d) (simp_all add: crc_byte_inject)

text \<open>Changing one byte changes the checksum.\<close>

lemma crc32Checksum_byte:
  assumes "i < length bs"
  shows "crc32Checksum (bs[i := b]) = crc32Checksum bs \<longleftrightarrow> b = bs ! i"
proof -
  let ?xs = "take i bs" and ?ys = "drop (Suc i) bs"
  have old: "fold crc_byte bs c = fold crc_byte ?ys (crc_byte (bs ! i) (fold crc_byte ?xs c))" for c
    by (subst id_take_nth_drop [OF assms]) simp
  have new: "fold crc_byte (bs[i := b]) c = fold crc_byte ?ys (crc_byte b (fold crc_byte ?xs c))" for c
    by (subst upd_conv_take_nth_drop [OF assms]) simp
  have "fold crc_byte (bs[i := b]) c = fold crc_byte bs c \<longleftrightarrow> b = bs ! i" for c
    by (simp add: old new crc_bytes_inject crc_byte_differ)
  then show ?thesis
    by (simp add: crc32Checksum_def)
qed

section \<open>Entries and records\<close>

datatype wal_op =
    OpCreateNode | OpUpdateNode | OpDeleteNode | OpCreateEdge | OpUpdateEdge | OpDeleteEdge
  | OpUpdateEmbedding | OpBulkNodes | OpBulkEdges | OpBulkDeleteNodes | OpBulkDeleteEdges
  | OpCheckpoint | OpTxBegin | OpTxCommit | OpTxAbort | OpOther string

record wal_entry =
  weSequence :: u64
  weTimestamp :: go_time
  weOperation :: wal_op
  weData :: "byte list"
  weChecksum :: "32 word"
  weDatabase :: string

text \<open>Marshalling an entry, unmarshalling one, and the decoder of a stream of entries: \<open>None\<close> at the
  end, \<open>Some None\<close> on malformed input.\<close>

record json =
  jMarshal :: "wal_entry \<Rightarrow> byte list"
  jUnmarshal :: "byte list \<Rightarrow> wal_entry option"
  jDecode :: "byte list \<Rightarrow> (wal_entry \<times> byte list) option option"

datatype wal_error = ErrWALClosed | ErrWALCorrupted | ErrWALChecksumFailed | ErrWALPadding | ErrWALIO | ErrWALMarshal

definition walMagic :: "32 word" where "walMagic = 0x454C4157"
definition walFormatVersion :: byte where "walFormatVersion = 2"
definition walTrailer :: u64 where "walTrailer = 0xDEADBEEFFEEDFACE"
definition walMaxEntrySize :: "32 word" where "walMaxEntrySize = 16 * 1024 * 1024"

definition alignUp :: "int \<Rightarrow> int" where
  "alignUp n = (n + 7) AND NOT 7"

lemma alignUp_eq: "alignUp n = (n + 7) div 8 * 8"
proof -
  have seven: "(7 :: int) = mask 3"
    by (simp add: mask_eq_exp_minus_1)
  have "m AND NOT 7 = push_bit 3 (drop_bit 3 m)" for m :: int
    unfolding seven by (rule bit_eqI) (auto simp: bit_simps)
  then show ?thesis
    by (simp add: alignUp_def push_bit_eq_mult drop_bit_eq_div)
qed

lemma alignUp_bounds: "n \<le> alignUp n" "alignUp n < n + 8"
  by (simp_all add: alignUp_eq)

lemma alignUp_pos: "0 < n \<Longrightarrow> 0 < alignUp n"
  using alignUp_bounds(1) [of n] by linarith

lemma alignUp_uint [simp]: "0 < alignUp (21 + uint w)"
  by (rule alignUp_pos) (metis add_pos_nonneg uint_ge_0 zero_less_numeral)

definition padding :: "int \<Rightarrow> nat" where
  "padding raw = nat (alignUp raw - raw)"

definition buildAtomicRecordV2 :: "byte list \<Rightarrow> byte list \<times> int" where
  "buildAtomicRecordV2 payload =
     (let rawRecordLen = 9 + (int (length payload) + 4 + 8)
      in (le32 walMagic @ walFormatVersion # le32 (of_nat (length payload)) @ payload
            @ le32 (crc32Checksum payload) @ le64 walTrailer @ replicate (padding rawRecordLen) 0,
          alignUp rawRecordLen))"

section \<open>Reading\<close>

text \<open>\<^verbatim>\<open>io.ReadFull\<close> of the standard library.\<close>

datatype read_full = Full "byte list" "byte list" | Eof | UnexpectedEof

definition ReadFull :: "nat \<Rightarrow> byte list \<Rightarrow> read_full" where
  "ReadFull n bs =
     (if n \<le> length bs then Full (take n bs) (drop n bs) else if bs = [] then Eof else UnexpectedEof)"

text \<open>One turn of the reader's loop. A step ends the log, stops at a partial write, fails, drops an
  entry, or gives one.\<close>

datatype read_step =
    StepEnd | StepPartial | StepFail wal_error | StepSkip "byte list" | StepEntry wal_entry "byte list"

definition readTrailer :: "byte \<Rightarrow> 32 word \<Rightarrow> byte list \<Rightarrow> (byte list \<Rightarrow> read_step) \<Rightarrow> read_step" where
  "readTrailer version payloadLen bs continue =
     (if version < 2 then continue bs
      else case ReadFull 8 bs of
        Full trailerBuf bs1 \<Rightarrow>
          if le64_read trailerBuf \<noteq> walTrailer then StepPartial
          else let n = padding (uint (9 + payloadLen + 4 + 8))
               in if n = 0 then continue bs1
                  else (case ReadFull n bs1 of
                    Full _ bs2 \<Rightarrow> continue bs2
                  | UnexpectedEof \<Rightarrow> StepPartial
                  | Eof \<Rightarrow> StepFail ErrWALPadding)
      | _ \<Rightarrow> StepPartial)"

definition decodeEntry :: "json \<Rightarrow> byte list \<Rightarrow> byte list \<Rightarrow> read_step" where
  "decodeEntry js payload bs =
     (case jUnmarshal js payload of
        None \<Rightarrow> StepFail ErrWALCorrupted
      | Some entry \<Rightarrow>
          if weChecksum entry \<noteq> crc32Checksum (weData entry)
          then if weOperation entry = OpUpdateEmbedding then StepSkip bs else StepFail ErrWALChecksumFailed
          else StepEntry entry bs)"

definition readRecord :: "json \<Rightarrow> byte list \<Rightarrow> read_step" where
  "readRecord js bs =
     (case ReadFull 9 bs of
        Eof \<Rightarrow> StepEnd
      | UnexpectedEof \<Rightarrow> StepPartial
      | Full header bs1 \<Rightarrow>
          let version = header ! 4; payloadLen = le32_read (drop 5 header)
          in if le32_read header \<noteq> walMagic then StepFail ErrWALCorrupted
             else if version > walFormatVersion then StepFail ErrWALCorrupted
             else if payloadLen > walMaxEntrySize then StepFail ErrWALCorrupted
             else (case ReadFull (unat payloadLen) bs1 of
               Full payload bs2 \<Rightarrow>
                 (case ReadFull 4 bs2 of
                    Full crcBuf bs3 \<Rightarrow>
                      if le32_read crcBuf \<noteq> crc32Checksum payload
                      then (case jUnmarshal js payload of
                              Some entry \<Rightarrow> if weOperation entry = OpUpdateEmbedding then StepSkip bs3
                                            else StepFail ErrWALChecksumFailed
                            | None \<Rightarrow> StepFail ErrWALChecksumFailed)
                      else readTrailer version payloadLen bs3 (decodeEntry js payload)
                  | _ \<Rightarrow> StepPartial)
             | _ \<Rightarrow> StepPartial))"

lemma ReadFull_Full: "ReadFull n bs = Full xs ys \<longleftrightarrow> n \<le> length bs \<and> xs = take n bs \<and> ys = drop n bs"
  by (auto simp: ReadFull_def)

lemma ReadFull_append [simp]: "length xs = n \<Longrightarrow> ReadFull n (xs @ ys) = Full xs ys"
  by (simp add: ReadFull_def)

fun step_rest :: "read_step \<Rightarrow> byte list option" where
  "step_rest (StepSkip rest) = Some rest"
| "step_rest (StepEntry _ rest) = Some rest"
| "step_rest _ = None"

lemma decodeEntry_rest: "step_rest (decodeEntry js payload bs) = Some rest \<Longrightarrow> rest = bs"
  by (simp add: decodeEntry_def split: option.splits if_splits)

lemma readTrailer_rest:
  "step_rest (readTrailer version payloadLen bs k) = Some rest \<Longrightarrow> \<exists>n. step_rest (k (drop n bs)) = Some rest"
  by (auto simp: readTrailer_def Let_def ReadFull_Full split: if_splits read_full.splits intro: exI [of _ 0])

lemma readRecord_rest:
  assumes "step_rest (readRecord js bs) = Some rest"
  shows "length rest < length bs"
proof -
  have len: "9 \<le> length bs" "bs \<noteq> []"
    using assms by (auto simp: readRecord_def ReadFull_def split: if_splits)
  have "\<exists>m \<ge> 9. rest = drop m bs"
    using assms len
    apply (auto simp: readRecord_def ReadFull_Full Let_def split: if_splits read_full.splits option.splits
        dest!: readTrailer_rest decodeEntry_rest)
     apply (rule exI, rule conjI [rotated], rule refl, simp)+
    done
  then show ?thesis using len by auto
qed

lemma readRecord_skip: "readRecord js bs = StepSkip rest \<Longrightarrow> length rest < length bs"
  using readRecord_rest [of js bs rest] by simp

lemma readRecord_entry: "readRecord js bs = StepEntry entry rest \<Longrightarrow> length rest < length bs"
  using readRecord_rest [of js bs rest] by simp

text \<open>How reading ended: at the end, with the flags the code logs, or with an error.\<close>

datatype read_end = ReadDone bool nat | ReadError wal_error

function visitAtomicWALEntries :: "json \<Rightarrow> byte list \<Rightarrow> nat \<Rightarrow> wal_entry list \<times> read_end" where
  "visitAtomicWALEntries js bs skipped =
     (case readRecord js bs of
        StepEnd \<Rightarrow> ([], ReadDone False skipped)
      | StepPartial \<Rightarrow> ([], ReadDone True skipped)
      | StepFail e \<Rightarrow> ([], ReadError e)
      | StepSkip rest \<Rightarrow> visitAtomicWALEntries js rest (skipped + 1)
      | StepEntry entry rest \<Rightarrow>
          (let (entries, how) = visitAtomicWALEntries js rest skipped in (entry # entries, how)))"
  by pat_completeness auto
termination
  by (relation "measure (\<lambda>(js, bs, skipped). length bs)") (auto dest: readRecord_skip readRecord_entry)

declare visitAtomicWALEntries.simps [simp del]

text \<open>The reader takes the format from the first four bytes; \<^verbatim>\<open>Read\<close> fills what there is. The
  legacy format is a stream of JSON entries.\<close>

definition peekMagic :: "byte list \<Rightarrow> 32 word" where
  "peekMagic bs = le32_read (take 4 bs @ replicate (4 - length bs) 0)"

function visitLegacyWALEntries :: "json \<Rightarrow> byte list \<Rightarrow> nat \<Rightarrow> wal_entry list \<times> read_end" where
  "visitLegacyWALEntries js bs skipped =
     (case jDecode js bs of
        None \<Rightarrow> ([], ReadDone False skipped)
      | Some None \<Rightarrow> ([], ReadError ErrWALCorrupted)
      | Some (Some (entry, rest)) \<Rightarrow>
          if \<not> length rest < length bs then ([], ReadError ErrWALCorrupted)
          else if weChecksum entry \<noteq> crc32Checksum (weData entry)
          then if weOperation entry = OpUpdateEmbedding then visitLegacyWALEntries js rest (skipped + 1)
               else ([], ReadError ErrWALCorrupted)
          else (let (entries, how) = visitLegacyWALEntries js rest skipped in (entry # entries, how)))"
  by pat_completeness auto
termination
  by (relation "measure (\<lambda>(js, bs, skipped). length bs)") auto

declare visitLegacyWALEntries.simps [simp del]

definition visitWALEntries :: "json \<Rightarrow> byte list \<Rightarrow> wal_entry list \<times> read_end" where
  "visitWALEntries js bs =
     (if bs = [] then ([], ReadDone False 0)
      else if peekMagic bs = walMagic then visitAtomicWALEntries js bs 0
      else visitLegacyWALEntries js bs 0)"

definition ReadWALEntries :: "json \<Rightarrow> byte list \<Rightarrow> wal_error + wal_entry list" where
  "ReadWALEntries js bs =
     (case visitWALEntries js bs of
        (entries, ReadDone _ _) \<Rightarrow> Inr entries
      | (entries, ReadError e) \<Rightarrow> Inl e)"

section \<open>Repairing the tail\<close>

datatype repair_reason =
    IncompleteTail | InvalidMagic | UnsupportedVersion | InvalidPayloadSize | CrcMismatch
  | InvalidTrailer | InvalidJson | DataChecksumMismatch | InconsistentSize

text \<open>One turn of \<^verbatim>\<open>scanAtomicWALForRepair\<close>, on the bytes from the offset on: the record that starts
  there and its length, or why there is none.\<close>

definition scanRecord :: "json \<Rightarrow> byte list \<Rightarrow> repair_reason + wal_entry \<times> nat" where
  "scanRecord js bs =
     (if length bs < 9 then Inl IncompleteTail
      else let version = bs ! 4; payloadLen = le32_read (take 4 (drop 5 bs));
               minRecordLen = 9 + unat payloadLen + 4
      in if le32_read (take 4 bs) \<noteq> walMagic then Inl InvalidMagic
         else if version > walFormatVersion then Inl UnsupportedVersion
         else if payloadLen > walMaxEntrySize then Inl InvalidPayloadSize
         else if length bs < minRecordLen then Inl IncompleteTail
         else let payload = take (unat payloadLen) (drop 9 bs)
         in if le32_read (take 4 (drop (9 + unat payloadLen) bs)) \<noteq> crc32Checksum payload then Inl CrcMismatch
            else if version \<ge> 2 \<and> length bs < minRecordLen + 8 then Inl IncompleteTail
            else if version \<ge> 2 \<and> le64_read (take 8 (drop minRecordLen bs)) \<noteq> walTrailer then Inl InvalidTrailer
            else let recordLen = (if version \<ge> 2 then nat (alignUp (int minRecordLen + 8)) else minRecordLen)
            in if version \<ge> 2 \<and> length bs < recordLen then Inl IncompleteTail
               else (case jUnmarshal js payload of
                       None \<Rightarrow> Inl InvalidJson
                     | Some entry \<Rightarrow>
                         if weChecksum entry \<noteq> crc32Checksum (weData entry) then Inl DataChecksumMismatch
                         else Inr (entry, recordLen)))"

lemma scanRecord_len: "scanRecord js bs = Inr (entry, n) \<Longrightarrow> 0 < n"
  by (auto simp: scanRecord_def Let_def split: if_splits option.splits)

text \<open>The loop over the file: the offset to truncate at, the last good sequence, and the reason, or
  \<open>None\<close> when every record is good.\<close>

function scanAtomicWALForRepair :: "json \<Rightarrow> byte list \<Rightarrow> nat \<Rightarrow> u64 \<Rightarrow> nat \<times> u64 \<times> repair_reason option" where
  "scanAtomicWALForRepair js file offset lastGoodSeq =
     (if offset = length file then (0, lastGoodSeq, None)
      else if offset > length file then (offset, lastGoodSeq, Some InconsistentSize)
      else case scanRecord js (drop offset file) of
        Inl reason \<Rightarrow> (offset, lastGoodSeq, Some reason)
      | Inr (entry, recordLen) \<Rightarrow>
          scanAtomicWALForRepair js file (offset + recordLen) (weSequence entry))"
  by pat_completeness auto
termination
  by (relation "measure (\<lambda>(js, file, offset, last). length file - offset)") (auto dest: scanRecord_len)

declare scanAtomicWALForRepair.simps [simp del]

text \<open>\<^verbatim>\<open>repairWALTailIfNeeded\<close>: the file afterwards and whether it was cut. A file of another format is
  left alone.\<close>

definition repairWALTailIfNeeded :: "json \<Rightarrow> byte list \<Rightarrow> byte list \<times> bool" where
  "repairWALTailIfNeeded js file =
     (if file = [] then (file, False)
      else if length file < 4 then ([], True)
      else if le32_read (take 4 file) \<noteq> walMagic then (file, False)
      else case scanAtomicWALForRepair js file 0 0 of
        (_, _, None) \<Rightarrow> (file, False)
      | (offset, _, Some _) \<Rightarrow> (take offset file, True))"

end
