(* ===== verification/WalRecovery.thy ===== *)
theory WalRecovery
  imports WalRecord
begin

text \<open>
  What the reader and the repair make of a log: of whole records, of a log cut off by a crash, of a
  changed byte, and of entries they cannot handle.
\<close>

section \<open>Whole records\<close>

definition record_of :: "json \<Rightarrow> wal_entry \<Rightarrow> byte list" where
  "record_of js entry = fst (buildAtomicRecordV2 (jMarshal js entry))"

definition log_of :: "json \<Rightarrow> wal_entry list \<Rightarrow> byte list" where
  "log_of js entries = concat (map (record_of js) entries)"

text \<open>An entry as the writer makes it, that survives marshalling and is not too large.\<close>

definition good_entry :: "json \<Rightarrow> wal_entry \<Rightarrow> bool" where
  "good_entry js entry \<longleftrightarrow>
     weChecksum entry = crc32Checksum (weData entry) \<and> jUnmarshal js (jMarshal js entry) = Some entry
     \<and> length (jMarshal js entry) \<le> 16 * 1024 * 1024"

lemma log_of_simps [simp]:
  "log_of js [] = []" "log_of js (e # es) = record_of js e @ log_of js es"
  "log_of js (es @ es') = log_of js es @ log_of js es'"
  by (simp_all add: log_of_def)

definition body_of :: "byte list \<Rightarrow> byte list" where
  "body_of payload = payload @ le32 (crc32Checksum payload) @ le64 walTrailer
     @ replicate (padding (21 + int (length payload))) 0"

lemma record_of_eq:
  "record_of js e = le32 walMagic @ walFormatVersion # le32 (of_nat (length (jMarshal js e))) @ body_of (jMarshal js e)"
  by (simp add: record_of_def buildAtomicRecordV2_def body_of_def Let_def)

lemma padding_eq: "int (padding raw) = alignUp raw - raw"
  using alignUp_bounds(1) [of raw] by (simp add: padding_def)

lemma length_record_of: "int (length (record_of js e)) = alignUp (21 + int (length (jMarshal js e)))"
  by (simp add: record_of_eq body_of_def padding_eq)

lemma length_record_pos [simp]: "record_of js e \<noteq> []"
  by (simp add: record_of_eq le32_def)

lemma aligned_log: "8 dvd length (log_of js es)"
proof (induction es)
  case (Cons e es)
  have "8 dvd int (length (record_of js e))"
    by (simp add: length_record_of alignUp_eq)
  then have "8 dvd length (record_of js e)" by presburger
  then show ?case using Cons by simp
qed simp

lemma small_payload:
  assumes "n \<le> 16 * 1024 * 1024"
  shows "unat (of_nat n :: 32 word) = n" "uint (of_nat n :: 32 word) = int n" "\<not> walMaxEntrySize < of_nat n"
    "uint (21 + of_nat n :: 32 word) = 21 + int n"
proof -
  show n: "unat (of_nat n :: 32 word) = n"
    using assms by (simp add: unat_of_nat take_bit_nat_eq_self)
  then show "uint (of_nat n :: 32 word) = int n"
    by (metis uint_nat)
  show "\<not> walMaxEntrySize < of_nat n"
    using assms n by (simp add: walMaxEntrySize_def word_less_nat_alt)
  show "uint (21 + of_nat n :: 32 word) = 21 + int n"
    using assms by (simp add: uint_word_ariths unsigned_of_nat take_bit_nat_eq_self)
qed

text \<open>The header of a record, as both readers see it.\<close>

lemma header_record:
  assumes "record_of js e @ rest = bs"
  shows "take 9 bs = le32 walMagic @ walFormatVersion # le32 (of_nat (length (jMarshal js e)))"
    "drop 9 bs = body_of (jMarshal js e) @ rest" "9 \<le> length bs"
  using assms by (auto simp: record_of_eq le32_def)

lemma le32_read_take [simp]: "4 \<le> n \<Longrightarrow> le32_read (take n bs) = le32_read bs"
  by (simp add: le32_read_def min_absorb1)

lemma le64_read_take [simp]: "8 \<le> n \<Longrightarrow> le64_read (take n bs) = le64_read bs"
  by (simp add: le64_read_def min_absorb1)

lemma readRecord_record:
  assumes "good_entry js e"
  shows "readRecord js (record_of js e @ rest) = StepEntry e rest"
proof -
  let ?p = "jMarshal js e"
  let ?bs = "record_of js e @ rest"
  note h = header_record [OF refl, of js e rest]
  have len: "length ?p \<le> 16 * 1024 * 1024" using assms by (simp add: good_entry_def)
  have head: "ReadFull 9 ?bs = Full (le32 walMagic @ walFormatVersion # le32 (of_nat (length ?p))) (body_of ?p @ rest)"
    using h by (simp add: ReadFull_Full)
  have four: "(le32 walMagic @ walFormatVersion # xs) ! 4 = walFormatVersion"
    "drop 5 (le32 walMagic @ walFormatVersion # xs) = xs" for xs
    by (simp_all add: le32_def)
  let ?t = "le64 walTrailer @ replicate (padding (21 + int (length ?p))) 0 @ rest"
  have body: "ReadFull (length ?p) (body_of ?p @ rest) = Full ?p (le32 (crc32Checksum ?p) @ ?t)"
    by (simp add: body_of_def)
  have crc: "ReadFull 4 (le32 (crc32Checksum ?p) @ ?t) = Full (le32 (crc32Checksum ?p)) ?t"
    by simp
  have trailer: "readTrailer walFormatVersion (of_nat (length ?p))
      ?t k = k rest" for k
    using small_payload [OF len]
    by (simp add: readTrailer_def walFormatVersion_def Let_def)
  have dec: "decodeEntry js ?p rest = StepEntry e rest"
    using assms by (simp add: decodeEntry_def good_entry_def)
  show ?thesis
    using small_payload [OF len]
    by (simp add: readRecord_def head four Let_def body crc trailer dec)
qed

lemma visit_log:
  assumes "list_all (good_entry js) es"
  shows "visitAtomicWALEntries js (log_of js es @ rest) k =
    (case visitAtomicWALEntries js rest k of (es', how) \<Rightarrow> (es @ es', how))"
  using assms
proof (induction es)
  case (Cons e es)
  then show ?case
    by (simp add: visitAtomicWALEntries.simps [of js "record_of js e @ log_of js es @ rest"]
        readRecord_record split: prod.splits)
qed simp

lemma visit_Nil [simp]: "visitAtomicWALEntries js [] k = ([], ReadDone False k)"
  by (simp add: visitAtomicWALEntries.simps readRecord_def ReadFull_def)

lemma peekMagic_record: "peekMagic (record_of js e @ rest) = walMagic"
  by (simp add: peekMagic_def record_of_eq)

lemma ReadWALEntries_log:
  assumes "list_all (good_entry js) es"
  shows "ReadWALEntries js (log_of js es) = Inr es"
proof (cases es)
  case (Cons e es')
  then have "visitWALEntries js (log_of js es) = (es, ReadDone False 0)"
    using visit_log [OF assms, of "[]" 0] peekMagic_record [of js e "log_of js es'"]
    by (simp add: visitWALEntries_def)
  then show ?thesis by (simp add: ReadWALEntries_def)
qed (simp add: ReadWALEntries_def visitWALEntries_def)

section \<open>Scanning for repair\<close>

lemma record_fields:
  fixes js e
  defines "p \<equiv> jMarshal js e"
  shows "(record_of js e @ rest) ! 4 = walFormatVersion" "le32_read (record_of js e @ rest) = walMagic"
    "le32_read (drop 5 (record_of js e @ rest)) = of_nat (length p)"
    "take (length p) (drop 9 (record_of js e @ rest)) = p"
    "le32_read (drop (9 + length p) (record_of js e @ rest)) = crc32Checksum p"
    "le64_read (drop (13 + length p) (record_of js e @ rest)) = walTrailer"
proof -
  have split: "record_of js e @ rest = le32 walMagic @ walFormatVersion # le32 (of_nat (length p)) @ p
      @ le32 (crc32Checksum p) @ le64 walTrailer @ replicate (padding (21 + int (length p))) 0 @ rest"
    by (simp add: record_of_eq body_of_def p_def)
  let ?H = "le32 walMagic @ walFormatVersion # le32 (of_nat (length p))"
  have bodies: "drop (9 + length p) (?H @ p @ xs) = xs"
    "drop (13 + length p) (?H @ p @ le32 c @ xs) = xs" for xs c
  proof -
    have "length (?H @ p) = 9 + length p" "length (?H @ p @ le32 c) = 13 + length p" by simp_all
    then show "drop (9 + length p) (?H @ p @ xs) = xs" "drop (13 + length p) (?H @ p @ le32 c @ xs) = xs"
      by (metis append_assoc append_eq_conv_conj)+
  qed
  have split': "record_of js e @ rest = ?H @ p @ le32 (crc32Checksum p) @ le64 walTrailer
      @ replicate (padding (21 + int (length p))) 0 @ rest"
    by (simp add: split)
  show "(record_of js e @ rest) ! 4 = walFormatVersion" "le32_read (record_of js e @ rest) = walMagic"
    "le32_read (drop 5 (record_of js e @ rest)) = of_nat (length p)"
    "take (length p) (drop 9 (record_of js e @ rest)) = p"
    by (simp_all add: split nth_append)
  show "le32_read (drop (9 + length p) (record_of js e @ rest)) = crc32Checksum p"
    by (simp only: split' bodies le32_read_le32)
  show "le64_read (drop (13 + length p) (record_of js e @ rest)) = walTrailer"
    by (simp only: split' bodies le64_read_le64)
qed

lemma length_record: "length (record_of js e) = nat (alignUp (21 + int (length (jMarshal js e))))"
  using length_record_of [of js e] by simp

lemma length_record_ge: "21 + length (jMarshal js e) \<le> length (record_of js e)"
  using length_record_of [of js e] alignUp_bounds(1) [of "21 + int (length (jMarshal js e))"] by linarith

lemma scanRecord_v2:
  fixes js bs p
  defines "aligned \<equiv> nat (alignUp (21 + int (length p)))"
  assumes "length p \<le> 16 * 1024 * 1024" "jUnmarshal js p = Some e" "weChecksum e = crc32Checksum (weData e)"
    and "9 \<le> length bs" "bs ! 4 = walFormatVersion" "le32_read bs = walMagic"
    "le32_read (drop 5 bs) = of_nat (length p)"
    and body: "13 + length p \<le> length bs \<Longrightarrow> take (length p) (drop 9 bs) = p
        \<and> le32_read (drop (9 + length p) bs) = crc32Checksum p"
      "21 + length p \<le> length bs \<Longrightarrow> le64_read (drop (13 + length p) bs) = walTrailer"
  shows "scanRecord js bs = (if length bs < aligned then Inl IncompleteTail else Inr (e, aligned))"
proof -
  have ge: "21 + length p \<le> aligned"
    using alignUp_bounds(1) [of "21 + int (length p)"] by (simp add: aligned_def)
  note small = small_payload [OF assms(2)]
  have pos: "scanRecord js bs =
    (if length bs < 13 + length p then Inl IncompleteTail
     else if le32_read (drop (9 + length p) bs) \<noteq> crc32Checksum (take (length p) (drop 9 bs)) then Inl CrcMismatch
     else if length bs < 21 + length p then Inl IncompleteTail
     else if le64_read (drop (13 + length p) bs) \<noteq> walTrailer then Inl InvalidTrailer
     else if length bs < aligned then Inl IncompleteTail
     else (case jUnmarshal js (take (length p) (drop 9 bs)) of
             None \<Rightarrow> Inl InvalidJson
           | Some entry \<Rightarrow> if weChecksum entry \<noteq> crc32Checksum (weData entry) then Inl DataChecksumMismatch
                           else Inr (entry, aligned)))"
    using assms(5-8) small unfolding aligned_def by (simp add: scanRecord_def Let_def walFormatVersion_def)
  show ?thesis
  proof (cases "length bs < 13 + length p")
    case True
    then show ?thesis using ge by (simp add: pos)
  next
    case False
    then have b: "take (length p) (drop 9 bs) = p" "le32_read (drop (9 + length p) bs) = crc32Checksum p"
      using body(1) by auto
    show ?thesis
      using False ge body(2) assms(3,4) by (simp only: pos b) auto
  qed
qed

lemma scanRecord_record:
  assumes "good_entry js e"
  shows "scanRecord js (record_of js e @ rest) = Inr (e, length (record_of js e))"
  using scanRecord_v2 [of "jMarshal js e" js e "record_of js e @ rest"] assms
    record_fields [of js e rest] length_record_ge [of js e] length_record [of js e]
  by (simp add: good_entry_def del: drop_append take_append)

text \<open>A record that is cut off is an incomplete tail.\<close>

lemma scanRecord_cut:
  assumes "good_entry js e" "n < length (record_of js e)"
  shows "scanRecord js (take n (record_of js e)) = Inl IncompleteTail"
proof (cases "n < 9")
  case True
  then have "length (take n (record_of js e)) < 9" by simp
  then show ?thesis by (simp only: scanRecord_def if_True)
next
  case False
  let ?R = "record_of js e" and ?p = "jMarshal js e"
  note f = record_fields [of js e "[]", simplified]
  have "scanRecord js (take n ?R) = (if length (take n ?R) < nat (alignUp (21 + int (length ?p)))
      then Inl IncompleteTail else Inr (e, nat (alignUp (21 + int (length ?p)))))"
    using assms False f
    by (intro scanRecord_v2) (auto simp: good_entry_def drop_take min_def)
  then show ?thesis
    using assms(2) length_record [of js e] by simp
qed

lemma scan_log:
  assumes "list_all (good_entry js) es" "file = pre @ log_of js es @ rest"
  shows "\<exists>good'. scanAtomicWALForRepair js file (length pre) good =
    scanAtomicWALForRepair js file (length pre + length (log_of js es)) good'"
  using assms
proof (induction es arbitrary: pre good)
  case (Cons e es)
  have step: "scanAtomicWALForRepair js file (length pre) good =
      scanAtomicWALForRepair js file (length (pre @ record_of js e)) (weSequence e)"
    using Cons.prems scanRecord_record [of js e "log_of js es @ rest"] length_record_ge [of js e]
    by (subst scanAtomicWALForRepair.simps) simp
  show ?case
    using Cons.IH [of "pre @ record_of js e" "weSequence e"] Cons.prems
    unfolding step by (simp add: add.assoc)
qed auto

lemma repair_log:
  assumes "list_all (good_entry js) es"
    and "rest = [] \<or> (\<exists>reason. scanRecord js rest = Inl reason)"
    and "es = [] \<Longrightarrow> le32_read (take 4 rest) = walMagic \<and> 4 \<le> length rest \<or> rest = [] \<or> length rest < 4"
  shows "fst (repairWALTailIfNeeded js (log_of js es @ rest)) = log_of js es"
proof -
  let ?file = "log_of js es @ rest"
  obtain good' where scan: "scanAtomicWALForRepair js ?file 0 0 =
      scanAtomicWALForRepair js ?file (length (log_of js es)) good'"
    using scan_log [OF assms(1), of ?file "[]" rest 0] by auto
  have end_scan: "scanAtomicWALForRepair js ?file (length (log_of js es)) good' =
      (if rest = [] then (0, good', None)
       else case scanRecord js rest of Inl reason \<Rightarrow> (length (log_of js es), good', Some reason))"
    if "rest = [] \<or> (\<exists>reason. scanRecord js rest = Inl reason)"
    using that by (subst scanAtomicWALForRepair.simps) auto
  have magic: "le32_read (take 4 ?file) = walMagic \<and> 4 \<le> length ?file" if "es \<noteq> []"
    using that record_fields(2) [of js "hd es" "log_of js (tl es) @ rest"] length_record_ge [of js "hd es"]
    by (cases es) (auto simp del: take_append)
  show ?thesis
  proof (cases "es = []")
    case True
    then show ?thesis
      using assms(2,3) end_scan scan by (auto simp: repairWALTailIfNeeded_def)
  next
    case False
    then show ?thesis
      using assms(2) magic end_scan scan by (auto simp: repairWALTailIfNeeded_def)
  qed
qed

section \<open>A log that was cut off\<close>

lemma log_prefix:
  "\<exists>k rest. k \<le> length es \<and> take n (log_of js es) = log_of js (take k es) @ rest
     \<and> (k < length es \<and> n < length (log_of js (take (Suc k) es))
          \<and> (\<exists>m < length (record_of js (es ! k)). rest = take m (record_of js (es ! k)))
        \<or> k = length es \<and> rest = [])"
proof (induction es arbitrary: n)
  case (Cons e es)
  show ?case
  proof (cases "n < length (record_of js e)")
    case True
    then show ?thesis by (intro exI [of _ 0] exI [of _ "take n (record_of js e)"]) auto
  next
    case False
    let ?m = "n - length (record_of js e)"
    obtain k rest where "k \<le> length es" "take ?m (log_of js es) = log_of js (take k es) @ rest"
      "k < length es \<and> ?m < length (log_of js (take (Suc k) es))
          \<and> (\<exists>m < length (record_of js (es ! k)). rest = take m (record_of js (es ! k)))
        \<or> k = length es \<and> rest = []"
      using Cons.IH [of ?m] by blast
    then show ?thesis using False by (intro exI [of _ "Suc k"] exI [of _ rest]) auto
  qed
qed simp

lemma list_all_take: "list_all P xs \<Longrightarrow> list_all P (take k xs)"
  by (metis append_take_drop_id list_all_append)

lemma repair_cut_log:
  assumes "list_all (good_entry js) es"
  shows "\<exists>k \<le> length es. fst (repairWALTailIfNeeded js (take n (log_of js es))) = log_of js (take k es)
    \<and> length (log_of js (take k es)) \<le> n
    \<and> (k < length es \<longrightarrow> n < length (log_of js (take (Suc k) es)))"
proof -
  obtain k rest where k: "k \<le> length es" "take n (log_of js es) = log_of js (take k es) @ rest"
    "k < length es \<and> n < length (log_of js (take (Suc k) es))
          \<and> (\<exists>m < length (record_of js (es ! k)). rest = take m (record_of js (es ! k)))
        \<or> k = length es \<and> rest = []"
    using log_prefix [of es n js] by (elim exE conjE)
  have good: "list_all (good_entry js) (take k es)"
    by (rule list_all_take [OF assms])
  have at_k: "k < length es \<Longrightarrow> good_entry js (es ! k)"
    using assms by (simp add: list_all_length)
  have scan: "rest = [] \<or> (\<exists>reason. scanRecord js rest = Inl reason)"
    using k(3) scanRecord_cut at_k by blast
  have magic: "le32_read (take 4 rest) = walMagic \<and> 4 \<le> length rest \<or> rest = [] \<or> length rest < 4"
    using k(3) record_fields(2) [of js "es ! k" "[]"] by auto
  have le: "length (log_of js (take k es)) \<le> n"
  proof -
    have "length (log_of js (take k es) @ rest) \<le> n"
      by (metis k(2) length_take min.cobounded2)
    then show ?thesis by simp
  qed
  have "fst (repairWALTailIfNeeded js (take n (log_of js es))) = log_of js (take k es)"
    using repair_log [OF good scan magic] k(2) by simp
  moreover have "k < length es \<longrightarrow> n < length (log_of js (take (Suc k) es))"
    using k(3) by blast
  ultimately show ?thesis using k(1) le by blast
qed

section \<open>A changed byte\<close>

lemma readRecord_mismatch:
  assumes "length p \<le> 16 * 1024 * 1024" "c \<noteq> crc32Checksum p"
  shows "readRecord js (le32 walMagic @ walFormatVersion # le32 (of_nat (length p)) @ p @ le32 c @ xs) =
    (case jUnmarshal js p of
       Some entry \<Rightarrow> if weOperation entry = OpUpdateEmbedding then StepSkip xs else StepFail ErrWALChecksumFailed
     | None \<Rightarrow> StepFail ErrWALChecksumFailed)"
proof -
  let ?H = "le32 walMagic @ walFormatVersion # le32 (of_nat (length p))"
  have head: "ReadFull 9 (le32 walMagic @ walFormatVersion # le32 (of_nat (length p)) @ p @ le32 c @ xs)
      = Full ?H (p @ le32 c @ xs)"
    using ReadFull_append [of ?H 9 "p @ le32 c @ xs"] by simp
  have four: "?H ! 4 = walFormatVersion" "drop 5 ?H = le32 (of_nat (length p))"
    by (simp_all add: le32_def)
  show ?thesis
    using small_payload [OF assms(1)] assms(2)
    by (simp add: readRecord_def head four Let_def)
qed

lemma drop_header:
  "length h = 9 \<Longrightarrow> drop 9 (h @ p @ ys) = p @ ys" "length h = 9 \<Longrightarrow> drop (9 + length p) (h @ p @ ys) = ys"
  by simp_all

lemma scanRecord_mismatch:
  assumes "length p \<le> 16 * 1024 * 1024" "c \<noteq> crc32Checksum p"
  shows "scanRecord js (le32 walMagic @ walFormatVersion # le32 (of_nat (length p)) @ p @ le32 c @ xs) = Inl CrcMismatch"
proof -
  let ?H = "le32 walMagic @ walFormatVersion # le32 (of_nat (length p))"
  let ?bs = "?H @ p @ le32 c @ xs"
  have "?bs ! 4 = walFormatVersion" "le32_read ?bs = walMagic" "le32_read (drop 5 ?bs) = of_nat (length p)"
    by (simp_all add: nth_append)
  moreover have "drop 9 ?bs = p @ le32 c @ xs" "drop (9 + length p) ?bs = le32 c @ xs"
    by (rule drop_header, simp)+
  ultimately have "scanRecord js ?bs = Inl CrcMismatch"
    using small_payload [OF assms(1)] assms(2) by (simp add: scanRecord_def Let_def walFormatVersion_def del: drop_append)
  then show ?thesis by simp
qed

text \<open>A record with one byte of its payload changed.\<close>

definition corrupted :: "json \<Rightarrow> wal_entry \<Rightarrow> nat \<Rightarrow> byte \<Rightarrow> byte list" where
  "corrupted js entry i b = (record_of js entry)[9 + i := b]"

lemma corrupted_eq:
  assumes "i < length (jMarshal js e)"
  shows "corrupted js e i b = le32 walMagic @ walFormatVersion # le32 (of_nat (length (jMarshal js e)))
    @ (jMarshal js e)[i := b] @ le32 (crc32Checksum (jMarshal js e)) @ le64 walTrailer
    @ replicate (padding (21 + int (length (jMarshal js e)))) 0"
proof -
  have "(h @ p @ t)[9 + i := b] = h @ p[i := b] @ t" if "length h = 9" "i < length p" for h p t :: "byte list"
    using that by (simp add: list_update_append)
  from this [of "le32 walMagic @ walFormatVersion # le32 (of_nat (length (jMarshal js e)))" "jMarshal js e"]
  show ?thesis
    using assms by (simp add: corrupted_def record_of_eq body_of_def)
qed

lemma read_after:
  assumes "list_all (good_entry js) es" "es \<noteq> [] \<or> peekMagic bs = walMagic \<and> bs \<noteq> []"
    and "visitAtomicWALEntries js bs 0 = (es', how)"
  shows "visitWALEntries js (log_of js es @ bs) = (es @ es', how)"
  using visit_log [OF assms(1), of bs 0] assms(2,3) peekMagic_record [of js "hd es" "log_of js (tl es) @ bs"]
  by (cases es) (auto simp: visitWALEntries_def)

lemma corrupted_head: "i < length (jMarshal js e) \<Longrightarrow> peekMagic (corrupted js e i b @ rest) = walMagic
    \<and> corrupted js e i b @ rest \<noteq> [] \<and> le32_read (take 4 (corrupted js e i b @ rest)) = walMagic
    \<and> 4 \<le> length (corrupted js e i b @ rest)"
  by (simp add: corrupted_eq peekMagic_def)

lemma corrupted_checksum:
  "i < length p \<Longrightarrow> b \<noteq> p ! i \<Longrightarrow> crc32Checksum p \<noteq> crc32Checksum (p[i := b])"
  using crc32Checksum_byte [of i p b] by auto

lemma readRecord_corrupted:
  assumes "good_entry js e" "i < length (jMarshal js e)" "b \<noteq> jMarshal js e ! i"
  shows "readRecord js (corrupted js e i b @ rest) =
      (case jUnmarshal js ((jMarshal js e)[i := b]) of
         Some entry \<Rightarrow>
           if weOperation entry = OpUpdateEmbedding
           then StepSkip (le64 walTrailer @ replicate (padding (21 + int (length (jMarshal js e)))) 0 @ rest)
           else StepFail ErrWALChecksumFailed
       | None \<Rightarrow> StepFail ErrWALChecksumFailed)"
    "scanRecord js (corrupted js e i b @ rest) = Inl CrcMismatch"
  using readRecord_mismatch [of "(jMarshal js e)[i := b]" "crc32Checksum (jMarshal js e)" js]
    scanRecord_mismatch [of "(jMarshal js e)[i := b]" "crc32Checksum (jMarshal js e)" js]
    corrupted_checksum [OF assms(2,3)] assms(1,2)
  by (simp_all add: corrupted_eq good_entry_def)

lemma readRecord_oversized:
  assumes "16 * 1024 * 1024 < length (jMarshal js e)" "length (jMarshal js e) < 2 ^ 32"
  shows "readRecord js (record_of js e @ rest) = StepFail ErrWALCorrupted"
    "scanRecord js (record_of js e @ rest) = Inl InvalidPayloadSize"
proof -
  let ?p = "jMarshal js e"
  have big: "walMaxEntrySize < of_nat (length ?p)"
    using assms by (simp add: walMaxEntrySize_def word_less_nat_alt unat_of_nat take_bit_nat_eq_self)
  have head: "ReadFull 9 (record_of js e @ rest)
      = Full (le32 walMagic @ walFormatVersion # le32 (of_nat (length ?p))) (body_of ?p @ rest)"
    using header_record [OF refl, of js e rest] by (simp add: ReadFull_Full)
  have four: "(le32 walMagic @ walFormatVersion # xs) ! 4 = walFormatVersion"
    "drop 5 (le32 walMagic @ walFormatVersion # xs) = xs" for xs
    by (simp_all add: le32_def)
  show "readRecord js (record_of js e @ rest) = StepFail ErrWALCorrupted"
    using big by (simp add: readRecord_def head four Let_def)
  show "scanRecord js (record_of js e @ rest) = Inl InvalidPayloadSize"
    using big record_fields [of js e rest] length_record_ge [of js e]
    by (simp add: scanRecord_def Let_def del: drop_append take_append)
qed

section \<open>Properties\<close>

text \<open>
  Claim C31. A log cut off anywhere by a crash: the repair keeps exactly the records that are whole,
  and what is appended afterwards is read back behind them.
\<close>

theorem torn_tail_is_repaired:
  assumes "list_all (good_entry js) es" "list_all (good_entry js) new"
  shows "\<exists>k \<le> length es. (k < length es \<longrightarrow> n < length (log_of js (take (Suc k) es)))
    \<and> length (log_of js (take k es)) \<le> n
    \<and> fst (repairWALTailIfNeeded js (take n (log_of js es))) = log_of js (take k es)
    \<and> ReadWALEntries js (fst (repairWALTailIfNeeded js (take n (log_of js es))) @ log_of js new)
        = Inr (take k es @ new)"
proof -
  obtain k where k: "k \<le> length es" "length (log_of js (take k es)) \<le> n"
    "k < length es \<longrightarrow> n < length (log_of js (take (Suc k) es))"
    "fst (repairWALTailIfNeeded js (take n (log_of js es))) = log_of js (take k es)"
    using repair_cut_log [OF assms(1), of n] by blast
  have "list_all (good_entry js) (take k es @ new)"
    using assms list_all_take [of _ es k] by simp
  then show ?thesis
    using k ReadWALEntries_log [of js "take k es @ new"] by auto
qed

text \<open>
  Claim C32. One changed byte in the payload of any record is noticed: the reader stops there with a
  checksum error, unless the damaged payload still says it is an embedding update, and the repair
  keeps the records before it.
\<close>

theorem changed_byte_is_detected:
  assumes "list_all (good_entry js) es" "good_entry js e"
    and "i < length (jMarshal js e)" "b \<noteq> jMarshal js e ! i"
    and "\<nexists>entry. jUnmarshal js ((jMarshal js e)[i := b]) = Some entry \<and> weOperation entry = OpUpdateEmbedding"
  shows "ReadWALEntries js (log_of js es @ corrupted js e i b @ rest) = Inl ErrWALChecksumFailed
    \<and> fst (repairWALTailIfNeeded js (log_of js es @ corrupted js e i b @ rest)) = log_of js es"
proof
  have "readRecord js (corrupted js e i b @ rest) = StepFail ErrWALChecksumFailed"
    using readRecord_corrupted(1) [OF assms(2-4)] assms(5) by (auto split: option.splits)
  then have "visitAtomicWALEntries js (corrupted js e i b @ rest) 0 = ([], ReadError ErrWALChecksumFailed)"
    by (simp add: visitAtomicWALEntries.simps)
  then show "ReadWALEntries js (log_of js es @ corrupted js e i b @ rest) = Inl ErrWALChecksumFailed"
    using read_after [OF assms(1)] corrupted_head [OF assms(3)] by (simp add: ReadWALEntries_def)
  show "fst (repairWALTailIfNeeded js (log_of js es @ corrupted js e i b @ rest)) = log_of js es"
    using repair_log [OF assms(1)] readRecord_corrupted(2) [OF assms(2-4)] corrupted_head [OF assms(3)]
    by blast
qed

text \<open>
  The writer accepts an entry of more than 16 MB, but no reader does: the log cannot be
  read any more, and the repair discards the entry with everything written after it.
\<close>

theorem oversized_entry_loses_the_rest:
  assumes "list_all (good_entry js) es"
    and "16 * 1024 * 1024 < length (jMarshal js e)" "length (jMarshal js e) < 2 ^ 32"
  shows "ReadWALEntries js (log_of js (es @ e # rest)) = Inl ErrWALCorrupted
    \<and> fst (repairWALTailIfNeeded js (log_of js (es @ e # rest))) = log_of js es"
proof
  have "visitAtomicWALEntries js (record_of js e @ log_of js rest) 0 = ([], ReadError ErrWALCorrupted)"
    using readRecord_oversized(1) [OF assms(2,3)] by (simp add: visitAtomicWALEntries.simps)
  then show "ReadWALEntries js (log_of js (es @ e # rest)) = Inl ErrWALCorrupted"
    using read_after [OF assms(1), of "record_of js e @ log_of js rest"] peekMagic_record [of js e]
    by (simp add: ReadWALEntries_def)
  have "le32_read (take 4 (record_of js e @ log_of js rest)) = walMagic
      \<and> 4 \<le> length (record_of js e @ log_of js rest)"
    using record_fields(2) [of js e "log_of js rest"] length_record_ge [of js e] by (simp del: take_append)
  then show "fst (repairWALTailIfNeeded js (log_of js (es @ e # rest))) = log_of js es"
    using repair_log [OF assms(1), of "record_of js e @ log_of js rest"]
      readRecord_oversized(2) [OF assms(2,3), of "log_of js rest"] by auto
qed

text \<open>
  A damaged embedding update is not skipped when entries follow it: the reader drops the
  payload and the checksum but not the trailer behind them, takes the trailer for the next record,
  and fails.
\<close>

theorem damaged_embedding_stops_the_reader:
  assumes "list_all (good_entry js) es" "good_entry js e"
    and "i < length (jMarshal js e)" "b \<noteq> jMarshal js e ! i"
    and "jUnmarshal js ((jMarshal js e)[i := b]) = Some damaged" "weOperation damaged = OpUpdateEmbedding"
    and "rest \<noteq> []"
  shows "ReadWALEntries js (log_of js es @ corrupted js e i b @ log_of js rest) = Inl ErrWALCorrupted"
proof -
  let ?t = "le64 walTrailer @ replicate (padding (21 + int (length (jMarshal js e)))) 0 @ log_of js rest"
  obtain e' es' where rest: "rest = e' # es'" using assms(7) by (cases rest) auto
  have long: "9 \<le> length ?t" using length_record_ge [of js e'] by (simp add: rest)
  have "le32_read (take 9 ?t) = 0xFEEDFACE"
    by (simp add: le64_def be64_def walTrailer_def le32_read_def)
  then have "readRecord js ?t = StepFail ErrWALCorrupted"
    using long by (simp add: readRecord_def ReadFull_def Let_def walMagic_def)
  moreover have "readRecord js (corrupted js e i b @ log_of js rest) = StepSkip ?t"
    using readRecord_corrupted(1) [OF assms(2-4)] assms(5,6) by simp
  ultimately have "visitAtomicWALEntries js (corrupted js e i b @ log_of js rest) 0 = ([], ReadError ErrWALCorrupted)"
    by (simp add: visitAtomicWALEntries.simps)
  then show ?thesis
    using read_after [OF assms(1)] corrupted_head [OF assms(3)] by (simp add: ReadWALEntries_def)
qed

section \<open>Witnesses\<close>

definition demo_json :: json where
  "demo_json =
     \<lparr>jMarshal = (\<lambda>e. be64 (weSequence e) @ (if weOperation e = OpUpdateEmbedding then 1 else 0) # weData e),
      jUnmarshal = (\<lambda>p. if length p < 9 then None
        else Some \<lparr>weSequence = be64_read p, weTimestamp = 0,
               weOperation = (if p ! 8 = 1 then OpUpdateEmbedding else OpCreateNode),
               weData = drop 9 p, weChecksum = crc32Checksum (drop 9 p), weDatabase = []\<rparr>),
      jDecode = (\<lambda>_. None)\<rparr>"

definition demo_entry :: "u64 \<Rightarrow> wal_op \<Rightarrow> byte list \<Rightarrow> wal_entry" where
  "demo_entry n op bytes =
     \<lparr>weSequence = n, weTimestamp = 0, weOperation = op, weData = bytes,
      weChecksum = crc32Checksum bytes, weDatabase = []\<rparr>"

lemma demo_good: "length bytes \<le> 1000 \<Longrightarrow> good_entry demo_json (demo_entry n OpCreateNode bytes)"
  "length bytes \<le> 1000 \<Longrightarrow> good_entry demo_json (demo_entry n OpUpdateEmbedding bytes)"
  by (simp_all add: good_entry_def demo_json_def demo_entry_def nth_append)

lemma demo_marshal [simp]:
  "jMarshal demo_json (demo_entry n OpCreateNode bytes) = be64 n @ 0 # bytes"
  "jMarshal demo_json (demo_entry n OpUpdateEmbedding bytes) = be64 n @ 1 # bytes"
  by (simp_all add: demo_json_def demo_entry_def)

lemma demo_length: "length (record_of demo_json (demo_entry n OpCreateNode bytes)) = (37 + length bytes) div 8 * 8"
  by (simp add: length_record alignUp_eq nat_add_distrib nat_mult_distrib nat_div_distrib)

theorem torn_tail_is_repaired_witness:
  "ReadWALEntries demo_json
     (fst (repairWALTailIfNeeded demo_json
        (take 50 (log_of demo_json [demo_entry 1 OpCreateNode [1, 2, 3], demo_entry 2 OpCreateNode [4]])))
      @ log_of demo_json [demo_entry 2 OpCreateNode [5]])
   = Inr [demo_entry 1 OpCreateNode [1, 2, 3], demo_entry 2 OpCreateNode [5]]"
  (is "?read = _")
proof -
  let ?a = "demo_entry 1 OpCreateNode [1, 2, 3]" and ?b = "demo_entry 2 OpCreateNode [4]"
  let ?c = "demo_entry 2 OpCreateNode [5]"
  have good: "list_all (good_entry demo_json) [?a, ?b]" "list_all (good_entry demo_json) [?c]"
    by (simp_all add: demo_good)
  have len: "length (log_of demo_json [?a]) = 40" "length (log_of demo_json [?a, ?b]) = 72"
    by (simp_all add: demo_length)
  obtain k where k: "k \<le> length [?a, ?b]"
    "k < length [?a, ?b] \<longrightarrow> 50 < length (log_of demo_json (take (Suc k) [?a, ?b]))"
    "length (log_of demo_json (take k [?a, ?b])) \<le> 50" "?read = Inr (take k [?a, ?b] @ [?c])"
    using torn_tail_is_repaired [OF good, of 50] by (elim exE conjE) (rule that)
  consider "k = 0" | "k = 1" | "k = 2" using k(1) by (simp add: numeral_2_eq_2) linarith
  then have "k = 1"
    using k(2,3) len by cases (simp_all del: log_of_simps)
  then show ?thesis using k(4) by simp
qed

theorem changed_byte_is_detected_witness:
  "ReadWALEntries demo_json (log_of demo_json [demo_entry 1 OpCreateNode [1]]
     @ corrupted demo_json (demo_entry 2 OpCreateNode [2, 3]) 10 7 @ [1, 2]) = Inl ErrWALChecksumFailed"
proof (rule conjunct1 [OF changed_byte_is_detected])
  show "list_all (good_entry demo_json) [demo_entry 1 OpCreateNode [1]]"
    by (simp add: demo_good)
  show "good_entry demo_json (demo_entry 2 OpCreateNode [2, 3])"
    by (simp add: demo_good)
  show "10 < length (jMarshal demo_json (demo_entry 2 OpCreateNode [2, 3]))"
    "7 \<noteq> jMarshal demo_json (demo_entry 2 OpCreateNode [2, 3]) ! 10"
    by (simp_all add: nth_append)
  show "\<nexists>entry. jUnmarshal demo_json ((jMarshal demo_json (demo_entry 2 OpCreateNode [2, 3]))[10 := 7]) = Some entry
      \<and> weOperation entry = OpUpdateEmbedding"
    by (simp add: list_update_append) (simp add: demo_json_def nth_append)
qed

theorem oversized_entry_loses_the_rest_witness:
  "fst (repairWALTailIfNeeded demo_json (log_of demo_json
     ([demo_entry 1 OpCreateNode [1]] @ demo_entry 2 OpCreateNode (replicate 16777216 0)
        # [demo_entry 3 OpCreateNode [3]])))
   = log_of demo_json [demo_entry 1 OpCreateNode [1]]"
  by (rule conjunct2 [OF oversized_entry_loses_the_rest]) (simp_all add: demo_good)

theorem damaged_embedding_stops_the_reader_witness:
  "ReadWALEntries demo_json (log_of demo_json [demo_entry 1 OpCreateNode [1]]
     @ corrupted demo_json (demo_entry 2 OpUpdateEmbedding [2, 3]) 10 7
     @ log_of demo_json [demo_entry 3 OpCreateNode [1]]) = Inl ErrWALCorrupted"
proof (rule damaged_embedding_stops_the_reader)
  let ?e = "demo_entry 2 OpUpdateEmbedding [2, 3]"
  show "list_all (good_entry demo_json) [demo_entry 1 OpCreateNode [1]]" "good_entry demo_json ?e"
    by (simp_all add: demo_good)
  show "10 < length (jMarshal demo_json ?e)" "7 \<noteq> jMarshal demo_json ?e ! 10"
    by (simp_all add: nth_append)
  have "(jMarshal demo_json ?e)[10 := 7] = be64 2 @ [1, 2, 7]"
    by (simp add: list_update_append)
  then show "jUnmarshal demo_json ((jMarshal demo_json ?e)[10 := 7]) = Some (demo_entry 2 OpUpdateEmbedding [2, 7])"
    by (simp add: demo_json_def demo_entry_def nth_append)
  show "weOperation (demo_entry 2 OpUpdateEmbedding [2, 7]) = OpUpdateEmbedding"
    by (simp add: demo_entry_def)
  show "[demo_entry 3 OpCreateNode [1]] \<noteq> []" by simp
qed

end
