(* ===== verification/WalLog.thy ===== *)
theory WalLog
  imports WalRecovery
begin

text \<open>
  The write-ahead log as a directory (\<^verbatim>\<open>pkg/storage/wal.go\<close>, \<^verbatim>\<open>wal_segments.go\<close>, \<^verbatim>\<open>wal_batch.go\<close>): appending,
  syncing, rotating segments, opening, truncating after a snapshot, retention, and reading it all back.

  A file knows how many of its bytes are on disk; losing power keeps those and any part of the rest.
  Calls of the operating system fail as a parameter says. A call that fails has no effect, except
  that a write may be short. So a crash in the middle of an operation is a failing call in it,
  followed by the loss of power. Names in a directory are durable when an operation returns: each one
  ends with \<^verbatim>\<open>syncDir\<close>.
\<close>

section \<open>Files\<close>

record wfile =
  fData :: "byte list"
  fSynced :: nat

record wal_segment =
  sgFirstSeq :: u64
  sgLastSeq :: u64
  sgSizeBytes :: int
  sgCreatedAt :: go_time
  sgPath :: string

text \<open>The directory: \<^verbatim>\<open>wal.log\<close>, the files under \<^verbatim>\<open>segments\<close>, and the decoded \<^verbatim>\<open>manifest.json\<close>.\<close>

record wal_dir =
  dActive :: "wfile option"
  dSegments :: "(string \<times> wfile) list"
  dManifest :: "wal_segment list option"

datatype io_call =
    IoWrite | IoSync | IoClose | IoRename | IoLoadManifest | IoWriteManifest | IoOpen | IoSyncDir
  | IoMkdir | IoTmp

record io =
  ioFails :: "io_call \<Rightarrow> bool"
  ioShort :: nat

record wal_config =
  SyncMode :: string
  MaxFileSize :: int
  MaxEntries :: int
  RetentionMaxSegments :: int
  RetentionMaxAge :: int

record wal =
  walConfig :: wal_config
  walOpen :: bool
  walBuffer :: "byte list"
  walWriteErr :: bool
  walSequence :: u64
  walEntries :: int
  walBytes :: int
  walClosed :: bool
  segmentFirstSeq :: u64
  segmentEntries :: int
  segmentBytes :: int
  segmentCreatedAt :: go_time

record log_state =
  lsDir :: wal_dir
  lsWal :: wal

text \<open>A step reports an error or none; \<open>andThen\<close> is Go's early return.\<close>

type_synonym outcome = "wal_error option \<times> log_state"

definition andThen :: "outcome \<Rightarrow> (log_state \<Rightarrow> outcome) \<Rightarrow> outcome" where
  "andThen r k = (case r of (None, s) \<Rightarrow> k s | (Some e, s) \<Rightarrow> (Some e, s))"

definition mayFail :: "io \<Rightarrow> io_call \<Rightarrow> log_state \<Rightarrow> outcome" where
  "mayFail io c s = (if ioFails io c then Some ErrWALIO else None, s)"

definition onWal :: "(wal \<Rightarrow> wal) \<Rightarrow> log_state \<Rightarrow> log_state" where
  "onWal f s = s\<lparr>lsWal := f (lsWal s)\<rparr>"

definition onDir :: "(wal_dir \<Rightarrow> wal_dir) \<Rightarrow> log_state \<Rightarrow> log_state" where
  "onDir f s = s\<lparr>lsDir := f (lsDir s)\<rparr>"

definition appendFile :: "byte list \<Rightarrow> wfile \<Rightarrow> wfile" where
  "appendFile bs f = f\<lparr>fData := fData f @ bs\<rparr>"

definition syncFile :: "wfile \<Rightarrow> wfile" where
  "syncFile f = f\<lparr>fSynced := length (fData f)\<rparr>"

definition newFile :: "byte list \<Rightarrow> wfile" where
  "newFile bs = \<lparr>fData = bs, fSynced = length bs\<rparr>"

definition onActive :: "(wfile \<Rightarrow> wfile) \<Rightarrow> log_state \<Rightarrow> log_state" where
  "onActive f = onDir (\<lambda>d. d\<lparr>dActive := map_option f (dActive d)\<rparr>)"

section \<open>The buffered writer\<close>

text \<open>\<^verbatim>\<open>bufio.Writer\<close> of the standard library, with its 64 KB and its sticky error. \<open>fileWrite\<close> is the
  \<^verbatim>\<open>Write\<close> of the file under it: it gives the number of bytes written and whether it failed.\<close>

definition bufSize :: nat where "bufSize = 64 * 1024"

definition fileWrite :: "io \<Rightarrow> byte list \<Rightarrow> log_state \<Rightarrow> bool \<times> nat \<times> log_state" where
  "fileWrite io bs s =
     (if \<not> walOpen (lsWal s) then (True, 0, s)
      else let n = (if ioFails io IoWrite then min (ioShort io) (length bs) else length bs)
           in (ioFails io IoWrite, n, onActive (appendFile (take n bs)) s))"

definition bufFlush :: "io \<Rightarrow> log_state \<Rightarrow> outcome" where
  "bufFlush io s =
     (if walWriteErr (lsWal s) then (Some ErrWALIO, s)
      else if walBuffer (lsWal s) = [] then (None, s)
      else let (failed, n, s1) = fileWrite io (walBuffer (lsWal s)) s
           in (if failed then Some ErrWALIO else None,
               onWal (\<lambda>w. w\<lparr>walBuffer := drop n (walBuffer w), walWriteErr := failed\<rparr>) s1))"

definition bufAvailable :: "log_state \<Rightarrow> nat" where
  "bufAvailable s = bufSize - length (walBuffer (lsWal s))"

text \<open>\<^verbatim>\<open>Write\<close>: what fits is buffered, what is larger than an empty buffer goes to the file directly; a
  buffer that is partly full is filled and flushed first.\<close>

definition bufWriteEmpty :: "io \<Rightarrow> byte list \<Rightarrow> log_state \<Rightarrow> outcome" where
  "bufWriteEmpty io p s =
     (if length p \<le> bufAvailable s then (None, onWal (\<lambda>w. w\<lparr>walBuffer := walBuffer w @ p\<rparr>) s)
      else let (failed, n, s1) = fileWrite io p s
           in (if failed then Some ErrWALIO else None, onWal (\<lambda>w. w\<lparr>walWriteErr := failed\<rparr>) s1))"

definition bufWrite :: "io \<Rightarrow> byte list \<Rightarrow> log_state \<Rightarrow> outcome" where
  "bufWrite io p s =
     (if walWriteErr (lsWal s) then (Some ErrWALIO, s)
      else if length p \<le> bufAvailable s \<or> walBuffer (lsWal s) = [] then bufWriteEmpty io p s
      else let n = bufAvailable s
           in andThen (bufFlush io (onWal (\<lambda>w. w\<lparr>walBuffer := walBuffer w @ take n p\<rparr>) s))
                (bufWriteEmpty io (drop n p)))"

definition writeAtomicRecordV2Bufio :: "io \<Rightarrow> byte list \<Rightarrow> log_state \<Rightarrow> outcome" where
  "writeAtomicRecordV2Bufio io payload s =
     (let r = fst (buildAtomicRecordV2 payload)
      in andThen (if bufAvailable s < length r then bufFlush io s else (None, s)) (bufWrite io r))"

definition fsyncActive :: "io \<Rightarrow> log_state \<Rightarrow> outcome" where
  "fsyncActive io s =
     (if SyncMode (walConfig (lsWal s)) = ''none'' then (None, s)
      else if \<not> walOpen (lsWal s) then (Some ErrWALIO, s)
      else andThen (mayFail io IoSync s) (\<lambda>s. (None, onActive syncFile s)))"

definition syncLocked :: "io \<Rightarrow> log_state \<Rightarrow> outcome" where
  "syncLocked io s = andThen (bufFlush io s) (fsyncActive io)"

definition SyncWAL :: "io \<Rightarrow> log_state \<Rightarrow> outcome" where
  "SyncWAL io s = (if walClosed (lsWal s) then (Some ErrWALClosed, s) else syncLocked io s)"

section \<open>Segments\<close>

fun digits :: "nat \<Rightarrow> nat \<Rightarrow> string" where
  "digits 0 n = []"
| "digits (Suc k) n = digits k (n div 10) @ [char_of (48 + n mod 10)]"

text \<open>The name of a segment, \<^verbatim>\<open>seg-%020d-%020d.wal\<close>; 20 digits hold every 64-bit number.\<close>

definition segmentName :: "u64 \<Rightarrow> u64 \<Rightarrow> string" where
  "segmentName firstSeq lastSeq = ''seg-'' @ digits 20 (unat firstSeq) @ ''-'' @ digits 20 (unat lastSeq) @ ''.wal''"

fun takeDigits :: "nat \<Rightarrow> string \<Rightarrow> nat \<times> string" where
  "takeDigits n [] = (n, [])"
| "takeDigits n (c # cs) =
     (if 48 \<le> (of_char c :: nat) \<and> (of_char c :: nat) \<le> 57 then takeDigits (10 * n + (of_char c - 48)) cs
      else (n, c # cs))"

text \<open>\<^verbatim>\<open>%d\<close> of \<^verbatim>\<open>Sscanf\<close> for a \<^verbatim>\<open>uint64\<close>: blanks are skipped, at least one digit, no overflow.\<close>

definition scanUint :: "string \<Rightarrow> (u64 \<times> string) option" where
  "scanUint cs =
     (let cs1 = dropWhile (\<lambda>c. c = CHR '' '') cs; (n, rest) = takeDigits 0 cs1
      in if rest = cs1 \<or> n \<ge> 2 ^ 64 then None else Some (of_nat n, rest))"

definition parseSegmentFilename :: "string \<Rightarrow> (u64 \<times> u64) option" where
  "parseSegmentFilename name =
     (if take 4 name \<noteq> ''seg-'' then None
      else case scanUint (drop 4 name) of
        Some (first, CHR ''-'' # rest) \<Rightarrow>
          (case scanUint rest of
             Some (final, rest') \<Rightarrow> if take 4 rest' = ''.wal'' then Some (first, final) else None
           | None \<Rightarrow> None)
      | _ \<Rightarrow> None)"

text \<open>\<^verbatim>\<open>resolveWALSegmentPath\<close>: the file a manifest entry names, if it is a segment file directly in
  the directory. A name without a slash is what \<^verbatim>\<open>filepath.Clean\<close> leaves alone.\<close>

definition resolveWALSegmentPath :: "string \<Rightarrow> string option" where
  "resolveWALSegmentPath name =
     (if name = [] \<or> CHR ''/'' \<in> set name \<or> name = ''.'' \<or> name = ''..'' then None
      else map_option (\<lambda>_. name) (parseSegmentFilename name))"

definition loadWALManifest :: "wal_dir \<Rightarrow> wal_segment list" where
  "loadWALManifest d = sort_key sgFirstSeq (case dManifest d of None \<Rightarrow> [] | Some segs \<Rightarrow> segs)"

definition scanSegmentsFromDir :: "wal_dir \<Rightarrow> wal_segment list" where
  "scanSegmentsFromDir d =
     sort_key sgFirstSeq (concat (map (\<lambda>(name, f). case parseSegmentFilename name of
         None \<Rightarrow> []
       | Some (firstSeq, lastSeq) \<Rightarrow>
           [\<lparr>sgFirstSeq = firstSeq, sgLastSeq = lastSeq, sgSizeBytes = int (length (fData f)),
             sgCreatedAt = zero_time, sgPath = name\<rparr>]) (dSegments d)))"

definition segmentsOf :: "wal_dir \<Rightarrow> wal_segment list" where
  "segmentsOf d = (if loadWALManifest d = [] then scanSegmentsFromDir d else loadWALManifest d)"

fun readSegments :: "json \<Rightarrow> wal_dir \<Rightarrow> wal_segment list \<Rightarrow> wal_error + wal_entry list" where
  "readSegments js d [] = Inr []"
| "readSegments js d (seg # segs) =
     (case resolveWALSegmentPath (sgPath seg) of
        None \<Rightarrow> Inl ErrWALIO
      | Some name \<Rightarrow>
          (case map_of (dSegments d) name of
             None \<Rightarrow> Inl ErrWALIO
           | Some f \<Rightarrow>
               (case ReadWALEntries js (fData f) of
                  Inl e \<Rightarrow> Inl e
                | Inr es \<Rightarrow> map_sum id ((@) es) (readSegments js d segs))))"

definition ReadWALEntriesFromDir :: "json \<Rightarrow> wal_dir \<Rightarrow> wal_error + wal_entry list" where
  "ReadWALEntriesFromDir js d =
     (case readSegments js d (segmentsOf d) of
        Inl e \<Rightarrow> Inl e
      | Inr es \<Rightarrow>
          (case dActive d of
             None \<Rightarrow> Inr es
           | Some f \<Rightarrow> map_sum id ((@) es) (ReadWALEntries js (fData f))))"

definition ReadWALEntriesAfterFromDir :: "json \<Rightarrow> wal_dir \<Rightarrow> u64 \<Rightarrow> wal_error + wal_entry list" where
  "ReadWALEntriesAfterFromDir js d afterSeq =
     map_sum id (filter (\<lambda>e. weSequence e > afterSeq)) (ReadWALEntriesFromDir js d)"

definition ReadWALEntriesRangeFromDir :: "json \<Rightarrow> wal_dir \<Rightarrow> u64 \<Rightarrow> u64 \<Rightarrow> wal_error + wal_entry list" where
  "ReadWALEntriesRangeFromDir js d fromSeq toSeq =
     map_sum id (filter (\<lambda>e. \<not> weSequence e < fromSeq \<and> \<not> (toSeq > 0 \<and> weSequence e > toSeq)))
       (ReadWALEntriesFromDir js d)"

section \<open>Appending\<close>

text \<open>\<^verbatim>\<open>rotateSegmentLocked\<close>: the active file becomes a segment, the manifest lists it, a new active
  file is opened. A rename is taken to be on disk once it returned; the code syncs the directory of the
  segments behind it and ignores the result.\<close>

definition rotateSegmentLocked :: "io \<Rightarrow> u64 \<Rightarrow> log_state \<Rightarrow> outcome" where
  "rotateSegmentLocked io lastSeq s =
     (if segmentEntries (lsWal s) = 0 then (None, s)
      else
        andThen (syncLocked io s) (\<lambda>s.
        andThen (mayFail io IoClose (onWal (\<lambda>w. w\<lparr>walOpen := False\<rparr>) s)) (\<lambda>s.
        andThen (mayFail io IoMkdir s) (\<lambda>s.
        andThen (mayFail io IoRename s) (\<lambda>s.
        case dActive (lsDir s) of None \<Rightarrow> (Some ErrWALIO, s) | Some f \<Rightarrow>
        let name = segmentName (segmentFirstSeq (lsWal s)) lastSeq;
            s1 = onDir (\<lambda>d. d\<lparr>dActive := None, dSegments := AList.update name f (dSegments d)\<rparr>) s
        in andThen (mayFail io IoLoadManifest s1) (\<lambda>s.
        andThen (mayFail io IoWriteManifest s) (\<lambda>s.
        let seg = \<lparr>sgFirstSeq = segmentFirstSeq (lsWal s), sgLastSeq = lastSeq,
              sgSizeBytes = int (length (fData f)), sgCreatedAt = segmentCreatedAt (lsWal s), sgPath = name\<rparr>;
            s1 = onDir (\<lambda>d. d\<lparr>dManifest := Some (sort_key sgFirstSeq (loadWALManifest d @ [seg]))\<rparr>) s
        in andThen (mayFail io IoOpen s1) (\<lambda>s.
        let s1 = onDir (\<lambda>d. d\<lparr>dActive := Some (newFile [])\<rparr>) s
        in andThen (mayFail io IoSyncDir s1) (\<lambda>s.
          (None, onWal (\<lambda>w. w\<lparr>walOpen := True, walBuffer := [], walWriteErr := False,
                     segmentFirstSeq := 0, segmentEntries := 0, segmentBytes := 0,
                     segmentCreatedAt := zero_time\<rparr>) s))))))))))"

definition maybeRotateLocked :: "io \<Rightarrow> u64 \<Rightarrow> log_state \<Rightarrow> outcome" where
  "maybeRotateLocked io lastSeq s =
     (let w = lsWal s; cfg = walConfig w
      in if segmentEntries w = 0 then (None, s)
         else if MaxFileSize cfg > 0 \<and> segmentBytes w \<ge> MaxFileSize cfg then rotateSegmentLocked io lastSeq s
         else if MaxEntries cfg > 0 \<and> segmentEntries w \<ge> MaxEntries cfg then rotateSegmentLocked io lastSeq s
         else (None, s))"

text \<open>An append draws its number before it takes the lock.\<close>

definition drawSequence :: "log_state \<Rightarrow> u64 \<times> log_state" where
  "drawSequence s = (walSequence (lsWal s) + 1, onWal (\<lambda>w. w\<lparr>walSequence := walSequence w + 1\<rparr>) s)"

definition countEntry :: "wal_entry \<Rightarrow> int \<Rightarrow> wal \<Rightarrow> wal" where
  "countEntry entry n w =
     w\<lparr>walEntries := walEntries w + 1, walBytes := walBytes w + n,
       segmentFirstSeq := (if segmentEntries w = 0 then weSequence entry else segmentFirstSeq w),
       segmentEntries := segmentEntries w + 1, segmentBytes := segmentBytes w + n,
       segmentCreatedAt := (if segmentEntries w = 0 then weTimestamp entry else segmentCreatedAt w)\<rparr>"

text \<open>The part of \<^verbatim>\<open>AppendWithDatabaseReturningSeq\<close> under the lock.\<close>

definition appendLocked :: "json \<Rightarrow> io \<Rightarrow> wal_entry \<Rightarrow> log_state \<Rightarrow> outcome" where
  "appendLocked js io entry s =
     (let payload = jMarshal js entry
      in andThen (writeAtomicRecordV2Bufio io payload s) (\<lambda>s.
         let s1 = onWal (countEntry entry (snd (buildAtomicRecordV2 payload))) s
         in andThen (if SyncMode (walConfig (lsWal s1)) = ''immediate'' then syncLocked io s1 else bufFlush io s1)
              (maybeRotateLocked io (weSequence entry))))"

definition walEntryOf :: "u64 \<Rightarrow> go_time \<Rightarrow> wal_op \<Rightarrow> byte list \<Rightarrow> string \<Rightarrow> wal_entry" where
  "walEntryOf n now op dataBytes database =
     \<lparr>weSequence = n, weTimestamp = now, weOperation = op, weData = dataBytes,
      weChecksum = crc32Checksum dataBytes, weDatabase = database\<rparr>"

text \<open>\<open>dataBytes\<close> is the marshalled operation, \<open>None\<close> when marshalling failed.\<close>

definition AppendWithDatabaseReturningSeq ::
  "json \<Rightarrow> io \<Rightarrow> bool \<Rightarrow> go_time \<Rightarrow> wal_op \<Rightarrow> byte list option \<Rightarrow> string \<Rightarrow> log_state \<Rightarrow> (wal_error + u64) \<times> log_state" where
  "AppendWithDatabaseReturningSeq js io walEnabled now op dataBytes database s =
     (if \<not> walEnabled then (Inr 0, s)
      else if walClosed (lsWal s) then (Inl ErrWALClosed, s)
      else case dataBytes of
        None \<Rightarrow> (Inl ErrWALMarshal, s)
      | Some bytes \<Rightarrow>
          (let (n, s1) = drawSequence s
           in case appendLocked js io (walEntryOf n now op bytes database) s1 of
                (Some e, s2) \<Rightarrow> (Inl e, s2)
              | (None, s2) \<Rightarrow> (Inr n, s2)))"

section \<open>Opening and closing\<close>

definition loadLastSequence :: "json \<Rightarrow> wal_dir \<Rightarrow> u64" where
  "loadLastSequence js d =
     (case ReadWALEntriesFromDir js d of
        Inl _ \<Rightarrow> 0
      | Inr es \<Rightarrow> if es = [] then 0 else weSequence (List.last es))"

definition loadActiveSegmentState :: "json \<Rightarrow> wal_dir \<Rightarrow> wal \<Rightarrow> wal" where
  "loadActiveSegmentState js d w =
     (case dActive d of
        None \<Rightarrow> w
      | Some f \<Rightarrow>
          (case ReadWALEntries js (fData f) of
             Inl _ \<Rightarrow> w
           | Inr [] \<Rightarrow> w
           | Inr (e # es) \<Rightarrow>
               w\<lparr>segmentFirstSeq := weSequence e, segmentEntries := int (length (e # es)),
                 segmentBytes := int (length (fData f)), segmentCreatedAt := weTimestamp e\<rparr>))"

definition newWal :: "wal_config \<Rightarrow> wal" where
  "newWal cfg =
     \<lparr>walConfig = cfg, walOpen = True, walBuffer = [], walWriteErr = False, walSequence = 0, walEntries = 0,
      walBytes = 0, walClosed = False, segmentFirstSeq = 0, segmentEntries = 0, segmentBytes = 0,
      segmentCreatedAt = zero_time\<rparr>"

text \<open>The repair of the active file, and the file opened, or created when there is none.\<close>

definition repairFile :: "json \<Rightarrow> wfile \<Rightarrow> wfile" where
  "repairFile js f =
     (case repairWALTailIfNeeded js (fData f) of
        (bs, True) \<Rightarrow> newFile bs
      | (bs, False) \<Rightarrow> f)"

definition openActive :: "json \<Rightarrow> wal_dir \<Rightarrow> wal_dir" where
  "openActive js d =
     d\<lparr>dActive := Some (case dActive d of None \<Rightarrow> newFile [] | Some f \<Rightarrow> repairFile js f)\<rparr>"

definition NewWAL :: "json \<Rightarrow> wal_config \<Rightarrow> wal_dir \<Rightarrow> log_state" where
  "NewWAL js cfg d =
     (let d1 = openActive js d
      in \<lparr>lsDir = d1,
          lsWal = loadActiveSegmentState js d1 ((newWal cfg)\<lparr>walSequence := loadLastSequence js d1\<rparr>)\<rparr>)"

definition CloseWAL :: "io \<Rightarrow> log_state \<Rightarrow> outcome" where
  "CloseWAL io s =
     (if walClosed (lsWal s) then (None, s)
      else let s1 = snd (syncLocked io (onWal (\<lambda>w. w\<lparr>walClosed := True\<rparr>) s))
           in mayFail io IoClose (onWal (\<lambda>w. w\<lparr>walOpen := False\<rparr>) s1))"

text \<open>The loss of power: of each file the bytes on disk stay, and any part of the others.\<close>

definition keepBytes :: "nat \<Rightarrow> wfile \<Rightarrow> wfile" where
  "keepBytes n f = newFile (take (max n (fSynced f)) (fData f))"

definition powerLoss :: "nat \<Rightarrow> (string \<Rightarrow> nat) \<Rightarrow> wal_dir \<Rightarrow> wal_dir" where
  "powerLoss n ns d =
     d\<lparr>dActive := map_option (keepBytes n) (dActive d),
       dSegments := map (\<lambda>(name, f). (name, keepBytes (ns name) f)) (dSegments d)\<rparr>"

section \<open>Compaction\<close>

definition reopenWAL :: "json \<Rightarrow> io \<Rightarrow> log_state \<Rightarrow> outcome" where
  "reopenWAL js io s =
     andThen (mayFail io IoOpen s) (\<lambda>s.
       let s1 = onDir (\<lambda>d. d\<lparr>dActive := Some (case dActive d of None \<Rightarrow> newFile [] | Some f \<Rightarrow> f)\<rparr>) s
       in (None, onWal (\<lambda>w. loadActiveSegmentState js (lsDir s1)
            (w\<lparr>walOpen := True, walBuffer := [], walWriteErr := False, segmentFirstSeq := 0, segmentEntries := 0,
               segmentBytes := 0, segmentCreatedAt := zero_time\<rparr>)) s1))"

text \<open>A failure after the file was closed reopens it and is reported.\<close>

definition orReopen :: "json \<Rightarrow> io \<Rightarrow> outcome \<Rightarrow> (log_state \<Rightarrow> outcome) \<Rightarrow> outcome" where
  "orReopen js io r k =
     (case r of (None, s) \<Rightarrow> k s | (Some e, s) \<Rightarrow> (Some e, snd (reopenWAL js io s)))"

definition keptEntries :: "json \<Rightarrow> u64 \<Rightarrow> wal_dir \<Rightarrow> wal_entry list" where
  "keptEntries js snapshotSeq d =
     (case ReadWALEntriesFromDir js d of
        Inr es \<Rightarrow> filter (\<lambda>e. weSequence e > snapshotSeq) es
      | Inl _ \<Rightarrow> (case ReadWALEntriesAfterFromDir js d snapshotSeq of Inr es \<Rightarrow> es | Inl _ \<Rightarrow> []))"

definition TruncateAfterSnapshot :: "json \<Rightarrow> io \<Rightarrow> u64 \<Rightarrow> log_state \<Rightarrow> outcome" where
  "TruncateAfterSnapshot js io snapshotSeq s =
     (if walClosed (lsWal s) then (Some ErrWALClosed, s)
      else
        andThen (syncLocked io s) (\<lambda>s.
        andThen (mayFail io IoClose (onWal (\<lambda>w. w\<lparr>walOpen := False\<rparr>) s)) (\<lambda>s.
        let kept = keptEntries js snapshotSeq (lsDir s);
            bytes = log_of js kept
        in orReopen js io (mayFail io IoTmp s) (\<lambda>s.
        let s1 = onDir (\<lambda>d. d\<lparr>dSegments := [], dManifest := if ioFails io IoWriteManifest then None else Some []\<rparr>) s
        in orReopen js io (mayFail io IoRename s1) (\<lambda>s.
        let s1 = onDir (\<lambda>d. d\<lparr>dActive := Some (newFile bytes)\<rparr>) s
        in orReopen js io (mayFail io IoSyncDir s1) (\<lambda>s.
        andThen (reopenWAL js io s) (\<lambda>s.
          (None, onWal (\<lambda>w. w\<lparr>walEntries := int (length kept), walBytes := int (length bytes)\<rparr>) s))))))))"

text \<open>\<^verbatim>\<open>ApplyRetention\<close>: of the segments a snapshot covers, the old ones beyond a number are deleted.\<close>

definition retainedSegments ::
  "wal_config \<Rightarrow> go_time \<Rightarrow> u64 \<Rightarrow> wal_segment list \<Rightarrow> wal_segment list \<times> wal_segment list" where
  "retainedSegments cfg now snapshotSeq segs =
     (let candidates = filter (\<lambda>seg. sgLastSeq seg \<le> snapshotSeq) segs;
          keep = filter (\<lambda>seg. \<not> sgLastSeq seg \<le> snapshotSeq) segs;
          young = (\<lambda>seg. RetentionMaxAge cfg > 0 \<and> sgCreatedAt seg > now - RetentionMaxAge cfg);
          keep1 = keep @ filter young candidates;
          candidates1 = filter (\<lambda>seg. \<not> young seg) candidates;
          k = nat (RetentionMaxSegments cfg)
      in if RetentionMaxSegments cfg > 0 \<and> length candidates1 > k
         then let sorted = sort_key sgLastSeq candidates1; n = length sorted - k
              in (keep1 @ drop n sorted, take n sorted)
         else (keep1, candidates1))"

definition ApplyRetention :: "io \<Rightarrow> go_time \<Rightarrow> u64 \<Rightarrow> log_state \<Rightarrow> outcome" where
  "ApplyRetention io now snapshotSeq s =
     (if walClosed (lsWal s) then (Some ErrWALClosed, s)
      else if snapshotSeq = 0 then (None, s)
      else andThen (mayFail io IoLoadManifest s) (\<lambda>s.
        let segs = loadWALManifest (lsDir s)
        in if segs = [] then (None, s)
           else let (keep, dropped) = retainedSegments (walConfig (lsWal s)) now snapshotSeq segs;
                    gone = map sgPath dropped;
                    s1 = onDir (\<lambda>d. d\<lparr>dSegments := filter (\<lambda>(name, f). name \<notin> set gone) (dSegments d)\<rparr>) s
                in andThen (mayFail io IoWriteManifest s1) (\<lambda>s.
                     (None, onDir (\<lambda>d. d\<lparr>dManifest := Some (sort_key sgFirstSeq keep)\<rparr>) s))))"

section \<open>Batches\<close>

text \<open>A batch collects operations and numbers them when it commits; its entries carry no database.\<close>

record pending_entry =
  pendOperation :: wal_op
  pendData :: "byte list"
  pendTimestamp :: go_time

fun writePieces :: "io \<Rightarrow> byte list list \<Rightarrow> log_state \<Rightarrow> outcome" where
  "writePieces io [] s = (None, s)"
| "writePieces io (p # ps) s = andThen (bufWrite io p s) (writePieces io ps)"

definition writeAtomicRecordV2 :: "io \<Rightarrow> byte list \<Rightarrow> log_state \<Rightarrow> outcome" where
  "writeAtomicRecordV2 io payload s =
     (let n = padding (9 + (int (length payload) + 4 + 8))
      in writePieces io
           ([le32 walMagic @ walFormatVersion # le32 (of_nat (length payload)), payload,
             le32 (crc32Checksum payload), le64 walTrailer] @ (if n > 0 then [replicate n 0] else [])) s)"

fun commitPending :: "json \<Rightarrow> io \<Rightarrow> pending_entry list \<Rightarrow> log_state \<Rightarrow> outcome" where
  "commitPending js io [] s = (None, s)"
| "commitPending js io (p # ps) s =
     (let (n, s1) = drawSequence s;
          entry = walEntryOf n (pendTimestamp p) (pendOperation p) (pendData p) []
      in andThen (writeAtomicRecordV2 io (jMarshal js entry) s1) (\<lambda>s.
           commitPending js io ps (onWal (\<lambda>w. w\<lparr>walEntries := walEntries w + 1\<rparr>) s)))"

text \<open>\<^verbatim>\<open>CommitWithSeq\<close>: the pending entries that are left, the first and last number, the error.\<close>

definition CommitWithSeq ::
  "json \<Rightarrow> io \<Rightarrow> bool \<Rightarrow> pending_entry list \<Rightarrow> log_state \<Rightarrow> pending_entry list \<times> (wal_error + u64 \<times> u64) \<times> log_state" where
  "CommitWithSeq js io walEnabled ps s =
     (if \<not> walEnabled \<or> ps = [] then (ps, Inr (0, 0), s)
      else let n = walSequence (lsWal s)
           in case andThen (commitPending js io ps s) (syncLocked io) of
                (Some e, s1) \<Rightarrow> (ps, Inl e, s1)
              | (None, s1) \<Rightarrow>
                  (let total = sum_list (map (\<lambda>(p, k). snd (buildAtomicRecordV2 (jMarshal js
                         (walEntryOf (n + of_nat (k + 1)) (pendTimestamp p) (pendOperation p) (pendData p) []))))
                       (zip ps [0..<length ps]))
                   in ([], Inr (if n + 1 = 0 \<and> 1 < length ps then 1 else n + 1, n + of_nat (length ps)), onWal (\<lambda>w. w\<lparr>walBytes := walBytes w + total\<rparr>) s1)))"

end
