(* ===== verification/WalDurable.thy ===== *)
theory WalDurable
  imports WalLog "HOL-Library.Sublist" "HOL-Library.Multiset"
begin

text \<open>
  Durability of the write-ahead log: what was acknowledged is read back after any sequence of appends,
  syncs, failing calls, restarts and losses of power, unless the manifest cannot be written during a
  rotation.
\<close>

section \<open>Names of segments\<close>

lemma length_digits [simp]: "length (digits k n) = k"
  by (induction k arbitrary: n) simp_all

lemma digit_code [simp]: "(of_char (char_of (48 + n mod 10) :: char) :: nat) = 48 + n mod 10"
  by (simp add: of_char_of)

lemma takeDigits_append:
  "takeDigits m (digits k n @ rest) = takeDigits (m * 10 ^ k + n mod 10 ^ k) rest"
proof (induction k arbitrary: m n rest)
  case (Suc k)
  have "n mod 10 ^ Suc k = n mod 10 + 10 * (n div 10 mod 10 ^ k)"
    using mod_mult2_eq [of n 10 "10 ^ k"] by simp
  moreover have "n mod 10 \<le> 9" by presburger
  ultimately show ?case
    using Suc [of m "n div 10"] by (simp add: algebra_simps)
qed simp

lemma char_code_neq: "(of_char c :: nat) \<noteq> of_char d \<Longrightarrow> c \<noteq> d"
  by auto

lemma digit_neq: "(of_char c :: nat) < 48 \<Longrightarrow> char_of (48 + n mod 10 :: nat) \<noteq> c"
  by (rule char_code_neq) simp

lemma digit_not_blank: "k > 0 \<Longrightarrow> digits k n \<noteq> [] \<and> hd (digits k n) \<noteq> CHR '' ''"
proof (induction k arbitrary: n)
  case (Suc k)
  then show ?case
    using digit_neq [of "CHR '' ''" n] by (cases "k = 0") auto
qed simp

lemma digits_no_slash: "CHR ''/'' \<notin> set (digits k n)"
proof (induction k arbitrary: n)
  case (Suc k)
  then show ?case using digit_neq [of "CHR ''/''" n] by auto
qed simp

lemma scanUint_digits:
  assumes "0 < k" "n < 10 ^ k" "n < 2 ^ 64" "rest \<noteq> []" "(of_char (hd rest) :: nat) < 48"
  shows "scanUint (digits k n @ rest) = Some (of_nat n, rest)"
proof -
  have skip: "dropWhile (\<lambda>c. c = CHR '' '') (digits k n @ rest) = digits k n @ rest"
    using digit_not_blank [OF assms(1), of n] by (cases "digits k n") auto
  have "takeDigits 0 (digits k n @ rest) = (n, rest)"
    using assms by (cases rest) (auto simp: takeDigits_append)
  then show ?thesis
    using assms(3) digit_not_blank [OF assms(1), of n] unfolding scanUint_def skip by simp
qed

lemma parse_segmentName: "parseSegmentFilename (segmentName a b) = Some (a, b)"
proof -
  have bound: "unat w < 10 ^ 20" "unat w < 2 ^ 64" for w :: u64
    using unsigned_less [of w, where ?'a = nat] by simp_all
  have "scanUint (digits 20 (unat a) @ ''-'' @ digits 20 (unat b) @ ''.wal'')
      = Some (a, ''-'' @ digits 20 (unat b) @ ''.wal'')"
    using scanUint_digits [of 20 "unat a" "''-'' @ digits 20 (unat b) @ ''.wal''"] bound [of a] by simp
  moreover have "scanUint (digits 20 (unat b) @ ''.wal'') = Some (b, ''.wal'')"
    using scanUint_digits [of 20 "unat b" "''.wal''"] bound [of b] by simp
  ultimately show ?thesis
    by (simp add: parseSegmentFilename_def segmentName_def)
qed

lemma segmentName_inject: "segmentName a b = segmentName c d \<longleftrightarrow> a = c \<and> b = d"
  by (metis parse_segmentName option.inject prod.inject)

lemma resolve_segmentName: "resolveWALSegmentPath (segmentName a b) = Some (segmentName a b)"
proof -
  have "CHR ''/'' \<notin> set (segmentName a b)"
    by (auto simp: segmentName_def digits_no_slash)
  moreover have "segmentName a b \<noteq> []" "segmentName a b \<noteq> ''.''" "segmentName a b \<noteq> ''..''"
    by (simp_all add: segmentName_def)
  ultimately show ?thesis
    by (simp add: resolveWALSegmentPath_def parse_segmentName)
qed

section \<open>A log of whole records\<close>

text \<open>A sealed segment: its manifest entry, its file, and the entries the file holds.\<close>

type_synonym sealed = "wal_segment \<times> wfile \<times> wal_entry list"

definition increasing :: "wal_entry list \<Rightarrow> bool" where
  "increasing es \<longleftrightarrow> sorted_wrt (<) (map weSequence es)"

definition is_sealed :: "json \<Rightarrow> sealed \<Rightarrow> bool" where
  "is_sealed js = (\<lambda>(g, f, es). es \<noteq> [] \<and> sgFirstSeq g = weSequence (hd es)
     \<and> sgLastSeq g = weSequence (List.last es) \<and> f = newFile (log_of js es)
     \<and> sgPath g = segmentName (weSequence (hd es)) (weSequence (List.last es)))"

definition sealed_entries :: "sealed list \<Rightarrow> wal_entry list" where
  "sealed_entries segs = concat (map (snd \<circ> snd) segs)"

definition dir_ok :: "json \<Rightarrow> wal_dir \<Rightarrow> sealed list \<Rightarrow> bool" where
  "dir_ok js d segs \<longleftrightarrow>
     dSegments d = map (\<lambda>(g, f, es). (sgPath g, f)) segs
     \<and> (dManifest d = Some (map fst segs) \<or> dManifest d = None \<and> segs = [])
     \<and> list_all (is_sealed js) segs \<and> list_all (good_entry js) (sealed_entries segs)
     \<and> increasing (sealed_entries segs)"

lemma sealed_entries_simps [simp]:
  "sealed_entries [] = []" "sealed_entries ((g, f, es) # segs) = es @ sealed_entries segs"
  "sealed_entries (segs @ segs') = sealed_entries segs @ sealed_entries segs'"
  by (simp_all add: sealed_entries_def)

lemma increasing_append:
  "increasing (es @ es') \<longleftrightarrow>
     increasing es \<and> increasing es' \<and> (\<forall>e \<in> set es. \<forall>e' \<in> set es'. weSequence e < weSequence e')"
  by (auto simp: increasing_def sorted_wrt_append)

lemma increasing_take: "increasing es \<Longrightarrow> increasing (take k es)"
  by (metis append_take_drop_id increasing_append)

lemma increasing_single [simp]: "increasing [e]" "increasing []"
  by (simp_all add: increasing_def)

lemma sealed_firsts:
  assumes "list_all (is_sealed js) segs" "increasing (sealed_entries segs)"
  shows "sorted_wrt (<) (map (sgFirstSeq \<circ> fst) segs)"
  using assms
proof (induction segs)
  case (Cons seg segs)
  obtain g f es where seg: "seg = (g, f, es)" by (cases seg)
  have es: "es \<noteq> []" "sgFirstSeq g = weSequence (hd es)"
    using Cons.prems(1) by (simp_all add: seg is_sealed_def)
  have inc: "increasing es" "increasing (sealed_entries segs)"
    "\<forall>e \<in> set es. \<forall>e' \<in> set (sealed_entries segs). weSequence e < weSequence e'"
    using Cons.prems(2) by (simp_all add: seg increasing_append)
  have "sgFirstSeq g < sgFirstSeq (fst seg')" if "seg' \<in> set segs" for seg'
  proof -
    obtain g' f' es' where seg': "seg' = (g', f', es')" by (cases seg')
    have s: "es' \<noteq> []" "sgFirstSeq g' = weSequence (hd es')"
      using Cons.prems(1) that by (auto simp: list_all_iff is_sealed_def seg')
    have "hd es' \<in> set (sealed_entries segs)"
      using that s(1) by (force simp: sealed_entries_def seg')
    then show ?thesis using inc(3) es s by (simp add: seg')
  qed
  then show ?case
    using Cons inc by (simp add: seg)
qed simp

lemma sorted_firsts:
  assumes "list_all (is_sealed js) segs" "increasing (sealed_entries segs)"
  shows "sort_key sgFirstSeq (map fst segs) = map fst segs"
proof -
  have "sorted (map (sgFirstSeq \<circ> fst) segs)"
    using sealed_firsts [OF assms] strict_sorted_imp_sorted by blast
  then show ?thesis
    by (simp add: sorted_sort_id sort_key_id_if_sorted comp_def)
qed

lemma segmentsOf_ok: "dir_ok js d segs \<Longrightarrow> segmentsOf d = map fst segs"
  using sorted_firsts [of js segs]
  by (auto simp: dir_ok_def segmentsOf_def loadWALManifest_def scanSegmentsFromDir_def)

lemma sealed_names:
  assumes "list_all (is_sealed js) segs" "increasing (sealed_entries segs)"
  shows "distinct (map (sgPath \<circ> fst) segs)"
proof -
  have "distinct (map (sgFirstSeq \<circ> fst) segs)"
    using sealed_firsts [OF assms] strict_sorted_iff by blast
  then have "distinct (map (\<lambda>seg. segmentName (sgFirstSeq (fst seg)) (weSequence (List.last (snd (snd seg))))) segs)"
    by (auto simp: distinct_map inj_on_def segmentName_inject)
  moreover have "map (\<lambda>seg. segmentName (sgFirstSeq (fst seg)) (weSequence (List.last (snd (snd seg))))) segs
      = map (sgPath \<circ> fst) segs"
    using assms(1) by (auto simp: list_all_iff is_sealed_def)
  ultimately show ?thesis by simp
qed

lemma sealed_lookup:
  assumes "dir_ok js d segs" "(g, f, es) \<in> set segs"
  shows "map_of (dSegments d) (sgPath g) = Some f"
proof -
  have "distinct (map fst (dSegments d))"
    using assms(1) sealed_names [of js segs] by (simp add: dir_ok_def comp_def case_prod_beta)
  moreover have "(sgPath g, f) \<in> set (dSegments d)"
    using assms by (force simp: dir_ok_def)
  ultimately show ?thesis by simp
qed

lemma readSegments_ok:
  assumes "dir_ok js d segs" "set segs' \<subseteq> set segs"
  shows "readSegments js d (map fst segs') = Inr (sealed_entries segs')"
  using assms(2)
proof (induction segs')
  case (Cons seg segs')
  obtain g f es where seg: "seg = (g, f, es)" by (cases seg)
  have s: "is_sealed js (g, f, es)" "list_all (good_entry js) es"
    using assms(1) Cons.prems by (auto simp: seg dir_ok_def list_all_iff sealed_entries_def)
  have "ReadWALEntries js (fData f) = Inr es"
    using s ReadWALEntries_log [of js es] by (simp add: is_sealed_def newFile_def)
  moreover have "map_of (dSegments d) (sgPath g) = Some f"
    using sealed_lookup [OF assms(1), of g f es] Cons.prems by (simp add: seg)
  moreover have "resolveWALSegmentPath (sgPath g) = Some (sgPath g)"
    using s(1) by (simp add: is_sealed_def resolve_segmentName)
  ultimately show ?case
    using Cons by (simp add: seg)
qed simp

lemma ReadWALEntriesFromDir_ok:
  assumes "dir_ok js d segs"
    and "dActive d = None \<and> act = [] \<or> (\<exists>f. dActive d = Some f \<and> ReadWALEntries js (fData f) = Inr act)"
  shows "ReadWALEntriesFromDir js d = Inr (sealed_entries segs @ act)"
  using readSegments_ok [OF assms(1), of segs] segmentsOf_ok [OF assms(1)] assms(2)
  by (auto simp: ReadWALEntriesFromDir_def)

section \<open>Writing\<close>

lemma andThen_simps [simp]:
  "andThen (None, s) k = k s" "andThen (Some e, s) k = (Some e, s)"
  by (simp_all add: andThen_def)

lemma andThen_assoc: "andThen (andThen r k) h = andThen r (\<lambda>s. andThen (k s) h)"
  by (simp add: andThen_def split: option.splits prod.splits)

lemma onWal_simps [simp]:
  "lsDir (onWal f s) = lsDir s" "lsWal (onWal f s) = f (lsWal s)"
  "lsWal (onDir g s) = lsWal s" "lsDir (onDir g s) = g (lsDir s)"
  "lsWal (onActive h s) = lsWal s"
  by (simp_all add: onWal_def onDir_def onActive_def)

lemma onActive_dir [simp]:
  "dActive (lsDir (onActive h s)) = map_option h (dActive (lsDir s))"
  "dSegments (lsDir (onActive h s)) = dSegments (lsDir s)" "dManifest (lsDir (onActive h s)) = dManifest (lsDir s)"
  by (simp_all add: onActive_def)

definition healthy :: "wal \<Rightarrow> bool" where
  "healthy w \<longleftrightarrow> walOpen w \<and> \<not> walWriteErr w"

lemma countEntry_simps [simp]:
  "walOpen (countEntry e c w) = walOpen w" "walBuffer (countEntry e c w) = walBuffer w"
  "walWriteErr (countEntry e c w) = walWriteErr w" "walSequence (countEntry e c w) = walSequence w"
  "walConfig (countEntry e c w) = walConfig w" "walClosed (countEntry e c w) = walClosed w"
  "segmentEntries (countEntry e c w) = segmentEntries w + 1"
  "segmentFirstSeq (countEntry e c w) = (if segmentEntries w = 0 then weSequence e else segmentFirstSeq w)"
  by (simp_all add: countEntry_def)

text \<open>Writing a record and flushing it: it is at the end of the file, or a part of it is and the writer
  refuses everything from then on.\<close>

definition same_control :: "log_state \<Rightarrow> log_state \<Rightarrow> bool" where
  "same_control s s' \<longleftrightarrow>
     walSequence (lsWal s') = walSequence (lsWal s) \<and> walConfig (lsWal s') = walConfig (lsWal s)
     \<and> walOpen (lsWal s') = walOpen (lsWal s) \<and> walClosed (lsWal s') = walClosed (lsWal s)"

definition wrote_part :: "log_state \<Rightarrow> byte list \<Rightarrow> log_state \<Rightarrow> bool" where
  "wrote_part s r s' \<longleftrightarrow>
     (\<exists>k. lsDir s' = lsDir (onActive (appendFile (take k r)) s)) \<and> walWriteErr (lsWal s') \<and> same_control s s'"

definition wrote_all :: "log_state \<Rightarrow> wal_entry \<Rightarrow> byte list \<Rightarrow> log_state \<Rightarrow> bool" where
  "wrote_all s e r s' \<longleftrightarrow>
     lsDir s' = lsDir (onActive (appendFile r) s) \<and> \<not> walWriteErr (lsWal s') \<and> walBuffer (lsWal s') = []
     \<and> segmentEntries (lsWal s') = segmentEntries (lsWal s) + 1
     \<and> segmentFirstSeq (lsWal s') = (if segmentEntries (lsWal s) = 0 then weSequence e else segmentFirstSeq (lsWal s))
     \<and> same_control s s'"

lemma record_length: "21 \<le> length (fst (buildAtomicRecordV2 p))"
  by (simp add: buildAtomicRecordV2_def Let_def)

lemma write_then_flush:
  fixes p :: "byte list"
  defines "r \<equiv> fst (buildAtomicRecordV2 p)"
  assumes "healthy (lsWal s)" "walBuffer (lsWal s) = []"
    and "andThen (writeAtomicRecordV2Bufio io p s) (\<lambda>s. bufFlush io (onWal (countEntry e c) s)) = (res, s')"
  shows "res = None \<and> wrote_all s e r s' \<or> res = Some ErrWALIO \<and> wrote_part s r s'"
proof -
  have r: "r \<noteq> []" using record_length [of p] by (auto simp: r_def)
  show ?thesis
  proof (cases "length r \<le> bufSize")
    case True
    then show ?thesis
      using assms(2-) r
      by (auto simp: writeAtomicRecordV2Bufio_def Let_def r_def [symmetric] bufAvailable_def bufWrite_def
          bufWriteEmpty_def healthy_def bufFlush_def fileWrite_def wrote_part_def wrote_all_def same_control_def
          onActive_def split: if_splits)
  next
    case False
    then show ?thesis
      using assms(2-) r
      by (auto simp: writeAtomicRecordV2Bufio_def Let_def r_def [symmetric] bufAvailable_def bufWrite_def
          bufWriteEmpty_def healthy_def bufFlush_def fileWrite_def wrote_part_def wrote_all_def same_control_def
          onActive_def split: if_splits)
  qed
qed

text \<open>A writer that has failed, or whose file is closed, writes nothing.\<close>

lemma broken_write:
  assumes "\<not> healthy (lsWal s)" "walBuffer (lsWal s) = [] \<or> walWriteErr (lsWal s)"
    and "andThen (writeAtomicRecordV2Bufio io p s) (\<lambda>s. bufFlush io (onWal (countEntry e c) s)) = (res, s')"
  shows "res = Some ErrWALIO \<and> lsDir s' = lsDir s \<and> walWriteErr (lsWal s') \<and> same_control s s'"
  using assms record_length [of p]
  by (auto simp: writeAtomicRecordV2Bufio_def Let_def bufAvailable_def bufWrite_def bufWriteEmpty_def healthy_def
      bufFlush_def fileWrite_def same_control_def split: if_splits)

section \<open>The invariant\<close>

text \<open>The active file holds the entries \<open>act\<close>, the last of them perhaps cut; the first \<open>m\<close> are on disk.\<close>

definition active_ok :: "json \<Rightarrow> wfile \<Rightarrow> wal_entry list \<Rightarrow> nat \<Rightarrow> bool" where
  "active_ok js f act m \<longleftrightarrow>
     (\<exists>n. fData f = take n (log_of js act)) \<and> m \<le> length act
     \<and> length (log_of js (take m act)) \<le> fSynced f \<and> fSynced f \<le> length (fData f)"

definition log_inv :: "json \<Rightarrow> log_state \<Rightarrow> sealed list \<Rightarrow> wal_entry list \<Rightarrow> nat \<Rightarrow> bool" where
  "log_inv js s segs act m \<longleftrightarrow>
     dir_ok js (lsDir s) segs \<and> list_all (good_entry js) act \<and> increasing (sealed_entries segs @ act)
     \<and> (\<forall>e \<in> set (sealed_entries segs @ act). weSequence e \<le> walSequence (lsWal s))
     \<and> (walBuffer (lsWal s) = [] \<or> walWriteErr (lsWal s))
     \<and> SyncMode (walConfig (lsWal s)) \<noteq> ''none''
     \<and> (case dActive (lsDir s) of
          None \<Rightarrow> act = [] \<and> m = 0 \<and> \<not> walOpen (lsWal s)
        | Some f \<Rightarrow> active_ok js f act m
            \<and> (healthy (lsWal s) \<longrightarrow> fData f = log_of js act \<and> segmentEntries (lsWal s) = int (length act)
                 \<and> (act \<noteq> [] \<longrightarrow> segmentFirstSeq (lsWal s) = weSequence (hd act))))"

text \<open>The entries that are in the log and those a loss of power cannot take.\<close>

definition holds_log :: "json \<Rightarrow> log_state \<Rightarrow> wal_entry list \<Rightarrow> nat \<Rightarrow> bool" where
  "holds_log js s es d \<longleftrightarrow>
     (\<exists>segs act m. log_inv js s segs act m \<and> es = sealed_entries segs @ act \<and> d = length (sealed_entries segs) + m)"

lemma log_of_take_prefix: "log_of js (take m act) = take (length (log_of js (take m act))) (log_of js act)"
  by (metis append_take_drop_id append_eq_conv_conj log_of_simps(3))

lemma take_log_snoc:
  "fData f = log_of js act \<Longrightarrow> \<exists>n. fData f @ take k (record_of js e) = take n (log_of js (act @ [e]))"
  by (rule exI [of _ "length (log_of js act) + k"]) simp

lemma inv_same_dir:
  assumes "log_inv js s segs act m" "lsDir s' = lsDir s" "walSequence (lsWal s) \<le> walSequence (lsWal s')"
    and "walConfig (lsWal s') = walConfig (lsWal s)" "\<not> healthy (lsWal s')" "walOpen (lsWal s') \<longrightarrow> walOpen (lsWal s)"
    and "walBuffer (lsWal s') = [] \<or> walWriteErr (lsWal s')"
  shows "log_inv js s' segs act m"
  using assms by (auto simp: log_inv_def split: option.splits intro: order_trans)

lemma inv_wrote_part:
  assumes "log_inv js s segs act m" "healthy (lsWal s)" "wrote_part s (record_of js e) s'"
    and "good_entry js e" "\<forall>x \<in> set (sealed_entries segs @ act). weSequence x < weSequence e"
    and "weSequence e \<le> walSequence (lsWal s)"
  shows "log_inv js s' segs (act @ [e]) m"
proof -
  obtain f where f: "dActive (lsDir s) = Some f"
    using assms(1,2) by (auto simp: log_inv_def healthy_def split: option.splits)
  obtain k where k: "lsDir s' = lsDir (onActive (appendFile (take k (record_of js e))) s)"
    using assms(3) by (auto simp: wrote_part_def)
  have ctl: "same_control s s'" "walWriteErr (lsWal s')"
    using assms(3) by (auto simp: wrote_part_def)
  have "active_ok js f act m" "fData f = log_of js act"
    using assms(1,2) f by (auto simp: log_inv_def)
  then have "active_ok js (appendFile (take k (record_of js e)) f) (act @ [e]) m"
    using take_log_snoc [of f js act k e] by (auto simp: active_ok_def appendFile_def)
  then show ?thesis
    using assms f k ctl
    by (auto simp: log_inv_def dir_ok_def same_control_def increasing_append healthy_def appendFile_def)
qed

lemma inv_wrote_all:
  assumes "log_inv js s segs act m" "healthy (lsWal s)" "wrote_all s e (record_of js e) s'"
    and "good_entry js e" "\<forall>x \<in> set (sealed_entries segs @ act). weSequence x < weSequence e"
    and "weSequence e \<le> walSequence (lsWal s)"
  shows "log_inv js s' segs (act @ [e]) m" "healthy (lsWal s')"
proof -
  obtain f where f: "dActive (lsDir s) = Some f"
    using assms(1,2) by (auto simp: log_inv_def healthy_def split: option.splits)
  have k: "lsDir s' = lsDir (onActive (appendFile (record_of js e)) s)" and ctl: "same_control s s'"
    and w: "\<not> walWriteErr (lsWal s')" "walBuffer (lsWal s') = []"
      "segmentEntries (lsWal s') = segmentEntries (lsWal s) + 1"
      "segmentFirstSeq (lsWal s') = (if segmentEntries (lsWal s) = 0 then weSequence e else segmentFirstSeq (lsWal s))"
    using assms(3) by (simp_all add: wrote_all_def)
  have old: "active_ok js f act m" "fData f = log_of js act" "segmentEntries (lsWal s) = int (length act)"
    "act \<noteq> [] \<longrightarrow> segmentFirstSeq (lsWal s) = weSequence (hd act)"
    using assms(1,2) f by (auto simp: log_inv_def)
  have "active_ok js (appendFile (record_of js e) f) (act @ [e]) m"
    using old take_log_snoc [of f js act "length (record_of js e)" e] by (auto simp: active_ok_def appendFile_def)
  then show "log_inv js s' segs (act @ [e]) m"
    using assms(1,2,4-) f k ctl w old
    by (auto simp: log_inv_def dir_ok_def same_control_def increasing_append healthy_def appendFile_def)
  show "healthy (lsWal s')"
    using assms(2) ctl w by (simp add: healthy_def same_control_def)
qed

lemma inv_synced:
  assumes "log_inv js s segs act m" "healthy (lsWal s)"
  shows "log_inv js (onActive syncFile s) segs act (length act)"
proof -
  obtain f where f: "dActive (lsDir s) = Some f" "fData f = log_of js act" "active_ok js f act m"
    using assms by (auto simp: log_inv_def healthy_def split: option.splits)
  then have "active_ok js (syncFile f) act (length act)"
    by (auto simp: active_ok_def syncFile_def intro: exI [of _ "length (log_of js act)"])
  then show ?thesis
    using assms f by (auto simp: log_inv_def dir_ok_def syncFile_def)
qed

section \<open>Rotation\<close>

lemma update_fresh: "k \<notin> fst ` set al \<Longrightarrow> AList.update k v al = al @ [(k, v)]"
  by (induction al) auto

lemma loadWALManifest_ok: "dir_ok js d segs \<Longrightarrow> loadWALManifest d = map fst segs"
  using sorted_firsts [of js segs] by (auto simp: dir_ok_def loadWALManifest_def)

lemma seal_dir:
  assumes d: "dir_ok js d segs" "list_all (good_entry js) act" "increasing (sealed_entries segs @ act)" "act \<noteq> []"
    and g: "sgFirstSeq g = weSequence (hd act)" "sgLastSeq g = weSequence (List.last act)" "sgPath g = segmentName (weSequence (hd act)) (weSequence (List.last act))"
    and f: "f = newFile (log_of js act)"
    and d': "dSegments d' = AList.update (sgPath g) f (dSegments d)"
      "dManifest d' = Some (sort_key sgFirstSeq (loadWALManifest d @ [g]))"
  shows "dir_ok js d' (segs @ [(g, f, act)])"
proof -
  have sealed: "list_all (is_sealed js) (segs @ [(g, f, act)])"
    using d(1,4) g f by (simp add: dir_ok_def is_sealed_def)
  have inc: "increasing (sealed_entries (segs @ [(g, f, act)]))"
    using d(3) by simp
  have "sgPath g \<notin> fst ` set (dSegments d)"
    using sealed_names [OF sealed inc] d(1) by (auto simp: dir_ok_def image_iff)
  then have "dSegments d' = map (\<lambda>(g, f, es). (sgPath g, f)) (segs @ [(g, f, act)])"
    using d(1) d'(1) by (simp add: update_fresh dir_ok_def)
  moreover have "dManifest d' = Some (map fst (segs @ [(g, f, act)]))"
    using sorted_firsts [OF sealed inc] d'(2) loadWALManifest_ok [OF d(1)] by simp
  ultimately show ?thesis
    using sealed inc d(1,2) by (simp add: dir_ok_def)
qed

lemma bufFlush_healthy: "healthy (lsWal s) \<Longrightarrow> walBuffer (lsWal s) = [] \<Longrightarrow> bufFlush io s = (None, s)"
  by (simp add: bufFlush_def healthy_def)

text \<open>The state with the active file sealed and not yet reopened.\<close>

lemma inv_sealed:
  assumes "log_inv js s segs act (length act)" "healthy (lsWal s)" "act \<noteq> []"
    and f: "dActive (lsDir s) = Some f" "f = newFile (log_of js act)"
    and g: "sgFirstSeq g = weSequence (hd act)" "sgLastSeq g = weSequence (List.last act)" "sgPath g = segmentName (weSequence (hd act)) (weSequence (List.last act))"
    and s': "dSegments (lsDir s') = AList.update (sgPath g) f (dSegments (lsDir s))"
      "dManifest (lsDir s') = Some (sort_key sgFirstSeq (loadWALManifest (lsDir s) @ [g]))"
      "dActive (lsDir s') = None \<or> dActive (lsDir s') = Some (newFile [])"
      "dActive (lsDir s') = None \<longrightarrow> \<not> walOpen (lsWal s')"
      "walSequence (lsWal s') = walSequence (lsWal s)" "walConfig (lsWal s') = walConfig (lsWal s)"
      "walBuffer (lsWal s') = []" "healthy (lsWal s') \<longrightarrow> segmentEntries (lsWal s') = 0"
  shows "log_inv js s' (segs @ [(g, f, act)]) [] 0"
proof -
  have inv: "dir_ok js (lsDir s) segs" "list_all (good_entry js) act" "increasing (sealed_entries segs @ act)"
    using assms(1) by (simp_all add: log_inv_def)
  have dir: "dir_ok js (lsDir s') (segs @ [(g, f, act)])"
    by (rule seal_dir [OF inv assms(3) g f(2) s'(1,2)])
  have "active_ok js (newFile []) [] 0"
    by (simp add: active_ok_def newFile_def)
  then show ?thesis
    using assms(1) dir s' inv(3) by (auto simp: log_inv_def newFile_def)
qed

lemma synced_file:
  assumes "log_inv js s segs act (length act)" "healthy (lsWal s)"
  shows "\<exists>f. dActive (lsDir s) = Some f \<and> f = newFile (log_of js act)"
proof -
  obtain f where "dActive (lsDir s) = Some f" "fData f = log_of js act" "active_ok js f act (length act)"
    using assms by (auto simp: log_inv_def healthy_def split: option.splits)
  then show ?thesis
    by (auto simp: active_ok_def newFile_def)
qed

lemma inv_closed_file:
  assumes "log_inv js s segs act m" "healthy (lsWal s)"
  shows "log_inv js (onWal (\<lambda>w. w\<lparr>walOpen := False\<rparr>) s) segs act m"
  by (rule inv_same_dir [OF assms(1)]) (use assms in \<open>auto simp: healthy_def log_inv_def\<close>)

lemma holdsI:
  assumes "log_inv js s segs act m" "es = sealed_entries segs @ act" "d \<le> length (sealed_entries segs) + m"
  shows "\<exists>d'. holds_log js s es d' \<and> d \<le> d'"
  using assms unfolding holds_log_def by blast

text \<open>How a rotation whose sync succeeds can end: with the file closed, or with the file sealed.\<close>

lemma rotate_ends:
  fixes s lastSeq
  defines "s1 \<equiv> onActive syncFile s"
  defines "g \<equiv> \<lambda>f. \<lparr>sgFirstSeq = segmentFirstSeq (lsWal s), sgLastSeq = lastSeq,
      sgSizeBytes = int (length (fData f)), sgCreatedAt = segmentCreatedAt (lsWal s),
      sgPath = segmentName (segmentFirstSeq (lsWal s)) lastSeq\<rparr>"
  assumes "healthy (lsWal s)" "walBuffer (lsWal s) = []" "SyncMode (walConfig (lsWal s)) \<noteq> ''none''"
    and "segmentEntries (lsWal s) \<noteq> 0" "dActive (lsDir s1) = Some f"
    and "\<not> ioFails io IoSync" "\<not> ioFails io IoLoadManifest" "\<not> ioFails io IoWriteManifest"
    and "rotateSegmentLocked io lastSeq s = (res, s')"
  shows "s' = onWal (\<lambda>w. w\<lparr>walOpen := False\<rparr>) s1 \<or>
      dSegments (lsDir s') = AList.update (sgPath (g f)) f (dSegments (lsDir s1))
      \<and> dManifest (lsDir s') = Some (sort_key sgFirstSeq (loadWALManifest (lsDir s1) @ [g f]))
      \<and> (dActive (lsDir s') = None \<or> dActive (lsDir s') = Some (newFile []))
      \<and> (dActive (lsDir s') = None \<longrightarrow> \<not> walOpen (lsWal s'))
      \<and> walSequence (lsWal s') = walSequence (lsWal s) \<and> walConfig (lsWal s') = walConfig (lsWal s)
      \<and> walBuffer (lsWal s') = [] \<and> (healthy (lsWal s') \<longrightarrow> segmentEntries (lsWal s') = 0)"
  using assms(3-)
  by (simp add: rotateSegmentLocked_def syncLocked_def bufFlush_healthy fsyncActive_def healthy_def mayFail_def
      Let_def loadWALManifest_def s1_def g_def split: if_splits; force simp: healthy_def loadWALManifest_def)

lemma rotate_holds:
  assumes inv: "log_inv js s segs act m" "healthy (lsWal s)" "act \<noteq> []"
    and lastSeq: "lastSeq = weSequence (List.last act)"
    and io: "\<not> ioFails io IoLoadManifest" "\<not> ioFails io IoWriteManifest"
    and rot: "rotateSegmentLocked io lastSeq s = (res, s')"
  shows "(\<exists>d'. holds_log js s' (sealed_entries segs @ act) d' \<and> length (sealed_entries segs) + m \<le> d')
    \<and> walSequence (lsWal s') = walSequence (lsWal s) \<and> walConfig (lsWal s') = walConfig (lsWal s)"
proof -
  let ?s1 = "onActive syncFile s"
  let ?s2 = "onWal (\<lambda>w. w\<lparr>walOpen := False\<rparr>) ?s1"
  have m: "m \<le> length act" and buf: "walBuffer (lsWal s) = []" and mode: "SyncMode (walConfig (lsWal s)) \<noteq> ''none''"
    and first: "segmentFirstSeq (lsWal s) = weSequence (hd act)" and n: "segmentEntries (lsWal s) \<noteq> 0"
    using inv by (auto simp: log_inv_def active_ok_def healthy_def split: option.splits)
  have s1: "log_inv js ?s1 segs act (length act)" "healthy (lsWal ?s1)"
    using inv_synced [OF inv(1,2)] inv(2) by simp_all
  then have s2: "log_inv js ?s2 segs act (length act)"
    using inv_closed_file by blast
  obtain f where f: "dActive (lsDir ?s1) = Some f" "f = newFile (log_of js act)"
    using synced_file [OF s1] by blast
  show ?thesis
  proof (cases "ioFails io IoSync")
    case True
    then have "s' = s"
      using rot n inv(2) buf mode
      by (simp add: rotateSegmentLocked_def syncLocked_def bufFlush_healthy fsyncActive_def healthy_def mayFail_def)
    then show ?thesis using inv(1) unfolding holds_log_def by blast
  next
    case False
    let ?g = "\<lparr>sgFirstSeq = segmentFirstSeq (lsWal s), sgLastSeq = lastSeq,
      sgSizeBytes = int (length (fData f)), sgCreatedAt = segmentCreatedAt (lsWal s),
      sgPath = segmentName (segmentFirstSeq (lsWal s)) lastSeq\<rparr>"
    consider "s' = ?s2"
      | "log_inv js s' (segs @ [(?g, f, act)]) [] 0" "walSequence (lsWal s') = walSequence (lsWal s)"
        "walConfig (lsWal s') = walConfig (lsWal s)"
      using rotate_ends [OF inv(2) buf mode n f(1) False io rot] inv_sealed [OF s1 inv(3) f, of ?g s'] first lastSeq
      by auto
    then show ?thesis
      using holdsI [OF s2 refl, of "length (sealed_entries segs) + m"]
        holdsI [of js s' "segs @ [(?g, f, act)]" "[]" 0 "sealed_entries segs @ act" "length (sealed_entries segs) + m"] m
      by cases simp_all
  qed
qed

section \<open>Operations\<close>

lemma bufFlush_config: "bufFlush io s = (res, s') \<Longrightarrow> walConfig (lsWal s') = walConfig (lsWal s)"
  by (auto simp: bufFlush_def fileWrite_def Let_def split: if_splits)

lemma andThen_cong_snd:
  "(\<And>s'. r = (None, s') \<Longrightarrow> k s' = h s') \<Longrightarrow> andThen r k = andThen r h"
  by (auto simp: andThen_def split: prod.split option.split)

lemma appendLocked_eq:
  "appendLocked js io e s =
     andThen (andThen (writeAtomicRecordV2Bufio io (jMarshal js e) s)
         (\<lambda>s. bufFlush io (onWal (countEntry e (snd (buildAtomicRecordV2 (jMarshal js e)))) s)))
       (\<lambda>s. andThen (if SyncMode (walConfig (lsWal s)) = ''immediate'' then fsyncActive io s else (None, s))
         (maybeRotateLocked io (weSequence e)))"
proof -
  have "andThen (if SyncMode (walConfig (lsWal t)) = ''immediate'' then syncLocked io t else bufFlush io t) k
      = andThen (bufFlush io t) (\<lambda>s. andThen (if SyncMode (walConfig (lsWal s)) = ''immediate'' then fsyncActive io s else (None, s)) k)"
    for t k
  proof (cases "SyncMode (walConfig (lsWal t)) = ''immediate''")
    case True
    then show ?thesis
      unfolding syncLocked_def by (simp add: andThen_assoc) (rule andThen_cong_snd, auto dest: bufFlush_config)
  next
    case False
    then show ?thesis
      by simp (rule andThen_cong_snd, auto dest: bufFlush_config)
  qed
  then show ?thesis
    by (simp add: appendLocked_def Let_def andThen_assoc)
qed

lemma fsync_holds:
  assumes "log_inv js s segs act m" "healthy (lsWal s)" "fsyncActive io s = (res, s')"
  shows "\<exists>m'. log_inv js s' segs act m' \<and> m \<le> m' \<and> (res = None \<longrightarrow> m' = length act) \<and> healthy (lsWal s')
    \<and> walSequence (lsWal s') = walSequence (lsWal s) \<and> walConfig (lsWal s') = walConfig (lsWal s)"
proof -
  have m: "m \<le> length act" and mode: "SyncMode (walConfig (lsWal s)) \<noteq> ''none''"
    using assms(1) by (auto simp: log_inv_def active_ok_def split: option.splits)
  consider "s' = s" "res \<noteq> None" | "s' = onActive syncFile s" "res = None"
    using assms(2,3) mode by (auto simp: fsyncActive_def mayFail_def healthy_def split: if_splits)
  then show ?thesis
    using assms(1,2) inv_synced [OF assms(1,2)] m by cases auto
qed

lemma maybeRotate_holds:
  assumes "log_inv js s segs act m" "healthy (lsWal s)" "act \<noteq> []" "lastSeq = weSequence (List.last act)"
    and "\<not> ioFails io IoLoadManifest" "\<not> ioFails io IoWriteManifest"
    and "maybeRotateLocked io lastSeq s = (res, s')"
  shows "(\<exists>d'. holds_log js s' (sealed_entries segs @ act) d' \<and> length (sealed_entries segs) + m \<le> d')
    \<and> walSequence (lsWal s') = walSequence (lsWal s) \<and> walConfig (lsWal s') = walConfig (lsWal s)"
proof -
  consider "s' = s" | "rotateSegmentLocked io lastSeq s = (res, s')"
    using assms(7) by (auto simp: maybeRotateLocked_def Let_def split: if_splits)
  then show ?thesis
    using rotate_holds [OF assms(1-6)] assms(1) by cases (auto simp: holds_log_def)
qed

lemma append_holds:
  assumes inv: "holds_log js s es d" "good_entry js e" "\<forall>x \<in> set es. weSequence x < weSequence e"
    and "weSequence e \<le> walSequence (lsWal s)"
    and io: "\<not> ioFails io IoLoadManifest" "\<not> ioFails io IoWriteManifest"
    and app: "appendLocked js io e s = (res, s')"
  shows "(\<exists>es' d'. holds_log js s' es' d' \<and> (es' = es \<and> res \<noteq> None \<or> es' = es @ [e]) \<and> d \<le> d'
      \<and> (res = None \<and> SyncMode (walConfig (lsWal s)) = ''immediate'' \<longrightarrow> length es' \<le> d'))
    \<and> walSequence (lsWal s') = walSequence (lsWal s) \<and> walConfig (lsWal s') = walConfig (lsWal s)"
proof -
  let ?w = "andThen (writeAtomicRecordV2Bufio io (jMarshal js e) s)
         (\<lambda>s. bufFlush io (onWal (countEntry e (snd (buildAtomicRecordV2 (jMarshal js e)))) s))"
  obtain segs act m where l: "log_inv js s segs act m" "es = sealed_entries segs @ act" "d = length (sealed_entries segs) + m"
    using inv(1) by (auto simp: holds_log_def)
  have seqs: "\<forall>x \<in> set (sealed_entries segs @ act). weSequence x < weSequence e"
    using inv(3) l(2) by simp
  obtain res1 s1 where w: "?w = (res1, s1)" by (cases ?w)
  show ?thesis
  proof (cases "healthy (lsWal s)")
    case False
    have "res1 = Some ErrWALIO \<and> lsDir s1 = lsDir s \<and> walWriteErr (lsWal s1) \<and> same_control s s1"
      using broken_write [OF False _ w] l(1) by (simp add: log_inv_def)
    moreover from this have "log_inv js s1 segs act m"
      by (intro inv_same_dir [OF l(1)]) (auto simp: same_control_def healthy_def)
    then have "holds_log js s1 es d"
      unfolding holds_log_def l(2,3) by blast
    ultimately show ?thesis
      using app w by (auto simp: appendLocked_eq same_control_def)
  next
    case True
    have buf: "walBuffer (lsWal s) = []"
      using l(1) True by (auto simp: log_inv_def healthy_def)
    note wrote = write_then_flush [OF True buf w, folded record_of_def]
    show ?thesis
    proof (cases "res1 = None")
      case False
      then have part: "wrote_part s (record_of js e) s1" "res1 = Some ErrWALIO"
        using wrote by auto
      then have "log_inv js s1 segs (act @ [e]) m"
        using inv_wrote_part [OF l(1) True _ inv(2) seqs assms(4)] by blast
      then have "holds_log js s1 (es @ [e]) d"
        unfolding holds_log_def l(2,3) by (metis append_assoc)
      then show ?thesis
        using app w part by (auto simp: appendLocked_eq wrote_part_def same_control_def)
    next
      case r1: True
      then have all: "wrote_all s e (record_of js e) s1" using wrote by auto
      note i1 = inv_wrote_all [OF l(1) True all inv(2) seqs assms(4)]
      have ctl: "same_control s s1" using all by (simp add: wrote_all_def)
      let ?f = "if SyncMode (walConfig (lsWal s1)) = ''immediate'' then fsyncActive io s1 else (None, s1)"
      obtain res2 s2 where f: "?f = (res2, s2)" by (cases ?f)
      obtain m' where m': "log_inv js s2 segs (act @ [e]) m'" "m \<le> m'" "healthy (lsWal s2)"
        "res2 = None \<and> SyncMode (walConfig (lsWal s1)) = ''immediate'' \<longrightarrow> m' = length (act @ [e])"
        "walSequence (lsWal s2) = walSequence (lsWal s1)" "walConfig (lsWal s2) = walConfig (lsWal s1)"
        using fsync_holds [OF i1, of io res2 s2] f i1
        by (cases "SyncMode (walConfig (lsWal s1)) = ''immediate''") auto
      show ?thesis
      proof (cases "res2 = None")
        case False
        then have "res = res2 \<and> s' = s2"
          using app w r1 f by (auto simp: appendLocked_eq)
        moreover have "holds_log js s2 (es @ [e]) (length (sealed_entries segs) + m')"
          using m'(1) unfolding holds_log_def l(2) by (metis append_assoc)
        ultimately show ?thesis
          using False m' ctl l(3) by (auto simp: same_control_def intro!: exI [of _ "es @ [e]"])
      next
        case r2: True
        then have "maybeRotateLocked io (weSequence e) s2 = (res, s')"
          using app w r1 f by (simp add: appendLocked_eq)
        then show ?thesis
          using maybeRotate_holds [OF m'(1,3) _ _ io, of "weSequence e" res s'] m' r2 l ctl
          by (auto simp: same_control_def intro!: exI [of _ "es @ [e]"])
      qed
    qed
  qed
qed

lemma syncLocked_holds:
  assumes "holds_log js s es d" "syncLocked io s = (res, s')"
  shows "\<exists>d'. holds_log js s' es d' \<and> d \<le> d' \<and> (res = None \<longrightarrow> length es \<le> d')
    \<and> walSequence (lsWal s') = walSequence (lsWal s) \<and> walConfig (lsWal s') = walConfig (lsWal s)"
proof -
  obtain segs act m where l: "log_inv js s segs act m" "es = sealed_entries segs @ act" "d = length (sealed_entries segs) + m"
    using assms(1) by (auto simp: holds_log_def)
  have buf: "walBuffer (lsWal s) = [] \<or> walWriteErr (lsWal s)" and mode: "SyncMode (walConfig (lsWal s)) \<noteq> ''none''"
    using l(1) by (auto simp: log_inv_def)
  consider "s' = s" "res \<noteq> None" | "healthy (lsWal s)" "fsyncActive io s = (res, s')"
    using assms(2) buf mode
    by (auto simp: syncLocked_def bufFlush_def fsyncActive_def healthy_def split: if_splits)
  then show ?thesis
  proof cases
    case 1
    then show ?thesis using assms(1) by blast
  next
    case 2
    then obtain m' where m': "log_inv js s' segs act m'" "m \<le> m'" "res = None \<longrightarrow> m' = length act"
      "walSequence (lsWal s') = walSequence (lsWal s)" "walConfig (lsWal s') = walConfig (lsWal s)"
      using fsync_holds [OF l(1) 2] by blast
    moreover have "holds_log js s' es (length (sealed_entries segs) + m')"
      using m'(1) unfolding holds_log_def l(2) by blast
    ultimately show ?thesis using l(2,3) by auto
  qed
qed

lemma sync_holds:
  assumes "holds_log js s es d" "SyncWAL io s = (res, s')"
  shows "\<exists>d'. holds_log js s' es d' \<and> d \<le> d' \<and> (res = None \<longrightarrow> length es \<le> d')
    \<and> walSequence (lsWal s') = walSequence (lsWal s) \<and> walConfig (lsWal s') = walConfig (lsWal s)"
  using syncLocked_holds [OF assms(1), of io res s'] assms by (auto simp: SyncWAL_def split: if_splits)

lemma holds_closed_file: "holds_log js s es d \<Longrightarrow> holds_log js (onWal (\<lambda>w. w\<lparr>walOpen := False\<rparr>) s) es d"
  using inv_same_dir [of js s _ _ _ "onWal (\<lambda>w. w\<lparr>walOpen := False\<rparr>) s"]
  by (auto simp: holds_log_def healthy_def log_inv_def)

lemma holds_closed_flag: "holds_log js (onWal (\<lambda>w. w\<lparr>walClosed := b\<rparr>) s) es d = holds_log js s es d"
proof -
  have "log_inv js (onWal (\<lambda>w. w\<lparr>walClosed := b\<rparr>) s) = log_inv js s"
    by (intro ext) (simp add: log_inv_def healthy_def split: option.split)
  then show ?thesis by (simp add: holds_log_def)
qed

lemma close_holds:
  assumes "holds_log js s es d" "CloseWAL io s = (res, s')"
  shows "\<exists>d'. holds_log js s' es d' \<and> d \<le> d' \<and> walSequence (lsWal s') = walSequence (lsWal s)
    \<and> walConfig (lsWal s') = walConfig (lsWal s)"
proof (cases "walClosed (lsWal s)")
  case True
  then show ?thesis using assms by (auto simp: CloseWAL_def)
next
  case False
  let ?s0 = "onWal (\<lambda>w. w\<lparr>walClosed := True\<rparr>) s"
  obtain res1 s1 where s1: "syncLocked io ?s0 = (res1, s1)" by (cases "syncLocked io ?s0")
  have "s' = onWal (\<lambda>w. w\<lparr>walOpen := False\<rparr>) s1"
    using assms(2) False s1 by (simp add: CloseWAL_def mayFail_def)
  then show ?thesis
    using syncLocked_holds [OF _ s1, of js es d] assms(1) holds_closed_file [of js s1 es]
    by (auto simp: holds_closed_flag)
qed

section \<open>Opening\<close>

lemma repair_unchanged: "repairWALTailIfNeeded js bs = (bs', False) \<Longrightarrow> bs' = bs"
  by (auto simp: repairWALTailIfNeeded_def split: if_splits prod.splits option.splits)

lemma increasing_le_last:
  "increasing es \<Longrightarrow> e \<in> set es \<Longrightarrow> weSequence e \<le> weSequence (List.last es)"
  by (cases es rule: rev_cases) (auto simp: increasing_append)

definition all_synced :: "wal_dir \<Rightarrow> bool" where
  "all_synced d \<longleftrightarrow> (\<forall>f. dActive d = Some f \<longrightarrow> fSynced f = length (fData f))"

lemma repair_active:
  assumes "list_all (good_entry js) act" "active_ok js f act m"
  shows "\<exists>k. m \<le> k \<and> k \<le> length act \<and> fData (repairFile js f) = log_of js (take k act)
    \<and> active_ok js (repairFile js f) (take k act) m
    \<and> (fSynced f = length (fData f) \<longrightarrow> active_ok js (repairFile js f) (take k act) k)"
proof -
  obtain n where n: "fData f = take n (log_of js act)" "m \<le> length act"
    "length (log_of js (take m act)) \<le> fSynced f" "fSynced f \<le> length (fData f)"
    using assms(2) by (auto simp: active_ok_def)
  obtain k where k: "k \<le> length act" "k < length act \<longrightarrow> n < length (log_of js (take (Suc k) act))"
    "fst (repairWALTailIfNeeded js (take n (log_of js act))) = log_of js (take k act)"
    using repair_cut_log [OF assms(1), of n] by blast
  have mk: "m \<le> k"
  proof (rule ccontr)
    assume "\<not> m \<le> k"
    then have km: "k < length act" "Suc k \<le> m" using n(2) by auto
    have "length (log_of js (take (Suc k) act)) \<le> length (log_of js (take m act))"
    proof -
      have "take (Suc k) act = take (Suc k) (take m act)" using km by (simp add: min_def)
      then have "log_of js (take m act) = log_of js (take (Suc k) act) @ log_of js (drop (Suc k) (take m act))"
        by (metis append_take_drop_id log_of_simps(3))
      then show ?thesis by simp
    qed
    moreover have "length (fData f) \<le> n" using n(1) by simp
    ultimately show False using k(2) km n(3,4) by auto
  qed
  have data: "fData (repairFile js f) = log_of js (take k act)"
    using k(3) n(1) repair_unchanged [of js "fData f"]
    by (auto simp: repairFile_def newFile_def split: prod.splits bool.splits)
  have mm: "log_of js (take m (take k act)) = log_of js (take m act)"
    using mk by (simp add: min_def)
  have len: "length (log_of js (take m act)) \<le> length (log_of js (take k act))"
    using mk mm by (metis append_take_drop_id le_add1 length_append log_of_simps(3))
  have synced: "repairFile js f = newFile (log_of js (take k act)) \<or> repairFile js f = f"
    using data by (auto simp: repairFile_def newFile_def split: prod.splits bool.splits)
  have bound: "fSynced f \<le> length (log_of js (take k act))" if "repairFile js f = f"
    using n(4) data that by simp
  have ok: "active_ok js (repairFile js f) (take k act) m"
    using synced data n(3) mk k(1) mm len bound
    by (auto simp: active_ok_def newFile_def intro: exI [of _ "length (log_of js (take k act))"])
  have "fSynced f = length (fData f) \<longrightarrow> active_ok js (repairFile js f) (take k act) k"
    using synced data k(1)
    by (auto simp: active_ok_def newFile_def intro: exI [of _ "length (log_of js (take k act))"])
  then show ?thesis using mk k(1) data ok by blast
qed

lemma loadActive_simps [simp]:
  "walOpen (loadActiveSegmentState js d w) = walOpen w" "walBuffer (loadActiveSegmentState js d w) = walBuffer w"
  "walWriteErr (loadActiveSegmentState js d w) = walWriteErr w" "walConfig (loadActiveSegmentState js d w) = walConfig w"
  "walSequence (loadActiveSegmentState js d w) = walSequence w" "walClosed (loadActiveSegmentState js d w) = walClosed w"
  by (simp_all add: loadActiveSegmentState_def split: option.split sum.split list.split)

lemma loadActive_count:
  assumes "dActive d = Some f" "ReadWALEntries js (fData f) = Inr act" "segmentEntries w = 0"
  shows "segmentEntries (loadActiveSegmentState js d w) = int (length act)"
    "act \<noteq> [] \<Longrightarrow> segmentFirstSeq (loadActiveSegmentState js d w) = weSequence (hd act)"
  using assms by (cases act; simp add: loadActiveSegmentState_def)+

text \<open>Opening a directory of sealed segments whose active file was cut somewhere.\<close>

lemma open_holds:
  assumes d: "dir_ok js d segs" "list_all (good_entry js) act" "increasing (sealed_entries segs @ act)"
    and cfg: "SyncMode cfg \<noteq> ''none''"
    and active: "case dActive d of None \<Rightarrow> act = [] \<and> m = 0 | Some f \<Rightarrow> active_ok js f act m"
  shows "\<exists>k m'. m \<le> m' \<and> k \<le> length act \<and> (all_synced d \<longrightarrow> m' = k) \<and> log_inv js (NewWAL js cfg d) segs (take k act) m'
    \<and> ReadWALEntriesFromDir js (lsDir (NewWAL js cfg d)) = Inr (sealed_entries segs @ take k act)"
proof -
  obtain k m' f where k: "k \<le> length act" "m \<le> m'" "all_synced d \<longrightarrow> m' = k"
    and f: "dActive (openActive js d) = Some f" "fData f = log_of js (take k act)" "active_ok js f (take k act) m'"
  proof (cases "dActive d")
    case None
    show ?thesis
      by (rule that [of 0 0 "newFile []"]) (use None active in \<open>simp_all add: openActive_def active_ok_def newFile_def\<close>)
  next
    case (Some f)
    then obtain k where r: "m \<le> k" "k \<le> length act" "fData (repairFile js f) = log_of js (take k act)"
      "active_ok js (repairFile js f) (take k act) m"
      "fSynced f = length (fData f) \<longrightarrow> active_ok js (repairFile js f) (take k act) k"
      using repair_active [OF d(2), of f m] active by auto
    show ?thesis
      by (rule that [of k "if all_synced d then k else m" "repairFile js f"])
        (use r Some in \<open>simp_all add: openActive_def all_synced_def\<close>)
  qed
  have dir: "dir_ok js (openActive js d) segs"
    using d(1) by (simp add: dir_ok_def openActive_def)
  have good: "list_all (good_entry js) (take k act)" using d(2) list_all_take by blast
  have inc: "increasing (sealed_entries segs @ take k act)"
    using d(3) increasing_take [of "sealed_entries segs @ act" "length (sealed_entries segs) + k"] by simp
  have read: "ReadWALEntries js (fData f) = Inr (take k act)"
    using ReadWALEntries_log [OF good] f(2) by simp
  have all: "ReadWALEntriesFromDir js (openActive js d) = Inr (sealed_entries segs @ take k act)"
    using ReadWALEntriesFromDir_ok [OF dir, of "take k act"] f(1) read by simp
  have seq: "\<forall>e \<in> set (sealed_entries segs @ take k act). weSequence e \<le> loadLastSequence js (openActive js d)"
    using increasing_le_last [OF inc] by (auto simp: loadLastSequence_def all)
  have "log_inv js (NewWAL js cfg d) segs (take k act) m'"
    using dir good inc seq cfg f loadActive_count [OF f(1) read] 
    by (simp add: log_inv_def NewWAL_def Let_def newWal_def)
  then show ?thesis
    using k all by (auto simp: NewWAL_def Let_def)
qed

lemma loss_ok:
  assumes "log_inv js s segs act m"
  shows "dir_ok js (powerLoss n ns (lsDir s)) segs" "all_synced (powerLoss n ns (lsDir s))"
    "case dActive (powerLoss n ns (lsDir s)) of None \<Rightarrow> act = [] \<and> m = 0 | Some f \<Rightarrow> active_ok js f act m"
proof -
  have same: "keepBytes n f = f" if "is_sealed js (g, f, es)" for n g f es
    using that by (simp add: is_sealed_def keepBytes_def newFile_def)
  have "dir_ok js (lsDir s) segs" using assms by (simp add: log_inv_def)
  moreover from this have "map (\<lambda>(name, f). (name, keepBytes (ns name) f)) (dSegments (lsDir s)) = dSegments (lsDir s)"
    using same by (auto simp: dir_ok_def list_all_iff)
  ultimately show "dir_ok js (powerLoss n ns (lsDir s)) segs"
    by (simp add: dir_ok_def powerLoss_def)
  show "all_synced (powerLoss n ns (lsDir s))"
    by (auto simp: all_synced_def powerLoss_def keepBytes_def newFile_def)
  have "active_ok js (keepBytes n f) act m" if f: "active_ok js f act m" for f
  proof -
    obtain j where "fData f = take j (log_of js act)" using f by (auto simp: active_ok_def)
    then have "\<exists>i. take (max n (fSynced f)) (fData f) = take i (log_of js act)"
      by (auto simp: take_take)
    then show ?thesis
      using f by (auto simp: active_ok_def keepBytes_def newFile_def)
  qed
  then show "case dActive (powerLoss n ns (lsDir s)) of None \<Rightarrow> act = [] \<and> m = 0 | Some f \<Rightarrow> active_ok js f act m"
    using assms by (auto simp: log_inv_def powerLoss_def split: option.splits)
qed

lemma holds_length: "holds_log js s es d \<Longrightarrow> d \<le> length es"
  by (auto simp: holds_log_def log_inv_def active_ok_def split: option.splits)

lemma holds_facts:
  assumes "holds_log js s es d"
  shows "increasing es" "\<forall>e \<in> set es. weSequence e \<le> walSequence (lsWal s)" "SyncMode (walConfig (lsWal s)) \<noteq> ''none''"
  using assms by (auto simp: holds_log_def log_inv_def)

text \<open>A restart keeps what is on disk; without a loss of power nothing is dropped behind it but a
  record that was cut.\<close>

lemma power_loss_holds:
  assumes "holds_log js s es d" "SyncMode cfg \<noteq> ''none''"
  shows "\<exists>k. d \<le> k \<and> k \<le> length es \<and> holds_log js (NewWAL js cfg (powerLoss n ns (lsDir s))) (take k es) k
    \<and> ReadWALEntriesFromDir js (lsDir (NewWAL js cfg (powerLoss n ns (lsDir s)))) = Inr (take k es)
    \<and> walSequence (lsWal (NewWAL js cfg (powerLoss n ns (lsDir s)))) \<le> walSequence (lsWal s)
    \<and> walConfig (lsWal (NewWAL js cfg (powerLoss n ns (lsDir s)))) = cfg"
proof -
  obtain segs act m where l: "log_inv js s segs act m" "es = sealed_entries segs @ act" "d = length (sealed_entries segs) + m"
    using assms(1) by (auto simp: holds_log_def)
  have parts: "list_all (good_entry js) act" "increasing (sealed_entries segs @ act)"
    using l(1) by (simp_all add: log_inv_def)
  obtain k where k: "m \<le> k" "k \<le> length act"
    "log_inv js (NewWAL js cfg (powerLoss n ns (lsDir s))) segs (take k act) k"
    "ReadWALEntriesFromDir js (lsDir (NewWAL js cfg (powerLoss n ns (lsDir s)))) = Inr (sealed_entries segs @ take k act)"
    using open_holds [OF loss_ok(1) [OF l(1), of n ns] parts assms(2) loss_ok(3) [OF l(1), of n ns]]
      loss_ok(2) [OF l(1), of n ns] by blast
  have "holds_log js (NewWAL js cfg (powerLoss n ns (lsDir s))) (sealed_entries segs @ take k act)
      (length (sealed_entries segs) + k)"
    using k(3) unfolding holds_log_def by blast
  moreover have "walSequence (lsWal (NewWAL js cfg dir)) = loadLastSequence js (lsDir (NewWAL js cfg dir))" for dir
    by (simp add: NewWAL_def Let_def)
  moreover have "weSequence (List.last xs) \<le> walSequence (lsWal s)" if "xs \<noteq> []" "set xs \<subseteq> set es" for xs
    using that holds_facts(2) [OF assms(1)] last_in_set by blast
  moreover have "set (sealed_entries segs @ take k act) \<subseteq> set es"
    using set_take_subset [of k act] by (auto simp: l(2))
  ultimately show ?thesis
    using k l(2,3) by (intro exI [of _ "length (sealed_entries segs) + k"])
      (simp add: loadLastSequence_def, simp add: NewWAL_def Let_def newWal_def)
qed

section \<open>Runs\<close>

text \<open>A client appends, syncs and closes; power is lost at some point, and the log is opened again.
  \<open>acked\<close> are the entries a client may rely on: appended in immediate mode, or before a later sync
  that succeeded. \<open>tried\<close> are all entries.\<close>

datatype log_call =
    CallAppend io go_time wal_op "byte list" string
  | CallSync io
  | CallClose io
  | CallPowerLoss nat "string \<Rightarrow> nat"

record log_run =
  lrState :: log_state
  lrAcked :: "wal_entry list"
  lrWritten :: "wal_entry list"
  lrTried :: "wal_entry list"

fun do_call :: "json \<Rightarrow> log_call \<Rightarrow> log_run \<Rightarrow> log_run" where
  "do_call js (CallAppend io now op bytes db) r =
     (let s = lrState r; entry = walEntryOf (walSequence (lsWal s) + 1) now op bytes db
      in case AppendWithDatabaseReturningSeq js io True now op (Some bytes) db s of
           (Inl e, s') \<Rightarrow> r\<lparr>lrState := s', lrTried := lrTried r @ [entry]\<rparr>
         | (Inr n, s') \<Rightarrow>
             if SyncMode (walConfig (lsWal s)) = ''immediate''
             then r\<lparr>lrState := s', lrAcked := lrAcked r @ lrWritten r @ [entry], lrWritten := [],
                     lrTried := lrTried r @ [entry]\<rparr>
             else r\<lparr>lrState := s', lrWritten := lrWritten r @ [entry], lrTried := lrTried r @ [entry]\<rparr>)"
| "do_call js (CallSync io) r =
     (case SyncWAL io (lrState r) of
        (None, s') \<Rightarrow> r\<lparr>lrState := s', lrAcked := lrAcked r @ lrWritten r, lrWritten := []\<rparr>
      | (Some e, s') \<Rightarrow> r\<lparr>lrState := s'\<rparr>)"
| "do_call js (CallClose io) r = r\<lparr>lrState := snd (CloseWAL io (lrState r))\<rparr>"
| "do_call js (CallPowerLoss n ns) r =
     r\<lparr>lrState := NewWAL js (walConfig (lsWal (lrState r))) (powerLoss n ns (lsDir (lrState r))), lrWritten := []\<rparr>"

definition empty_dir :: wal_dir where
  "empty_dir = \<lparr>dActive = None, dSegments = [], dManifest = None\<rparr>"

definition start_run :: "json \<Rightarrow> wal_config \<Rightarrow> log_run" where
  "start_run js cfg = \<lparr>lrState = NewWAL js cfg empty_dir, lrAcked = [], lrWritten = [], lrTried = []\<rparr>"

text \<open>The calls the theorem allows: entries survive marshalling and are not too large, and a rotation
  can write the manifest.\<close>

fun call_ok :: "json \<Rightarrow> log_call \<Rightarrow> bool" where
  "call_ok js (CallAppend io now op bytes db) \<longleftrightarrow>
     (\<forall>n. good_entry js (walEntryOf n now op bytes db)) \<and> \<not> ioFails io IoLoadManifest \<and> \<not> ioFails io IoWriteManifest"
| "call_ok js _ \<longleftrightarrow> True"

definition run_inv :: "json \<Rightarrow> log_run \<Rightarrow> bool" where
  "run_inv js r \<longleftrightarrow>
     (\<exists>es d. holds_log js (lrState r) es d \<and> subseq (lrAcked r @ lrWritten r) es \<and> subseq (lrAcked r) (take d es)
       \<and> set es \<subseteq> set (lrTried r)) \<and> unat (walSequence (lsWal (lrState r))) \<le> length (lrTried r)"

lemma subseq_take_mono: "subseq xs (take d ys) \<Longrightarrow> d \<le> d' \<Longrightarrow> subseq xs (take d' ys)"
  by (metis list_emb_prefix take_add le_Suc_ex)

lemma subseq_take_append: "subseq xs (take d ys) \<Longrightarrow> subseq xs (take d (ys @ zs))"
  by (simp add: list_emb_prefix)

lemma run_invI:
  "holds_log js (lrState r) es d \<Longrightarrow> subseq (lrAcked r @ lrWritten r) es \<Longrightarrow> subseq (lrAcked r) (take d es) \<Longrightarrow>
   set es \<subseteq> set (lrTried r) \<Longrightarrow> unat (walSequence (lsWal (lrState r))) \<le> length (lrTried r) \<Longrightarrow> run_inv js r"
  by (auto simp: run_inv_def)

lemma run_inv_start:
  assumes "SyncMode cfg \<noteq> ''none''"
  shows "run_inv js (start_run js cfg)"
proof -
  have "dir_ok js empty_dir []" by (simp add: dir_ok_def empty_dir_def)
  moreover have "ReadWALEntriesFromDir js (openActive js empty_dir) = Inr []"
    using ReadWALEntriesFromDir_ok [of js "openActive js empty_dir" "[]" "[]"]
    by (simp add: openActive_def empty_dir_def newFile_def dir_ok_def ReadWALEntries_def visitWALEntries_def)
  ultimately show ?thesis
    using open_holds [of js empty_dir "[]" "[]" cfg 0] assms
    by (auto simp: run_inv_def start_run_def holds_log_def empty_dir_def all_synced_def NewWAL_def Let_def
        loadLastSequence_def)
qed

lemma holds_next_sequence:
  assumes "holds_log js s es d" "walSequence (lsWal s) \<le> n"
  shows "holds_log js (onWal (\<lambda>w. w\<lparr>walSequence := n\<rparr>) s) es d"
proof -
  have "log_inv js (onWal (\<lambda>w. w\<lparr>walSequence := n\<rparr>) s) segs act m" if "log_inv js s segs act m" for segs act m
    using that assms(2) by (auto simp: log_inv_def healthy_def intro: order_trans split: option.splits)
  then show ?thesis
    using assms(1) unfolding holds_log_def by blast
qed

lemma run_inv_append:
  assumes inv: "run_inv js r" and ok: "call_ok js (CallAppend io now op bytes db)"
    and small: "length (lrTried r) < 2 ^ 64 - 1"
  shows "run_inv js (do_call js (CallAppend io now op bytes db) r)"
proof (cases "walClosed (lsWal (lrState r))")
  case True
  then show ?thesis
    using inv by (auto simp: AppendWithDatabaseReturningSeq_def run_inv_def Let_def)
next
  case open_log: False
  let ?s = "lrState r"
  let ?n = "walSequence (lsWal ?s) + 1"
  let ?e = "walEntryOf ?n now op bytes db"
  let ?s1 = "onWal (\<lambda>w. w\<lparr>walSequence := ?n\<rparr>) ?s"
  obtain es d where h: "holds_log js ?s es d" "subseq (lrAcked r @ lrWritten r) es" "subseq (lrAcked r) (take d es)"
    "set es \<subseteq> set (lrTried r)"
    using inv by (auto simp: run_inv_def)
  have bound: "unat (walSequence (lsWal ?s)) \<le> length (lrTried r)"
    using inv by (simp add: run_inv_def)
  have n: "unat ?n = unat (walSequence (lsWal ?s)) + 1"
    using bound small by (simp add: unat_word_ariths)
  then have less: "walSequence (lsWal ?s) < ?n"
    by (simp add: word_less_nat_alt)
  have h1: "holds_log js ?s1 es d"
    using holds_next_sequence [OF h(1)] less by simp
  have seqs: "\<forall>x \<in> set es. weSequence x < weSequence ?e"
    using holds_facts(2) [OF h(1)] less by (auto simp: walEntryOf_def)
  obtain res s' where app: "appendLocked js io ?e ?s1 = (res, s')" by (cases "appendLocked js io ?e ?s1")
  have "good_entry js ?e" "\<not> ioFails io IoLoadManifest" "\<not> ioFails io IoWriteManifest"
    using ok by simp_all
  from append_holds [OF h1 this(1) seqs _ this(2,3) app]
  obtain es' d' where a: "holds_log js s' es' d'" "es' = es \<and> res \<noteq> None \<or> es' = es @ [?e]" "d \<le> d'"
    "res = None \<and> SyncMode (walConfig (lsWal ?s)) = ''immediate'' \<longrightarrow> length es' \<le> d'"
    "walSequence (lsWal s') = ?n"
    by (auto simp: walEntryOf_def)
  have grow: "subseq (lrAcked r) (take d' es')" "subseq (lrAcked r @ lrWritten r) es'"
    using subseq_take_mono [OF subseq_take_append [OF h(3)] a(3)] subseq_take_mono [OF h(3) a(3)] h(2) a(2)
    by auto
  have drawn: "onWal (\<lambda>w. w\<lparr>walSequence := walSequence w + 1\<rparr>) ?s = ?s1"
    by (simp add: onWal_def)
  have app': "appendLocked js io ?e (onWal (\<lambda>w. w\<lparr>walSequence := walSequence w + 1\<rparr>) ?s) = (res, s')"
    using app by (simp only: drawn)
  have run: "do_call js (CallAppend io now op bytes db) r =
      (case res of
         Some e \<Rightarrow> r\<lparr>lrState := s', lrTried := lrTried r @ [?e]\<rparr>
       | None \<Rightarrow>
          if SyncMode (walConfig (lsWal ?s)) = ''immediate''
          then r\<lparr>lrState := s', lrAcked := lrAcked r @ lrWritten r @ [?e], lrWritten := [], lrTried := lrTried r @ [?e]\<rparr>
          else r\<lparr>lrState := s', lrWritten := lrWritten r @ [?e], lrTried := lrTried r @ [?e]\<rparr>)"
    using open_log app' by (simp add: AppendWithDatabaseReturningSeq_def Let_def drawSequence_def split: option.split)
  have rest: "unat ?n \<le> length (lrTried r @ [?e])" "set es' \<subseteq> set (lrTried r @ [?e])"
    using n bound a(2) h(4) by auto
  show ?thesis
  proof (cases res)
    case (Some e)
    show ?thesis
      unfolding run Some by (rule run_invI [of _ _ es' d']) (use a(1,5) grow rest in simp_all)
  next
    case None
    then have es': "es' = es @ [?e]" using a(2) by simp
    have all: "subseq (lrAcked r @ lrWritten r @ [?e]) es'"
      using h(2) list_emb_append_mono [of "(=)" "lrAcked r @ lrWritten r" es "[?e]" "[?e]"] by (simp add: es')
    show ?thesis
    proof (cases "SyncMode (walConfig (lsWal ?s)) = ''immediate''")
      case True
      then have "take d' es' = es'" using None a(4) by simp
      then show ?thesis
        unfolding run None by (intro run_invI [of _ _ es' d']) (use True a(1,5) all rest in simp_all)
    next
      case False
      then show ?thesis
        unfolding run None by (intro run_invI [of _ _ es' d']) (use a(1,5) all grow rest in simp_all)
    qed
  qed
qed

lemma run_inv_call:
  assumes inv: "run_inv js r" and ok: "call_ok js c" and small: "length (lrTried r) < 2 ^ 64 - 1"
  shows "run_inv js (do_call js c r)"
proof (cases c)
  case (CallAppend io now op bytes db)
  then show ?thesis using run_inv_append assms by blast
next
  case (CallSync io)
  obtain es d where h: "holds_log js (lrState r) es d" "subseq (lrAcked r @ lrWritten r) es"
    "subseq (lrAcked r) (take d es)" "set es \<subseteq> set (lrTried r)" "unat (walSequence (lsWal (lrState r))) \<le> length (lrTried r)"
    using inv by (auto simp: run_inv_def)
  obtain res s' where s': "SyncWAL io (lrState r) = (res, s')" by (cases "SyncWAL io (lrState r)")
  obtain d' where d': "holds_log js s' es d'" "d \<le> d'" "res = None \<longrightarrow> length es \<le> d'"
    "walSequence (lsWal s') = walSequence (lsWal (lrState r))"
    using sync_holds [OF h(1) s'] by blast
  show ?thesis
    by (rule run_invI [of _ _ es d'])
      (use CallSync s' d' h subseq_take_mono [OF h(3) d'(2)] in \<open>auto split: option.splits\<close>)
next
  case (CallClose io)
  obtain es d where h: "holds_log js (lrState r) es d" "subseq (lrAcked r @ lrWritten r) es"
    "subseq (lrAcked r) (take d es)" "set es \<subseteq> set (lrTried r)" "unat (walSequence (lsWal (lrState r))) \<le> length (lrTried r)"
    using inv by (auto simp: run_inv_def)
  obtain res s' where s': "CloseWAL io (lrState r) = (res, s')" by (cases "CloseWAL io (lrState r)")
  obtain d' where d': "holds_log js s' es d'" "d \<le> d'" "walSequence (lsWal s') = walSequence (lsWal (lrState r))"
    using close_holds [OF h(1) s'] by blast
  show ?thesis
    by (rule run_invI [of _ _ es d']) (use CallClose s' h d' subseq_take_mono [OF h(3) d'(2)] in simp_all)
next
  case (CallPowerLoss n ns)
  obtain es d where h: "holds_log js (lrState r) es d" "subseq (lrAcked r @ lrWritten r) es"
    "subseq (lrAcked r) (take d es)" "set es \<subseteq> set (lrTried r)" "unat (walSequence (lsWal (lrState r))) \<le> length (lrTried r)"
    using inv by (auto simp: run_inv_def)
  let ?s' = "NewWAL js (walConfig (lsWal (lrState r))) (powerLoss n ns (lsDir (lrState r)))"
  obtain k where k: "d \<le> k" "holds_log js ?s' (take k es) k" "walSequence (lsWal ?s') \<le> walSequence (lsWal (lrState r))"
    using power_loss_holds [OF h(1) holds_facts(3) [OF h(1)]] by blast
  have "set (take k es) \<subseteq> set (lrTried r)" using set_take_subset [of k es] h(4) by blast
  then show ?thesis
    by (intro run_invI [of _ _ "take k es" k])
      (use CallPowerLoss k h(5) subseq_take_mono [OF h(3) k(1)] in \<open>simp_all add: word_le_nat_alt\<close>)
qed

section \<open>Durability\<close>

lemma run_inv_fold:
  "run_inv js r \<Longrightarrow> list_all (call_ok js) cs \<Longrightarrow> length (lrTried r) + length cs < 2 ^ 64 \<Longrightarrow> run_inv js (fold (do_call js) cs r)"
proof (induction cs arbitrary: r)
  case (Cons c cs)
  have "length (lrTried (do_call js c r)) \<le> length (lrTried r) + 1"
    by (cases c) (auto simp: Let_def split: sum.split prod.split option.split)
  then show ?case
    using Cons run_inv_call [of js r c] by simp
qed simp


section \<open>Interrupted rotation and truncation\<close>

lemma log_inv_reads:
  assumes "log_inv js s segs act m" "healthy (lsWal s)"
  shows "ReadWALEntriesFromDir js (lsDir s) = Inr (sealed_entries segs @ act)"
    "dActive (lsDir s) \<noteq> None \<and> fData (the (dActive (lsDir s))) = log_of js act"
proof -
  obtain f where f: "dActive (lsDir s) = Some f" "fData f = log_of js act" and inv: "dir_ok js (lsDir s) segs" "list_all (good_entry js) act"
    using assms by (auto simp: log_inv_def healthy_def split: option.splits)
  show "ReadWALEntriesFromDir js (lsDir s) = Inr (sealed_entries segs @ act)"
    using ReadWALEntriesFromDir_ok [OF inv(1), of act] ReadWALEntries_log [OF inv(2)] f by simp
  show "dActive (lsDir s) \<noteq> None \<and> fData (the (dActive (lsDir s))) = log_of js act"
    using f by simp
qed

text \<open>Reading follows the manifest whenever it lists a segment: other files of the directory are not
  looked at.\<close>

lemma read_listed:
  assumes "dir_ok js d segs" "segs \<noteq> []" "dManifest d' = dManifest d" "dActive d' = None \<or> dActive d' = Some (newFile [])"
    and "\<forall>(g, f, es) \<in> set segs. map_of (dSegments d') (sgPath g) = Some f"
  shows "ReadWALEntriesFromDir js d' = Inr (sealed_entries segs)"
proof -
  have "segmentsOf d' = map fst segs"
    using assms(2,3) segmentsOf_ok [OF assms(1)] loadWALManifest_ok [OF assms(1)]
    by (simp add: segmentsOf_def loadWALManifest_def)
  moreover have "readSegments js d' (map fst segs') = readSegments js d (map fst segs')" if "set segs' \<subseteq> set segs" for segs'
    using that
  proof (induction segs')
    case (Cons seg segs')
    obtain g f es where seg: "seg = (g, f, es)" by (cases seg)
    have "map_of (dSegments d') (sgPath g) = map_of (dSegments d) (sgPath g)"
      using assms(5) Cons.prems sealed_lookup [OF assms(1), of g f es] by (auto simp: seg)
    moreover have "resolveWALSegmentPath (sgPath g) = Some (sgPath g)"
      using assms(1) Cons.prems by (auto simp: seg dir_ok_def list_all_iff is_sealed_def resolve_segmentName)
    ultimately show ?case using Cons by (simp add: seg split: option.split sum.split)
  qed simp
  moreover have "ReadWALEntries js [] = Inr []"
    by (simp add: ReadWALEntries_def visitWALEntries_def)
  ultimately show ?thesis
    using readSegments_ok [OF assms(1), of segs] assms(4) by (auto simp: ReadWALEntriesFromDir_def newFile_def)
qed

text \<open>
  Claim C34. A rotation renames the active file and then rewrites the manifest. When it gets no
  further than the rename, by a crash or because the manifest cannot be written, the entries of the
  file are not read any more, although all of them were acknowledged: as soon as the manifest lists
  one segment, the directory is not scanned for others.
\<close>

theorem unfinished_rotation_loses_segment:
  assumes "log_inv js s segs act m" "healthy (lsWal s)" "segs \<noteq> []" "act \<noteq> []"
    and "ioFails io = (\<lambda>c. c = IoWriteManifest)" "lastSeq = weSequence (List.last act)"
  shows "fst (rotateSegmentLocked io lastSeq s) = Some ErrWALIO
    \<and> ReadWALEntriesFromDir js (lsDir s) = Inr (sealed_entries segs @ act)
    \<and> ReadWALEntriesFromDir js (lsDir (NewWAL js cfg (lsDir (snd (rotateSegmentLocked io lastSeq s))))) = Inr (sealed_entries segs)"
proof -
  obtain f where f: "dActive (lsDir s) = Some f"
    using assms(1,2) by (auto simp: log_inv_def healthy_def split: option.splits)
  have inv: "dir_ok js (lsDir s) segs" "increasing (sealed_entries segs @ act)"
    "walBuffer (lsWal s) = []" "SyncMode (walConfig (lsWal s)) \<noteq> ''none''" "segmentEntries (lsWal s) \<noteq> 0"
    "segmentFirstSeq (lsWal s) = weSequence (hd act)"
    using assms(1,2,4) f by (auto simp: log_inv_def healthy_def)
  let ?s' = "snd (rotateSegmentLocked io lastSeq s)"
  let ?name = "segmentName (weSequence (hd act)) lastSeq"
  have rot: "fst (rotateSegmentLocked io lastSeq s) = Some ErrWALIO"
    "dActive (lsDir ?s') = None" "dManifest (lsDir ?s') = dManifest (lsDir s)"
    "dSegments (lsDir ?s') = AList.update ?name (syncFile f) (dSegments (lsDir s))"
    using assms(2,5) inv f
    by (simp_all add: rotateSegmentLocked_def syncLocked_def bufFlush_healthy fsyncActive_def healthy_def mayFail_def Let_def)
  have "sgPath g \<noteq> ?name" if "(g, h, es) \<in> set segs" for g h es
  proof -
    have g: "sgPath g = segmentName (weSequence (hd es)) (weSequence (List.last es))" "es \<noteq> []"
      using inv(1) that by (auto simp: dir_ok_def list_all_iff is_sealed_def)
    then have "hd es \<in> set (sealed_entries segs)"
      using that by (force simp: sealed_entries_def)
    then have "weSequence (hd es) < weSequence (hd act)"
      using inv(2) assms(4) by (simp add: increasing_append)
    then show ?thesis using g by (auto simp: segmentName_inject)
  qed
  then have "\<forall>(g, h, es) \<in> set segs. map_of (dSegments (openActive js (lsDir ?s'))) (sgPath g) = Some h"
    using rot(4) sealed_lookup [OF inv(1)] by (auto simp: openActive_def update_conv')
  then have "ReadWALEntriesFromDir js (openActive js (lsDir ?s')) = Inr (sealed_entries segs)"
    using rot(2,3) by (intro read_listed [OF inv(1) assms(3)]) (simp_all add: openActive_def)
  then show ?thesis
    using rot(1) log_inv_reads(1) [OF assms(1,2)] by (simp add: NewWAL_def Let_def)
qed

lemma record_full:
  "d\<lparr>dSegments := a, dManifest := b, dActive := c\<rparr> = \<lparr>dActive = c, dSegments = a, dManifest = b\<rparr>"
  "s\<lparr>lsDir := x, lsWal := y\<rparr> = \<lparr>lsDir = x, lsWal = y\<rparr>"
  by (cases d, simp) (cases s, simp)

lemma truncate_eq:
  fixes snapshotSeq :: u64
  assumes "log_inv js s segs act m" "healthy (lsWal s)" "\<not> walClosed (lsWal s)"
    and "ioFails io = (\<lambda>_. False)"
  defines "kept \<equiv> filter (\<lambda>e. weSequence e > snapshotSeq) (sealed_entries segs @ act)"
  defines "d' \<equiv> \<lparr>dActive = Some (newFile (log_of js kept)), dSegments = [], dManifest = Some []\<rparr>"
  shows "TruncateAfterSnapshot js io snapshotSeq s =
    (None, \<lparr>lsDir = d', lsWal = (loadActiveSegmentState js d'
        ((lsWal s)\<lparr>walOpen := True, walBuffer := [], walWriteErr := False, segmentFirstSeq := 0, segmentEntries := 0,
           segmentBytes := 0, segmentCreatedAt := zero_time\<rparr>))
        \<lparr>walEntries := int (length kept), walBytes := int (length (log_of js kept))\<rparr>\<rparr>)"
proof -
  let ?s1 = "onActive syncFile s"
  have buf: "walBuffer (lsWal s) = []" and mode: "SyncMode (walConfig (lsWal s)) \<noteq> ''none''"
    using assms(1,2) by (auto simp: log_inv_def healthy_def)
  have sync: "syncLocked io s = (None, ?s1)"
    using assms(2,4) buf mode by (simp add: syncLocked_def bufFlush_healthy fsyncActive_def healthy_def mayFail_def)
  have s1: "log_inv js ?s1 segs act (length act)" "healthy (lsWal ?s1)"
    using inv_synced [OF assms(1,2)] assms(2) by simp_all
  have "keptEntries js snapshotSeq (lsDir ?s1) = kept"
    using log_inv_reads(1) [OF s1] by (simp add: keptEntries_def kept_def)
  then show ?thesis
    using assms(3,4)
    by (simp add: TruncateAfterSnapshot_def sync mayFail_def orReopen_def reopenWAL_def Let_def)
       (simp add: onDir_def onWal_def d'_def record_full)
qed

text \<open>
  Claim C33. A truncation after a snapshot leaves exactly the entries above the snapshot, all of them
  on disk, in a log that goes on numbering where it was.
\<close>

theorem truncation_keeps_later_entries:
  fixes snapshotSeq :: u64
  assumes "holds_log js s es d" "healthy (lsWal s)" "\<not> walClosed (lsWal s)" "ioFails io = (\<lambda>_. False)"
  defines "kept \<equiv> filter (\<lambda>e. weSequence e > snapshotSeq) es"
  shows "\<exists>s'. TruncateAfterSnapshot js io snapshotSeq s = (None, s') \<and> holds_log js s' kept (length kept)
    \<and> ReadWALEntriesFromDir js (lsDir s') = Inr kept \<and> walSequence (lsWal s') = walSequence (lsWal s)"
proof -
  obtain segs act m where l: "log_inv js s segs act m" "es = sealed_entries segs @ act"
    using assms(1) by (auto simp: holds_log_def)
  obtain s' where t: "TruncateAfterSnapshot js io snapshotSeq s = (None, s')"
    "lsDir s' = \<lparr>dActive = Some (newFile (log_of js kept)), dSegments = [], dManifest = Some []\<rparr>"
    "lsWal s' = (loadActiveSegmentState js (lsDir s')
        ((lsWal s)\<lparr>walOpen := True, walBuffer := [], walWriteErr := False, segmentFirstSeq := 0, segmentEntries := 0,
           segmentBytes := 0, segmentCreatedAt := zero_time\<rparr>))
        \<lparr>walEntries := int (length kept), walBytes := int (length (log_of js kept))\<rparr>"
    by (rule that, rule truncate_eq [OF l(1) assms(2-4), of snapshotSeq, folded l(2), folded kept_def])
      (simp_all only: log_state.simps)
  have "list_all (good_entry js) es"
    using l by (auto simp: log_inv_def dir_ok_def)
  then have good: "list_all (good_entry js) kept"
    by (auto simp: kept_def list_all_iff)
  have inc: "increasing kept"
    using holds_facts(1) [OF assms(1)] by (auto simp: kept_def increasing_def sorted_wrt_map sorted_wrt_filter)
  have read: "ReadWALEntries js (log_of js kept) = Inr kept"
    using ReadWALEntries_log [OF good] .
  have dir: "dir_ok js (lsDir s') []"
    using t(2) by (simp add: dir_ok_def)
  have "active_ok js (newFile (log_of js kept)) kept (length kept)"
    by (auto simp: active_ok_def newFile_def intro: exI [of _ "length (log_of js kept)"])
  then have "log_inv js s' [] kept (length kept)"
    using dir good inc t(2,3) holds_facts [OF assms(1)] read
      loadActive_count [of "lsDir s'" "newFile (log_of js kept)" js kept]
    by (auto simp: log_inv_def newFile_def kept_def)
  then have "holds_log js s' kept (length kept)"
    unfolding holds_log_def by force
  moreover have "ReadWALEntriesFromDir js (lsDir s') = Inr kept"
    using ReadWALEntriesFromDir_ok [OF dir, of kept] t(2) read by (simp add: newFile_def)
  ultimately show ?thesis using t by auto
qed

text \<open>
  The truncation deletes the sealed segments before it puts the new file in place. When it
  gets no further, the entries of the segments are gone, also those above the snapshot.
\<close>

theorem interrupted_truncation_loses_segments:
  assumes "log_inv js s segs act m" "healthy (lsWal s)" "\<not> walClosed (lsWal s)"
    and "ioFails io = (\<lambda>c. c = IoRename)"
  shows "fst (TruncateAfterSnapshot js io snapshotSeq s) = Some ErrWALIO
    \<and> ReadWALEntriesFromDir js (lsDir s) = Inr (sealed_entries segs @ act)
    \<and> ReadWALEntriesFromDir js (lsDir (snd (TruncateAfterSnapshot js io snapshotSeq s))) = Inr act"
proof -
  let ?s1 = "onActive syncFile s"
  have buf: "walBuffer (lsWal s) = []" and mode: "SyncMode (walConfig (lsWal s)) \<noteq> ''none''"
    and good: "list_all (good_entry js) act"
    using assms(1,2) by (auto simp: log_inv_def healthy_def)
  have sync: "syncLocked io s = (None, ?s1)"
    using assms(2,4) buf mode by (simp add: syncLocked_def bufFlush_healthy fsyncActive_def healthy_def mayFail_def)
  obtain f where f: "dActive (lsDir s) = Some f" "fData f = log_of js act"
    using log_inv_reads(2) [OF assms(1,2)] by auto
  have "fst (TruncateAfterSnapshot js io snapshotSeq s) = Some ErrWALIO"
    and dir: "lsDir (snd (TruncateAfterSnapshot js io snapshotSeq s)) = \<lparr>dActive = Some (syncFile f), dSegments = [], dManifest = Some []\<rparr>"
    using assms(3,4) f
    by (simp_all add: TruncateAfterSnapshot_def sync mayFail_def orReopen_def reopenWAL_def Let_def)
  moreover have "ReadWALEntriesFromDir js (lsDir (snd (TruncateAfterSnapshot js io snapshotSeq s))) = Inr act"
    using ReadWALEntriesFromDir_ok [of js "lsDir (snd (TruncateAfterSnapshot js io snapshotSeq s))" "[]" act]
      dir f ReadWALEntries_log [OF good] by (simp add: dir_ok_def syncFile_def)
  ultimately show ?thesis
    using log_inv_reads(1) [OF assms(1,2)] by simp
qed

text \<open>When the directory cannot be read, the salvage of the truncation reads it the same way again and
  keeps nothing, and a log that is opened numbers from the beginning.\<close>

lemma unreadable_log:
  assumes "ReadWALEntriesFromDir js d = Inl e"
  shows "keptEntries js snapshotSeq d = []" "loadLastSequence js d = 0"
  using assms by (simp_all add: keptEntries_def ReadWALEntriesAfterFromDir_def loadLastSequence_def)

section \<open>Retention\<close>

lemma mset_parts:
  "mset (filter (\<lambda>x. \<not> P x) xs) + mset (filter P xs) = mset xs"
  "mset (filter P xs) + mset (filter (\<lambda>x. \<not> P x) xs) = mset xs"
  "mset (drop n xs) + mset (take n xs) = mset xs"
  by (simp add: union_commute, simp) (metis append_take_drop_id mset_append add.commute)

lemma retained_cases:
  fixes cfg now snapshotSeq segs
  defines "P \<equiv> \<lambda>g. sgLastSeq g \<le> snapshotSeq"
  defines "Y \<equiv> \<lambda>g. RetentionMaxAge cfg > 0 \<and> sgCreatedAt g > now - RetentionMaxAge cfg"
  defines "C \<equiv> filter (\<lambda>g. \<not> Y g) (filter P segs)"
  defines "K \<equiv> filter (\<lambda>g. \<not> P g) segs @ filter Y (filter P segs)"
  shows "retainedSegments cfg now snapshotSeq segs = (K, C)
    \<or> (\<exists>n. retainedSegments cfg now snapshotSeq segs = (K @ drop n (sort_key sgLastSeq C), take n (sort_key sgLastSeq C)))"
proof -
  have pick: "b = x \<Longrightarrow> a = f n \<Longrightarrow> (if c then a else b) = x \<or> (\<exists>n. (if c then a else b) = f n)"
    for a b x :: "wal_segment list \<times> wal_segment list" and f :: "nat \<Rightarrow> _" and n c
    by auto
  show ?thesis
    unfolding retainedSegments_def Let_def K_def C_def Y_def P_def
    by (rule pick, rule refl, rule refl)
qed

lemma retained_mset:
  assumes "retainedSegments cfg now snapshotSeq segs = (keep, dropped)"
  shows "mset keep + mset dropped = mset segs" "\<forall>g \<in> set dropped. sgLastSeq g \<le> snapshotSeq"
proof -
  let ?P = "\<lambda>g. sgLastSeq g \<le> snapshotSeq"
  let ?Y = "\<lambda>g. RetentionMaxAge cfg > 0 \<and> sgCreatedAt g > now - RetentionMaxAge cfg"
  let ?C = "filter (\<lambda>g. \<not> ?Y g) (filter ?P segs)"
  let ?K = "filter (\<lambda>g. \<not> ?P g) segs @ filter ?Y (filter ?P segs)"
  have all: "mset ?K + mset ?C = mset segs"
    by (simp only: mset_append union_assoc mset_parts(2) [of ?Y "filter ?P segs"] mset_parts(1) [of ?P segs])
  consider "keep = ?K" "dropped = ?C"
    | n where "keep = ?K @ drop n (sort_key sgLastSeq ?C)" "dropped = take n (sort_key sgLastSeq ?C)"
    using retained_cases [of cfg now snapshotSeq segs] unfolding assms prod.inject by blast
  then show "mset keep + mset dropped = mset segs"
  proof cases
    case 1
    then show ?thesis using all by (simp only:)
  next
    case (2 n)
    then have "mset keep + mset dropped = mset ?K + (mset (drop n (sort_key sgLastSeq ?C)) + mset (take n (sort_key sgLastSeq ?C)))"
      by (simp only: mset_append union_assoc)
    also have "\<dots> = mset ?K + mset ?C" by (simp only: mset_parts(3) mset_sort)
    finally show ?thesis using all by (simp only:)
  qed
  have "set ?C \<subseteq> {g. ?P g}" by auto
  then show "\<forall>g \<in> set dropped. sgLastSeq g \<le> snapshotSeq"
    using retained_cases [of cfg now snapshotSeq segs] unfolding assms prod.inject
    by (metis (mono_tags, lifting) in_set_takeD mem_Collect_eq set_sort subsetD)
qed

lemma subseq_sealed: "subseq (sealed_entries (filter P segs)) (sealed_entries segs)"
  by (induction segs) (auto simp: sealed_entries_def list_emb_append_mono list_emb_append2)

lemma increasing_subseq: "subseq xs ys \<Longrightarrow> increasing ys \<Longrightarrow> increasing xs"
  by (induction rule: list_emb.induct) (auto simp: increasing_def dest: list_emb_set)

lemma filter_keeps:
  fixes snapshotSeq :: u64
  assumes "list_all (is_sealed js) segs" "increasing (sealed_entries segs)"
    "\<forall>seg \<in> set segs. \<not> P seg \<longrightarrow> sgLastSeq (fst seg) \<le> snapshotSeq"
  shows "filter (\<lambda>e. weSequence e > snapshotSeq) (sealed_entries (filter P segs))
    = filter (\<lambda>e. weSequence e > snapshotSeq) (sealed_entries segs)"
  using assms
proof (induction segs)
  case (Cons seg segs)
  obtain g f es where seg: "seg = (g, f, es)" by (cases seg)
  have es: "increasing es" "es \<noteq> []" "sgLastSeq g = weSequence (List.last es)" "increasing (sealed_entries segs)"
    using Cons.prems(1,2) by (simp_all add: seg is_sealed_def increasing_append)
  have "filter (\<lambda>e. weSequence e > snapshotSeq) es = []" if "\<not> P seg"
    using that Cons.prems(3) increasing_le_last [OF es(1)] es(3) by (force simp: seg filter_empty_conv)
  then show ?case
    using Cons es by (auto simp: seg)
qed simp

text \<open>Retention drops only segments a snapshot covers: what is read afterwards is a part of the log
  with every entry above the snapshot.\<close>

theorem retention_keeps_needed_entries:
  fixes snapshotSeq :: u64
  assumes "log_inv js s segs act m" "healthy (lsWal s)" "ioFails io = (\<lambda>_. False)"
  shows "\<exists>es. ReadWALEntriesFromDir js (lsDir (snd (ApplyRetention io now snapshotSeq s))) = Inr es
    \<and> subseq es (sealed_entries segs @ act)
    \<and> filter (\<lambda>e. weSequence e > snapshotSeq) es = filter (\<lambda>e. weSequence e > snapshotSeq) (sealed_entries segs @ act)"
proof -
  have dir: "dir_ok js (lsDir s) segs" using assms(1) by (simp add: log_inv_def)
  note manifest = loadWALManifest_ok [OF dir]
  show ?thesis
  proof (cases "walClosed (lsWal s) \<or> snapshotSeq = 0 \<or> segs = []")
    case True
    then have "snd (ApplyRetention io now snapshotSeq s) = s"
      using manifest assms(3) by (auto simp: ApplyRetention_def mayFail_def)
    then show ?thesis using log_inv_reads(1) [OF assms(1,2)] by simp
  next
    case False
    obtain keep dropped where r: "retainedSegments (walConfig (lsWal s)) now snapshotSeq (map fst segs) = (keep, dropped)"
      by (cases "retainedSegments (walConfig (lsWal s)) now snapshotSeq (map fst segs)")
    let ?P = "\<lambda>seg. fst seg \<notin> set dropped"
    let ?segs = "filter ?P segs"
    let ?d = "lsDir (snd (ApplyRetention io now snapshotSeq s))"
    have sealed: "list_all (is_sealed js) segs" "increasing (sealed_entries segs)" "list_all (good_entry js) (sealed_entries segs)"
      using dir by (simp_all add: dir_ok_def)
    have names: "distinct (map (sgPath \<circ> fst) segs)" "distinct (map fst segs)" "inj_on sgPath (set (map fst segs))"
      using sealed_names [OF sealed(1,2)] by (auto simp: distinct_map inj_on_def)
    have d: "?d = (lsDir s)\<lparr>dSegments := filter (\<lambda>(name, f). name \<notin> set (map sgPath dropped)) (dSegments (lsDir s)),
        dManifest := Some (sort_key sgFirstSeq keep)\<rparr>"
      using False manifest assms(3) r by (simp add: ApplyRetention_def mayFail_def Let_def)
    have sub: "list_all (is_sealed js) ?segs" "list_all (good_entry js) (sealed_entries ?segs)" "increasing (sealed_entries ?segs)"
      using sealed increasing_subseq [OF subseq_sealed [of ?P segs]] list_emb_set [OF subseq_sealed [of ?P segs]]
      by (auto simp: list_all_iff)
    have total: "mset keep + mset dropped = mset (map fst segs)"
      by (rule retained_mset(1) [OF r])
    have dropped: "set dropped \<subseteq> set (map fst segs)" "distinct dropped"
    proof -
      show "set dropped \<subseteq> set (map fst segs)"
        using total by (metis mset_subset_eq_add_right set_mset_mono set_mset_mset)
      show "distinct dropped"
        using names(2) total by (metis distinct_append mset_append mset_eq_imp_distinct_iff)
    qed
    have "mset (filter (\<lambda>g. g \<in> set dropped) (map fst segs)) = mset dropped"
      using names(2) dropped by (subst set_eq_iff_mset_eq_distinct [symmetric]) auto
    then have "mset keep = mset (filter (\<lambda>g. g \<notin> set dropped) (map fst segs))"
      using total mset_parts(1) [of "\<lambda>g. g \<in> set dropped" "map fst segs"] by (metis add_right_cancel)
    then have mset_keep: "mset keep = mset (map fst ?segs)"
      by (simp add: filter_map comp_def)
    have firsts: "sorted (map sgFirstSeq (map fst ?segs))" "inj_on sgFirstSeq (set keep)"
      using sealed_firsts [OF sub(1,3)] mset_eq_setD [OF mset_keep]
      by (auto simp: strict_sorted_iff distinct_map comp_def inj_on_def)
    then have "sort_key sgFirstSeq keep = map fst ?segs"
      using mset_keep by (intro sort_key_inj_key_eq)
    moreover have "filter (\<lambda>(name, f). name \<notin> set (map sgPath dropped)) (dSegments (lsDir s)) = map (\<lambda>(g, f, es). (sgPath g, f)) ?segs"
    proof -
      have same: "g = x" if "g \<in> set (map fst segs)" "sgPath g = sgPath x" "x \<in> set dropped" for g x
        using that names(3) dropped(1) by (meson inj_onD subsetD)
      have "filter (\<lambda>seg. sgPath (fst seg) \<notin> set (map sgPath dropped)) segs = ?segs"
      proof (rule filter_cong [OF refl])
        fix seg
        assume "seg \<in> set segs"
        then have "fst seg \<in> set (map fst segs)" by simp
        then show "(sgPath (fst seg) \<notin> set (map sgPath dropped)) = (fst seg \<notin> set dropped)"
          using same [of "fst seg"] by auto
      qed
      moreover have "filter (\<lambda>(name, f). name \<notin> set (map sgPath dropped)) (map (\<lambda>(g, f, es). (sgPath g, f)) segs)
          = map (\<lambda>(g, f, es). (sgPath g, f)) (filter (\<lambda>seg. sgPath (fst seg) \<notin> set (map sgPath dropped)) segs)"
        by (simp add: filter_map comp_def case_prod_beta)
      ultimately show ?thesis
        using dir by (simp only: dir_ok_def)
    qed
    ultimately have "dir_ok js ?d ?segs"
      using sub by (simp add: d dir_ok_def)
    moreover have "dActive ?d = dActive (lsDir s)"
      by (simp add: d)
    ultimately have "ReadWALEntriesFromDir js ?d = Inr (sealed_entries ?segs @ act)"
      using ReadWALEntriesFromDir_ok [of js ?d ?segs act] log_inv_reads(2) [OF assms(1,2)] assms(1)
        ReadWALEntries_log [of js act] by (force simp: log_inv_def)
    moreover have "\<forall>seg \<in> set segs. \<not> ?P seg \<longrightarrow> sgLastSeq (fst seg) \<le> snapshotSeq"
      using retained_mset(2) [OF r] by auto
    ultimately show ?thesis
      using filter_keeps [OF sealed(1,2), of ?P snapshotSeq] subseq_sealed [of ?P segs]
      by (auto intro: list_emb_append_mono)
  qed
qed

section \<open>Witnesses\<close>

definition all_works :: io where "all_works = \<lparr>ioFails = (\<lambda>_. False), ioShort = 0\<rparr>"

definition only_fails :: "io_call \<Rightarrow> io" where
  "only_fails c = \<lparr>ioFails = (\<lambda>c'. c' = c), ioShort = 3\<rparr>"

definition demo_config :: wal_config where
  "demo_config = \<lparr>SyncMode = ''immediate'', MaxFileSize = 0, MaxEntries = 2, RetentionMaxSegments = 0,
     RetentionMaxAge = 0\<rparr>"

definition demo_segment :: wal_segment where
  "demo_segment = \<lparr>sgFirstSeq = 1, sgLastSeq = 1, sgSizeBytes = 32, sgCreatedAt = 0, sgPath = segmentName 1 1\<rparr>"

text \<open>A log with the entry 1 in a segment and the entry 2 in the active file.\<close>

definition demo_log :: log_state where
  "demo_log =
     \<lparr>lsDir = \<lparr>dActive = Some (newFile (log_of demo_json [demo_entry 2 OpCreateNode [2]])),
               dSegments = [(segmentName 1 1, newFile (log_of demo_json [demo_entry 1 OpCreateNode [1]]))],
               dManifest = Some [demo_segment]\<rparr>,
      lsWal = (newWal demo_config)\<lparr>walSequence := 2, segmentFirstSeq := 2, segmentEntries := 1\<rparr>\<rparr>"

lemma demo_log_inv:
  "log_inv demo_json demo_log
     [(demo_segment, newFile (log_of demo_json [demo_entry 1 OpCreateNode [1]]), [demo_entry 1 OpCreateNode [1]])]
     [demo_entry 2 OpCreateNode [2]] 1" "healthy (lsWal demo_log)" "\<not> walClosed (lsWal demo_log)"
proof -
  have seq: "weSequence (demo_entry n op bytes) = n" for n op bytes by (simp add: demo_entry_def)
  have "active_ok demo_json (newFile (log_of demo_json [demo_entry 2 OpCreateNode [2]])) [demo_entry 2 OpCreateNode [2]] 1"
    by (auto simp: active_ok_def newFile_def intro: exI [of _ "length (record_of demo_json (demo_entry 2 OpCreateNode [2]))"])
  then show "log_inv demo_json demo_log
     [(demo_segment, newFile (log_of demo_json [demo_entry 1 OpCreateNode [1]]), [demo_entry 1 OpCreateNode [1]])]
     [demo_entry 2 OpCreateNode [2]] 1"
    by (simp add: log_inv_def demo_log_def dir_ok_def is_sealed_def demo_segment_def demo_good increasing_def seq
        newWal_def demo_config_def)
      (simp add: newFile_def)
qed (simp_all add: healthy_def demo_log_def newWal_def)

lemma demo_call: "length bytes \<le> 1000 \<Longrightarrow> good_entry demo_json (walEntryOf n 0 OpCreateNode bytes [])"
  using demo_good(1) [of bytes n] by (simp add: walEntryOf_def demo_entry_def)


theorem unfinished_rotation_loses_segment_witness:
  "ReadWALEntriesFromDir demo_json (lsDir demo_log) = Inr [demo_entry 1 OpCreateNode [1], demo_entry 2 OpCreateNode [2]]
   \<and> ReadWALEntriesFromDir demo_json
       (lsDir (NewWAL demo_json demo_config (lsDir (snd (rotateSegmentLocked (only_fails IoWriteManifest) 2 demo_log)))))
     = Inr [demo_entry 1 OpCreateNode [1]]"
  using unfinished_rotation_loses_segment [OF demo_log_inv(1,2), of "only_fails IoWriteManifest" 2 demo_config]
  by (simp add: only_fails_def) (simp add: demo_entry_def)

theorem truncation_keeps_later_entries_witness:
  "\<exists>s'. TruncateAfterSnapshot demo_json all_works 1 demo_log = (None, s')
     \<and> ReadWALEntriesFromDir demo_json (lsDir s') = Inr [demo_entry 2 OpCreateNode [2]] \<and> walSequence (lsWal s') = 2"
proof -
  have "holds_log demo_json demo_log [demo_entry 1 OpCreateNode [1], demo_entry 2 OpCreateNode [2]] 2"
    unfolding holds_log_def using demo_log_inv(1) by force
  from truncation_keeps_later_entries [OF this demo_log_inv(2,3), of all_works 1]
  show ?thesis
    by (simp add: all_works_def demo_entry_def demo_log_def) blast
qed

theorem interrupted_truncation_loses_segments_witness:
  "ReadWALEntriesFromDir demo_json (lsDir demo_log) = Inr [demo_entry 1 OpCreateNode [1], demo_entry 2 OpCreateNode [2]]
   \<and> ReadWALEntriesFromDir demo_json (lsDir (snd (TruncateAfterSnapshot demo_json (only_fails IoRename) 0 demo_log)))
     = Inr [demo_entry 2 OpCreateNode [2]]"
  using interrupted_truncation_loses_segments [OF demo_log_inv, of "only_fails IoRename" 0]
  by (simp add: only_fails_def)

end
