(* ===== verification/KwScan.thy ===== *)
theory KwScan
  imports GoBase
begin

text \<open>
  The keyword scanner of the Cypher executor (\<^verbatim>\<open>pkg/cypher/keyword_scan.go\<close> and
  \<^verbatim>\<open>findMultiWordKeywordIndex\<close> of \<^verbatim>\<open>helpers.go\<close>): it looks for a keyword outside of string literals,
  quoted identifiers, comments and brackets, and routes a query by what it finds. A text is the list of
  its bytes as characters, an index is a number, and \<open>-1\<close> says that nothing was found.
\<close>

section \<open>Bytes and boundaries\<close>

definition isASCIISpace :: "char \<Rightarrow> bool" where
  "isASCIISpace b \<longleftrightarrow> b = CHR '' '' \<or> b = CHR 0x09 \<or> b = CHR 0x0A \<or> b = CHR 0x0D"

definition asciiUpper :: "char \<Rightarrow> char" where
  "asciiUpper b = (let n = of_char b :: nat in if 97 \<le> n \<and> n \<le> 122 then char_of (n - 32) else b)"

definition isIdentByte :: "char \<Rightarrow> bool" where
  "isIdentByte b \<longleftrightarrow>
     (let n = of_char b :: nat
      in n \<ge> 128 \<or> 65 \<le> n \<and> n \<le> 90 \<or> 97 \<le> n \<and> n \<le> 122 \<or> 48 \<le> n \<and> n \<le> 57 \<or> b = CHR ''_'')"

datatype keywordBoundaryMode = keywordBoundaryWord | keywordBoundaryWhitespace

record keywordScanOpts =
  SkipParens :: bool
  SkipBrackets :: bool
  SkipBraces :: bool
  SkipStrings :: bool
  SkipBackticks :: bool
  SkipComments :: bool
  Boundary :: keywordBoundaryMode

definition defaultKeywordScanOpts :: keywordScanOpts where
  "defaultKeywordScanOpts =
     \<lparr>SkipParens = True, SkipBrackets = True, SkipBraces = False, SkipStrings = True, SkipBackticks = True,
      SkipComments = True, Boundary = keywordBoundaryWord\<rparr>"

definition isDefaultKeywordScanOpts :: "keywordScanOpts \<Rightarrow> bool" where
  "isDefaultKeywordScanOpts opts \<longleftrightarrow> SkipParens opts \<and> SkipBrackets opts \<and> \<not> SkipBraces opts \<and> SkipStrings opts
     \<and> SkipBackticks opts \<and> SkipComments opts \<and> Boundary opts = keywordBoundaryWord"

definition keywordLeftBoundaryOK :: "string \<Rightarrow> nat \<Rightarrow> keywordBoundaryMode \<Rightarrow> bool" where
  "keywordLeftBoundaryOK s pos boundary \<longleftrightarrow>
     (if pos = 0 then True
      else let prev = s ! (pos - 1)
           in if boundary = keywordBoundaryWhitespace then isASCIISpace prev
              else prev \<noteq> CHR '':'' \<and> \<not> isIdentByte prev)"

definition keywordRightBoundaryOK :: "string \<Rightarrow> nat \<Rightarrow> keywordBoundaryMode \<Rightarrow> bool" where
  "keywordRightBoundaryOK s endPos boundary \<longleftrightarrow>
     (if length s \<le> endPos then True
      else let nxt = s ! endPos
           in if boundary = keywordBoundaryWhitespace then isASCIISpace nxt
              else nxt \<noteq> CHR '':'' \<and> \<not> isIdentByte nxt)"

section \<open>Matching a keyword at a position\<close>

text \<open>The loops that run over blanks: forwards up to \<open>n\<close>, and backwards.\<close>

function skipSpaces :: "string \<Rightarrow> nat \<Rightarrow> nat \<Rightarrow> nat" where
  "skipSpaces s j n = (if j < n \<and> isASCIISpace (s ! j) then skipSpaces s (j + 1) n else j)"
  by pat_completeness auto
termination
  by (relation "measure (\<lambda>(s, j, n). n - j)") auto

fun skipSpacesBack :: "string \<Rightarrow> nat \<Rightarrow> nat \<Rightarrow> nat" where
  "skipSpacesBack s start 0 = 0"
| "skipSpacesBack s start (Suc n) =
     (if start < Suc n \<and> isASCIISpace (s ! n) then skipSpacesBack s start n else Suc n)"

definition trimKeywordWSBounds :: "string \<Rightarrow> nat \<times> nat" where
  "trimKeywordWSBounds s =
     (let start = skipSpaces s 0 (length s) in (start, skipSpacesBack s start (length s)))"

declare skipSpaces.simps [simp del]

lemma skipSpaces_le: "j \<le> n \<Longrightarrow> j \<le> skipSpaces s j n \<and> skipSpaces s j n \<le> n"
proof (induction s j n rule: skipSpaces.induct)
  case (1 s j n)
  show ?case
  proof (cases "j < n \<and> isASCIISpace (s ! j)")
    case True
    then have "skipSpaces s j n = skipSpaces s (j + 1) n" by (subst skipSpaces.simps) simp
    then show ?thesis using 1 True by simp
  next
    case False
    then have "skipSpaces s j n = j" by (subst skipSpaces.simps) auto
    then show ?thesis using 1 by simp
  qed
qed

lemma skipSpaces_moves:
  assumes "j < n" "isASCIISpace (s ! j)"
  shows "j < skipSpaces s j n \<and> skipSpaces s j n \<le> n"
proof -
  have "skipSpaces s j n = skipSpaces s (j + 1) n" using assms by (subst skipSpaces.simps) simp
  then show ?thesis using skipSpaces_le [of "j + 1" n s] assms by simp
qed

function keywordMatchFrom :: "string \<Rightarrow> nat \<Rightarrow> string \<Rightarrow> nat \<Rightarrow> nat \<Rightarrow> nat option" where
  "keywordMatchFrom s j keyword k ke =
     (if k < ke then
        if isASCIISpace (keyword ! k) then
          if length s \<le> j \<or> \<not> isASCIISpace (s ! j) then None
          else keywordMatchFrom s (skipSpaces s j (length s)) keyword (skipSpaces keyword k ke) ke
        else if length s \<le> j \<or> asciiUpper (s ! j) \<noteq> asciiUpper (keyword ! k) then None
        else keywordMatchFrom s (j + 1) keyword (k + 1) ke
      else Some j)"
  by pat_completeness auto
termination
  by (relation "measure (\<lambda>(s, j, keyword, k, ke). ke - k)")
    (auto simp: skipSpaces_moves intro!: diff_less_mono2)

declare keywordMatchFrom.simps [simp del]

definition keywordMatchAt :: "string \<Rightarrow> nat \<Rightarrow> string \<Rightarrow> nat \<Rightarrow> nat \<Rightarrow> nat option" where
  "keywordMatchAt s pos keyword ks ke = keywordMatchFrom s pos keyword ks ke"

definition startsWithKeywordFold :: "string \<Rightarrow> string \<Rightarrow> bool" where
  "startsWithKeywordFold s keywordUpper \<longleftrightarrow>
     length keywordUpper \<le> length s
     \<and> map asciiUpper (take (length keywordUpper) s) = keywordUpper
     \<and> (length s = length keywordUpper \<or> \<not> isIdentByte (s ! length keywordUpper))"

section \<open>The scan with options\<close>

record scan_state =
  parenDepth :: nat
  bracketDepth :: nat
  braceDepth :: nat
  inSingleQuote :: bool
  inDoubleQuote :: bool
  inBacktick :: bool
  inLineComment :: bool
  inBlockComment :: bool

definition startScan :: scan_state where
  "startScan = \<lparr>parenDepth = 0, bracketDepth = 0, braceDepth = 0, inSingleQuote = False, inDoubleQuote = False,
     inBacktick = False, inLineComment = False, inBlockComment = False\<rparr>"

definition nextIs :: "string \<Rightarrow> nat \<Rightarrow> char \<Rightarrow> bool" where
  "nextIs s i c \<longleftrightarrow> i + 1 < length s \<and> s ! (i + 1) = c"

text \<open>One round of the loop, up to the tests on the brackets: \<open>Skip\<close> goes on that many bytes further,
  \<open>Byte\<close> says that the byte is code.\<close>

datatype scan_action = Skip nat scan_state | Byte scan_state

definition countBrackets :: "char \<Rightarrow> scan_state \<Rightarrow> scan_state" where
  "countBrackets c st =
     (if c = CHR ''('' then st\<lparr>parenDepth := parenDepth st + 1\<rparr>
      else if c = CHR '')'' then st\<lparr>parenDepth := parenDepth st - 1\<rparr>
      else if c = CHR ''['' then st\<lparr>bracketDepth := bracketDepth st + 1\<rparr>
      else if c = CHR '']'' then st\<lparr>bracketDepth := bracketDepth st - 1\<rparr>
      else if c = CHR 0x7B then st\<lparr>braceDepth := braceDepth st + 1\<rparr>
      else if c = CHR 0x7D then st\<lparr>braceDepth := braceDepth st - 1\<rparr>
      else st)"

definition scanByte :: "keywordScanOpts \<Rightarrow> string \<Rightarrow> nat \<Rightarrow> scan_state \<Rightarrow> scan_action" where
  "scanByte opts s i st =
     (let c = s ! i in
      if SkipComments opts \<and> inLineComment st then
        Skip 1 (if c = CHR 0x0A then st\<lparr>inLineComment := False\<rparr> else st)
      else if SkipComments opts \<and> inBlockComment st then
        (if c = CHR ''*'' \<and> nextIs s i (CHR ''/'') then Skip 2 (st\<lparr>inBlockComment := False\<rparr>) else Skip 1 st)
      else if SkipStrings opts \<and> inSingleQuote st then
        (if c = CHR 0x5C \<and> i + 1 < length s then Skip 2 st
         else if c = CHR 0x27 then
           (if nextIs s i (CHR 0x27) then Skip 2 st else Skip 1 (st\<lparr>inSingleQuote := False\<rparr>))
         else Skip 1 st)
      else if SkipStrings opts \<and> inDoubleQuote st then
        (if c = CHR 0x5C \<and> i + 1 < length s then Skip 2 st
         else if c = CHR 0x22 then
           (if nextIs s i (CHR 0x22) then Skip 2 st else Skip 1 (st\<lparr>inDoubleQuote := False\<rparr>))
         else Skip 1 st)
      else if SkipBackticks opts \<and> inBacktick st then
        (if c = CHR 0x60 then
           (if nextIs s i (CHR 0x60) then Skip 2 st else Skip 1 (st\<lparr>inBacktick := False\<rparr>))
         else Skip 1 st)
      else if SkipComments opts \<and> c = CHR ''/'' \<and> nextIs s i (CHR ''/'') then Skip 2 (st\<lparr>inLineComment := True\<rparr>)
      else if SkipComments opts \<and> c = CHR ''/'' \<and> nextIs s i (CHR ''*'') then Skip 2 (st\<lparr>inBlockComment := True\<rparr>)
      else if SkipStrings opts \<and> c = CHR 0x27 then Skip 1 (st\<lparr>inSingleQuote := True\<rparr>)
      else if SkipStrings opts \<and> c = CHR 0x22 then Skip 1 (st\<lparr>inDoubleQuote := True\<rparr>)
      else if SkipBackticks opts \<and> c = CHR 0x60 then Skip 1 (st\<lparr>inBacktick := True\<rparr>)
      else Byte (countBrackets c st))"

definition keywordHere :: "keywordScanOpts \<Rightarrow> string \<Rightarrow> nat \<Rightarrow> string \<Rightarrow> nat \<Rightarrow> nat \<Rightarrow> scan_state \<Rightarrow> bool" where
  "keywordHere opts s i keyword ks ke st \<longleftrightarrow>
     \<not> (SkipParens opts \<and> parenDepth st > 0) \<and> \<not> (SkipBrackets opts \<and> bracketDepth st > 0)
     \<and> \<not> (SkipBraces opts \<and> braceDepth st > 0)
     \<and> asciiUpper (s ! i) = asciiUpper (keyword ! ks)
     \<and> keywordLeftBoundaryOK s i (Boundary opts)
     \<and> (case keywordMatchAt s i keyword ks ke of
          None \<Rightarrow> False
        | Some endPos \<Rightarrow> keywordRightBoundaryOK s endPos (Boundary opts))"

function scanLoop :: "keywordScanOpts \<Rightarrow> string \<Rightarrow> string \<Rightarrow> nat \<Rightarrow> nat \<Rightarrow> nat \<Rightarrow> scan_state \<Rightarrow> int" where
  "scanLoop opts s keyword ks ke i st =
     (if i < length s then
        (case scanByte opts s i st of
           Skip n st' \<Rightarrow> scanLoop opts s keyword ks ke (i + max 1 n) st'
         | Byte st' \<Rightarrow>
             if keywordHere opts s i keyword ks ke st' then int i
             else scanLoop opts s keyword ks ke (i + 1) st')
      else -1)"
  by pat_completeness auto
termination
  by (relation "measure (\<lambda>(opts, s, keyword, ks, ke, i, st). length s - i)") auto

declare scanLoop.simps [simp del]

text \<open>The body of \<^verbatim>\<open>keywordIndexFrom\<close> after its test for the default options.\<close>

definition keywordIndexFromOpts :: "keywordScanOpts \<Rightarrow> string \<Rightarrow> string \<Rightarrow> int \<Rightarrow> int" where
  "keywordIndexFromOpts opts s keyword frm =
     (let (ks, ke) = trimKeywordWSBounds keyword
      in if ks \<ge> ke \<or> int (length s) \<le> max 0 frm then -1
         else scanLoop opts s keyword ks ke (nat (max 0 frm)) startScan)"

section \<open>The scan for the default options\<close>

definition scanByteDefault :: "string \<Rightarrow> nat \<Rightarrow> scan_state \<Rightarrow> scan_action" where
  "scanByteDefault s i st =
     (let c = s ! i in
      if inLineComment st then Skip 1 (if c = CHR 0x0A then st\<lparr>inLineComment := False\<rparr> else st)
      else if inBlockComment st then
        (if c = CHR ''*'' \<and> nextIs s i (CHR ''/'') then Skip 2 (st\<lparr>inBlockComment := False\<rparr>) else Skip 1 st)
      else if inSingleQuote st then
        (if c = CHR 0x5C \<and> i + 1 < length s then Skip 2 st
         else if c = CHR 0x27 then
           (if nextIs s i (CHR 0x27) then Skip 2 st else Skip 1 (st\<lparr>inSingleQuote := False\<rparr>))
         else Skip 1 st)
      else if inDoubleQuote st then
        (if c = CHR 0x5C \<and> i + 1 < length s then Skip 2 st
         else if c = CHR 0x22 then
           (if nextIs s i (CHR 0x22) then Skip 2 st else Skip 1 (st\<lparr>inDoubleQuote := False\<rparr>))
         else Skip 1 st)
      else if inBacktick st then
        (if c = CHR 0x60 then
           (if nextIs s i (CHR 0x60) then Skip 2 st else Skip 1 (st\<lparr>inBacktick := False\<rparr>))
         else Skip 1 st)
      else if c = CHR ''/'' \<and> nextIs s i (CHR ''/'') then Skip 2 (st\<lparr>inLineComment := True\<rparr>)
      else if c = CHR ''/'' \<and> nextIs s i (CHR ''*'') then Skip 2 (st\<lparr>inBlockComment := True\<rparr>)
      else if c = CHR 0x27 then Skip 1 (st\<lparr>inSingleQuote := True\<rparr>)
      else if c = CHR 0x22 then Skip 1 (st\<lparr>inDoubleQuote := True\<rparr>)
      else if c = CHR 0x60 then Skip 1 (st\<lparr>inBacktick := True\<rparr>)
      else Byte (countBrackets c st))"

definition keywordHereDefault :: "string \<Rightarrow> nat \<Rightarrow> string \<Rightarrow> nat \<Rightarrow> nat \<Rightarrow> scan_state \<Rightarrow> bool" where
  "keywordHereDefault s i keyword ks ke st \<longleftrightarrow>
     \<not> (parenDepth st > 0 \<or> bracketDepth st > 0)
     \<and> asciiUpper (s ! i) = asciiUpper (keyword ! ks)
     \<and> keywordLeftBoundaryOK s i keywordBoundaryWord
     \<and> (case keywordMatchAt s i keyword ks ke of
          None \<Rightarrow> False
        | Some endPos \<Rightarrow> keywordRightBoundaryOK s endPos keywordBoundaryWord)"

function scanLoopDefault :: "string \<Rightarrow> string \<Rightarrow> nat \<Rightarrow> nat \<Rightarrow> nat \<Rightarrow> scan_state \<Rightarrow> int" where
  "scanLoopDefault s keyword ks ke i st =
     (if i < length s then
        (case scanByteDefault s i st of
           Skip n st' \<Rightarrow> scanLoopDefault s keyword ks ke (i + max 1 n) st'
         | Byte st' \<Rightarrow>
             if keywordHereDefault s i keyword ks ke st' then int i
             else scanLoopDefault s keyword ks ke (i + 1) st')
      else -1)"
  by pat_completeness auto
termination
  by (relation "measure (\<lambda>(s, keyword, ks, ke, i, st). length s - i)") auto

declare scanLoopDefault.simps [simp del]

definition keywordIndexFromDefault :: "string \<Rightarrow> string \<Rightarrow> int \<Rightarrow> int" where
  "keywordIndexFromDefault s keyword frm =
     (let (ks, ke) = trimKeywordWSBounds keyword
      in if ks \<ge> ke \<or> int (length s) \<le> max 0 frm then -1
         else scanLoopDefault s keyword ks ke (nat (max 0 frm)) startScan)"

section \<open>The cache of default scans\<close>

type_synonym scan_cache = "((string \<times> string \<times> int) \<times> int) list"

definition defaultKeywordIndexCacheMax :: nat where
  "defaultKeywordIndexCacheMax = 4096"

definition cachedKeywordIndexFromDefault :: "string \<Rightarrow> string \<Rightarrow> int \<Rightarrow> scan_cache \<Rightarrow> int \<times> scan_cache" where
  "cachedKeywordIndexFromDefault s keyword frm m =
     (case map_of m (s, keyword, frm) of
        Some idx \<Rightarrow> (idx, m)
      | None \<Rightarrow>
          (let idx = keywordIndexFromDefault s keyword frm;
               m' = (if length m \<ge> defaultKeywordIndexCacheMax then [] else m)
           in (idx, ((s, keyword, frm), idx) # m')))"

definition keywordIndexFrom :: "string \<Rightarrow> string \<Rightarrow> int \<Rightarrow> keywordScanOpts \<Rightarrow> scan_cache \<Rightarrow> int \<times> scan_cache" where
  "keywordIndexFrom s keyword frm opts m =
     (if isDefaultKeywordScanOpts opts then cachedKeywordIndexFromDefault s keyword frm m
      else (keywordIndexFromOpts opts s keyword frm, m))"

definition keywordIndex :: "string \<Rightarrow> string \<Rightarrow> scan_cache \<Rightarrow> int \<times> scan_cache" where
  "keywordIndex s keyword m = keywordIndexFrom s keyword 0 defaultKeywordScanOpts m"

definition topLevelKeywordIndex :: "string \<Rightarrow> string \<Rightarrow> scan_cache \<Rightarrow> int \<times> scan_cache" where
  "topLevelKeywordIndex s keyword m = keywordIndexFrom s keyword 0 (defaultKeywordScanOpts\<lparr>SkipBraces := True\<rparr>) m"

section \<open>Keywords of two words\<close>

text \<open>The loop of \<^verbatim>\<open>findMultiWordKeywordIndex\<close>. The words are given trimmed; the scans go through the cache,
  which does not change what they return, so the loop is given by the scan itself.\<close>

definition twoWordsAt :: "string \<Rightarrow> nat \<Rightarrow> string \<Rightarrow> string \<Rightarrow> bool" where
  "twoWordsAt s idx firstWord secondWord \<longleftrightarrow>
     (case keywordMatchAt s idx firstWord 0 (length firstWord) of
        None \<Rightarrow> False
      | Some afterFirst \<Rightarrow>
          if length s \<le> afterFirst \<or> \<not> isASCIISpace (s ! afterFirst) then False
          else (case keywordMatchAt s (skipSpaces s afterFirst (length s)) secondWord 0 (length secondWord) of
              None \<Rightarrow> False
            | Some afterSecond \<Rightarrow> keywordRightBoundaryOK s afterSecond keywordBoundaryWord))"

text \<open>The scan answers an index that is not below where it starts, or \<open>-1\<close>.\<close>

lemma scanLoopDefault_ge:
  "scanLoopDefault s keyword ks ke i st = -1 \<or>
   int i \<le> scanLoopDefault s keyword ks ke i st \<and> scanLoopDefault s keyword ks ke i st < int (length s)"
proof (induction s keyword ks ke i st rule: scanLoopDefault.induct)
  case (1 s keyword ks ke i st)
  show ?case
  proof (cases "i < length s")
    case False
    then show ?thesis by (simp add: scanLoopDefault.simps)
  next
    case True
    show ?thesis
    proof (cases "scanByteDefault s i st")
      case (Skip n st')
      with True 1(1) [OF True Skip] show ?thesis
        by (subst (1 2 3) scanLoopDefault.simps) auto
    next
      case (Byte st')
      with True 1(2) [OF True Byte] show ?thesis
        by (subst (1 2 3) scanLoopDefault.simps) auto
    qed
  qed
qed

lemma keywordIndexFromDefault_ge:
  assumes "keywordIndexFromDefault s keyword frm \<noteq> -1"
  shows "max 0 frm \<le> keywordIndexFromDefault s keyword frm
    \<and> keywordIndexFromDefault s keyword frm < int (length s)"
proof -
  obtain ks ke where t: "trimKeywordWSBounds keyword = (ks, ke)" by fastforce
  show ?thesis
    using assms scanLoopDefault_ge [of s keyword ks ke "nat (max 0 frm)" startScan]
    by (auto simp: keywordIndexFromDefault_def t split: if_splits)
qed

function twoWordsFrom :: "string \<Rightarrow> string \<Rightarrow> string \<Rightarrow> nat \<Rightarrow> int" where
  "twoWordsFrom s firstWord secondWord searchFrom =
     (let idx = keywordIndexFromDefault s firstWord (int searchFrom)
      in if idx = -1 then -1
         else if twoWordsAt s (nat idx) firstWord secondWord then idx
         else twoWordsFrom s firstWord secondWord (nat idx + 1))"
  by pat_completeness auto
termination
proof (relation "measure (\<lambda>(s, firstWord, secondWord, searchFrom). length s - searchFrom)", goal_cases)
  case (2 s firstWord secondWord searchFrom idx)
  then show ?case
    using keywordIndexFromDefault_ge [of s firstWord "int searchFrom"] by auto
qed auto

declare twoWordsFrom.simps [simp del]

definition trimmed :: "string \<Rightarrow> string" where
  "trimmed w = (let (start, e) = trimKeywordWSBounds w in take (e - start) (drop start w))"

definition findMultiWordKeywordIndex :: "string \<Rightarrow> string \<Rightarrow> string \<Rightarrow> int" where
  "findMultiWordKeywordIndex s firstWord secondWord =
     (if trimmed firstWord = [] \<or> trimmed secondWord = [] then -1
      else twoWordsFrom s (trimmed firstWord) (trimmed secondWord) 0)"

text \<open>The commands on databases, which no transaction of the graph surrounds.\<close>

definition isSystemCommandNoGraph :: "string \<Rightarrow> bool" where
  "isSystemCommandNoGraph cypher \<longleftrightarrow>
     findMultiWordKeywordIndex cypher ''CREATE'' ''COMPOSITE DATABASE'' = 0
     \<or> findMultiWordKeywordIndex cypher ''CREATE'' ''DATABASE'' = 0
     \<or> findMultiWordKeywordIndex cypher ''CREATE'' ''ALIAS'' = 0
     \<or> findMultiWordKeywordIndex cypher ''DROP'' ''COMPOSITE DATABASE'' = 0
     \<or> findMultiWordKeywordIndex cypher ''DROP'' ''DATABASE'' = 0
     \<or> findMultiWordKeywordIndex cypher ''DROP'' ''ALIAS'' = 0
     \<or> findMultiWordKeywordIndex cypher ''SHOW'' ''DATABASES'' = 0
     \<or> findMultiWordKeywordIndex cypher ''ALTER'' ''DATABASE'' = 0"

end
