(* ===== verification/KwScanProps.thy ===== *)
theory KwScanProps
  imports KwScan
begin

text \<open>
  What the keyword scanner promises: the loop specialised to the default options, and the cache in front
  of it, answer what the general loop answers; what is found is code and not the inside of a literal or a
  comment; and the search for two words is the search for one keyword.
\<close>

section \<open>The specialised loop\<close>

lemma default_options [simp]:
  "SkipParens defaultKeywordScanOpts" "SkipBrackets defaultKeywordScanOpts" "\<not> SkipBraces defaultKeywordScanOpts"
  "SkipStrings defaultKeywordScanOpts" "SkipBackticks defaultKeywordScanOpts" "SkipComments defaultKeywordScanOpts"
  "Boundary defaultKeywordScanOpts = keywordBoundaryWord"
  by (simp_all add: defaultKeywordScanOpts_def)

lemma scanByteDefault_eq: "scanByteDefault s i st = scanByte defaultKeywordScanOpts s i st"
  by (simp only: scanByteDefault_def scanByte_def default_options simp_thms)

lemma keywordHereDefault_eq:
  "keywordHereDefault s i keyword ks ke st = keywordHere defaultKeywordScanOpts s i keyword ks ke st"
  by (simp add: keywordHereDefault_def keywordHere_def split: option.split)

lemma scanLoopDefault_eq:
  "scanLoopDefault s keyword ks ke i st = scanLoop defaultKeywordScanOpts s keyword ks ke i st"
proof (induction s keyword ks ke i st rule: scanLoopDefault.induct)
  case (1 s keyword ks ke i st)
  show ?case
    by (subst scanLoopDefault.simps, subst scanLoop.simps)
      (use 1 in \<open>auto simp: scanByteDefault_eq keywordHereDefault_eq split: scan_action.split\<close>)
qed

lemma keywordIndexFromDefault_eq:
  "keywordIndexFromDefault s keyword frm = keywordIndexFromOpts defaultKeywordScanOpts s keyword frm"
  by (simp only: keywordIndexFromDefault_def keywordIndexFromOpts_def scanLoopDefault_eq)

lemma isDefault_iff: "isDefaultKeywordScanOpts opts \<longleftrightarrow> opts = defaultKeywordScanOpts"
  by (cases opts) (auto simp: isDefaultKeywordScanOpts_def defaultKeywordScanOpts_def)

section \<open>The cache\<close>

definition scan_cache_ok :: "scan_cache \<Rightarrow> bool" where
  "scan_cache_ok m \<longleftrightarrow>
     length m \<le> defaultKeywordIndexCacheMax
     \<and> (\<forall>s keyword frm idx. map_of m (s, keyword, frm) = Some idx \<longrightarrow>
          idx = keywordIndexFromOpts defaultKeywordScanOpts s keyword frm)"

lemma keywordIndexFrom_ok:
  assumes "scan_cache_ok m"
  shows "fst (keywordIndexFrom s keyword frm opts m) = keywordIndexFromOpts opts s keyword frm
    \<and> scan_cache_ok (snd (keywordIndexFrom s keyword frm opts m))"
  using assms
  by (auto simp: keywordIndexFrom_def cachedKeywordIndexFromDefault_def isDefault_iff scan_cache_ok_def
      keywordIndexFromDefault_eq defaultKeywordIndexCacheMax_def Let_def split: option.split)

fun lookups :: "(string \<times> string \<times> int \<times> keywordScanOpts) list \<Rightarrow> scan_cache \<Rightarrow> int list \<times> scan_cache" where
  "lookups [] m = ([], m)"
| "lookups ((s, keyword, frm, opts) # qs) m =
     (let (idx, m1) = keywordIndexFrom s keyword frm opts m; (idxs, m2) = lookups qs m1
      in (idx # idxs, m2))"

lemma lookups_ok:
  "scan_cache_ok m \<Longrightarrow>
   fst (lookups qs m) = map (\<lambda>(s, keyword, frm, opts). keywordIndexFromOpts opts s keyword frm) qs
   \<and> scan_cache_ok (snd (lookups qs m))"
proof (induction qs m rule: lookups.induct)
  case (2 s keyword frm opts qs m)
  obtain idx m1 where one: "keywordIndexFrom s keyword frm opts m = (idx, m1)" by fastforce
  obtain idxs m2 where rest: "lookups qs m1 = (idxs, m2)" by fastforce
  show ?case
    using 2 keywordIndexFrom_ok [OF 2(2), of s keyword frm opts] by (simp add: one rest)
qed simp

text \<open>
  Claim C35. The optimised search answers what the general one answers: whatever searches went before, each
  search through \<^verbatim>\<open>keywordIndexFrom\<close> (with the loop specialised to the default options, and the global
  cache in front of it) returns the index the general loop computes for its options, and the cache never
  holds more than its 4096 entries.
\<close>

theorem cached_scan_is_the_general_scan:
  shows "fst (lookups qs []) = map (\<lambda>(s, keyword, frm, opts). keywordIndexFromOpts opts s keyword frm) qs
    \<and> length (snd (lookups qs [])) \<le> defaultKeywordIndexCacheMax"
proof -
  have "scan_cache_ok []" by (simp add: scan_cache_ok_def)
  from lookups_ok [OF this, of qs] show ?thesis by (simp add: scan_cache_ok_def)
qed

section \<open>The texts that are not code\<close>

text \<open>The lexical structure, independently of the scanner: what stands between the quotes of a literal, and
  the pieces of a text that are literals, quoted identifiers and comments.\<close>

inductive quoted_body :: "char \<Rightarrow> string \<Rightarrow> bool" for q where
  quoted_empty: "quoted_body q []"
| quoted_char: "quoted_body q cs \<Longrightarrow> c \<noteq> q \<Longrightarrow> c \<noteq> CHR 0x5C \<Longrightarrow> quoted_body q (cs @ [c])"
| quoted_escape: "quoted_body q cs \<Longrightarrow> quoted_body q (cs @ [CHR 0x5C, c])"
| quoted_twice: "quoted_body q cs \<Longrightarrow> quoted_body q (cs @ [q, q])"

inductive ticked_body :: "string \<Rightarrow> bool" where
  ticked_empty: "ticked_body []"
| ticked_char: "ticked_body cs \<Longrightarrow> c \<noteq> CHR 0x60 \<Longrightarrow> ticked_body (cs @ [c])"
| ticked_twice: "ticked_body cs \<Longrightarrow> ticked_body (cs @ [CHR 0x60, CHR 0x60])"

definition seg :: "string \<Rightarrow> nat \<Rightarrow> nat \<Rightarrow> string" where
  "seg s i j = take (j - i) (drop i s)"

definition closes_comment :: "string \<Rightarrow> nat \<Rightarrow> bool" where
  "closes_comment s k \<longleftrightarrow> s ! k = CHR ''*'' \<and> nextIs s k (CHR ''/'')"

definition opens_comment :: "string \<Rightarrow> nat \<Rightarrow> bool" where
  "opens_comment s k \<longleftrightarrow> s ! k = CHR ''/'' \<and> (nextIs s k (CHR ''/'') \<or> nextIs s k (CHR ''*''))"

inductive piece :: "string \<Rightarrow> nat \<Rightarrow> nat \<Rightarrow> bool" for s where
  literal: "q \<in> {CHR 0x27, CHR 0x22} \<Longrightarrow> seg s i j = q # body \<Longrightarrow> quoted_body q body \<Longrightarrow> j < length s
     \<Longrightarrow> s ! j = q \<Longrightarrow> \<not> nextIs s j q \<Longrightarrow> piece s i (j + 1)"
| ticked: "seg s i j = CHR 0x60 # body \<Longrightarrow> ticked_body body \<Longrightarrow> j < length s
     \<Longrightarrow> s ! j = CHR 0x60 \<Longrightarrow> \<not> nextIs s j (CHR 0x60) \<Longrightarrow> piece s i (j + 1)"
| line_comment: "seg s i j = ''//'' @ body \<Longrightarrow> CHR 0x0A \<notin> set body \<Longrightarrow> j < length s
     \<Longrightarrow> s ! j = CHR 0x0A \<Longrightarrow> piece s i (j + 1)"
| block_comment: "seg s i j = ''/*'' @ body \<Longrightarrow> (\<forall>k. i + 2 \<le> k \<longrightarrow> k < j \<longrightarrow> \<not> closes_comment s k) \<Longrightarrow> j < length s
     \<Longrightarrow> closes_comment s j \<Longrightarrow> piece s i (j + 2)"

definition depth_after :: "char \<Rightarrow> char \<Rightarrow> char \<Rightarrow> nat \<Rightarrow> nat" where
  "depth_after l r c n = (if c = l then n + 1 else if c = r then n - 1 else n)"

text \<open>\<open>code_run s i j p b\<close>: read from \<open>i\<close> on, \<open>s\<close> is code at \<open>j\<close>, below \<open>p\<close> parentheses and \<open>b\<close> brackets. A closing
  one that has no opening one counts for nothing.\<close>

inductive code_run :: "string \<Rightarrow> nat \<Rightarrow> nat \<Rightarrow> nat \<Rightarrow> nat \<Rightarrow> bool" for s i where
  run_start: "code_run s i i 0 0"
| run_byte: "code_run s i j p b \<Longrightarrow> j < length s \<Longrightarrow> s ! j \<notin> {CHR 0x27, CHR 0x22, CHR 0x60} \<Longrightarrow> \<not> opens_comment s j
     \<Longrightarrow> code_run s i (j + 1) (depth_after (CHR ''('') (CHR '')'') (s ! j) p) (depth_after (CHR ''['') (CHR '']'') (s ! j) b)"
| run_piece: "code_run s i j p b \<Longrightarrow> piece s j k \<Longrightarrow> code_run s i k p b"

lemma seg_snoc: "i \<le> j \<Longrightarrow> j < length s \<Longrightarrow> seg s i (Suc j) = seg s i j @ [s ! j]"
  by (simp add: seg_def Suc_diff_le take_Suc_conv_app_nth)

lemma seg_one: "i < length s \<Longrightarrow> seg s i (Suc i) = [s ! i]"
  by (simp add: seg_def take_Suc_conv_app_nth)

lemma seg_two: "Suc i < length s \<Longrightarrow> seg s i (Suc (Suc i)) = [s ! i, s ! Suc i]"
  using seg_snoc [of i "Suc i" s] by (simp add: seg_one)


section \<open>What the scan has read\<close>

definition flags :: "scan_state \<Rightarrow> bool \<times> bool \<times> bool \<times> bool \<times> bool" where
  "flags st = (inSingleQuote st, inDoubleQuote st, inBacktick st, inLineComment st, inBlockComment st)"

text \<open>The piece that the scan is inside of at \<open>i\<close>, when it started at \<open>j\<close>.\<close>

definition inside :: "string \<Rightarrow> nat \<Rightarrow> nat \<Rightarrow> scan_state \<Rightarrow> bool" where
  "inside s j i st \<longleftrightarrow>
     flags st = (True, False, False, False, False)
       \<and> (\<exists>body. seg s j i = CHR 0x27 # body \<and> quoted_body (CHR 0x27) body)
     \<or> flags st = (False, True, False, False, False)
       \<and> (\<exists>body. seg s j i = CHR 0x22 # body \<and> quoted_body (CHR 0x22) body)
     \<or> flags st = (False, False, True, False, False)
       \<and> (\<exists>body. seg s j i = CHR 0x60 # body \<and> ticked_body body)
     \<or> flags st = (False, False, False, True, False)
       \<and> (\<exists>body. seg s j i = ''//'' @ body \<and> CHR 0x0A \<notin> set body)
     \<or> flags st = (False, False, False, False, True)
       \<and> (\<exists>body. seg s j i = ''/*'' @ body) \<and> (\<forall>k. j + 2 \<le> k \<longrightarrow> k < i \<longrightarrow> \<not> closes_comment s k)"

definition neutral :: "scan_state \<Rightarrow> bool" where
  "neutral st \<longleftrightarrow> flags st = (False, False, False, False, False)"

definition scan_inv :: "string \<Rightarrow> nat \<Rightarrow> nat \<Rightarrow> scan_state \<Rightarrow> bool" where
  "scan_inv s i0 i st \<longleftrightarrow>
     (neutral st \<and> code_run s i0 i (parenDepth st) (bracketDepth st)
      \<or> (\<exists>j<i. code_run s i0 j (parenDepth st) (bracketDepth st) \<and> inside s j i st))"

lemma inside_not_neutral: "inside s j i st \<Longrightarrow> \<not> neutral st"
  by (auto simp: inside_def neutral_def)

text \<open>What the scan does in each state.\<close>

lemma scan_single:
  "flags st = (True, False, False, False, False) \<Longrightarrow> scanByteDefault s i st =
     (if s ! i = CHR 0x5C \<and> i + 1 < length s then Skip 2 st
      else if s ! i = CHR 0x27 then
        (if nextIs s i (CHR 0x27) then Skip 2 st else Skip 1 (st\<lparr>inSingleQuote := False\<rparr>))
      else Skip 1 st)"
  by (simp only: scanByteDefault_def Let_def flags_def prod.inject if_True if_False simp_thms)

lemma scan_double:
  "flags st = (False, True, False, False, False) \<Longrightarrow> scanByteDefault s i st =
     (if s ! i = CHR 0x5C \<and> i + 1 < length s then Skip 2 st
      else if s ! i = CHR 0x22 then
        (if nextIs s i (CHR 0x22) then Skip 2 st else Skip 1 (st\<lparr>inDoubleQuote := False\<rparr>))
      else Skip 1 st)"
  by (simp only: scanByteDefault_def Let_def flags_def prod.inject if_True if_False simp_thms)

lemma scan_tick:
  "flags st = (False, False, True, False, False) \<Longrightarrow> scanByteDefault s i st =
     (if s ! i = CHR 0x60 then
        (if nextIs s i (CHR 0x60) then Skip 2 st else Skip 1 (st\<lparr>inBacktick := False\<rparr>))
      else Skip 1 st)"
  by (simp only: scanByteDefault_def Let_def flags_def prod.inject if_True if_False simp_thms)

lemma scan_line:
  "flags st = (False, False, False, True, False) \<Longrightarrow> scanByteDefault s i st =
     Skip 1 (if s ! i = CHR 0x0A then st\<lparr>inLineComment := False\<rparr> else st)"
  by (simp only: scanByteDefault_def Let_def flags_def prod.inject if_True if_False simp_thms)

lemma scan_block:
  "flags st = (False, False, False, False, True) \<Longrightarrow> scanByteDefault s i st =
     (if closes_comment s i then Skip 2 (st\<lparr>inBlockComment := False\<rparr>) else Skip 1 st)"
  by (simp only: scanByteDefault_def closes_comment_def Let_def flags_def prod.inject if_True if_False simp_thms)

lemma scan_neutral:
  "neutral st \<Longrightarrow> scanByteDefault s i st =
     (if s ! i = CHR ''/'' \<and> nextIs s i (CHR ''/'') then Skip 2 (st\<lparr>inLineComment := True\<rparr>)
      else if s ! i = CHR ''/'' \<and> nextIs s i (CHR ''*'') then Skip 2 (st\<lparr>inBlockComment := True\<rparr>)
      else if s ! i = CHR 0x27 then Skip 1 (st\<lparr>inSingleQuote := True\<rparr>)
      else if s ! i = CHR 0x22 then Skip 1 (st\<lparr>inDoubleQuote := True\<rparr>)
      else if s ! i = CHR 0x60 then Skip 1 (st\<lparr>inBacktick := True\<rparr>)
      else Byte (countBrackets (s ! i) st))"
  by (simp only: scanByteDefault_def Let_def flags_def neutral_def prod.inject if_True if_False simp_thms)

lemma flags_update:
  "flags (st\<lparr>inSingleQuote := b\<rparr>) = (b, snd (flags st))"
  "flags (st\<lparr>inDoubleQuote := b\<rparr>) = (inSingleQuote st, b, snd (snd (flags st)))"
  "flags (st\<lparr>inBacktick := b\<rparr>) = (inSingleQuote st, inDoubleQuote st, b, inLineComment st, inBlockComment st)"
  "flags (st\<lparr>inLineComment := b\<rparr>) = (inSingleQuote st, inDoubleQuote st, inBacktick st, b, inBlockComment st)"
  "flags (st\<lparr>inBlockComment := b\<rparr>) = (inSingleQuote st, inDoubleQuote st, inBacktick st, inLineComment st, b)"
  by (simp_all add: flags_def)

text \<open>From code, a byte opens a piece or is code.\<close>

lemma inside_opens:
  "flags st = (True, False, False, False, False) \<Longrightarrow> seg s j i = [CHR 0x27] \<Longrightarrow> inside s j i st"
  "flags st = (False, True, False, False, False) \<Longrightarrow> seg s j i = [CHR 0x22] \<Longrightarrow> inside s j i st"
  "flags st = (False, False, True, False, False) \<Longrightarrow> seg s j i = [CHR 0x60] \<Longrightarrow> inside s j i st"
  "flags st = (False, False, False, True, False) \<Longrightarrow> seg s j i = ''//'' \<Longrightarrow> inside s j i st"
  "flags st = (False, False, False, False, True) \<Longrightarrow> seg s j i = ''/*'' \<Longrightarrow> i \<le> j + 2 \<Longrightarrow> inside s j i st"
  unfolding inside_def by (auto intro: quoted_empty ticked_empty)

lemma neutral_step:
  assumes st: "neutral st" and i: "i < length s" and act: "scanByteDefault s i st = Skip n st'"
    and bound: "i + max 1 n < length s"
  shows "inside s i (i + max 1 n) st' \<and> parenDepth st' = parenDepth st \<and> bracketDepth st' = bracketDepth st"
proof -
  have f: "flags st = (False, False, False, False, False)" using st by (simp add: neutral_def)
  have fs: "\<not> inSingleQuote st" "\<not> inDoubleQuote st" "\<not> inBacktick st" "\<not> inLineComment st" "\<not> inBlockComment st"
    using f by (auto simp: flags_def)
  consider "s ! i = CHR ''/'' \<and> nextIs s i (CHR ''/'') \<and> n = 2 \<and> st' = st\<lparr>inLineComment := True\<rparr>"
    | "s ! i = CHR ''/'' \<and> nextIs s i (CHR ''*'') \<and> n = 2 \<and> st' = st\<lparr>inBlockComment := True\<rparr>"
    | "s ! i = CHR 0x27 \<and> n = 1 \<and> st' = st\<lparr>inSingleQuote := True\<rparr>"
    | "s ! i = CHR 0x22 \<and> n = 1 \<and> st' = st\<lparr>inDoubleQuote := True\<rparr>"
    | "s ! i = CHR 0x60 \<and> n = 1 \<and> st' = st\<lparr>inBacktick := True\<rparr>"
    using act unfolding scan_neutral [OF st] by (auto simp only: scan_action.inject scan_action.distinct split: if_split_asm)
  then show ?thesis
  proof cases
    case 1
    then have "seg s i (i + 2) = ''//''" using seg_two [of i s] by (simp add: nextIs_def)
    with 1 f fs show ?thesis by (auto simp: flags_update intro: inside_opens)
  next
    case 2
    then have "seg s i (i + 2) = ''/*''" using seg_two [of i s] by (simp add: nextIs_def)
    with 2 f fs show ?thesis by (auto simp: flags_update intro: inside_opens)
  qed (use f fs seg_one [OF i] in \<open>auto simp: flags_update intro: inside_opens\<close>)
qed

lemma neutral_byte:
  assumes "neutral st" "scanByteDefault s i st = Byte st'"
  shows "st' = countBrackets (s ! i) st \<and> s ! i \<notin> {CHR 0x27, CHR 0x22, CHR 0x60} \<and> \<not> opens_comment s i"
  using assms(2) unfolding scan_neutral [OF assms(1)]
  by (auto simp only: opens_comment_def scan_action.inject scan_action.distinct insert_iff empty_iff split: if_split_asm)

text \<open>Inside a piece, the scan stays there or the piece is complete.\<close>

lemma seg_next: "j < i \<Longrightarrow> i < length s \<Longrightarrow> seg s j (Suc i) = seg s j i @ [s ! i]"
  using seg_snoc [of j i s] by simp

lemma seg_next2: "j < i \<Longrightarrow> i < length s \<Longrightarrow> Suc i < length s \<Longrightarrow> seg s j (Suc (Suc i)) = seg s j i @ [s ! i, s ! Suc i]"
  using seg_snoc [of j "Suc i" s] seg_next [of j i s] by simp

definition goes_on :: "string \<Rightarrow> nat \<Rightarrow> nat \<Rightarrow> scan_state \<Rightarrow> scan_state \<Rightarrow> bool" where
  "goes_on s j k st st' \<longleftrightarrow> (inside s j k st' \<or> neutral st' \<and> piece s j k)
     \<and> parenDepth st' = parenDepth st \<and> bracketDepth st' = bracketDepth st"

lemma quoted_step:
  assumes ji: "j < i" and i: "i < length s" and sg: "seg s j i = q # body" and q: "quoted_body q body"
    and qq: "q \<in> {CHR 0x27, CHR 0x22}" and bound: "i + n < length s"
  shows "s ! i = CHR 0x5C \<Longrightarrow> n = 2 \<Longrightarrow> \<exists>b. seg s j (i + n) = q # b \<and> quoted_body q b"
    and "s ! i = q \<Longrightarrow> nextIs s i q \<Longrightarrow> n = 2 \<Longrightarrow> \<exists>b. seg s j (i + n) = q # b \<and> quoted_body q b"
    and "s ! i = q \<Longrightarrow> \<not> nextIs s i q \<Longrightarrow> n = 1 \<Longrightarrow> piece s j (i + n)"
    and "s ! i \<noteq> q \<Longrightarrow> s ! i \<noteq> CHR 0x5C \<Longrightarrow> n = 1 \<Longrightarrow> \<exists>b. seg s j (i + n) = q # b \<and> quoted_body q b"
  using seg_next [OF ji i] seg_next2 [OF ji i] bound sg quoted_escape [OF q, of "s ! Suc i"] quoted_twice [OF q]
    quoted_char [OF q, of "s ! i"] literal [OF qq sg q i]
  by (auto simp: nextIs_def)

lemma ticked_step:
  assumes ji: "j < i" and i: "i < length s" and sg: "seg s j i = CHR 0x60 # body" and q: "ticked_body body"
    and bound: "i + n < length s"
  shows "s ! i = CHR 0x60 \<Longrightarrow> nextIs s i (CHR 0x60) \<Longrightarrow> n = 2 \<Longrightarrow> \<exists>b. seg s j (i + n) = CHR 0x60 # b \<and> ticked_body b"
    and "s ! i = CHR 0x60 \<Longrightarrow> \<not> nextIs s i (CHR 0x60) \<Longrightarrow> n = 1 \<Longrightarrow> piece s j (i + n)"
    and "s ! i \<noteq> CHR 0x60 \<Longrightarrow> n = 1 \<Longrightarrow> \<exists>b. seg s j (i + n) = CHR 0x60 # b \<and> ticked_body b"
  using seg_next [OF ji i] seg_next2 [OF ji i] bound sg ticked_twice [OF q]
    ticked_char [OF q, of "s ! i"] ticked [OF sg q i]
  by (auto simp: nextIs_def)

lemma inside_modes:
  "flags st = (True, False, False, False, False) \<Longrightarrow> \<exists>b. seg s j i = CHR 0x27 # b \<and> quoted_body (CHR 0x27) b \<Longrightarrow> inside s j i st"
  "flags st = (False, True, False, False, False) \<Longrightarrow> \<exists>b. seg s j i = CHR 0x22 # b \<and> quoted_body (CHR 0x22) b \<Longrightarrow> inside s j i st"
  "flags st = (False, False, True, False, False) \<Longrightarrow> \<exists>b. seg s j i = CHR 0x60 # b \<and> ticked_body b \<Longrightarrow> inside s j i st"
  unfolding inside_def by blast+

lemma inside_single:
  assumes ji: "j < i" and i: "i < length s" and sg: "seg s j i = CHR 0x27 # body" and q: "quoted_body (CHR 0x27) body"
    and f: "flags st = (True, False, False, False, False)"
    and act: "scanByteDefault s i st = Skip n st'" and bound: "i + max 1 n < length s"
  shows "goes_on s j (i + max 1 n) st st'"
proof -
  have qq: "CHR 0x27 \<in> {CHR 0x27, CHR 0x22}" by simp
  have bound': "i + n < length s" using bound by simp
  note step = quoted_step [OF ji i sg q qq bound']
  have neu: "neutral (st\<lparr>inSingleQuote := False\<rparr>)" using f by (simp add: neutral_def flags_update)
  consider "s ! i = CHR 0x5C \<and> n = 2 \<and> st' = st"
    | "s ! i = CHR 0x27 \<and> nextIs s i (CHR 0x27) \<and> n = 2 \<and> st' = st"
    | "s ! i = CHR 0x27 \<and> \<not> nextIs s i (CHR 0x27) \<and> n = 1 \<and> st' = st\<lparr>inSingleQuote := False\<rparr>"
    | "s ! i \<noteq> CHR 0x27 \<and> s ! i \<noteq> CHR 0x5C \<and> n = 1 \<and> st' = st"
    using act bound unfolding scan_single [OF f] by (auto split: if_split_asm)
  then show ?thesis
  proof cases
    case 1
    then show ?thesis using step(1) f by (simp add: goes_on_def inside_modes)
  next
    case 2
    then show ?thesis using step(2) f by (simp add: goes_on_def inside_modes)
  next
    case 3
    then show ?thesis using step(3) neu by (simp add: goes_on_def)
  next
    case 4
    then show ?thesis using step(4) f by (simp add: goes_on_def inside_modes)
  qed
qed

lemma inside_double:
  assumes ji: "j < i" and i: "i < length s" and sg: "seg s j i = CHR 0x22 # body" and q: "quoted_body (CHR 0x22) body"
    and f: "flags st = (False, True, False, False, False)"
    and act: "scanByteDefault s i st = Skip n st'" and bound: "i + max 1 n < length s"
  shows "goes_on s j (i + max 1 n) st st'"
proof -
  have qq: "CHR 0x22 \<in> {CHR 0x27, CHR 0x22}" by simp
  have bound': "i + n < length s" using bound by simp
  note step = quoted_step [OF ji i sg q qq bound']
  have neu: "neutral (st\<lparr>inDoubleQuote := False\<rparr>)" using f by (simp add: neutral_def flags_def)
  consider "s ! i = CHR 0x5C \<and> n = 2 \<and> st' = st"
    | "s ! i = CHR 0x22 \<and> nextIs s i (CHR 0x22) \<and> n = 2 \<and> st' = st"
    | "s ! i = CHR 0x22 \<and> \<not> nextIs s i (CHR 0x22) \<and> n = 1 \<and> st' = st\<lparr>inDoubleQuote := False\<rparr>"
    | "s ! i \<noteq> CHR 0x22 \<and> s ! i \<noteq> CHR 0x5C \<and> n = 1 \<and> st' = st"
    using act bound unfolding scan_double [OF f] by (auto split: if_split_asm)
  then show ?thesis
  proof cases
    case 1
    then show ?thesis using step(1) f by (simp add: goes_on_def inside_modes)
  next
    case 2
    then show ?thesis using step(2) f by (simp add: goes_on_def inside_modes)
  next
    case 3
    then show ?thesis using step(3) neu by (simp add: goes_on_def)
  next
    case 4
    then show ?thesis using step(4) f by (simp add: goes_on_def inside_modes)
  qed
qed

lemma inside_tick:
  assumes ji: "j < i" and i: "i < length s" and sg: "seg s j i = CHR 0x60 # body" and q: "ticked_body body"
    and f: "flags st = (False, False, True, False, False)"
    and act: "scanByteDefault s i st = Skip n st'" and bound: "i + max 1 n < length s"
  shows "goes_on s j (i + max 1 n) st st'"
proof -
  have bound': "i + n < length s" using bound by simp
  note step = ticked_step [OF ji i sg q bound']
  have neu: "neutral (st\<lparr>inBacktick := False\<rparr>)" using f by (simp add: neutral_def flags_def)
  consider "s ! i = CHR 0x60 \<and> nextIs s i (CHR 0x60) \<and> n = 2 \<and> st' = st"
    | "s ! i = CHR 0x60 \<and> \<not> nextIs s i (CHR 0x60) \<and> n = 1 \<and> st' = st\<lparr>inBacktick := False\<rparr>"
    | "s ! i \<noteq> CHR 0x60 \<and> n = 1 \<and> st' = st"
    using act bound unfolding scan_tick [OF f] by (auto split: if_split_asm)
  then show ?thesis
  proof cases
    case 1
    then show ?thesis using step(1) f by (simp add: goes_on_def inside_modes)
  next
    case 2
    then show ?thesis using step(2) neu by (simp add: goes_on_def)
  next
    case 3
    then show ?thesis using step(3) f by (simp add: goes_on_def inside_modes)
  qed
qed

lemma inside_line:
  assumes ji: "j < i" and i: "i < length s" and sg: "seg s j i = ''//'' @ body" and q: "CHR 0x0A \<notin> set body"
    and f: "flags st = (False, False, False, True, False)"
    and act: "scanByteDefault s i st = Skip n st'"
  shows "goes_on s j (i + max 1 n) st st'"
proof (cases "s ! i = CHR 0x0A")
  case True
  have "neutral (st\<lparr>inLineComment := False\<rparr>)" using f by (simp add: neutral_def flags_def)
  then show ?thesis
    using act True line_comment [OF sg q i True] unfolding scan_line [OF f] by (auto simp: goes_on_def)
next
  case False
  have "inside s j (Suc i) st"
    unfolding inside_def using f seg_next [OF ji i] sg q False by auto
  then show ?thesis using act False unfolding scan_line [OF f] by (auto simp: goes_on_def)
qed

lemma inside_block:
  assumes ji: "j < i" and i: "i < length s" and sg: "seg s j i = ''/*'' @ body"
    and q: "\<forall>k. j + 2 \<le> k \<longrightarrow> k < i \<longrightarrow> \<not> closes_comment s k"
    and f: "flags st = (False, False, False, False, True)"
    and act: "scanByteDefault s i st = Skip n st'"
  shows "goes_on s j (i + max 1 n) st st'"
proof (cases "closes_comment s i")
  case True
  have "neutral (st\<lparr>inBlockComment := False\<rparr>)" using f by (simp add: neutral_def flags_def)
  then show ?thesis
    using act True block_comment [OF sg q i True] unfolding scan_block [OF f] by (auto simp: goes_on_def)
next
  case False
  have "\<forall>k. j + 2 \<le> k \<longrightarrow> k < Suc i \<longrightarrow> \<not> closes_comment s k" using q False by (auto simp: less_Suc_eq)
  then have "inside s j (Suc i) st"
    unfolding inside_def using f seg_next [OF ji i] sg by simp
  then show ?thesis using act False unfolding scan_block [OF f] by (auto simp: goes_on_def)
qed

lemma inside_step:
  assumes "inside s j i st" "j < i" "i < length s" "scanByteDefault s i st = Skip n st'" "i + max 1 n < length s"
  shows "goes_on s j (i + max 1 n) st st'"
  using assms(1) unfolding inside_def
  by (elim disjE conjE exE)
    (rule inside_single [OF assms(2,3) _ _ _ assms(4,5)] inside_double [OF assms(2,3) _ _ _ assms(4,5)]
        inside_tick [OF assms(2,3) _ _ _ assms(4,5)] inside_line [OF assms(2,3) _ _ _ assms(4)]
        inside_block [OF assms(2,3) _ _ _ assms(4)]; assumption)+

lemma inside_no_byte: "inside s j i st \<Longrightarrow> scanByteDefault s i st \<noteq> Byte st'"
  by (auto simp: inside_def scan_single scan_double scan_tick scan_line scan_block split: if_split_asm)

lemma countBrackets_depths:
  "parenDepth (countBrackets c st) = depth_after (CHR ''('') (CHR '')'') c (parenDepth st)"
  "bracketDepth (countBrackets c st) = depth_after (CHR ''['') (CHR '']'') c (bracketDepth st)"
  "neutral (countBrackets c st) = neutral st"
  by (auto simp: countBrackets_def depth_after_def neutral_def flags_def)

lemma scan_inv_skip:
  assumes "scan_inv s i0 i st" "i < length s" "scanByteDefault s i st = Skip n st'" "i + max 1 n < length s"
  shows "scan_inv s i0 (i + max 1 n) st'"
proof (cases "neutral st")
  case True
  then have "code_run s i0 i (parenDepth st) (bracketDepth st)"
    using assms(1) by (auto simp: scan_inv_def dest: inside_not_neutral)
  with neutral_step [OF True assms(2-4)] show ?thesis by (auto simp: scan_inv_def)
next
  case False
  then obtain j where j: "j < i" "code_run s i0 j (parenDepth st) (bracketDepth st)" "inside s j i st"
    using assms(1) by (auto simp: scan_inv_def)
  from inside_step [OF j(3,1) assms(2-4)] j show ?thesis
    by (fastforce simp: scan_inv_def goes_on_def intro: run_piece)
qed

lemma scan_inv_byte:
  assumes "scan_inv s i0 i st" "i < length s" "scanByteDefault s i st = Byte st'"
  shows "code_run s i0 i (parenDepth st) (bracketDepth st) \<and> s ! i \<notin> {CHR 0x27, CHR 0x22, CHR 0x60}
    \<and> \<not> opens_comment s i \<and> st' = countBrackets (s ! i) st \<and> scan_inv s i0 (i + 1) st'"
proof -
  have run: "neutral st" "code_run s i0 i (parenDepth st) (bracketDepth st)"
    using assms(1,3) inside_no_byte by (auto simp: scan_inv_def)
  note b = neutral_byte [OF run(1) assms(3)]
  show ?thesis
    using run b run_byte [OF run(2) assms(2)] by (simp add: scan_inv_def countBrackets_depths)
qed


section \<open>What is found\<close>

text \<open>A text with its letters in capitals and each run of blanks as one blank.\<close>

fun squeeze :: "string \<Rightarrow> string" where
  "squeeze [] = []"
| "squeeze (c # cs) =
     (if isASCIISpace c
      then (if cs \<noteq> [] \<and> isASCIISpace (hd cs) then squeeze cs else CHR '' '' # squeeze cs)
      else asciiUpper c # squeeze cs)"

lemma squeeze_blanks:
  "bs \<noteq> [] \<Longrightarrow> list_all isASCIISpace bs \<Longrightarrow> r = [] \<or> \<not> isASCIISpace (hd r) \<Longrightarrow> squeeze (bs @ r) = CHR '' '' # squeeze r"
proof (induction bs)
  case (Cons b bs)
  then show ?case by (cases bs) (auto split: if_split_asm)
qed simp

lemma seg_split: "i \<le> j \<Longrightarrow> j \<le> k \<Longrightarrow> seg s i k = seg s i j @ seg s j k"
proof -
  assume ij: "i \<le> j" "j \<le> k"
  have "seg s i k = take ((j - i) + (k - j)) (drop i s)" using ij by (simp add: seg_def)
  also have "\<dots> = seg s i j @ seg s j k"
    using ij by (simp only: take_add seg_def drop_drop) simp
  finally show ?thesis .
qed

lemma seg_hd: "i < j \<Longrightarrow> i < length s \<Longrightarrow> seg s i j \<noteq> [] \<and> hd (seg s i j) = s ! i"
  by (simp add: seg_def hd_drop_conv_nth)

lemma seg_Cons: "i < j \<Longrightarrow> i < length s \<Longrightarrow> seg s i j = s ! i # seg s (Suc i) j"
  using seg_split [of i "Suc i" j s] by (simp add: seg_one)

lemma seg_empty [simp]: "seg s i i = []"
  by (simp add: seg_def)

lemma skipSpaces_blanks:
  "j \<le> n \<Longrightarrow> n \<le> length s \<Longrightarrow>
   list_all isASCIISpace (seg s j (skipSpaces s j n)) \<and> (skipSpaces s j n = n \<or> \<not> isASCIISpace (s ! skipSpaces s j n))"
proof (induction s j n rule: skipSpaces.induct)
  case (1 s j n)
  show ?case
  proof (cases "j < n \<and> isASCIISpace (s ! j)")
    case True
    then have eq: "skipSpaces s j n = skipSpaces s (j + 1) n" by (subst skipSpaces.simps) simp
    have "Suc j \<le> skipSpaces s (j + 1) n" using True skipSpaces_le [of "j + 1" n s] by simp
    then have "seg s j (skipSpaces s j n) = s ! j # seg s (Suc j) (skipSpaces s j n)"
      using True 1 by (intro seg_Cons) (auto simp: eq)
    then show ?thesis using 1 True by (simp add: eq)
  next
    case False
    then have "skipSpaces s j n = j" by (subst skipSpaces.simps) auto
    then show ?thesis using 1 False by auto
  qed
qed

lemma isASCIISpace_upper: "isASCIISpace (asciiUpper c) \<longleftrightarrow> isASCIISpace c"
proof (cases "97 \<le> (of_char c :: nat) \<and> (of_char c :: nat) \<le> 122")
  case True
  let ?n = "of_char c :: nat"
  have "(?n - 32) mod 256 = ?n - 32" using True by (intro mod_less) linarith
  then have "(of_char (asciiUpper c) :: nat) = ?n - 32"
    using True by (simp add: asciiUpper_def Let_def)
  then have "(of_char (asciiUpper c) :: nat) > 32" using True by linarith
  then have "\<not> isASCIISpace (asciiUpper c)" by (auto simp: isASCIISpace_def)
  moreover have "\<not> isASCIISpace c" using True by (auto simp: isASCIISpace_def)
  ultimately show ?thesis by simp
next
  case False
  then show ?thesis by (auto simp: asciiUpper_def Let_def)
qed

lemma squeeze_run:
  assumes "j < n" "isASCIISpace (s ! j)" "n \<le> length s" "skipSpaces s j n \<le> e" "e \<le> n"
  shows "squeeze (seg s j e) = CHR '' '' # squeeze (seg s (skipSpaces s j n) e)"
proof -
  let ?j = "skipSpaces s j n"
  have jj: "j < ?j" "?j \<le> n" using skipSpaces_moves [OF assms(1,2)] by auto
  have b: "list_all isASCIISpace (seg s j ?j)" "?j = n \<or> \<not> isASCIISpace (s ! ?j)"
    using skipSpaces_blanks [of j n s] assms(1,3) by auto
  have ne: "seg s j ?j \<noteq> []" using seg_hd [of j ?j s] jj assms(1,3) by auto
  have r: "seg s ?j e = [] \<or> \<not> isASCIISpace (hd (seg s ?j e))"
  proof (cases "?j = e")
    case False
    with assms(4,5) jj b(2) have "?j < e" "\<not> isASCIISpace (s ! ?j)" by auto
    then show ?thesis using seg_hd [of ?j e s] assms(3,5) by simp
  qed simp
  have "seg s j e = seg s j ?j @ seg s ?j e" using seg_split [of j ?j e s] jj assms(4) by simp
  then show ?thesis using squeeze_blanks [OF ne b(1) r] by simp
qed

lemma keywordMatchFrom_squeeze:
  "keywordMatchFrom s j keyword k ke = Some e \<Longrightarrow> k \<le> ke \<Longrightarrow> ke \<le> length keyword \<Longrightarrow> j \<le> length s \<Longrightarrow>
   j \<le> e \<and> e \<le> length s \<and> squeeze (seg s j e) = squeeze (seg keyword k ke)"
proof (induction s j keyword k ke rule: keywordMatchFrom.induct)
  case (1 s j keyword k ke)
  show ?case
  proof (cases "k < ke")
    case False
    then have "e = j" using 1(3) by (subst (asm) keywordMatchFrom.simps) simp
    then show ?thesis using False 1(4,6) by simp
  next
    case k: True
    show ?thesis
    proof (cases "isASCIISpace (keyword ! k)")
      case False
      have j: "j < length s" and up: "asciiUpper (s ! j) = asciiUpper (keyword ! k)"
        and m: "keywordMatchFrom s (j + 1) keyword (k + 1) ke = Some e"
        using 1(3) k False by (subst (asm) keywordMatchFrom.simps, simp split: if_split_asm)+
      have ih: "j + 1 \<le> e \<and> e \<le> length s \<and> squeeze (seg s (j + 1) e) = squeeze (seg keyword (k + 1) ke)"
        using 1(2) [OF k False _ m] j up k 1(5) by simp
      have nb: "\<not> isASCIISpace (s ! j)"
        using up False isASCIISpace_upper [of "s ! j"] isASCIISpace_upper [of "keyword ! k"] by simp
      show ?thesis
        using ih nb False up k 1(5) j seg_Cons [of j e s] seg_Cons [of k ke keyword] by simp
    next
      case True
      let ?j = "skipSpaces s j (length s)" and ?k = "skipSpaces keyword k ke"
      have j: "j < length s" "isASCIISpace (s ! j)" and m: "keywordMatchFrom s ?j keyword ?k ke = Some e"
        using 1(3) k True by (subst (asm) keywordMatchFrom.simps, simp split: if_split_asm)+
      have jj: "j < ?j" "?j \<le> length s" using skipSpaces_moves [OF j] by auto
      have kk: "k < ?k" "?k \<le> ke" using skipSpaces_moves [of k ke keyword] k True by auto
      have ih: "?j \<le> e \<and> e \<le> length s \<and> squeeze (seg s ?j e) = squeeze (seg keyword ?k ke)"
        using 1(1) [OF k True _ m] j jj kk 1(5) by simp
      have "squeeze (seg s j e) = CHR '' '' # squeeze (seg s ?j e)"
        using squeeze_run [OF j order_refl] ih by simp
      moreover have "squeeze (seg keyword k ke) = CHR '' '' # squeeze (seg keyword ?k ke)"
        using squeeze_run [OF k True 1(5)] kk by simp
      ultimately show ?thesis using ih jj by simp
    qed
  qed
qed


text \<open>A byte that is code, on the outermost level once it has been read.\<close>

definition code_at :: "string \<Rightarrow> nat \<Rightarrow> nat \<Rightarrow> bool" where
  "code_at s i0 i \<longleftrightarrow> i < length s \<and> s ! i \<notin> {CHR 0x27, CHR 0x22, CHR 0x60} \<and> \<not> opens_comment s i
     \<and> (\<exists>p b. code_run s i0 i p b \<and> depth_after (CHR ''('') (CHR '')'') (s ! i) p = 0
          \<and> depth_after (CHR ''['') (CHR '']'') (s ! i) b = 0)"

text \<open>The keyword stands there, whatever its case and its blanks, and is a whole word.\<close>

definition stands_at :: "string \<Rightarrow> nat \<Rightarrow> string \<Rightarrow> bool" where
  "stands_at s i keyword \<longleftrightarrow>
     keywordLeftBoundaryOK s i keywordBoundaryWord
     \<and> (\<exists>e. i \<le> e \<and> e \<le> length s \<and> squeeze (seg s i e) = squeeze keyword
          \<and> keywordRightBoundaryOK s e keywordBoundaryWord)"

lemma keywordHereDefault_stands:
  assumes "keywordHereDefault s i keyword ks ke st" "i < length s" "ks \<le> ke" "ke \<le> length keyword"
  shows "stands_at s i (seg keyword ks ke) \<and> parenDepth st = 0 \<and> bracketDepth st = 0"
proof -
  obtain e where e: "keywordMatchFrom s i keyword ks ke = Some e" "keywordRightBoundaryOK s e keywordBoundaryWord"
    using assms(1) by (auto simp: keywordHereDefault_def keywordMatchAt_def split: option.splits)
  from keywordMatchFrom_squeeze [OF e(1) assms(3,4)] assms(1,2) e(2) show ?thesis
    by (auto simp: stands_at_def keywordHereDefault_def)
qed

lemma scanLoopDefault_code:
  "scanLoopDefault s keyword ks ke i st \<noteq> -1 \<Longrightarrow> i < length s \<Longrightarrow> scan_inv s i0 i st \<Longrightarrow> ks \<le> ke \<Longrightarrow> ke \<le> length keyword \<Longrightarrow>
   \<exists>r. scanLoopDefault s keyword ks ke i st = int r \<and> code_at s i0 r \<and> stands_at s r (seg keyword ks ke)"
proof (induction s keyword ks ke i st rule: scanLoopDefault.induct)
  case (1 s keyword ks ke i st)
  show ?case
  proof (cases "scanByteDefault s i st")
    case (Skip n st')
    have eq: "scanLoopDefault s keyword ks ke i st = scanLoopDefault s keyword ks ke (i + max 1 n) st'"
      using 1(4) Skip by (subst scanLoopDefault.simps) simp
    have lt: "i + max 1 n < length s"
      using 1(3) unfolding eq by (rule contrapos_np) (subst scanLoopDefault.simps, simp)
    show ?thesis
      using 1(1) [OF 1(4) Skip _ lt scan_inv_skip [OF 1(5,4) Skip lt] 1(6,7)] 1(3) unfolding eq by simp
  next
    case (Byte st')
    note b = scan_inv_byte [OF 1(5,4) Byte]
    show ?thesis
    proof (cases "keywordHereDefault s i keyword ks ke st'")
      case True
      have "scanLoopDefault s keyword ks ke i st = int i"
        using 1(4) Byte True by (subst scanLoopDefault.simps) simp
      moreover note keywordHereDefault_stands [OF True 1(4,6,7)]
      moreover have "code_at s i0 i"
        using calculation(2) b 1(4) unfolding code_at_def by (auto simp: countBrackets_depths)
      ultimately show ?thesis by blast
    next
      case False
      have eq: "scanLoopDefault s keyword ks ke i st = scanLoopDefault s keyword ks ke (i + 1) st'"
        using 1(4) Byte False by (subst scanLoopDefault.simps) simp
      have lt: "i + 1 < length s"
        using 1(3) unfolding eq by (rule contrapos_np) (subst scanLoopDefault.simps, simp)
      show ?thesis
        using 1(2) [OF 1(4) Byte False _ lt _ 1(6,7)] 1(3) b unfolding eq by blast
    qed
  qed
qed

lemma skipSpacesBack_bounds: "start \<le> n \<Longrightarrow> start \<le> skipSpacesBack s start n \<and> skipSpacesBack s start n \<le> n"
  by (induction s start n rule: skipSpacesBack.induct) auto

lemma trimKeywordWSBounds_le:
  "trimKeywordWSBounds w = (a, b) \<Longrightarrow> a \<le> b \<and> b \<le> length w"
  using skipSpaces_le [of 0 "length w" w] skipSpacesBack_bounds [of "skipSpaces w 0 (length w)" "length w" w]
  by (auto simp: trimKeywordWSBounds_def Let_def)

lemma trimmed_seg: "trimKeywordWSBounds w = (a, b) \<Longrightarrow> trimmed w = seg w a b"
  by (simp add: trimmed_def seg_def)

text \<open>
  Claim C8. A keyword is only found in code: an index that the search for a keyword returns lies at or behind
  the start, the text from the start up to it consists of code bytes and complete literals, quoted
  identifiers and comments (an independent grammar, \<open>code_run\<close>), the byte itself is code outside of all
  parentheses and brackets, and there the trimmed keyword stands as a whole word up to case and blanks.
\<close>

theorem found_keyword_is_code:
  assumes "keywordIndexFromDefault s keyword frm \<noteq> -1"
  shows "\<exists>i. keywordIndexFromDefault s keyword frm = int i \<and> frm \<le> int i
    \<and> code_at s (nat (max 0 frm)) i \<and> stands_at s i (trimmed keyword)"
proof -
  obtain ks ke where t: "trimKeywordWSBounds keyword = (ks, ke)" by fastforce
  note b = trimKeywordWSBounds_le [OF t]
  let ?i0 = "nat (max 0 frm)"
  have lt: "?i0 < length s" and eq: "keywordIndexFromDefault s keyword frm = scanLoopDefault s keyword ks ke ?i0 startScan"
    using assms by (auto simp: keywordIndexFromDefault_def t split: if_splits)
  have inv: "scan_inv s ?i0 ?i0 startScan"
    using run_start [of s ?i0] by (simp add: scan_inv_def neutral_def flags_def startScan_def)
  have "keywordIndexFromDefault s keyword frm = int r \<Longrightarrow> frm \<le> int r" for r
    using keywordIndexFromDefault_ge [OF assms] by simp
  with scanLoopDefault_code [OF _ lt inv _ b [THEN conjunct2], of ks] b assms eq trimmed_seg [OF t]
  show ?thesis by fastforce
qed

definition "literal_query = ''RETURN 'no MATCH here' AS a, (MATCH) /* MATCH */ match''"

theorem found_keyword_is_code_witness:
  shows "keywordIndexFromDefault literal_query '' MATCH '' 3 = 49
    \<and> (\<exists>i. keywordIndexFromDefault literal_query '' MATCH '' 3 = int i \<and> 3 \<le> int i
        \<and> code_at literal_query (nat (max 0 3)) i \<and> stands_at literal_query i (trimmed '' MATCH ''))"
proof -
  have "keywordIndexFromDefault literal_query '' MATCH '' 3 = 49" by code_simp
  with found_keyword_is_code [of literal_query "'' MATCH ''" 3] show ?thesis by simp
qed


section \<open>Two words\<close>

text \<open>The default scan does not look at the braces.\<close>

definition erase :: "scan_state \<Rightarrow> scan_state" where
  "erase st = st\<lparr>braceDepth := 0\<rparr>"

fun erase_action :: "scan_action \<Rightarrow> scan_action" where
  "erase_action (Skip n st) = Skip n (erase st)"
| "erase_action (Byte st) = Byte (erase st)"

lemma erase_simps [simp]:
  "inSingleQuote (erase st) = inSingleQuote st" "inDoubleQuote (erase st) = inDoubleQuote st"
  "inBacktick (erase st) = inBacktick st" "inLineComment (erase st) = inLineComment st"
  "inBlockComment (erase st) = inBlockComment st" "parenDepth (erase st) = parenDepth st"
  "bracketDepth (erase st) = bracketDepth st" "erase (erase st) = erase st"
  "erase ((erase st)\<lparr>inSingleQuote := x\<rparr>) = erase (st\<lparr>inSingleQuote := x\<rparr>)"
  "erase ((erase st)\<lparr>inDoubleQuote := x\<rparr>) = erase (st\<lparr>inDoubleQuote := x\<rparr>)"
  "erase ((erase st)\<lparr>inBacktick := x\<rparr>) = erase (st\<lparr>inBacktick := x\<rparr>)"
  "erase ((erase st)\<lparr>inLineComment := x\<rparr>) = erase (st\<lparr>inLineComment := x\<rparr>)"
  "erase ((erase st)\<lparr>inBlockComment := x\<rparr>) = erase (st\<lparr>inBlockComment := x\<rparr>)"
  "erase (countBrackets c (erase st)) = erase (countBrackets c st)"
  by (simp_all add: erase_def countBrackets_def)

lemma erase_step: "erase_action (scanByteDefault s i (erase st)) = erase_action (scanByteDefault s i st)"
  unfolding scanByteDefault_def Let_def
  by (simp only: if_distrib [of erase_action] if_distrib [of "Skip _"] if_distrib [of erase] erase_action.simps erase_simps)

lemma scanLoopDefault_erase:
  "erase st = erase st2 \<Longrightarrow> scanLoopDefault s keyword ks ke i st = scanLoopDefault s keyword ks ke i st2"
proof (induction s keyword ks ke i st arbitrary: st2 rule: scanLoopDefault.induct)
  case (1 s keyword ks ke i st)
  have act: "erase_action (scanByteDefault s i st) = erase_action (scanByteDefault s i st2)"
    using erase_step [of s i st] erase_step [of s i st2] 1(3) by metis
  show ?case
  proof (cases "i < length s")
    case False
    then show ?thesis by (simp add: scanLoopDefault.simps)
  next
    case True
    show ?thesis
    proof (cases "scanByteDefault s i st")
      case (Skip n st')
      then obtain st2' where two: "scanByteDefault s i st2 = Skip n st2'" "erase st' = erase st2'"
        using act by (cases "scanByteDefault s i st2") auto
      show ?thesis
        using 1(1) [OF True Skip two(2)] True Skip two(1) by (subst (1 2) scanLoopDefault.simps) simp
    next
      case (Byte st')
      then obtain st2' where two: "scanByteDefault s i st2 = Byte st2'" "erase st' = erase st2'"
        using act by (cases "scanByteDefault s i st2") auto
      have here: "keywordHereDefault s i keyword ks ke st' = keywordHereDefault s i keyword ks ke st2'"
        using two(2) by (metis erase_simps(6,7) keywordHereDefault_def)
      show ?thesis
        using 1(2) [OF True Byte _ two(2)] True Byte two(1) here by (subst (1 2) scanLoopDefault.simps) simp
    qed
  qed
qed

lemma byte_neutral:
  assumes "scanByteDefault s i st = Byte st'"
  shows "neutral st"
proof (rule ccontr)
  assume "\<not> neutral st"
  with assms show False
    by (auto simp: scanByteDefault_def Let_def neutral_def flags_def split: if_split_asm)
qed

lemma fresh_again:
  assumes "scanByteDefault s i st = Byte st'" "parenDepth st' = 0" "bracketDepth st' = 0"
  shows "erase st' = erase startScan"
proof -
  have "neutral st'"
    using byte_neutral [OF assms(1)] neutral_byte [OF byte_neutral [OF assms(1)] assms(1)]
    by (simp add: countBrackets_depths)
  then show ?thesis
    using assms(2,3) by (cases st') (simp add: erase_def startScan_def neutral_def flags_def)
qed

text \<open>The two words as one keyword.\<close>

definition plain_word :: "string \<Rightarrow> bool" where
  "plain_word w \<longleftrightarrow> w \<noteq> [] \<and> \<not> isASCIISpace (hd w) \<and> \<not> isASCIISpace (List.last w)"

lemma skipSpaces_stop: "j < n \<Longrightarrow> \<not> isASCIISpace (s ! n) \<Longrightarrow> n < m \<Longrightarrow> skipSpaces s j m = skipSpaces s j (Suc n)"
proof (induction s j m rule: skipSpaces.induct)
  case (1 s j n')
  show ?case
  proof (cases "isASCIISpace (s ! j)")
    case True
    show ?thesis
    proof (cases "Suc j = n")
      case False
      then have "skipSpaces s (j + 1) n' = skipSpaces s (j + 1) (Suc n)" using 1 True by simp
      then show ?thesis using True 1(2,4) by (subst (1 2) skipSpaces.simps) simp
    next
      case eq: True
      have "skipSpaces s (j + 1) m = j + 1" for m using 1(3) eq by (subst skipSpaces.simps) simp
      then show ?thesis using True 1(2,4) by (subst (1 2) skipSpaces.simps) simp
    qed
  next
    case False
    then show ?thesis by (subst (1 2) skipSpaces.simps) simp
  qed
qed

lemma skipSpaces_cong:
  "n \<le> length s \<Longrightarrow> j \<le> n \<Longrightarrow> skipSpaces (s @ r) j n = skipSpaces s j n"
proof (induction s j n rule: skipSpaces.induct)
  case (1 s j n)
  show ?case
  proof (cases "j < n \<and> isASCIISpace (s ! j)")
    case True
    then have "(s @ r) ! j = s ! j" using 1(2) by (simp add: nth_append)
    then show ?thesis using 1 True by (subst (1 2) skipSpaces.simps) simp
  next
    case False
    then show ?thesis using 1(2) by (subst (1 2) skipSpaces.simps) (auto simp: nth_append)
  qed
qed

lemma match_space:
  "k < ke \<Longrightarrow> isASCIISpace (w ! k) \<Longrightarrow> keywordMatchFrom s j w k ke =
     (if length s \<le> j \<or> \<not> isASCIISpace (s ! j) then None
      else keywordMatchFrom s (skipSpaces s j (length s)) w (skipSpaces w k ke) ke)"
  by (subst keywordMatchFrom.simps) simp

lemma match_char:
  "k < ke \<Longrightarrow> \<not> isASCIISpace (w ! k) \<Longrightarrow> keywordMatchFrom s j w k ke =
     (if length s \<le> j \<or> asciiUpper (s ! j) \<noteq> asciiUpper (w ! k) then None
      else keywordMatchFrom s (j + 1) w (k + 1) ke)"
  by (subst keywordMatchFrom.simps) simp

lemma match_first:
  assumes a: "plain_word a"
  shows "k \<le> length a \<Longrightarrow> j \<le> length s \<Longrightarrow> keywordMatchFrom s j (a @ CHR '' '' # b) k (length a + 1 + length b) =
    (case keywordMatchFrom s j a k (length a) of
       None \<Rightarrow> None
     | Some j' \<Rightarrow> keywordMatchFrom s j' (a @ CHR '' '' # b) (length a) (length a + 1 + length b))"
proof (induction "length a - k" arbitrary: j k rule: less_induct)
  case less
  let ?kw = "a @ CHR '' '' # b" and ?ke = "length a + 1 + length b"
  show ?case
  proof (cases "k = length a")
    case True
    then have "keywordMatchFrom s j a k (length a) = Some j" by (subst keywordMatchFrom.simps) simp
    then show ?thesis using True by simp
  next
    case False
    then have k: "k < length a" "k < ?ke" and nth: "?kw ! k = a ! k" using less by (auto simp: nth_append)
    show ?thesis
    proof (cases "isASCIISpace (a ! k)")
      case sp: True
      let ?k = "skipSpaces a k (length a)"
      have lst: "\<not> isASCIISpace (a ! (length a - 1))" using a List.last_conv_nth [of a] by (auto simp: plain_word_def)
      have kl: "k < length a - 1" using k sp lst by (metis Suc_pred' diff_Suc_1 less_antisym less_nat_zero_code neq0_conv)
      have la: "Suc (length a - 1) = length a" using k by simp
      have "skipSpaces ?kw k ?ke = skipSpaces ?kw k (Suc (length a - 1))"
        using kl lst k by (intro skipSpaces_stop) (auto simp: nth_append)
      also have "\<dots> = ?k" using k skipSpaces_cong [of "length a" a k] unfolding la by simp
      finally have ks: "skipSpaces ?kw k ?ke = ?k" .
      have kk: "k < ?k \<and> ?k \<le> length a" using skipSpaces_moves [of k "length a" a] k sp by simp
      have "skipSpaces s j (length s) \<le> length s" using skipSpaces_le less(3) by blast
      then show ?thesis
        using less(1) [of ?k "skipSpaces s j (length s)"] kk k sp nth ks
          match_space [of k ?ke ?kw s j] match_space [of k "length a" a s j] by auto
    next
      case nsp: False
      then show ?thesis
        using less(1) [of "k + 1" "j + 1"] k nth
          match_char [of k ?ke ?kw s j] match_char [of k "length a" a s j] by auto
    qed
  qed
qed

lemma skipSpaces_shift:
  "k \<le> n \<Longrightarrow> skipSpaces (p @ b) (length p + k) (length p + n) = length p + skipSpaces b k n"
proof (induction b k n rule: skipSpaces.induct)
  case (1 b k n)
  then show ?case
    by (subst (1 2) skipSpaces.simps) simp
qed

lemma match_second:
  "keywordMatchFrom s j (p @ b) (length p + k) (length p + ke) = keywordMatchFrom s j b k ke"
proof (induction s j b k ke rule: keywordMatchFrom.induct)
  case (1 s j b k ke)
  show ?case
    by (subst (1 2) keywordMatchFrom.simps) (use 1 in \<open>auto simp: skipSpaces_shift\<close>)
qed


lemma match_joined:
  assumes a: "plain_word a" and b: "plain_word b" and j: "j \<le> length s"
  shows "keywordMatchFrom s j (a @ CHR '' '' # b) 0 (length a + 1 + length b) =
    (case keywordMatchFrom s j a 0 (length a) of
       None \<Rightarrow> None
     | Some j' \<Rightarrow> if length s \<le> j' \<or> \<not> isASCIISpace (s ! j') then None
         else keywordMatchFrom s (skipSpaces s j' (length s)) b 0 (length b))"
proof -
  let ?kw = "a @ CHR '' '' # b" and ?ke = "length a + 1 + length b"
  have sp: "isASCIISpace (?kw ! length a)" by (simp add: isASCIISpace_def)
  have nsp: "\<not> isASCIISpace (?kw ! (length a + 1))"
    using b by (auto simp: plain_word_def nth_append hd_conv_nth)
  have "skipSpaces ?kw (length a) ?ke = skipSpaces ?kw (length a + 1) ?ke"
    using sp by (subst skipSpaces.simps) simp
  also have "\<dots> = length a + 1"
    using nsp by (subst skipSpaces.simps) simp
  finally have ks: "skipSpaces ?kw (length a) ?ke = length a + 1" .
  have snd_word: "keywordMatchFrom s j' ?kw (length a + 1) ?ke = keywordMatchFrom s j' b 0 (length b)" for j'
    using match_second [of s j' "a @ '' ''" b 0 "length b"] by (simp add: algebra_simps)
  show ?thesis
    unfolding match_first [OF a le0 j]
    using match_space [of "length a" ?ke ?kw s] sp ks snd_word
    by (auto split: option.split)
qed

lemma here_joined:
  assumes a: "plain_word a" and b: "plain_word b" and i: "i < length s"
  shows "keywordHereDefault s i (a @ CHR '' '' # b) 0 (length a + 1 + length b) st \<longleftrightarrow>
    keywordHereDefault s i a 0 (length a) st \<and> twoWordsAt s i a b"
proof -
  have first: "(a @ CHR '' '' # b) ! 0 = a ! 0" using a by (simp add: plain_word_def nth_append)
  have bound: "isASCIISpace (s ! j') \<Longrightarrow> keywordRightBoundaryOK s j' keywordBoundaryWord" for j'
    by (auto simp: keywordRightBoundaryOK_def isASCIISpace_def isIdentByte_def Let_def)
  show ?thesis
    using first bound i
    unfolding keywordHereDefault_def twoWordsAt_def keywordMatchAt_def match_joined [OF a b less_imp_le [OF i]]
    by (auto split: option.split)
qed

lemma scan_joined:
  "plain_word a \<Longrightarrow> plain_word b \<Longrightarrow>
   scanLoopDefault s (a @ CHR '' '' # b) 0 (length a + 1 + length b) i st =
     (let r = scanLoopDefault s a 0 (length a) i st
      in if r = -1 then -1
         else if twoWordsAt s (nat r) a b then r
         else scanLoopDefault s (a @ CHR '' '' # b) 0 (length a + 1 + length b) (nat r + 1) startScan)"
proof (induction "length s - i" arbitrary: i st rule: less_induct)
  case less
  let ?J = "\<lambda>i st. scanLoopDefault s (a @ CHR '' '' # b) 0 (length a + 1 + length b) i st"
  let ?A = "\<lambda>i st. scanLoopDefault s a 0 (length a) i st"
  show ?case
  proof (cases "i < length s")
    case False
    then show ?thesis by (simp add: scanLoopDefault.simps)
  next
    case i: True
    show ?thesis
    proof (cases "scanByteDefault s i st")
      case (Skip n st')
      have "?J i st = ?J (i + max 1 n) st'" "?A i st = ?A (i + max 1 n) st'"
        using i Skip by (subst scanLoopDefault.simps, simp)+
      then show ?thesis using less(1) [of "i + max 1 n" st'] i less(2,3) by simp
    next
      case (Byte st')
      note here = here_joined [OF less(2,3) i, of st']
      show ?thesis
      proof (cases "keywordHereDefault s i a 0 (length a) st'")
        case True
        have A: "?A i st = int i" using i Byte True by (subst scanLoopDefault.simps) simp
        show ?thesis
        proof (cases "twoWordsAt s i a b")
          case two: True
          then have "?J i st = int i" using i Byte True here by (subst scanLoopDefault.simps) simp
          then show ?thesis using A two by simp
        next
          case False
          then have "?J i st = ?J (i + 1) st'" using i Byte here by (subst scanLoopDefault.simps) simp
          moreover have "erase st' = erase startScan"
            using True by (intro fresh_again [OF Byte]) (auto simp: keywordHereDefault_def)
          ultimately have "?J i st = ?J (i + 1) startScan" using scanLoopDefault_erase by metis
          then show ?thesis using A False by simp
        qed
      next
        case False
        have "?J i st = ?J (i + 1) st'" "?A i st = ?A (i + 1) st'"
          using i Byte False here by (subst scanLoopDefault.simps, simp)+
        then show ?thesis using less(1) [of "i + 1" st'] i less(2,3) by simp
      qed
    qed
  qed
qed

lemma skipSpacesBack_stop:
  "start < skipSpacesBack s start n \<Longrightarrow> \<not> isASCIISpace (s ! (skipSpacesBack s start n - 1))"
  by (induction s start n rule: skipSpacesBack.induct) (auto split: if_split_asm)

lemma trim_plain: "plain_word w \<Longrightarrow> trimKeywordWSBounds w = (0, length w)"
proof -
  assume w: "plain_word w"
  have "skipSpaces w 0 (length w) = 0"
    using w hd_conv_nth [of w] by (subst skipSpaces.simps) (auto simp: plain_word_def)
  moreover have "skipSpacesBack w 0 (length w) = length w"
    using w List.last_conv_nth [of w] by (cases "length w") (auto simp: plain_word_def)
  ultimately show ?thesis by (simp add: trimKeywordWSBounds_def)
qed

lemma trimmed_plain: "trimmed w \<noteq> [] \<Longrightarrow> plain_word (trimmed w)"
proof -
  assume ne: "trimmed w \<noteq> []"
  obtain p q where t: "trimKeywordWSBounds w = (p, q)" by fastforce
  have pq: "p = skipSpaces w 0 (length w)" "q = skipSpacesBack w p (length w)"
    using t by (auto simp: trimKeywordWSBounds_def Let_def)
  have b: "p \<le> q" "q \<le> length w" using trimKeywordWSBounds_le [OF t] by auto
  have eq: "trimmed w = seg w p q" by (rule trimmed_seg [OF t])
  have lt: "p < q" using ne eq b by (cases "p = q") auto
  have "\<not> isASCIISpace (w ! p)"
    using skipSpaces_blanks [of 0 "length w" w] lt b unfolding pq(1) by auto
  moreover have "\<not> isASCIISpace (w ! (q - 1))" using skipSpacesBack_stop [of p w "length w"] lt pq(2) by simp
  moreover have "hd (seg w p q) = w ! p" "List.last (seg w p q) = w ! (q - 1)"
    using seg_hd [of p q w] seg_snoc [of p "q - 1" w] lt b by auto
  ultimately show ?thesis using ne eq by (simp add: plain_word_def)
qed

lemma plain_joined: "plain_word a \<Longrightarrow> plain_word b \<Longrightarrow> plain_word (a @ CHR '' '' # b)"
  by (simp add: plain_word_def)

lemma index_plain:
  "plain_word w \<Longrightarrow> keywordIndexFromDefault s w (int i) =
     (if i < length s then scanLoopDefault s w 0 (length w) i startScan else -1)"
  by (auto simp: keywordIndexFromDefault_def trim_plain plain_word_def)

lemma twoWordsFrom_joined:
  "plain_word a \<Longrightarrow> plain_word b \<Longrightarrow>
   twoWordsFrom s a b i = keywordIndexFromDefault s (a @ CHR '' '' # b) (int i)"
proof (induction "length s - i" arbitrary: i rule: less_induct)
  case less
  let ?r = "keywordIndexFromDefault s a (int i)" and ?w = "a @ CHR '' '' # b"
  show ?case
  proof (cases "i < length s")
    case False
    then have "?r = -1" using index_plain [OF less(2)] by simp
    then have "twoWordsFrom s a b i = -1" by (subst twoWordsFrom.simps) simp
    then show ?thesis using False index_plain [OF plain_joined [OF less(2,3)]] by simp
  next
    case True
    have step: "twoWordsFrom s a b i =
        (if ?r = -1 then -1 else if twoWordsAt s (nat ?r) a b then ?r else twoWordsFrom s a b (nat ?r + 1))"
      by (subst twoWordsFrom.simps) (simp add: Let_def)
    have joined: "keywordIndexFromDefault s ?w (int i) =
        (if ?r = -1 then -1 else if twoWordsAt s (nat ?r) a b then ?r
         else scanLoopDefault s ?w 0 (length a + 1 + length b) (nat ?r + 1) startScan)"
      using True scan_joined [OF less(2,3), of s i startScan]
      by (simp add: index_plain [OF plain_joined [OF less(2,3)]] index_plain [OF less(2)] Let_def)
    show ?thesis
    proof (cases "?r = -1 \<or> twoWordsAt s (nat ?r) a b")
      case True
      then show ?thesis using step joined by auto
    next
      case False
      have ge: "i \<le> nat ?r" using keywordIndexFromDefault_ge [of s a "int i"] False by linarith
      have "twoWordsFrom s a b (nat ?r + 1) = keywordIndexFromDefault s ?w (int (nat ?r + 1))"
        using less(1) [of "nat ?r + 1"] less(2,3) ge True by simp
      also have "\<dots> = scanLoopDefault s ?w 0 (length a + 1 + length b) (nat ?r + 1) startScan"
        unfolding index_plain [OF plain_joined [OF less(2,3)]] by (auto simp: scanLoopDefault.simps)
      finally show ?thesis using step joined False by simp
    qed
  qed
qed

text \<open>
  Claim C36. The search for two words is the search for one keyword: \<^verbatim>\<open>findMultiWordKeywordIndex\<close>, which scans for
  the first word and starts the scan again behind each place where the second word does not follow, returns
  the index of one scan for the two words joined by a blank. So starting again loses nothing of the state of
  the scan, and no combination is found inside a literal, a comment or brackets, or missed behind one.
\<close>

theorem two_words_are_one_keyword:
  shows "findMultiWordKeywordIndex s firstWord secondWord =
    (if trimmed firstWord = [] \<or> trimmed secondWord = [] then -1
     else keywordIndexFromDefault s (trimmed firstWord @ '' '' @ trimmed secondWord) 0)"
  using twoWordsFrom_joined [OF trimmed_plain trimmed_plain, of firstWord secondWord s 0]
  by (simp add: findMultiWordKeywordIndex_def)

end
