(* ===== verification/CyCache.thy ===== *)
theory CyCache
  imports KwScan "HOL-Library.AList" "HOL-Library.List_Lexorder" "HOL-Library.Char_ord"
begin

text \<open>
  The caches of query results and plans of the Cypher executor (\<^verbatim>\<open>pkg/cypher/cache.go\<close>): their keys, the
  labels a query depends on, and the caches as states with their operations.

  A Go map is an association list with distinct keys. A list of \<^verbatim>\<open>container/list\<close> with the map from keys
  to its elements is a list of keys, the most recent first: the code changes both together. Metrics
  and counters are left out, \<^verbatim>\<open>hits\<close>, \<^verbatim>\<open>misses\<close> and the like are kept where the code returns them.
\<close>

section \<open>Keys\<close>

text \<open>\<^verbatim>\<open>hash/fnv\<close> and \<^verbatim>\<open>strconv\<close> of the standard library: 64-bit FNV-1a, and a number to base 36.\<close>

definition fnv1a_byte :: "u64 \<Rightarrow> byte \<Rightarrow> u64" where
  "fnv1a_byte h b = (h XOR ucast b) * 1099511628211"

definition fnv1a :: "byte list \<Rightarrow> u64" where
  "fnv1a bs = foldl fnv1a_byte 14695981039346656037 bs"

definition bytes_of :: "string \<Rightarrow> byte list" where
  "bytes_of cs = map (\<lambda>c. of_char c) cs"

definition digit36 :: "nat \<Rightarrow> char" where
  "digit36 d = (if d < 10 then char_of (48 + d) else char_of (87 + d))"

fun base36 :: "nat \<Rightarrow> string" where
  "base36 n = (if n < 36 then [digit36 n] else base36 (n div 36) @ [digit36 (n mod 36)])"

declare base36.simps [simp del]

definition is_space :: "char \<Rightarrow> bool" where
  "is_space c \<longleftrightarrow> c \<in> {CHR '' '', CHR 0x09, CHR 0x0A, CHR 0x0D, CHR 0x0C, CHR 0x0B}"

text \<open>\<^verbatim>\<open>strings.TrimSpace\<close> on ASCII text.\<close>

definition TrimSpace :: "string \<Rightarrow> string" where
  "TrimSpace s = rev (dropWhile is_space (rev (dropWhile is_space s)))"

fun collapse :: "bool \<Rightarrow> string \<Rightarrow> string" where
  "collapse prevSpace [] = []"
| "collapse prevSpace (c # cs) =
     (if is_space c then (if prevSpace then collapse True cs else CHR '' '' # collapse True cs)
      else c # collapse False cs)"

definition normalizeQuery :: "string \<Rightarrow> string" where
  "normalizeQuery cypher = TrimSpace (collapse True cypher)"

lemma length_TrimSpace: "length (TrimSpace s) \<le> length s"
  by (metis TrimSpace_def dual_order.trans length_dropWhile_le length_rev)

function trimDelimiters :: "string \<Rightarrow> string" where
  "trimDelimiters s =
     (if s \<noteq> [] \<and> List.last s = CHR '';'' then trimDelimiters (TrimSpace (butlast s)) else s)"
  by pat_completeness auto
termination
  by (relation "measure length") (auto intro!: le_less_trans [OF length_TrimSpace])

declare trimDelimiters.simps [simp del]

definition trimTrailingStatementDelimiters :: "string \<Rightarrow> string" where
  "trimTrailingStatementDelimiters query = trimDelimiters (TrimSpace query)"

text \<open>Parameters with their values printed by \<^verbatim>\<open>fmt\<close>'s \<open>%v\<close>, which the parameter \<open>fmtv\<close> gives, in the
  order of the keys.\<close>

type_synonym 'v params = "(string \<times> 'v) list"

definition hashSortedParams :: "('v \<Rightarrow> string) \<Rightarrow> 'v params \<Rightarrow> byte list" where
  "hashSortedParams fmtv params =
     concat (map (\<lambda>k. bytes_of k @ [0] @ bytes_of (case map_of params k of None \<Rightarrow> [] | Some v \<Rightarrow> fmtv v) @ [0])
       (sort (remdups (map fst params))))"

definition cacheKeyFNV :: "('v \<Rightarrow> string) \<Rightarrow> string \<Rightarrow> 'v params \<Rightarrow> string" where
  "cacheKeyFNV fmtv cypher params =
     base36 (unat (fnv1a (bytes_of (normalizeQuery (trimTrailingStatementDelimiters cypher))
       @ (if params = [] then [] else hashSortedParams fmtv params))))"

text \<open>The key of the plain cache takes the text as it is.\<close>

definition cacheKey :: "('v \<Rightarrow> string) \<Rightarrow> string \<Rightarrow> 'v params \<Rightarrow> string" where
  "cacheKey fmtv cypher params =
     base36 (unat (fnv1a (bytes_of cypher @ (if params = [] then [] else hashSortedParams fmtv params))))"

section \<open>The labels of a query\<close>

definition is_upper :: "char \<Rightarrow> bool" where
  "is_upper c \<longleftrightarrow> 65 \<le> (of_char c :: nat) \<and> (of_char c :: nat) \<le> 90"

definition is_word :: "char \<Rightarrow> bool" where
  "is_word c \<longleftrightarrow> is_upper c \<or> 97 \<le> (of_char c :: nat) \<and> (of_char c :: nat) \<le> 122
     \<or> 48 \<le> (of_char c :: nat) \<and> (of_char c :: nat) \<le> 57 \<or> c = CHR ''_''"

definition is_blank :: "char \<Rightarrow> bool" where
  "is_blank c \<longleftrightarrow> c \<in> {CHR '' '', CHR 0x09, CHR 0x0A, CHR 0x0D}"

definition addLabel :: "string \<Rightarrow> string list \<Rightarrow> string list" where
  "addLabel label labels =
     (if label \<in> set [''RETURN'', ''WHERE'', ''AND'', ''OR''] \<or> label \<in> set labels then labels else labels @ [label])"

text \<open>The alternatives after a label, as in \<^verbatim>\<open>:TYPE_A|TYPE_B\<close>: the labels and the text behind them.\<close>

definition skipColon :: "string \<Rightarrow> string" where
  "skipColon cs = (if cs \<noteq> [] \<and> hd cs = CHR '':'' then tl cs else cs)"

definition afterBar :: "string \<Rightarrow> string option" where
  "afterBar cs =
     (let bar = dropWhile is_blank cs
      in if bar = [] \<or> hd bar \<noteq> CHR ''|'' then None
         else let r = skipColon (dropWhile is_blank (tl bar))
              in if r \<noteq> [] \<and> is_upper (hd r) then Some r else None)"

lemma afterBar_shorter:
  assumes "afterBar cs = Some rest"
  shows "length rest < length cs"
proof -
  let ?bar = "dropWhile is_blank cs"
  have bar: "?bar \<noteq> []" "rest = skipColon (dropWhile is_blank (tl ?bar))"
    using assms by (auto simp: afterBar_def Let_def split: if_splits)
  have "length rest \<le> length (tl ?bar)"
    using length_dropWhile_le [of is_blank "tl ?bar"] bar(2) by (auto simp: skipColon_def)
  also have "\<dots> < length ?bar" using bar(1) by simp
  also have "\<dots> \<le> length cs" by (rule length_dropWhile_le)
  finally show ?thesis .
qed

function scanAlternatives :: "string \<Rightarrow> string list \<Rightarrow> string list \<times> string" where
  "scanAlternatives cs labels =
     (case afterBar cs of
        None \<Rightarrow> (labels, cs)
      | Some rest \<Rightarrow> scanAlternatives (dropWhile is_word rest) (addLabel (takeWhile is_word rest) labels))"
  by pat_completeness auto
termination
  by (relation "measure (\<lambda>(cs, labels). length cs)")
    (auto intro: le_less_trans [OF length_dropWhile_le] afterBar_shorter)

declare scanAlternatives.simps [simp del]

lemma scanAlternatives_shorter: "length (snd (scanAlternatives cs labels)) \<le> length cs"
proof (induction cs labels rule: scanAlternatives.induct)
  case (1 cs labels)
  show ?case
  proof (cases "afterBar cs")
    case None
    then show ?thesis by (subst scanAlternatives.simps) simp
  next
    case (Some rest)
    then show ?thesis
      using 1 [OF Some] afterBar_shorter [OF Some] length_dropWhile_le [of is_word rest]
      by (subst scanAlternatives.simps) simp
  qed
qed

text \<open>One pass over the text, with the character before the current one and the state of the quotes.\<close>

function extractFrom :: "char option \<Rightarrow> bool \<Rightarrow> bool \<Rightarrow> string \<Rightarrow> string list \<Rightarrow> string list" where
  "extractFrom prev inSingle inDouble [] labels = labels"
| "extractFrom prev inSingle inDouble (c # cs) labels =
     (if c = CHR 0x27 \<and> \<not> inDouble \<and> prev \<noteq> Some (CHR 0x5C) then extractFrom (Some c) (\<not> inSingle) inDouble cs labels
      else if c = CHR 0x22 \<and> \<not> inSingle \<and> prev \<noteq> Some (CHR 0x5C) then extractFrom (Some c) inSingle (\<not> inDouble) cs labels
      else if inSingle \<or> inDouble \<or> c \<noteq> CHR '':'' then extractFrom (Some c) inSingle inDouble cs labels
      else (case cs of
        d # ds \<Rightarrow>
          if is_upper d then
            (let (labels', rest) = scanAlternatives (dropWhile is_word cs) (addLabel (takeWhile is_word cs) labels)
             in extractFrom (Some (cs ! (length cs - length rest - 1))) inSingle inDouble rest labels')
          else extractFrom (Some c) inSingle inDouble cs labels
      | [] \<Rightarrow> labels))"
  by pat_completeness auto
termination
proof (relation "measure (\<lambda>(prev, s, d, cs, labels). length cs)", goal_cases)
  case (5 prev inSingle inDouble c cs labels d ds x labels' rest)
  then show ?case
    using scanAlternatives_shorter [of "dropWhile is_word cs" "addLabel (takeWhile is_word cs) labels"]
      length_dropWhile_le [of is_word cs]
    by (metis (no_types, lifting) case_prod_conv in_measure le_imp_less_Suc le_trans length_Cons snd_conv)
qed auto

declare extractFrom.simps [simp del]

definition extractLabelsFromQuery :: "string \<Rightarrow> string list" where
  "extractLabelsFromQuery cypher = extractFrom None False False cypher []"

section \<open>The analysis of a query\<close>

text \<open>\<^verbatim>\<open>analyzeQuery\<close> of \<^verbatim>\<open>query_info.go\<close>: keywords found as whole words. \<^verbatim>\<open>strings.ToUpper\<close> is that of
  ASCII text.\<close>

definition ToUpper :: "string \<Rightarrow> string" where
  "ToUpper s = map (\<lambda>c. let n = of_char c :: nat in if 97 \<le> n \<and> n \<le> 122 then char_of (n - 32) else c) s"

definition hasPrefix :: "string \<Rightarrow> string \<Rightarrow> bool" where
  "hasPrefix s pre \<longleftrightarrow> take (length pre) s = pre"

fun containsText :: "string \<Rightarrow> string \<Rightarrow> bool" where
  "containsText [] sub \<longleftrightarrow> sub = []"
| "containsText (c # cs) sub \<longleftrightarrow> hasPrefix (c # cs) sub \<or> containsText cs sub"

text \<open>The search of \<^verbatim>\<open>containsKeyword\<close> from a position on, with the character before it.\<close>

fun keywordFrom :: "char option \<Rightarrow> string \<Rightarrow> string \<Rightarrow> bool" where
  "keywordFrom prev [] keyword \<longleftrightarrow> False"
| "keywordFrom prev (c # cs) keyword \<longleftrightarrow>
     (let rest = drop (length keyword) (c # cs)
      in hasPrefix (c # cs) keyword \<and> (case prev of None \<Rightarrow> True | Some p \<Rightarrow> \<not> is_word p)
         \<and> (rest = [] \<or> \<not> is_word (hd rest)))
     \<or> keywordFrom (Some c) cs keyword"

definition containsKeyword :: "string \<Rightarrow> string \<Rightarrow> bool" where
  "containsKeyword upper keyword = keywordFrom None upper keyword"

datatype clause_type =
  ClauseUnknown | ClauseMatch | ClauseCreate | ClauseMerge | ClauseDelete | ClauseSet | ClauseRemove | ClauseReturn
  | ClauseWith | ClauseUnwind | ClauseCall | ClauseForeach | ClauseLoadCSV | ClauseShow | ClauseDrop
  | ClauseOptionalMatch

text \<open>\<^verbatim>\<open>QueryInfo\<close>, without the parsed tree that is built on demand.\<close>

record query_info =
  HasMatch :: bool
  HasOptionalMatch :: bool
  HasCreate :: bool
  HasMerge :: bool
  HasDelete :: bool
  HasDetachDelete :: bool
  HasSet :: bool
  HasRemove :: bool
  HasReturn :: bool
  HasWith :: bool
  HasUnwind :: bool
  HasCall :: bool
  HasExplain :: bool
  HasProfile :: bool
  HasShow :: bool
  HasSchema :: bool
  HasUnion :: bool
  HasForeach :: bool
  HasLoadCSV :: bool
  HasShortestPath :: bool
  HasOrderBy :: bool
  HasLimit :: bool
  HasSkip :: bool
  HasAggregation :: bool
  FirstClause :: clause_type
  IsReadOnly :: bool
  IsWriteQuery :: bool
  IsSchemaQuery :: bool
  IsCompoundQuery :: bool
  Labels :: "string list"
  NormalizedQuery :: string

definition dropPrefix :: "string \<Rightarrow> string \<Rightarrow> string" where
  "dropPrefix pre s = TrimSpace (drop (length pre) s)"

definition detectFirstClause :: "string \<Rightarrow> clause_type" where
  "detectFirstClause upper =
     (let u = TrimSpace upper;
          q = (if hasPrefix u ''EXPLAIN '' then dropPrefix ''EXPLAIN '' u
               else if hasPrefix u ''PROFILE '' then dropPrefix ''PROFILE '' u else u)
      in if hasPrefix q ''MATCH'' then ClauseMatch
         else if hasPrefix q ''OPTIONAL MATCH'' then ClauseOptionalMatch
         else if hasPrefix q ''CREATE'' then ClauseCreate
         else if hasPrefix q ''MERGE'' then ClauseMerge
         else if hasPrefix q ''DELETE'' \<or> hasPrefix q ''DETACH DELETE'' then ClauseDelete
         else if hasPrefix q ''RETURN'' then ClauseReturn
         else if hasPrefix q ''WITH'' then ClauseWith
         else if hasPrefix q ''UNWIND'' then ClauseUnwind
         else if hasPrefix q ''CALL'' then ClauseCall
         else if hasPrefix q ''LOAD CSV'' then ClauseLoadCSV
         else if hasPrefix q ''SHOW'' then ClauseShow
         else ClauseUnknown)"

definition analyzeQuery :: "string \<Rightarrow> query_info" where
  "analyzeQuery cypher =
     (let upper = ToUpper cypher; has = containsKeyword upper; holds = containsText upper;
          schema = list_ex has [''CREATE INDEX'', ''CREATE RANGE INDEX'', ''CREATE FULLTEXT INDEX'',
             ''CREATE VECTOR INDEX'', ''DROP INDEX'', ''CREATE CONSTRAINT'', ''DROP CONSTRAINT''];
          isWrite = (has ''CREATE'' \<or> has ''MERGE'' \<or> has ''DELETE'' \<or> has ''SET'' \<or> has ''REMOVE'');
          isDbCall = (has ''CALL'' \<and> holds ''CALL DB.'');
          isShow = hasPrefix upper ''SHOW''
      in \<lparr>HasMatch = has ''MATCH'', HasOptionalMatch = has ''OPTIONAL MATCH'', HasCreate = has ''CREATE'',
          HasMerge = has ''MERGE'', HasDelete = has ''DELETE'', HasDetachDelete = has ''DETACH DELETE'',
          HasSet = has ''SET'', HasRemove = has ''REMOVE'', HasReturn = has ''RETURN'', HasWith = has ''WITH'',
          HasUnwind = has ''UNWIND'', HasCall = has ''CALL'', HasExplain = hasPrefix upper ''EXPLAIN'',
          HasProfile = hasPrefix upper ''PROFILE'', HasShow = isShow, HasSchema = schema,
          HasUnion = has ''UNION'', HasForeach = has ''FOREACH'', HasLoadCSV = has ''LOAD CSV'',
          HasShortestPath = (holds ''SHORTESTPATH'' \<or> holds ''ALLSHORTESTPATHS''),
          HasOrderBy = has ''ORDER BY'', HasLimit = has ''LIMIT'', HasSkip = has ''SKIP'',
          HasAggregation = list_ex holds [''COUNT('', ''SUM('', ''AVG('', ''MIN('', ''MAX('', ''COLLECT(''],
          FirstClause = detectFirstClause upper,
          IsReadOnly = (\<not> isWrite \<and> \<not> schema \<and> (has ''MATCH'' \<or> has ''RETURN'' \<or> isDbCall \<or> isShow)),
          IsWriteQuery = isWrite, IsSchemaQuery = (schema \<or> isShow),
          IsCompoundQuery = (length (filter id [has ''MATCH'', has ''CREATE'', has ''MERGE'', has ''DELETE'']) > 1),
          Labels = extractLabelsFromQuery cypher, NormalizedQuery = []\<rparr>)"

definition IsRetrySafeMergeCommitQuery :: "query_info option \<Rightarrow> bool" where
  "IsRetrySafeMergeCommitQuery info =
     (case info of
        None \<Rightarrow> False
      | Some i \<Rightarrow> HasMerge i
          \<and> \<not> (HasCreate i \<or> HasDelete i \<or> HasDetachDelete i \<or> HasRemove i \<or> HasForeach i \<or> HasLoadCSV i
               \<or> HasCall i \<or> HasSchema i \<or> HasShow i \<or> HasUnion i))"

text \<open>The analyzer with its two caches, by the exact text and by the normalized one. A full cache drops a key
  that the order of the Go map picks, the parameter \<open>pick\<close>.\<close>

record query_analyzer =
  qaCache :: "(string \<times> query_info) list"
  qaRaw :: "(string \<times> query_info) list"
  qaMaxSize :: int

definition NewQueryAnalyzer :: "int \<Rightarrow> query_analyzer" where
  "NewQueryAnalyzer maxSize = \<lparr>qaCache = [], qaRaw = [], qaMaxSize = (if maxSize \<le> 0 then 1000 else maxSize)\<rparr>"

definition dropOne ::
  "((string \<times> query_info) list \<Rightarrow> string) \<Rightarrow> int \<Rightarrow> (string \<times> query_info) list \<Rightarrow> (string \<times> query_info) list" where
  "dropOne pick maxSize m = (if int (length m) \<ge> maxSize \<and> m \<noteq> [] then AList.delete (pick m) m else m)"

definition Analyze ::
  "((string \<times> query_info) list \<Rightarrow> string) \<Rightarrow> string \<Rightarrow> query_analyzer \<Rightarrow> query_info \<times> query_analyzer" where
  "Analyze pick cypher qa =
     (case map_of (qaRaw qa) cypher of
        Some info \<Rightarrow> (info, qa)
      | None \<Rightarrow>
          (let normalized = normalizeQuery cypher
           in case map_of (qaCache qa) normalized of
                Some info \<Rightarrow> (info, qa)
              | None \<Rightarrow>
                  (let info = (analyzeQuery cypher)\<lparr>NormalizedQuery := normalized\<rparr>
                   in (info, qa\<lparr>qaCache := AList.update normalized info (dropOne pick (qaMaxSize qa) (qaCache qa)),
                                qaRaw := AList.update cypher info (dropOne pick (qaMaxSize qa) (qaRaw qa))\<rparr>))))"

definition ClearCache :: "query_analyzer \<Rightarrow> query_analyzer" where
  "ClearCache qa = qa\<lparr>qaCache := [], qaRaw := []\<rparr>"

text \<open>The expression \<^verbatim>\<open>(?is)\bcache\s*:\s*true\b\<close> that lets an inference be cached.\<close>

definition is_blank_re :: "char \<Rightarrow> bool" where
  "is_blank_re c \<longleftrightarrow> c \<in> {CHR '' '', CHR 0x09, CHR 0x0A, CHR 0x0C, CHR 0x0D}"

definition inferCacheTrueAt :: "string \<Rightarrow> bool" where
  "inferCacheTrueAt upper \<longleftrightarrow>
     hasPrefix upper ''CACHE''
     \<and> (let r = dropWhile is_blank_re (drop 5 upper)
        in r \<noteq> [] \<and> hd r = CHR '':''
           \<and> (let v = dropWhile is_blank_re (tl r)
              in hasPrefix v ''TRUE'' \<and> (length v = 4 \<or> \<not> is_word (v ! 4))))"

fun inferCacheTrueFrom :: "char option \<Rightarrow> string \<Rightarrow> bool" where
  "inferCacheTrueFrom prev [] \<longleftrightarrow> False"
| "inferCacheTrueFrom prev (c # cs) \<longleftrightarrow>
     (case prev of None \<Rightarrow> True | Some p \<Rightarrow> \<not> is_word p) \<and> inferCacheTrueAt (c # cs)
     \<or> inferCacheTrueFrom (Some c) cs"

definition inferCacheTrueRe :: "string \<Rightarrow> bool" where
  "inferCacheTrueRe cypher = inferCacheTrueFrom None (ToUpper cypher)"

definition isCacheableReadQuery :: "string \<Rightarrow> bool" where
  "isCacheableReadQuery cypher =
     (let upper = ToUpper cypher
      in if hasPrefix (TrimSpace upper) ''SHOW PROCEDURES'' then False
         else if list_ex (containsText upper) [''RAND('', ''RANDOMUUID('', ''DATETIME('', ''DATE('', ''TIME('', ''TIMESTAMP('']
         then False
         else if containsText upper ''CALL DB.INFER('' then inferCacheTrueRe cypher
         else True)"

section \<open>The result cache with labels\<close>

record 'r smart_entry =
  seResult :: 'r
  seTimestamp :: go_time
  seTtl :: int
  seLabels :: "string list"

record 'r smart_cache =
  scCache :: "(string \<times> 'r smart_entry) list"
  scLabelIndex :: "(string \<times> string list) list"
  scLru :: "string list"
  scMaxSize :: int
  scHits :: int
  scMisses :: int
  scSmartInvals :: int
  scFullInvals :: int

definition NewSmartQueryCache :: "int \<Rightarrow> 'r smart_cache" where
  "NewSmartQueryCache maxSize =
     \<lparr>scCache = [], scLabelIndex = [], scLru = [], scMaxSize = maxSize, scHits = 0, scMisses = 0,
      scSmartInvals = 0, scFullInvals = 0\<rparr>"

definition dropLabel :: "string \<Rightarrow> string \<Rightarrow> (string \<times> string list) list \<Rightarrow> (string \<times> string list) list" where
  "dropLabel key label idx =
     (case map_of idx label of
        None \<Rightarrow> idx
      | Some keys \<Rightarrow>
          (let ks = removeAll key keys
           in if ks = [] then AList.delete label idx else AList.update label ks idx))"

definition addToLabel :: "string \<Rightarrow> string \<Rightarrow> (string \<times> string list) list \<Rightarrow> (string \<times> string list) list" where
  "addToLabel key label idx =
     AList.update label (List.insert key (case map_of idx label of None \<Rightarrow> [] | Some keys \<Rightarrow> keys)) idx"

definition removeEntry :: "string \<Rightarrow> 'r smart_cache \<Rightarrow> 'r smart_cache" where
  "removeEntry key sc =
     (case map_of (scCache sc) key of
        None \<Rightarrow> sc
      | Some entry \<Rightarrow>
          sc\<lparr>scLabelIndex := fold (dropLabel key) (seLabels entry) (scLabelIndex sc),
             scLru := removeAll key (scLru sc), scCache := AList.delete key (scCache sc)\<rparr>)"

definition evictOldestLRU :: "'r smart_cache \<Rightarrow> 'r smart_cache" where
  "evictOldestLRU sc = (if scLru sc = [] then sc else removeEntry (List.last (scLru sc)) sc)"

text \<open>The loop of \<^verbatim>\<open>PutWithLabels\<close> that makes room: \<open>None\<close> when it does not end.\<close>

partial_function (option) makeRoom :: "'r smart_cache \<Rightarrow> 'r smart_cache option" where
  "makeRoom sc = (if int (length (scLru sc)) \<ge> scMaxSize sc then makeRoom (evictOldestLRU sc) else Some sc)"

text \<open>\<^verbatim>\<open>Get\<close> looks the key up under one lock and finishes under another.\<close>

definition getFinish :: "go_time \<Rightarrow> string \<Rightarrow> 'r smart_entry option \<Rightarrow> 'r smart_cache \<Rightarrow> 'r option \<times> 'r smart_cache" where
  "getFinish now key cached sc =
     (case cached of
        None \<Rightarrow> (None, sc\<lparr>scMisses := scMisses sc + 1\<rparr>)
      | Some entry \<Rightarrow>
          if now - seTimestamp entry > seTtl entry
          then (None, (removeEntry key sc)\<lparr>scMisses := scMisses sc + 1\<rparr>)
          else (Some (seResult entry),
                sc\<lparr>scLru := (if key \<in> set (scLru sc) then key # removeAll key (scLru sc) else scLru sc),
                   scHits := scHits sc + 1\<rparr>))"

definition smartGet :: "go_time \<Rightarrow> string \<Rightarrow> 'r smart_cache \<Rightarrow> 'r option \<times> 'r smart_cache" where
  "smartGet now key sc = getFinish now key (map_of (scCache sc) key) sc"

definition PutWithLabels ::
  "go_time \<Rightarrow> string \<Rightarrow> 'r \<Rightarrow> int \<Rightarrow> string list \<Rightarrow> 'r smart_cache \<Rightarrow> 'r smart_cache option" where
  "PutWithLabels now key result ttl labels sc =
     map_option (\<lambda>sc.
        sc\<lparr>scCache := AList.update key \<lparr>seResult = result, seTimestamp = now, seTtl = ttl, seLabels = labels\<rparr> (scCache sc),
           scLru := key # scLru sc, scLabelIndex := fold (addToLabel key) labels (scLabelIndex sc)\<rparr>)
       (makeRoom (removeEntry key sc))"

definition keysOfLabel :: "'r smart_cache \<Rightarrow> string \<Rightarrow> string list" where
  "keysOfLabel sc label = (case map_of (scLabelIndex sc) label of None \<Rightarrow> [] | Some keys \<Rightarrow> keys)"

definition keysToRemove :: "string list \<Rightarrow> 'r smart_cache \<Rightarrow> string list" where
  "keysToRemove labels sc =
     remdups (concat (map (keysOfLabel sc) labels)
       @ map fst (filter (\<lambda>(key, entry). seLabels entry = []) (scCache sc)))"

definition InvalidateLabels :: "string list \<Rightarrow> 'r smart_cache \<Rightarrow> 'r smart_cache" where
  "InvalidateLabels labels sc =
     (let keys = keysToRemove labels sc; sc1 = fold removeEntry keys sc
      in if keys = [] then sc1 else sc1\<lparr>scSmartInvals := scSmartInvals sc1 + 1\<rparr>)"

definition Invalidate :: "'r smart_cache \<Rightarrow> 'r smart_cache" where
  "Invalidate sc = sc\<lparr>scCache := [], scLabelIndex := [], scLru := [], scFullInvals := scFullInvals sc + 1\<rparr>"

section \<open>The plain result cache\<close>

record 'r query_cache =
  qcCache :: "(string \<times> 'r \<times> go_time \<times> int) list"
  qcLru :: "string list"
  qcMaxSize :: int
  qcHits :: int
  qcMisses :: int

definition NewQueryCache :: "int \<Rightarrow> 'r query_cache" where
  "NewQueryCache maxSize = \<lparr>qcCache = [], qcLru = [], qcMaxSize = maxSize, qcHits = 0, qcMisses = 0\<rparr>"

definition moveToFront :: "string \<Rightarrow> string list \<Rightarrow> string list" where
  "moveToFront key lru = key # remove1 key lru"

definition queryGet :: "go_time \<Rightarrow> string \<Rightarrow> 'r query_cache \<Rightarrow> 'r option \<times> 'r query_cache" where
  "queryGet now key qc =
     (case map_of (qcCache qc) key of
        None \<Rightarrow> (None, qc\<lparr>qcMisses := qcMisses qc + 1\<rparr>)
      | Some (result, timestamp, ttl) \<Rightarrow>
          if now - timestamp > ttl
          then (None, qc\<lparr>qcCache := AList.delete key (qcCache qc), qcMisses := qcMisses qc + 1\<rparr>)
          else (Some result, qc\<lparr>qcLru := moveToFront key (qcLru qc), qcHits := qcHits qc + 1\<rparr>))"

definition evictOldest :: "'r query_cache \<Rightarrow> 'r query_cache" where
  "evictOldest qc =
     (if qcLru qc = [] then qc
      else qc\<lparr>qcCache := AList.delete (List.last (qcLru qc)) (qcCache qc), qcLru := butlast (qcLru qc)\<rparr>)"

definition queryPut :: "go_time \<Rightarrow> string \<Rightarrow> 'r \<Rightarrow> int \<Rightarrow> 'r query_cache \<Rightarrow> 'r query_cache" where
  "queryPut now key result ttl qc =
     (let qc1 = (if int (length (qcCache qc)) \<ge> qcMaxSize qc \<and> map_of (qcCache qc) key = None then evictOldest qc else qc)
      in qc1\<lparr>qcCache := AList.update key (result, now, ttl) (qcCache qc1), qcLru := moveToFront key (qcLru qc1)\<rparr>)"

definition queryInvalidate :: "'r query_cache \<Rightarrow> 'r query_cache" where
  "queryInvalidate qc = qc\<lparr>qcCache := [], qcLru := []\<rparr>"

section \<open>The plan cache\<close>

record 'p plan_cache =
  pcCache :: "(string \<times> 'p) list"
  pcLru :: "string list"
  pcMaxSize :: int
  pcHits :: int
  pcMisses :: int

definition NewQueryPlanCache :: "int \<Rightarrow> 'p plan_cache" where
  "NewQueryPlanCache maxSize =
     \<lparr>pcCache = [], pcLru = [], pcMaxSize = (if maxSize \<le> 0 then 500 else maxSize), pcHits = 0, pcMisses = 0\<rparr>"

definition planGet :: "string \<Rightarrow> 'p plan_cache \<Rightarrow> 'p option \<times> 'p plan_cache" where
  "planGet cypher pc =
     (let key = normalizeQuery cypher
      in case map_of (pcCache pc) key of
           None \<Rightarrow> (None, pc\<lparr>pcMisses := pcMisses pc + 1\<rparr>)
         | Some plan \<Rightarrow>
             (Some plan, pc\<lparr>pcLru := (if key \<in> set (pcLru pc) then key # removeAll key (pcLru pc) else pcLru pc),
                            pcHits := pcHits pc + 1\<rparr>))"

function planRoom :: "'p plan_cache \<Rightarrow> 'p plan_cache" where
  "planRoom pc =
     (if int (length (pcLru pc)) \<ge> pcMaxSize pc \<and> pcLru pc \<noteq> []
      then planRoom (pc\<lparr>pcCache := AList.delete (List.last (pcLru pc)) (pcCache pc), pcLru := butlast (pcLru pc)\<rparr>)
      else pc)"
  by pat_completeness auto
termination
  by (relation "measure (\<lambda>pc. length (pcLru pc))") auto

declare planRoom.simps [simp del]

definition planPut :: "string \<Rightarrow> 'p \<Rightarrow> 'p plan_cache \<Rightarrow> 'p plan_cache" where
  "planPut cypher plan pc =
     (let key = normalizeQuery cypher
      in if map_of (pcCache pc) key \<noteq> None then pc
         else let pc1 = planRoom pc
              in pc1\<lparr>pcCache := AList.update key plan (pcCache pc1), pcLru := key # pcLru pc1\<rparr>)"

definition planClear :: "'p plan_cache \<Rightarrow> 'p plan_cache" where
  "planClear pc = pc\<lparr>pcCache := [], pcLru := []\<rparr>"

section \<open>The executor's use of the result cache\<close>

text \<open>The part of \<^verbatim>\<open>Execute\<close> from the analysis on. \<open>run\<close> executes a query on the data as they are: its result
  is \<open>None\<close> when it fails, and what it did to the data stays. (The query inside of a \<open>PROFILE\<close> is executed by a
  call of \<^verbatim>\<open>Execute\<close> of its own, which is part of \<open>run\<close>.) \<open>limit\<close> cuts a result to the rows that the database's
  limits allow. \<open>EXPLAIN\<close>, \<open>PROFILE\<close>, the statements of an explicit transaction (\<open>inTx\<close>) and the commands on
  databases return before the limit is applied and the cache is filled or invalidated. \<open>info\<close> is the analysis
  of the query, \<open>now\<close> and \<open>later\<close> are the times of the lookup and of the store.\<close>

definition returnsEarly :: "query_info \<Rightarrow> bool \<Rightarrow> string \<Rightarrow> bool" where
  "returnsEarly info inTx cypher \<longleftrightarrow> HasExplain info \<or> HasProfile info \<or> inTx \<or> isSystemCommandNoGraph cypher"

definition invalidateAfter :: "query_info \<Rightarrow> 'r smart_cache \<Rightarrow> 'r smart_cache" where
  "invalidateAfter info sc =
     (if IsWriteQuery info
      then if Labels info \<noteq> [] then InvalidateLabels (Labels info) sc else Invalidate sc
      else sc)"

definition executeCached ::
  "('v \<Rightarrow> string) \<Rightarrow> (string \<Rightarrow> 'v params \<Rightarrow> 'd \<Rightarrow> 'r option \<times> 'd) \<Rightarrow> ('r \<Rightarrow> 'r) \<Rightarrow> int \<Rightarrow> go_time \<Rightarrow> go_time
   \<Rightarrow> query_info \<Rightarrow> bool \<Rightarrow> string \<Rightarrow> 'v params \<Rightarrow> 'r smart_cache \<times> 'd \<Rightarrow> ('r option \<times> 'r smart_cache \<times> 'd) option" where
  "executeCached fmtv run limit ttl now later info inTx cypher params st =
     (let (sc, data) = st; key = cacheKeyFNV fmtv cypher params;
          cacheable = (IsReadOnly info \<and> isCacheableReadQuery cypher);
          (hit, sc1) = (if cacheable then smartGet now key sc else (None, sc))
      in case hit of
           Some result \<Rightarrow> Some (Some result, sc1, data)
         | None \<Rightarrow>
             (let (result, data') = run cypher params data
              in if returnsEarly info inTx cypher then Some (result, sc1, data')
                 else let limited = map_option limit result
                      in map_option (\<lambda>sc2. (limited, invalidateAfter info sc2, data'))
                    (case limited of
                       Some r \<Rightarrow>
                         if cacheable then PutWithLabels later key r ttl (extractLabelsFromQuery cypher) sc1 else Some sc1
                     | None \<Rightarrow> Some sc1)))"

definition InvalidateEntityTokens :: "string list \<Rightarrow> 'r smart_cache \<Rightarrow> 'r smart_cache" where
  "InvalidateEntityTokens tokens sc = (if tokens \<noteq> [] then InvalidateLabels tokens sc else sc)"


section \<open>Statements and explicit transactions\<close>

text \<open>The state of an executor as far as the cache is concerned: the cache, the analyzer with its own caches, the
  committed data, and the data of the open transaction (\<^verbatim>\<open>handleBegin\<close>, \<^verbatim>\<open>handleCommit\<close> and
  \<^verbatim>\<open>handleRollback\<close> of \<^verbatim>\<open>transaction.go\<close>). What surrounds an executor is one record: how parameters
  print, the execution and the limit of results, the storage's decision about a commit (\<open>None\<close> is a conflict),
  the time to live, and which key a full cache of the analyzer drops. The status rows of transaction
  statements and the records they write to the log are left out.\<close>

datatype 'v statement = BeginTx | CommitTx | RollbackTx | Query go_time go_time string "'v params"

record ('v, 'r, 'd) surroundings =
  suPrint :: "'v \<Rightarrow> string"
  suRun :: "string \<Rightarrow> 'v params \<Rightarrow> 'd \<Rightarrow> 'r option \<times> 'd"
  suLimit :: "'r \<Rightarrow> 'r"
  suCommit :: "'d \<Rightarrow> 'd \<Rightarrow> 'd option"
  suTtl :: int
  suPick :: "(string \<times> query_info) list \<Rightarrow> string"

record ('r, 'd) executor =
  exCache :: "'r smart_cache"
  exAnalyzer :: query_analyzer
  exData :: 'd
  exTx :: "'d option"

definition handleBegin :: "('r, 'd) executor \<Rightarrow> ('r, 'd) executor" where
  "handleBegin ex = (case exTx ex of Some _ \<Rightarrow> ex | None \<Rightarrow> ex\<lparr>exTx := Some (exData ex)\<rparr>)"

definition handleCommit :: "('d \<Rightarrow> 'd \<Rightarrow> 'd option) \<Rightarrow> ('r, 'd) executor \<Rightarrow> ('r, 'd) executor" where
  "handleCommit commit ex =
     (case exTx ex of
        None \<Rightarrow> ex
      | Some t \<Rightarrow>
          (case commit (exData ex) t of
             None \<Rightarrow> ex\<lparr>exTx := None\<rparr>
           | Some d \<Rightarrow> ex\<lparr>exData := d, exTx := None\<rparr>))"

definition handleRollback :: "('r, 'd) executor \<Rightarrow> ('r, 'd) executor" where
  "handleRollback ex = ex\<lparr>exTx := None\<rparr>"

fun executeStatement ::
  "('v, 'r, 'd) surroundings \<Rightarrow> 'v statement \<Rightarrow> ('r, 'd) executor \<Rightarrow> ('r option \<times> ('r, 'd) executor) option" where
  "executeStatement su BeginTx ex = Some (None, handleBegin ex)"
| "executeStatement su CommitTx ex = Some (None, handleCommit (suCommit su) ex)"
| "executeStatement su RollbackTx ex = Some (None, handleRollback ex)"
| "executeStatement su (Query now later cypher params) ex =
     (let (info, analyzer) = Analyze (suPick su) cypher (exAnalyzer ex); ex1 = ex\<lparr>exAnalyzer := analyzer\<rparr>
      in map_option (\<lambda>(r, sc, d).
           (r, if exTx ex1 = None then ex1\<lparr>exCache := sc, exData := d\<rparr> else ex1\<lparr>exCache := sc, exTx := Some d\<rparr>))
         (executeCached (suPrint su) (suRun su) (suLimit su) (suTtl su) now later info (exTx ex1 \<noteq> None) cypher params
            (exCache ex1, case exTx ex1 of None \<Rightarrow> exData ex1 | Some t \<Rightarrow> t)))"

fun executeAll ::
  "('v, 'r, 'd) surroundings \<Rightarrow> 'v statement list \<Rightarrow> ('r, 'd) executor
   \<Rightarrow> ('r option list \<times> ('r, 'd) executor) option" where
  "executeAll su [] ex = Some ([], ex)"
| "executeAll su (s # ss) ex =
     (case executeStatement su s ex of
        None \<Rightarrow> None
      | Some (r, ex1) \<Rightarrow> map_option (\<lambda>(rs, ex2). (r # rs, ex2)) (executeAll su ss ex1))"

definition newExecutor :: "int \<Rightarrow> 'd \<Rightarrow> ('r, 'd) executor" where
  "newExecutor maxEntries data =
     \<lparr>exCache = NewSmartQueryCache maxEntries, exAnalyzer = NewQueryAnalyzer 1000, exData = data, exTx = None\<rparr>"

end
