(* ===== verification/CyCacheProps.thy ===== *)
theory CyCacheProps
  imports CyCache
begin

text \<open>
  What the caches of the Cypher executor promise: the result cache with labels keeps its indexes consistent
  and refines a map, what it answers is current as far as the invalidations say, and its room is bounded.
  Then the limits: what shares a key, and which writes leave a stale result behind.
\<close>

section \<open>A cache as an implementation of a map\<close>

fun run_ops :: "('op \<Rightarrow> 's \<Rightarrow> 's option) \<Rightarrow> 'op list \<Rightarrow> 's \<Rightarrow> 's option" where
  "run_ops step [] s = Some s"
| "run_ops step (x # xs) s = (case step x s of None \<Rightarrow> None | Some s' \<Rightarrow> run_ops step xs s')"

text \<open>A cache may forget: each operation returns, keeps the invariant, and what is there afterwards is in the
  map of the abstract operation.\<close>

locale lossy_cache =
  fixes inv :: "'s \<Rightarrow> bool"
    and entries :: "'s \<Rightarrow> 'k \<rightharpoonup> 'e"
    and step :: "'op \<Rightarrow> 's \<Rightarrow> 's option"
    and spec :: "'op \<Rightarrow> ('k \<rightharpoonup> 'e) \<Rightarrow> ('k \<rightharpoonup> 'e)"
  assumes step_ok: "inv s \<Longrightarrow> \<exists>s'. step x s = Some s' \<and> inv s' \<and> entries s' \<subseteq>\<^sub>m spec x (entries s)"
    and spec_mono: "m \<subseteq>\<^sub>m m' \<Longrightarrow> spec x m \<subseteq>\<^sub>m spec x m'"
begin

lemma run_ok:
  "inv s \<Longrightarrow> entries s \<subseteq>\<^sub>m m \<Longrightarrow>
   \<exists>s'. run_ops step xs s = Some s' \<and> inv s' \<and> entries s' \<subseteq>\<^sub>m fold spec xs m"
proof (induction xs arbitrary: s m)
  case (Cons x xs)
  obtain s1 where s1: "step x s = Some s1" "inv s1" "entries s1 \<subseteq>\<^sub>m spec x (entries s)"
    using step_ok [OF Cons(2)] by blast
  have "entries s1 \<subseteq>\<^sub>m spec x m" using s1(3) spec_mono [OF Cons(3)] map_le_trans by blast
  from Cons(1) [OF s1(2) this] show ?case using s1(1) by simp
qed simp

lemma holds_entry:
  assumes "inv s" "entries s = Map.empty" "run_ops step xs s = Some s'" "entries s' k = Some e"
  shows "fold spec xs Map.empty k = Some e"
proof -
  from run_ok [OF assms(1), of Map.empty xs] assms(2,3) have "entries s' \<subseteq>\<^sub>m fold spec xs Map.empty" by simp
  then show ?thesis using assms(4) by (auto simp: map_le_def dom_def)
qed

end

section \<open>The label index\<close>

definition idx_set :: "(string \<times> string list) list \<Rightarrow> string \<Rightarrow> string set" where
  "idx_set idx label = (case map_of idx label of None \<Rightarrow> {} | Some keys \<Rightarrow> set keys)"

definition idx_ok :: "(string \<times> string list) list \<Rightarrow> bool" where
  "idx_ok idx \<longleftrightarrow> distinct (map fst idx) \<and> (\<forall>label keys. map_of idx label = Some keys \<longrightarrow> keys \<noteq> [] \<and> distinct keys)"

lemma keysOfLabel_set: "set (keysOfLabel sc label) = idx_set (scLabelIndex sc) label"
  by (simp add: keysOfLabel_def idx_set_def split: option.split)

lemma idx_ok_empty [simp]: "idx_ok []"
  by (simp add: idx_ok_def)

lemma idx_set_empty [simp]: "idx_set [] label = {}"
  by (simp add: idx_set_def)

lemma dropLabel_map:
  "map_of (dropLabel key l idx) =
     (case map_of idx l of
        None \<Rightarrow> map_of idx
      | Some keys \<Rightarrow> (map_of idx)(l := (if removeAll key keys = [] then None else Some (removeAll key keys))))"
  by (simp add: dropLabel_def Let_def delete_conv' update_conv' split: option.split)

lemma keep_nonempty: "(case (if ks = [] then None else Some ks) of None \<Rightarrow> {} | Some keys \<Rightarrow> set keys) = set ks"
  by simp

lemma dropLabel_set: "idx_set (dropLabel key l idx) l' = (if l' = l then idx_set idx l' - {key} else idx_set idx l')"
proof (cases "map_of idx l")
  case None
  then show ?thesis by (simp add: idx_set_def dropLabel_map)
next
  case (Some keys)
  then have m: "map_of (dropLabel key l idx) =
      (map_of idx)(l := (if removeAll key keys = [] then None else Some (removeAll key keys)))"
    by (simp only: dropLabel_map option.case)
  show ?thesis
  proof (cases "l' = l")
    case True
    have "idx_set (dropLabel key l idx) l = set (removeAll key keys)"
      by (simp only: idx_set_def m fun_upd_same keep_nonempty)
    then show ?thesis using True Some by (simp add: idx_set_def)
  qed (simp add: idx_set_def m)
qed

lemma dropLabel_ok:
  assumes "idx_ok idx"
  shows "idx_ok (dropLabel key l idx)"
proof (cases "map_of idx l")
  case None
  then show ?thesis using assms by (simp add: dropLabel_def)
next
  case (Some keys)
  have "distinct (map fst (dropLabel key l idx))"
    using assms by (simp add: dropLabel_def Some Let_def idx_ok_def distinct_delete distinct_update)
  moreover have "ks \<noteq> [] \<and> distinct ks" if ks: "map_of (dropLabel key l idx) label = Some ks" for label ks
  proof (cases "label = l")
    case True
    have "(if removeAll key keys = [] then None else Some (removeAll key keys)) = Some ks"
      using ks unfolding dropLabel_map Some option.case True fun_upd_same .
    then have "ks = removeAll key keys" "ks \<noteq> []" by (auto split: if_split_asm)
    moreover have "distinct keys" using assms Some by (simp add: idx_ok_def)
    ultimately show ?thesis by (simp add: distinct_removeAll)
  next
    case False
    then have "map_of idx label = Some ks" using ks by (simp add: dropLabel_map Some)
    then show ?thesis using assms by (simp add: idx_ok_def)
  qed
  ultimately show ?thesis unfolding idx_ok_def by blast
qed

lemma dropLabels_set:
  "idx_set (fold (dropLabel key) ls idx) l = (if l \<in> set ls then idx_set idx l - {key} else idx_set idx l)"
  by (induction ls arbitrary: idx) (auto simp: dropLabel_set)

lemma dropLabels_ok: "idx_ok idx \<Longrightarrow> idx_ok (fold (dropLabel key) ls idx)"
  by (induction ls arbitrary: idx) (auto simp: dropLabel_ok)

lemma addToLabel_set: "idx_set (addToLabel key l idx) l' = (if l' = l then insert key (idx_set idx l') else idx_set idx l')"
  by (simp add: idx_set_def addToLabel_def update_conv' split: option.split)

lemma addToLabel_ok:
  assumes "idx_ok idx"
  shows "idx_ok (addToLabel key l idx)"
proof -
  let ?keys = "case map_of idx l of None \<Rightarrow> [] | Some keys \<Rightarrow> keys"
  have "distinct ?keys" using assms by (cases "map_of idx l") (auto simp: idx_ok_def)
  then have "distinct (List.insert key ?keys)" "List.insert key ?keys \<noteq> []"
    by (simp, cases "map_of idx l", auto simp: List.insert_def)
  moreover have "map_of (addToLabel key l idx) = (map_of idx)(l \<mapsto> List.insert key ?keys)"
    by (simp add: addToLabel_def update_conv')
  moreover have "distinct (map fst (addToLabel key l idx))"
    using assms by (simp add: addToLabel_def idx_ok_def distinct_update)
  ultimately show ?thesis using assms unfolding idx_ok_def by (simp split: if_split)
qed

lemma addToLabels_set:
  "idx_set (fold (addToLabel key) ls idx) l = (if l \<in> set ls then insert key (idx_set idx l) else idx_set idx l)"
  by (induction ls arbitrary: idx) (auto simp: addToLabel_set)

lemma addToLabels_ok: "idx_ok idx \<Longrightarrow> idx_ok (fold (addToLabel key) ls idx)"
  by (induction ls arbitrary: idx) (auto simp: addToLabel_ok)

section \<open>The invariant of the result cache\<close>

definition held :: "'r smart_cache \<Rightarrow> string \<rightharpoonup> 'r smart_entry" where
  "held sc = map_of (scCache sc)"

definition smart_ok :: "'r smart_cache \<Rightarrow> bool" where
  "smart_ok sc \<longleftrightarrow>
     distinct (map fst (scCache sc)) \<and> distinct (scLru sc) \<and> set (scLru sc) = dom (held sc)
     \<and> idx_ok (scLabelIndex sc)
     \<and> (\<forall>label key. key \<in> idx_set (scLabelIndex sc) label \<longleftrightarrow> (\<exists>e. held sc key = Some e \<and> label \<in> set (seLabels e)))
     \<and> int (length (scLru sc)) \<le> scMaxSize sc"

lemma removeEntry_max [simp]: "scMaxSize (removeEntry key sc) = scMaxSize sc"
  by (simp add: removeEntry_def split: option.split)

lemma removeEntry_ok:
  assumes "smart_ok sc"
  shows "smart_ok (removeEntry key sc) \<and> held (removeEntry key sc) = (held sc)(key := None)
    \<and> scLru (removeEntry key sc) = removeAll key (scLru sc)"
proof (cases "map_of (scCache sc) key")
  case None
  then have "key \<notin> set (scLru sc)" using assms by (auto simp: smart_ok_def held_def)
  then show ?thesis using None assms by (auto simp: removeEntry_def held_def removeAll_id)
next
  case (Some e)
  have eq: "removeEntry key sc =
      sc\<lparr>scLabelIndex := fold (dropLabel key) (seLabels e) (scLabelIndex sc),
         scLru := removeAll key (scLru sc), scCache := AList.delete key (scCache sc)\<rparr>"
    using Some by (simp add: removeEntry_def)
  have held: "held (removeEntry key sc) = (held sc)(key := None)"
    by (simp add: eq held_def delete_conv')
  have "int (length (removeAll key (scLru sc))) \<le> scMaxSize sc"
    using assms length_removeAll_less_eq [of key "scLru sc"] unfolding smart_ok_def by linarith
  moreover have "key' \<in> idx_set (scLabelIndex (removeEntry key sc)) label \<longleftrightarrow>
      (\<exists>e. held (removeEntry key sc) key' = Some e \<and> label \<in> set (seLabels e))" for key' label
    using assms Some [folded held_def] unfolding held by (auto simp: eq dropLabels_set smart_ok_def)
  ultimately have "smart_ok (removeEntry key sc)"
    using assms unfolding smart_ok_def held
    by (auto simp: eq dropLabels_ok distinct_delete distinct_removeAll)
  then show ?thesis using held by (simp add: eq)
qed

lemma removeEntries_ok:
  "smart_ok sc \<Longrightarrow> smart_ok (fold removeEntry keys sc) \<and> held (fold removeEntry keys sc) = (held sc) |` (- set keys)
     \<and> scLru (fold removeEntry keys sc) = filter (\<lambda>k. k \<notin> set keys) (scLru sc) \<and> scMaxSize (fold removeEntry keys sc) = scMaxSize sc"
proof (induction keys arbitrary: sc)
  case Nil
  then show ?case by (simp add: restrict_map_def fun_eq_iff)
next
  case (Cons key keys)
  have "filter (\<lambda>k. k \<notin> set keys) (removeAll key xs) = filter (\<lambda>k. k \<noteq> key \<and> k \<notin> set keys) xs" for xs
    by (induction xs) auto
  then show ?case
    using Cons(1) [of "removeEntry key sc"] removeEntry_ok [OF Cons(2), of key]
    by (auto simp: restrict_map_def fun_eq_iff)
qed


section \<open>Making room and storing\<close>

lemma evictOldestLRU_ok:
  assumes "smart_ok sc" "scLru sc \<noteq> []"
  shows "smart_ok (evictOldestLRU sc) \<and> scLru (evictOldestLRU sc) = butlast (scLru sc)
    \<and> held (evictOldestLRU sc) = (held sc) |` set (butlast (scLru sc)) \<and> scMaxSize (evictOldestLRU sc) = scMaxSize sc"
proof -
  let ?k = "List.last (scLru sc)"
  have split: "scLru sc = butlast (scLru sc) @ [?k]" using assms(2) by simp
  have d: "distinct (scLru sc)" "set (scLru sc) = dom (held sc)" using assms(1) by (auto simp: smart_ok_def)
  have nk: "?k \<notin> set (butlast (scLru sc))" using d(1) by (metis split distinct_append distinct.simps(2) list.set_intros(1) disjoint_iff)
  have r: "removeAll ?k (scLru sc) = butlast (scLru sc)"
    using nk by (subst split) (simp add: removeAll_id)
  have "(held sc)(?k := None) = (held sc) |` set (butlast (scLru sc))"
  proof
    fix k
    have "k \<in> set (butlast (scLru sc)) \<or> k = ?k" if "k \<in> dom (held sc)"
      using that d(2) by (metis Un_iff empty_iff insert_iff list.set(1,2) set_append split)
    then show "((held sc)(?k := None)) k = ((held sc) |` set (butlast (scLru sc))) k"
      using nk by (cases "held sc k") (auto simp: restrict_map_def dom_def)
  qed
  then show ?thesis
    using removeEntry_ok [OF assms(1), of ?k] assms(2) r by (simp add: evictOldestLRU_def)
qed

lemma makeRoom_ok:
  "smart_ok sc \<Longrightarrow> scMaxSize sc > 0 \<Longrightarrow>
   \<exists>sc'. makeRoom sc = Some sc' \<and> smart_ok sc' \<and> scLru sc' = take (nat (scMaxSize sc) - 1) (scLru sc)
     \<and> held sc' = (held sc) |` set (scLru sc') \<and> scMaxSize sc' = scMaxSize sc"
proof (induction "length (scLru sc)" arbitrary: sc rule: less_induct)
  case less
  show ?case
  proof (cases "int (length (scLru sc)) \<ge> scMaxSize sc")
    case False
    then have "makeRoom sc = Some sc" by (subst makeRoom.simps) simp
    moreover have "held sc |` set (scLru sc) = held sc"
      using less(2) by (auto simp: smart_ok_def restrict_map_def fun_eq_iff dom_def)
    moreover have "take (nat (scMaxSize sc) - 1) (scLru sc) = scLru sc" using False by simp
    ultimately show ?thesis using less(2) by simp
  next
    case True
    then have ne: "scLru sc \<noteq> []" using less(3) by auto
    let ?sc = "evictOldestLRU sc"
    note e = evictOldestLRU_ok [OF less(2) ne]
    have "makeRoom sc = makeRoom ?sc" using True by (subst makeRoom.simps) simp
    moreover obtain sc' where sc': "makeRoom ?sc = Some sc'" "smart_ok sc'"
        "scLru sc' = take (nat (scMaxSize sc) - 1) (scLru ?sc)" "held sc' = (held ?sc) |` set (scLru sc')"
        "scMaxSize sc' = scMaxSize sc"
      using less(1) [of ?sc] e less(3) ne by auto
    moreover have "scLru sc' = take (nat (scMaxSize sc) - 1) (scLru sc)"
      using sc'(3) e True less(2,3) by (simp add: take_butlast smart_ok_def)
    moreover have "held sc' = (held sc) |` set (scLru sc')"
      using sc'(3,4) e by (auto simp: restrict_map_def fun_eq_iff dest: in_set_takeD)
    ultimately show ?thesis by simp
  qed
qed

text \<open>A cache for no entries never makes room: the loop does not end.\<close>

lemma makeRoom_never: "makeRoom sc = Some sc' \<Longrightarrow> \<not> (scLru sc = [] \<and> scMaxSize sc \<le> 0)"
proof (rule makeRoom.raw_induct [of "\<lambda>s s'. \<not> (scLru s = [] \<and> scMaxSize s \<le> 0)" sc sc'], goal_cases)
  case (1 f s s')
  then show ?case
    by (cases "int (length (scLru s)) \<ge> scMaxSize s") (auto simp: evictOldestLRU_def)
qed

lemma makeRoom_no_room:
  assumes "maxSize \<le> 0" "sc = NewSmartQueryCache maxSize"
  shows "makeRoom sc = None"
proof (cases "makeRoom sc")
  case (Some s)
  from makeRoom_never [OF Some] assms show ?thesis by (simp add: NewSmartQueryCache_def)
qed

lemma put_ok:
  assumes ok: "smart_ok sc" and room: "scMaxSize sc > 0"
  shows "\<exists>sc'. PutWithLabels now key r ttl labels sc = Some sc' \<and> smart_ok sc'
    \<and> scLru sc' = key # take (nat (scMaxSize sc) - 1) (removeAll key (scLru sc))
    \<and> held sc' = ((held sc) |` set (scLru sc'))(key \<mapsto> \<lparr>seResult = r, seTimestamp = now, seTtl = ttl, seLabels = labels\<rparr>)
    \<and> scMaxSize sc' = scMaxSize sc"
proof -
  let ?e = "\<lparr>seResult = r, seTimestamp = now, seTtl = ttl, seLabels = labels\<rparr>"
  note rm = removeEntry_ok [OF ok, of key]
  obtain s1 where s1: "makeRoom (removeEntry key sc) = Some s1" "smart_ok s1"
      "scLru s1 = take (nat (scMaxSize sc) - 1) (removeAll key (scLru sc))"
      "held s1 = ((held sc)(key := None)) |` set (scLru s1)" "scMaxSize s1 = scMaxSize sc"
    using makeRoom_ok [of "removeEntry key sc"] rm room by auto
  let ?s2 = "s1\<lparr>scCache := AList.update key ?e (scCache s1), scLru := key # scLru s1,
    scLabelIndex := fold (addToLabel key) labels (scLabelIndex s1)\<rparr>"
  have put: "PutWithLabels now key r ttl labels sc = Some ?s2" by (simp add: PutWithLabels_def s1(1))
  have nk: "key \<notin> set (scLru s1)" using s1(3) by (auto dest: in_set_takeD)
  have h: "held ?s2 = (held s1)(key \<mapsto> ?e)" by (simp add: held_def update_conv')
  have "key' \<in> idx_set (scLabelIndex ?s2) label \<longleftrightarrow> (\<exists>e. held ?s2 key' = Some e \<and> label \<in> set (seLabels e))" for key' label
  proof -
    have "key' \<in> idx_set (scLabelIndex s1) label \<longleftrightarrow> (\<exists>e. held s1 key' = Some e \<and> label \<in> set (seLabels e))"
      using s1(2) by (simp add: smart_ok_def)
    moreover have "held s1 key = None" using s1(2) nk by (auto simp: smart_ok_def)
    ultimately show ?thesis unfolding h by (auto simp: addToLabels_set)
  qed
  moreover have "int (length (key # scLru s1)) \<le> scMaxSize sc" using s1(3) room by simp
  ultimately have "smart_ok ?s2"
    using s1(2,5) nk unfolding smart_ok_def h by (auto simp: addToLabels_ok distinct_update)
  moreover have "held ?s2 = ((held sc) |` set (scLru ?s2))(key \<mapsto> ?e)"
    unfolding h s1(4) using nk by (auto simp: restrict_map_def fun_eq_iff)
  ultimately show ?thesis using put s1(3,5) by auto
qed

lemma getFinish_ok:
  assumes "smart_ok sc"
  shows "smart_ok (snd (getFinish now key cached sc)) \<and> held (snd (getFinish now key cached sc)) \<subseteq>\<^sub>m held sc
    \<and> scMaxSize (snd (getFinish now key cached sc)) = scMaxSize sc"
proof -
  have "held (sc\<lparr>scMisses := n\<rparr>) = held sc" "smart_ok (sc\<lparr>scMisses := n\<rparr>) = smart_ok sc" for sc :: "'a smart_cache" and n
    by (simp_all add: held_def smart_ok_def)
  moreover have "held (sc\<lparr>scLru := l, scHits := n\<rparr>) = held sc" "held (sc\<lparr>scHits := n\<rparr>) = held sc" for l n
    by (simp_all add: held_def)
  moreover have "key \<in> set (scLru sc) \<Longrightarrow> int (Suc (length (removeAll key (scLru sc)))) \<le> scMaxSize sc"
    using assms length_removeAll_less [of key "scLru sc"] unfolding smart_ok_def by linarith
  then have "smart_ok (sc\<lparr>scLru := (if key \<in> set (scLru sc) then key # removeAll key (scLru sc) else scLru sc), scHits := n\<rparr>)" for n
    using assms unfolding smart_ok_def by (auto simp: held_def distinct_removeAll)
  moreover have "smart_ok (removeEntry key sc)" "held (removeEntry key sc) \<subseteq>\<^sub>m held sc"
    using removeEntry_ok [OF assms, of key] by (auto simp: map_le_def)
  ultimately show ?thesis
    using assms by (auto simp: getFinish_def split: option.split)
qed

definition drops :: "string list \<Rightarrow> 'r smart_entry \<Rightarrow> bool" where
  "drops labels e \<longleftrightarrow> seLabels e = [] \<or> set labels \<inter> set (seLabels e) \<noteq> {}"

lemma keysToRemove_set:
  assumes "smart_ok sc"
  shows "set (keysToRemove labels sc) = {key. \<exists>e. held sc key = Some e \<and> drops labels e}"
proof -
  have "distinct (map fst (scCache sc))" using assms by (simp add: smart_ok_def)
  then have "fst ` set (filter (\<lambda>(key, e). seLabels e = []) (scCache sc)) = {key. \<exists>e. held sc key = Some e \<and> seLabels e = []}"
    by (force simp: held_def)
  moreover have "(\<Union>l\<in>set labels. idx_set (scLabelIndex sc) l)
      = {key. \<exists>e. held sc key = Some e \<and> set labels \<inter> set (seLabels e) \<noteq> {}}"
    using assms unfolding smart_ok_def by blast
  ultimately show ?thesis
    by (auto simp: keysToRemove_def keysOfLabel_set drops_def)
qed

lemma InvalidateLabels_ok:
  assumes "smart_ok sc"
  shows "smart_ok (InvalidateLabels labels sc)
    \<and> held (InvalidateLabels labels sc) = (\<lambda>k. case held sc k of None \<Rightarrow> None | Some e \<Rightarrow> if drops labels e then None else Some e)
    \<and> scMaxSize (InvalidateLabels labels sc) = scMaxSize sc"
proof -
  let ?keys = "keysToRemove labels sc"
  have count: "held (sc\<lparr>scSmartInvals := n\<rparr>) = held sc" "smart_ok (sc\<lparr>scSmartInvals := n\<rparr>) = smart_ok sc"
    for sc :: "'a smart_cache" and n
    by (simp_all add: held_def smart_ok_def)
  have "(held sc) |` (- set ?keys) = (\<lambda>k. case held sc k of None \<Rightarrow> None | Some e \<Rightarrow> if drops labels e then None else Some e)"
    unfolding keysToRemove_set [OF assms] by (auto simp: restrict_map_def fun_eq_iff split: option.split)
  moreover have "held (InvalidateLabels labels sc) = held (fold removeEntry ?keys sc)"
      "smart_ok (InvalidateLabels labels sc) = smart_ok (fold removeEntry ?keys sc)"
      "scMaxSize (InvalidateLabels labels sc) = scMaxSize (fold removeEntry ?keys sc)"
    by (simp_all add: InvalidateLabels_def Let_def count del: fold.simps)
  ultimately show ?thesis using removeEntries_ok [OF assms, of ?keys] by simp
qed

lemma Invalidate_ok: "smart_ok sc \<Longrightarrow> smart_ok (Invalidate sc) \<and> held (Invalidate sc) = Map.empty"
  by (simp add: Invalidate_def smart_ok_def held_def)

lemma NewSmartQueryCache_ok: "0 \<le> n \<Longrightarrow> smart_ok (NewSmartQueryCache n) \<and> held (NewSmartQueryCache n) = Map.empty"
  by (simp add: NewSmartQueryCache_def smart_ok_def held_def)


section \<open>The cache under any operations\<close>

text \<open>The operations in the order in which they hold the lock. \<open>OpFinish\<close> is the second part of a lookup, with
  whatever the first part has read, at whatever time.\<close>

datatype 'r cache_op =
  OpFinish go_time string "'r smart_entry option" | OpPut go_time string 'r int "string list"
  | OpInvalidateLabels "string list" | OpInvalidate

fun cache_step :: "'r cache_op \<Rightarrow> 'r smart_cache \<Rightarrow> 'r smart_cache option" where
  "cache_step (OpFinish now key cached) sc = Some (snd (getFinish now key cached sc))"
| "cache_step (OpPut now key r ttl labels) sc = PutWithLabels now key r ttl labels sc"
| "cache_step (OpInvalidateLabels labels) sc = Some (InvalidateLabels labels sc)"
| "cache_step OpInvalidate sc = Some (Invalidate sc)"

text \<open>The abstract cache: a map that never runs out of room and never expires.\<close>

fun cache_spec :: "'r cache_op \<Rightarrow> (string \<rightharpoonup> 'r smart_entry) \<Rightarrow> (string \<rightharpoonup> 'r smart_entry)" where
  "cache_spec (OpFinish now key cached) m = m"
| "cache_spec (OpPut now key r ttl labels) m =
     m(key \<mapsto> \<lparr>seResult = r, seTimestamp = now, seTtl = ttl, seLabels = labels\<rparr>)"
| "cache_spec (OpInvalidateLabels labels) m =
     (\<lambda>k. case m k of None \<Rightarrow> None | Some e \<Rightarrow> if drops labels e then None else Some e)"
| "cache_spec OpInvalidate m = Map.empty"

definition sized_ok :: "int \<Rightarrow> 'r smart_cache \<Rightarrow> bool" where
  "sized_ok n sc \<longleftrightarrow> smart_ok sc \<and> scMaxSize sc = n \<and> 0 < n"

lemma restrict_upd_le: "((m |` A)(k \<mapsto> v)) \<subseteq>\<^sub>m m(k \<mapsto> v)"
  by (auto simp: map_le_def restrict_map_def)

lemma cache_step_ok:
  assumes "sized_ok n sc"
  shows "\<exists>sc'. cache_step x sc = Some sc' \<and> sized_ok n sc' \<and> held sc' \<subseteq>\<^sub>m cache_spec x (held sc)"
proof (cases x)
  case (OpFinish now key cached)
  then show ?thesis using getFinish_ok [of sc now key cached] assms by (simp add: sized_ok_def)
next
  case (OpPut now key r ttl labels)
  obtain sc' where "PutWithLabels now key r ttl labels sc = Some sc'" "smart_ok sc'" "scMaxSize sc' = scMaxSize sc"
      "held sc' = ((held sc) |` set (scLru sc'))(key \<mapsto> \<lparr>seResult = r, seTimestamp = now, seTtl = ttl, seLabels = labels\<rparr>)"
    using put_ok [of sc now key r ttl labels] assms by (auto simp: sized_ok_def)
  then show ?thesis using assms restrict_upd_le OpPut by (fastforce simp: sized_ok_def)
next
  case (OpInvalidateLabels labels)
  then show ?thesis using InvalidateLabels_ok [of sc labels] assms by (simp add: sized_ok_def)
next
  case OpInvalidate
  then show ?thesis using Invalidate_ok [of sc] assms by (simp add: sized_ok_def Invalidate_def)
qed

lemma cache_spec_mono: "m \<subseteq>\<^sub>m m' \<Longrightarrow> cache_spec x m \<subseteq>\<^sub>m cache_spec x m'"
proof (cases x)
  case (OpInvalidateLabels labels)
  assume le: "m \<subseteq>\<^sub>m m'"
  have "k \<in> dom m \<Longrightarrow> m k = m' k" for k using le by (simp add: map_le_def)
  then show ?thesis using OpInvalidateLabels by (auto simp: map_le_def dom_def split: option.splits)
qed (auto simp: map_le_def)

interpretation results: lossy_cache "sized_ok n" held cache_step cache_spec for n
  by unfold_locales (use cache_step_ok cache_spec_mono in blast)+

lemma new_sized: "0 < n \<Longrightarrow> sized_ok n (NewSmartQueryCache n) \<and> held (NewSmartQueryCache n) = Map.empty"
  by (simp add: sized_ok_def NewSmartQueryCache_def smart_ok_def held_def)

lemma smart_ok_size: "smart_ok sc \<Longrightarrow> length (scCache sc) = length (scLru sc)"
proof -
  assume ok: "smart_ok sc"
  have "length (scCache sc) = card (set (map fst (scCache sc)))"
    using ok distinct_card [of "map fst (scCache sc)"] by (simp add: smart_ok_def)
  also have "\<dots> = card (set (scLru sc))" using ok by (simp add: smart_ok_def held_def dom_map_of_conv_image_fst)
  also have "\<dots> = length (scLru sc)" using ok distinct_card [of "scLru sc"] by (simp add: smart_ok_def)
  finally show ?thesis .
qed

text \<open>
  Claim C37. The result cache with labels stays consistent and bounded, and its loops end: for a positive
  capacity, every sequence of operations from the empty cache (lookups finishing at any later time with what
  they read, stores, invalidations) returns a cache in which no key is held twice, the list of recent use
  lists exactly the keys held, the index of a label lists exactly the entries with that label and keeps no
  empty set, and at most as many entries are held as the capacity allows.
\<close>

theorem cache_stays_consistent:
  assumes "0 < n"
  shows "\<exists>sc. run_ops cache_step xs (NewSmartQueryCache n) = Some sc \<and> smart_ok sc \<and> int (length (scCache sc)) \<le> n"
proof -
  obtain sc where "run_ops cache_step xs (NewSmartQueryCache n) = Some sc" "sized_ok n sc"
    using results.run_ok [OF new_sized [OF assms, THEN conjunct1] map_le_refl, of xs] by blast
  then show ?thesis using smart_ok_size [of sc] by (auto simp: sized_ok_def smart_ok_def)
qed

theorem cache_stays_consistent_witness:
  shows "\<exists>sc. run_ops cache_step
      [OpPut 0 ''a'' (1::int) 10 [''L''], OpPut 1 ''b'' 2 10 [], OpPut 2 ''c'' 3 10 [''L'', ''M''], OpInvalidateLabels [''M'']]
      (NewSmartQueryCache 2) = Some sc \<and> smart_ok sc \<and> int (length (scCache sc)) \<le> 2"
  by (rule cache_stays_consistent) simp

section \<open>What a hit answers\<close>

fun touches :: "'r cache_op \<Rightarrow> string \<Rightarrow> 'r smart_entry \<Rightarrow> bool" where
  "touches (OpFinish now key cached) k e \<longleftrightarrow> False"
| "touches (OpPut now key r ttl labels) k e \<longleftrightarrow> key = k"
| "touches (OpInvalidateLabels labels) k e \<longleftrightarrow> drops labels e"
| "touches OpInvalidate k e \<longleftrightarrow> True"

lemma spec_origin:
  "fold cache_spec xs Map.empty k = Some e \<Longrightarrow>
   \<exists>pre t r ttl labels post. xs = pre @ OpPut t k r ttl labels # post
     \<and> e = \<lparr>seResult = r, seTimestamp = t, seTtl = ttl, seLabels = labels\<rparr> \<and> list_all (\<lambda>x. \<not> touches x k e) post"
proof (induction xs rule: rev_induct)
  case (snoc x xs)
  let ?m = "fold cache_spec xs Map.empty"
  have new: "cache_spec x ?m k = Some e" using snoc(2) by simp
  show ?case
  proof (cases "?m k = Some e \<and> \<not> touches x k e")
    case True
    then obtain pre t r ttl labels post where "xs = pre @ OpPut t k r ttl labels # post"
        "e = \<lparr>seResult = r, seTimestamp = t, seTtl = ttl, seLabels = labels\<rparr>" "list_all (\<lambda>x. \<not> touches x k e) post"
      using snoc(1) by blast
    then show ?thesis
      using True by (intro exI [of _ pre] exI [of _ t] exI [of _ r] exI [of _ ttl] exI [of _ labels] exI [of _ "post @ [x]"]) simp
  next
    case False
    have "\<exists>t r ttl labels. x = OpPut t k r ttl labels \<and> e = \<lparr>seResult = r, seTimestamp = t, seTtl = ttl, seLabels = labels\<rparr>"
    proof (cases x)
      case (OpPut t key r ttl labels)
      then show ?thesis using new False by (cases "key = k") simp_all
    next
      case (OpInvalidateLabels labels)
      then show ?thesis using new False by (cases "?m k") (simp_all split: if_split_asm)
    qed (use new False in simp_all)
    then show ?thesis by fastforce
  qed
qed simp

text \<open>
  Claim C38. A hit answers a stored result that nothing has invalidated: when a lookup answers a result after any
  operations, then one of these stored this result under this key, it is not older than its time to live, and
  after it there was no other store under the key, no full invalidation, and no invalidation of one of the
  labels of the entry, nor of any label when the entry has none.
\<close>

theorem cached_result_is_current:
  assumes "0 < n" and "run_ops cache_step xs (NewSmartQueryCache n) = Some sc" and "fst (smartGet now k sc) = Some r"
  shows "\<exists>pre t ttl labels post. xs = pre @ OpPut t k r ttl labels # post \<and> now - t \<le> ttl
    \<and> list_all (\<lambda>x. \<not> touches x k \<lparr>seResult = r, seTimestamp = t, seTtl = ttl, seLabels = labels\<rparr>) post"
proof -
  obtain e where e: "held sc k = Some e" "now - seTimestamp e \<le> seTtl e" "seResult e = r"
    using assms(3) by (auto simp: smartGet_def getFinish_def held_def split: option.splits if_splits)
  have "fold cache_spec xs Map.empty k = Some e"
    using results.holds_entry [OF _ _ assms(2) e(1)] new_sized [OF assms(1)] by blast
  from spec_origin [OF this] e(2,3) show ?thesis by fastforce
qed

theorem cached_result_is_current_witness:
  shows "\<exists>pre t ttl labels post. [OpPut 0 ''a'' (1::int) 10 [''L''], OpInvalidateLabels [''M'']] = pre @ OpPut t ''a'' 1 ttl labels # post
    \<and> 7 - t \<le> ttl
    \<and> list_all (\<lambda>x. \<not> touches x ''a'' \<lparr>seResult = 1, seTimestamp = t, seTtl = ttl, seLabels = labels\<rparr>) post"
proof (rule cached_result_is_current [of 2])
  show "run_ops cache_step [OpPut 0 ''a'' (1::int) 10 [''L''], OpInvalidateLabels [''M'']] (NewSmartQueryCache 2)
      = Some \<lparr>scCache = [(''a'', \<lparr>seResult = 1, seTimestamp = 0, seTtl = 10, seLabels = [''L'']\<rparr>)],
          scLabelIndex = [(''L'', [''a''])], scLru = [''a''], scMaxSize = 2, scHits = 0, scMisses = 0,
          scSmartInvals = 0, scFullInvals = 0\<rparr>"
    by (simp add: PutWithLabels_def removeEntry_def NewSmartQueryCache_def makeRoom.simps addToLabel_def InvalidateLabels_def
        keysToRemove_def keysOfLabel_def smartGet_def getFinish_def)
qed (simp_all add: smartGet_def getFinish_def NewSmartQueryCache_def)


section \<open>The cache in front of the executor\<close>

text \<open>What the cache relies on, over the parameter \<open>run\<close>: statements that are no writes leave the data alone, two
  queries with one key have the same results, and a write changes the results of no query whose labels are
  all different from its own.\<close>

definition cacheable :: "string \<Rightarrow> bool" where
  "cacheable cypher \<longleftrightarrow> IsReadOnly (analyzeQuery cypher) \<and> isCacheableReadQuery cypher"

definition reads_only :: "(string \<Rightarrow> 'v params \<Rightarrow> 'd \<Rightarrow> 'r option \<times> 'd) \<Rightarrow> bool" where
  "reads_only run \<longleftrightarrow> (\<forall>q p d. \<not> IsWriteQuery (analyzeQuery q) \<longrightarrow> snd (run q p d) = d)"

definition keys_faithful :: "('v \<Rightarrow> string) \<Rightarrow> (string \<Rightarrow> 'v params \<Rightarrow> 'd \<Rightarrow> 'r option \<times> 'd) \<Rightarrow> bool" where
  "keys_faithful fmtv run \<longleftrightarrow>
     (\<forall>q p q' p' d. cacheKeyFNV fmtv q p = cacheKeyFNV fmtv q' p' \<longrightarrow> fst (run q p d) = fst (run q' p' d))"

definition labels_local :: "(string \<Rightarrow> 'v params \<Rightarrow> 'd \<Rightarrow> 'r option \<times> 'd) \<Rightarrow> bool" where
  "labels_local run \<longleftrightarrow>
     (\<forall>w pw q p d. IsWriteQuery (analyzeQuery w) \<and> extractLabelsFromQuery w \<noteq> [] \<and> extractLabelsFromQuery q \<noteq> []
        \<and> set (extractLabelsFromQuery w) \<inter> set (extractLabelsFromQuery q) = {}
        \<longrightarrow> fst (run q p (snd (run w pw d))) = fst (run q p d))"

lemma analyze_fields [simp]:
  "Labels (analyzeQuery q) = extractLabelsFromQuery q"
  "IsReadOnly (analyzeQuery q) \<Longrightarrow> \<not> IsWriteQuery (analyzeQuery q)"
  by (simp_all add: analyzeQuery_def Let_def)

text \<open>The results of an executor, cut to the limit. The hypotheses on an executor pass to it.\<close>

definition limited :: "('r \<Rightarrow> 'r) \<Rightarrow> (string \<Rightarrow> 'v params \<Rightarrow> 'd \<Rightarrow> 'r option \<times> 'd) \<Rightarrow> string \<Rightarrow> 'v params \<Rightarrow> 'd \<Rightarrow> 'r option \<times> 'd" where
  "limited limit run q p d = (let (r, d') = run q p d in (map_option limit r, d'))"

lemma limited_fields [simp]:
  "fst (limited limit run q p d) = map_option limit (fst (run q p d))"
  "snd (limited limit run q p d) = snd (run q p d)"
  by (simp_all add: limited_def split: prod.split)

lemma limited_hypotheses:
  "reads_only run \<Longrightarrow> reads_only (limited limit run)"
  "keys_faithful fmtv run \<Longrightarrow> keys_faithful fmtv (limited limit run)"
  "labels_local run \<Longrightarrow> labels_local (limited limit run)"
  unfolding reads_only_def keys_faithful_def labels_local_def limited_fields by metis+

text \<open>The analyzer may answer with the analysis of another text of the same normal form. Among texts whose
  analyses agree when their normal forms do, it answers with the analysis of the text itself.\<close>

definition analysis :: "string \<Rightarrow> query_info" where
  "analysis q = (analyzeQuery q)\<lparr>NormalizedQuery := normalizeQuery q\<rparr>"

definition analyses_agree :: "string list \<Rightarrow> bool" where
  "analyses_agree qs \<longleftrightarrow>
     (\<forall>q \<in> set qs. \<forall>q' \<in> set qs. normalizeQuery q = normalizeQuery q' \<longrightarrow> analyzeQuery q = analyzeQuery q')"

definition analyzed :: "string list \<Rightarrow> query_analyzer \<Rightarrow> bool" where
  "analyzed qs qa \<longleftrightarrow> (\<forall>(q, info) \<in> set (qaRaw qa). info = analysis q)
     \<and> (\<forall>(n, info) \<in> set (qaCache qa). \<exists>q \<in> set qs. n = normalizeQuery q \<and> info = analysis q)"

lemma set_aupdate: "set (AList.update k v xs) \<subseteq> insert (k, v) (set xs)"
  by (induction xs) auto

lemma set_dropOne: "set (dropOne pick n m) \<subseteq> set m"
  by (auto simp: dropOne_def AList.delete_eq)

lemma Analyze_ok:
  assumes "analyzed qs qa" "analyses_agree qs" "q \<in> set qs"
  shows "\<exists>qa'. Analyze pick q qa = (analysis q, qa') \<and> analyzed qs qa'"
proof (cases "map_of (qaRaw qa) q")
  case (Some info)
  then show ?thesis
    using assms(1) map_of_SomeD [OF Some] by (auto simp: Analyze_def analyzed_def)
next
  case None
  show ?thesis
  proof (cases "map_of (qaCache qa) (normalizeQuery q)")
    case (Some info)
    from map_of_SomeD [OF Some] assms(1) obtain q' where "q' \<in> set qs" "normalizeQuery q = normalizeQuery q'" "info = analysis q'"
      unfolding analyzed_def by blast
    then have "info = analysis q"
      using assms(2,3) unfolding analyses_agree_def analysis_def by metis
    then show ?thesis using None Some assms(1) by (simp add: Analyze_def Let_def)
  next
    case none: None
    let ?raw = "AList.update q (analysis q) (dropOne pick (qaMaxSize qa) (qaRaw qa))"
    let ?cache = "AList.update (normalizeQuery q) (analysis q) (dropOne pick (qaMaxSize qa) (qaCache qa))"
    have "set ?raw \<subseteq> insert (q, analysis q) (set (qaRaw qa))"
      "set ?cache \<subseteq> insert (normalizeQuery q, analysis q) (set (qaCache qa))"
      using set_aupdate set_dropOne by (meson insert_mono order_trans)+
    then have "analyzed qs (qa\<lparr>qaCache := ?cache, qaRaw := ?raw\<rparr>)"
      using assms(1,3) unfolding analyzed_def by (fastforce simp: subset_iff)
    then show ?thesis
      using None none by (simp add: Analyze_def Let_def analysis_def)
  qed
qed

lemma new_analyzed: "analyzed qs (NewQueryAnalyzer n)"
  by (simp add: analyzed_def NewQueryAnalyzer_def)

lemma analysis_fields [simp]:
  "executeCached fmtv run limit ttl now later (analysis q) inTx q' p st =
   executeCached fmtv run limit ttl now later (analyzeQuery q) inTx q' p st"
  by (simp add: executeCached_def analysis_def returnsEarly_def invalidateAfter_def cong: if_cong option.case_cong)

text \<open>One query of an executor.\<close>

lemma run_query:
  assumes "analyzed qs qa" "analyses_agree qs" "q \<in> set qs"
    and "executeCached (suPrint su) (suRun su) (suLimit su) (suTtl su) now later (analyzeQuery q) (tx \<noteq> None) q p
      (sc, case tx of None \<Rightarrow> data | Some t \<Rightarrow> t) = Some (r, sc', d')"
  shows "\<exists>qa'. analyzed qs qa' \<and> executeStatement su (Query now later q p)
      \<lparr>exCache = sc, exAnalyzer = qa, exData = data, exTx = tx\<rparr>
    = Some (r, \<lparr>exCache = sc', exAnalyzer = qa', exData = (if tx = None then d' else data),
        exTx = (if tx = None then None else Some d')\<rparr>)"
proof -
  obtain qa' where "Analyze (suPick su) q qa = (analysis q, qa')" "analyzed qs qa'"
    using Analyze_ok [OF assms(1-3)] by blast
  then show ?thesis
    using assms(4) by (intro exI [of _ qa']) (cases tx; simp)
qed

text \<open>Each entry is the result that its query has on the data as they are.\<close>

definition up_to_date ::
  "('v \<Rightarrow> string) \<Rightarrow> (string \<Rightarrow> 'v params \<Rightarrow> 'd \<Rightarrow> 'r option \<times> 'd) \<Rightarrow> 'd \<Rightarrow> (string \<rightharpoonup> 'r smart_entry) \<Rightarrow> bool" where
  "up_to_date fmtv run d m \<longleftrightarrow>
     (\<forall>k e. m k = Some e \<longrightarrow> (\<exists>q p. k = cacheKeyFNV fmtv q p \<and> seLabels e = extractLabelsFromQuery q
        \<and> fst (run q p d) = Some (seResult e)))"

lemma up_to_date_le: "m \<subseteq>\<^sub>m m' \<Longrightarrow> up_to_date fmtv run d m' \<Longrightarrow> up_to_date fmtv run d m"
  unfolding up_to_date_def map_le_def by (metis domIff option.distinct(1))

lemma up_to_date_put:
  "up_to_date fmtv run d m \<Longrightarrow> fst (run q p d) = Some r \<Longrightarrow>
   up_to_date fmtv run d (m(cacheKeyFNV fmtv q p \<mapsto>
     \<lparr>seResult = r, seTimestamp = t, seTtl = ttl, seLabels = extractLabelsFromQuery q\<rparr>))"
  by (auto simp: up_to_date_def)

lemma up_to_date_write:
  assumes "up_to_date fmtv run d m" "labels_local run" "IsWriteQuery (analyzeQuery w)" "extractLabelsFromQuery w \<noteq> []"
  shows "up_to_date fmtv run (snd (run w pw d)) (cache_spec (OpInvalidateLabels (extractLabelsFromQuery w)) m)"
  unfolding up_to_date_def
proof (intro allI impI)
  fix k e
  assume "cache_spec (OpInvalidateLabels (extractLabelsFromQuery w)) m k = Some e"
  then have e: "m k = Some e" "\<not> drops (extractLabelsFromQuery w) e"
    by (auto split: option.splits if_splits)
  then obtain q p where q: "k = cacheKeyFNV fmtv q p" "seLabels e = extractLabelsFromQuery q" "fst (run q p d) = Some (seResult e)"
    using assms(1) unfolding up_to_date_def by blast
  have "fst (run q p (snd (run w pw d))) = fst (run q p d)"
    using assms(2-4) e(2) q(2) unfolding labels_local_def drops_def by metis
  then show "\<exists>q p. k = cacheKeyFNV fmtv q p \<and> seLabels e = extractLabelsFromQuery q
      \<and> fst (run q p (snd (run w pw d))) = Some (seResult e)"
    using q by auto
qed

lemma smartGet_sized:
  "sized_ok n sc \<Longrightarrow> sized_ok n (snd (smartGet now k sc)) \<and> held (snd (smartGet now k sc)) \<subseteq>\<^sub>m held sc"
  using getFinish_ok [of sc now k "map_of (scCache sc) k"] by (simp add: sized_ok_def smartGet_def)

lemma smartGet_hit: "fst (smartGet now k sc) = Some r \<Longrightarrow> \<exists>e. held sc k = Some e \<and> seResult e = r"
  by (auto simp: smartGet_def getFinish_def held_def split: option.splits if_splits)

lemma invalidateAfter_ok:
  assumes sc: "sized_ok n sc" and up: "up_to_date fmtv run d (held sc)"
    and ro: "reads_only run" and ll: "labels_local run"
  shows "sized_ok n (invalidateAfter (analyzeQuery q) sc)
    \<and> up_to_date fmtv run (snd (run q p d)) (held (invalidateAfter (analyzeQuery q) sc))"
proof (cases "IsWriteQuery (analyzeQuery q)")
  case False
  then show ?thesis using sc up ro by (simp add: invalidateAfter_def reads_only_def)
next
  case True
  show ?thesis
  proof (cases "extractLabelsFromQuery q = []")
    case no: True
    then show ?thesis
      using cache_step_ok [OF sc, of OpInvalidate] True Invalidate_ok [of sc] sc
      by (simp add: invalidateAfter_def up_to_date_def sized_ok_def)
  next
    case False
    then show ?thesis
      using cache_step_ok [OF sc, of "OpInvalidateLabels (extractLabelsFromQuery q)"] True
        up_to_date_le [OF _ up_to_date_write [OF up ll True False]]
      by (auto simp: invalidateAfter_def)
  qed
qed

text \<open>One statement outside of a transaction.\<close>

lemma executeCached_ok:
  assumes sc: "sized_ok n sc" and up: "up_to_date fmtv (limited limit run) d (held sc)"
    and hyps: "reads_only run" "keys_faithful fmtv run" "labels_local run"
    and early: "\<not> returnsEarly (analyzeQuery q) False q"
  shows "\<exists>sc'. executeCached fmtv run limit ttl now later (analyzeQuery q) False q p (sc, d)
      = Some (map_option limit (fst (run q p d)), sc', snd (run q p d))
    \<and> sized_ok n sc' \<and> up_to_date fmtv (limited limit run) (snd (run q p d)) (held sc')"
proof -
  note ro = limited_hypotheses(1) [OF hyps(1), of limit] and kf = limited_hypotheses(2) [OF hyps(2), of limit]
    and ll = limited_hypotheses(3) [OF hyps(3), of limit]
  let ?run = "limited limit run"
  let ?k = "cacheKeyFNV fmtv q p" and ?i = "analyzeQuery q"
  let ?c = "IsReadOnly ?i \<and> isCacheableReadQuery q"
  obtain r0 d' where run0: "run q p d = (r0, d')" by fastforce
  define r where "r = map_option limit r0"
  have run: "fst (?run q p d) = r" "snd (?run q p d) = d'" "snd (run q p d) = d'" using run0 by (simp_all add: r_def)
  obtain hit sc1 where get: "(if ?c then smartGet now ?k sc else (None, sc)) = (hit, sc1)" by fastforce
  have sc1: "sized_ok n sc1" "held sc1 \<subseteq>\<^sub>m held sc"
    using smartGet_sized [OF sc, of now ?k] sc get by (auto split: if_split_asm)
  have up1: "up_to_date fmtv ?run d (held sc1)" by (rule up_to_date_le [OF sc1(2) up])
  show ?thesis
  proof (cases hit)
    case (Some x)
    then have c: ?c and h: "fst (smartGet now ?k sc) = Some x" using get by (auto split: if_split_asm)
    from smartGet_hit [OF h] obtain e where e: "held sc ?k = Some e" "seResult e = x" by blast
    then obtain q' p' where q': "?k = cacheKeyFNV fmtv q' p'" "fst (?run q' p' d) = Some x"
      using up unfolding up_to_date_def by blast
    have "fst (?run q p d) = Some x" using kf q' unfolding keys_faithful_def by metis
    moreover have "snd (run q p d) = d" using hyps(1) c by (simp add: reads_only_def)
    ultimately show ?thesis
      using Some get sc1(1) up1 by (auto simp: executeCached_def Let_def)
  next
    case None
    have "\<exists>sc2. (case r of Some r \<Rightarrow> if ?c then PutWithLabels later ?k r ttl (extractLabelsFromQuery q) sc1 else Some sc1
          | None \<Rightarrow> Some sc1) = Some sc2 \<and> sized_ok n sc2 \<and> up_to_date fmtv ?run d (held sc2)"
    proof (cases r)
      case (Some y)
      have "\<exists>sc2. PutWithLabels later ?k y ttl (extractLabelsFromQuery q) sc1 = Some sc2 \<and> sized_ok n sc2
          \<and> held sc2 \<subseteq>\<^sub>m (held sc1)(?k \<mapsto> \<lparr>seResult = y, seTimestamp = later, seTtl = ttl, seLabels = extractLabelsFromQuery q\<rparr>)"
        using cache_step_ok [OF sc1(1), of "OpPut later ?k y ttl (extractLabelsFromQuery q)"] by simp
      moreover have "fst (?run q p d) = Some y" using run Some by simp
      ultimately show ?thesis
        using up_to_date_le [OF _ up_to_date_put [where r = y and q = q and p = p, OF up1]] Some sc1(1) up1 by fastforce
    qed (use sc1(1) up1 in simp)
    then obtain sc2 where sc2: "(case r of Some r \<Rightarrow> if ?c then PutWithLabels later ?k r ttl (extractLabelsFromQuery q) sc1 else Some sc1
          | None \<Rightarrow> Some sc1) = Some sc2" "sized_ok n sc2" "up_to_date fmtv ?run d (held sc2)" by blast
    have "executeCached fmtv run limit ttl now later ?i False q p (sc, d) = Some (r, invalidateAfter ?i sc2, d')"
      using get None early run0 sc2(1) by (simp add: executeCached_def Let_def r_def)
    then show ?thesis using invalidateAfter_ok [OF sc2(2,3) ro ll, of q p] run by simp
  qed
qed

text \<open>The statements run on the data alone.\<close>

fun plainAll :: "(string \<Rightarrow> 'v params \<Rightarrow> 'd \<Rightarrow> 'r option \<times> 'd) \<Rightarrow> 'v statement list \<Rightarrow> 'd \<Rightarrow> 'r option list \<times> 'd" where
  "plainAll run [] d = ([], d)"
| "plainAll run (Query now later q p # ss) d =
     (let (r, d1) = run q p d; (rs, d2) = plainAll run ss d1 in (r # rs, d2))"
| "plainAll run (_ # ss) d = plainAll run ss d"

fun autocommit :: "'v statement \<Rightarrow> bool" where
  "autocommit (Query now later q p) \<longleftrightarrow> \<not> returnsEarly (analyzeQuery q) False q"
| "autocommit _ \<longleftrightarrow> False"

fun texts :: "'v statement list \<Rightarrow> string list" where
  "texts [] = []"
| "texts (Query now later q p # ss) = q # texts ss"
| "texts (_ # ss) = texts ss"

lemma executeAll_ok:
  assumes hyps: "reads_only (suRun su)" "keys_faithful (suPrint su) (suRun su)" "labels_local (suRun su)"
    and agree: "analyses_agree qs"
  shows "list_all autocommit ss \<Longrightarrow> set (texts ss) \<subseteq> set qs \<Longrightarrow> sized_ok n sc \<Longrightarrow> analyzed qs qa \<Longrightarrow>
    up_to_date (suPrint su) (limited (suLimit su) (suRun su)) d (held sc) \<Longrightarrow>
    \<exists>ex'. executeAll su ss \<lparr>exCache = sc, exAnalyzer = qa, exData = d, exTx = None\<rparr>
        = Some (fst (plainAll (limited (suLimit su) (suRun su)) ss d), ex')
      \<and> exData ex' = snd (plainAll (limited (suLimit su) (suRun su)) ss d) \<and> smart_ok (exCache ex')"
proof (induction ss arbitrary: sc qa d)
  case Nil
  then show ?case by (simp add: sized_ok_def)
next
  case (Cons s ss)
  let ?run = "limited (suLimit su) (suRun su)"
  obtain now later q p where s: "s = Query now later q p" "\<not> returnsEarly (analyzeQuery q) False q"
    using Cons(2) by (cases s) auto
  let ?d = "snd (suRun su q p d)"
  obtain sc' where one: "executeCached (suPrint su) (suRun su) (suLimit su) (suTtl su) now later (analyzeQuery q) False q p (sc, d)
        = Some (map_option (suLimit su) (fst (suRun su q p d)), sc', ?d)"
      "sized_ok n sc'" "up_to_date (suPrint su) ?run ?d (held sc')"
    using executeCached_ok [OF Cons(4,6) hyps s(2)] by blast
  have q: "q \<in> set qs" using Cons(3) by (simp add: s(1))
  obtain qa' where st: "analyzed qs qa'" "executeStatement su s \<lparr>exCache = sc, exAnalyzer = qa, exData = d, exTx = None\<rparr>
      = Some (map_option (suLimit su) (fst (suRun su q p d)), \<lparr>exCache = sc', exAnalyzer = qa', exData = ?d, exTx = None\<rparr>)"
    using run_query [OF Cons(5) agree q, where tx = None and su = su and data = d] one(1) by (force simp: s(1))
  obtain ex' where "executeAll su ss \<lparr>exCache = sc', exAnalyzer = qa', exData = ?d, exTx = None\<rparr>
        = Some (fst (plainAll ?run ss ?d), ex')"
      "exData ex' = snd (plainAll ?run ss ?d)" "smart_ok (exCache ex')"
    using Cons(1) [OF _ _ one(2) st(1) one(3)] Cons(2,3) by (auto simp: s(1))
  then show ?case
    using st(2) limited_fields [of "suLimit su" "suRun su" q p d]
    by (cases "?run q p d") (simp add: s(1) split: prod.split)
qed


definition "count_query = ''MATCH (n) RETURN count(n) AS c''"
definition "create_query = ''CREATE (n)''"

text \<open>An executor that counts the writes without labels.\<close>

definition counting_run :: "string \<Rightarrow> int params \<Rightarrow> nat \<Rightarrow> nat option \<times> nat" where
  "counting_run q p d =
     (Some d, if IsWriteQuery (analyzeQuery q) \<and> extractLabelsFromQuery q = [] then d + 1 else d)"

lemma count_query_facts:
  "cacheable count_query" "\<not> IsWriteQuery (analyzeQuery count_query)" "extractLabelsFromQuery count_query = []"
  "\<not> returnsEarly (analyzeQuery count_query) False count_query"
  by code_simp+

lemma create_query_facts:
  "IsWriteQuery (analyzeQuery create_query)" "\<not> IsReadOnly (analyzeQuery create_query)" "extractLabelsFromQuery create_query = []"
  "\<not> returnsEarly (analyzeQuery create_query) False create_query"
  by code_simp+

definition counting :: "(int, nat, nat) surroundings" where
  "counting = \<lparr>suPrint = (\<lambda>_. []), suRun = counting_run, suLimit = id, suCommit = (\<lambda>a b. Some b), suTtl = 10,
     suPick = (\<lambda>m. fst (hd m))\<rparr>"

lemma counting_texts: "normalizeQuery count_query \<noteq> normalizeQuery create_query"
  by code_simp


section \<open>What the cache does not see\<close>

text \<open>A key that answers \<open>r\<close>, at a time.\<close>

definition answers :: "go_time \<Rightarrow> string \<Rightarrow> 'r \<Rightarrow> 'r smart_cache \<Rightarrow> bool" where
  "answers now k r sc \<longleftrightarrow> (\<exists>e. held sc k = Some e \<and> seResult e = r \<and> now - seTimestamp e \<le> seTtl e)"

lemma answers_hit:
  "answers now k r sc \<Longrightarrow> fst (smartGet now k sc) = Some r \<and> held (snd (smartGet now k sc)) = held sc"
  by (auto simp: answers_def smartGet_def getFinish_def held_def)

lemma read_hit:
  assumes "cacheable q" "answers now (cacheKeyFNV fmtv q p) r sc"
  shows "\<exists>sc'. executeCached fmtv run limit ttl now later (analyzeQuery q) inTx q p (sc, d) = Some (Some r, sc', d) \<and> held sc' = held sc"
  using assms answers_hit [OF assms(2)]
  by (cases "smartGet now (cacheKeyFNV fmtv q p) sc") (auto simp: executeCached_def cacheable_def)

lemma new_misses: "smartGet now k (NewSmartQueryCache n) = (None, NewSmartQueryCache n\<lparr>scMisses := 1\<rparr>)"
  by (simp add: smartGet_def getFinish_def NewSmartQueryCache_def)

lemma new_missed:
  "0 < n \<Longrightarrow> sized_ok n (NewSmartQueryCache n\<lparr>scMisses := 1\<rparr>) \<and> held (NewSmartQueryCache n\<lparr>scMisses := 1\<rparr>) = Map.empty"
  by (simp add: sized_ok_def smart_ok_def held_def NewSmartQueryCache_def)

lemma put_missed:
  assumes "0 < n"
  shows "\<exists>sc. PutWithLabels t k r ttl labels (NewSmartQueryCache n\<lparr>scMisses := 1\<rparr>) = Some sc \<and> smart_ok sc \<and> scMaxSize sc = n
    \<and> held sc = [k \<mapsto> \<lparr>seResult = r, seTimestamp = t, seTtl = ttl, seLabels = labels\<rparr>]"
proof -
  note new = new_missed [OF assms, unfolded sized_ok_def]
  from put_ok [OF new [THEN conjunct1, THEN conjunct1], of t k r ttl labels]
  show ?thesis using assms by (auto simp: new)
qed

lemma first_read:
  assumes "cacheable q" "\<not> IsWriteQuery (analyzeQuery q)" "\<not> returnsEarly (analyzeQuery q) False q" "0 < n" "run q p d = (Some r, d)"
  shows "\<exists>sc. executeCached fmtv run limit ttl now later (analyzeQuery q) False q p (NewSmartQueryCache n, d) = Some (Some (limit r), sc, d)
    \<and> held sc = [cacheKeyFNV fmtv q p \<mapsto> \<lparr>seResult = limit r, seTimestamp = later, seTtl = ttl, seLabels = extractLabelsFromQuery q\<rparr>]
    \<and> sized_ok n sc"
proof -
  let ?k = "cacheKeyFNV fmtv q p" and ?sc = "NewSmartQueryCache n\<lparr>scMisses := 1\<rparr>"
  obtain sc where sc: "PutWithLabels later ?k (limit r) ttl (extractLabelsFromQuery q) ?sc = Some sc" "smart_ok sc" "scMaxSize sc = n"
      "held sc = [?k \<mapsto> \<lparr>seResult = limit r, seTimestamp = later, seTtl = ttl, seLabels = extractLabelsFromQuery q\<rparr>]"
    using put_missed [OF assms(4), of later ?k "limit r" ttl "extractLabelsFromQuery q"] by blast
  then show ?thesis
    using assms by (simp add: new_misses executeCached_def Let_def cacheable_def invalidateAfter_def sized_ok_def)
qed

lemma write_past_cache:
  assumes "\<not> IsReadOnly (analyzeQuery q)"
  shows "executeCached fmtv run limit ttl now later (analyzeQuery q) inTx q p (sc, d) =
    Some (if returnsEarly (analyzeQuery q) inTx q then (fst (run q p d), sc, snd (run q p d))
      else (map_option limit (fst (run q p d)), invalidateAfter (analyzeQuery q) sc, snd (run q p d)))"
  using assms by (simp add: executeCached_def Let_def split: prod.split option.split)

text \<open>What an executor does with a query in its surroundings.\<close>

abbreviation cached where
  "cached su now later inTx q p st \<equiv>
     executeCached (suPrint su) (suRun su) (suLimit su) (suTtl su) now later (analyzeQuery q) inTx q p st"

lemmas first_cached = first_read [where run = "suRun su" and fmtv = "suPrint su" and limit = "suLimit su" and ttl = "suTtl su" for su]
lemmas hit_cached = read_hit [where run = "suRun su" and fmtv = "suPrint su" and limit = "suLimit su" and ttl = "suTtl su" for su]

text \<open>
  Claim C39. A commit leaves the cache as it was, and a transaction does not see its own writes in what is
  cached: a count that was read before, then \<open>BEGIN\<close>, a \<open>CREATE\<close>, the count again, \<open>COMMIT\<close> and the count
  once more. For every executor, every commit that succeeds and every time to live, both later reads answer
  the count of before, although the committed data are by then those of the transaction.
\<close>

theorem commit_leaves_stale_result:
  assumes "0 < n" and "0 \<le> suTtl su" and "suRun su count_query [] d = (Some r, d)"
    and "suRun su create_query [] d = (w, t)" and "suCommit su d t = Some d'"
  shows "\<exists>ex. executeAll su
      [Query 0 0 count_query [], BeginTx, Query 0 0 create_query [], Query 0 0 count_query [], CommitTx, Query 0 0 count_query []]
      (newExecutor n d)
    = Some ([Some (suLimit su r), None, w, Some (suLimit su r), None, Some (suLimit su r)], ex)
    \<and> exData ex = d' \<and> exTx ex = None"
proof -
  let ?qs = "[count_query, create_query]" and ?r = "suLimit su r" and ?k = "cacheKeyFNV (suPrint su) count_query []"
  have agree: "analyses_agree ?qs" "count_query \<in> set ?qs" "create_query \<in> set ?qs"
    using counting_texts by (auto simp: analyses_agree_def)
  obtain s1 where s1: "cached su 0 0 False count_query [] (NewSmartQueryCache n, d) = Some (Some ?r, s1, d)"
      "held s1 = [?k \<mapsto> \<lparr>seResult = ?r, seTimestamp = 0, seTtl = suTtl su, seLabels = extractLabelsFromQuery count_query\<rparr>]"
    using first_cached [OF count_query_facts(1,2,4) assms(1,3)] by blast
  have a1: "answers 0 ?k ?r s1" using s1(2) assms(2) by (simp add: answers_def)
  have w: "cached su 0 0 True create_query [] (s1, d)
      = Some (w, s1, t)"
    using assms(4) by (simp add: write_past_cache create_query_facts returnsEarly_def)
  obtain s2 where s2: "cached su 0 0 True count_query [] (s1, t) = Some (Some ?r, s2, t)" "held s2 = held s1"
    using hit_cached [OF count_query_facts(1) a1] by blast
  have a2: "answers 0 ?k ?r s2" using a1 s2(2) by (simp add: answers_def)
  obtain s3 where s3: "cached su 0 0 False count_query [] (s2, d') = Some (Some ?r, s3, d')"
    using hit_cached [OF count_query_facts(1) a2] by blast
  note run = run_query [where su = su, OF _ agree(1)]
  obtain qa1 where q1: "analyzed ?qs qa1" "executeStatement su (Query 0 0 count_query []) (newExecutor n d)
      = Some (Some ?r, \<lparr>exCache = s1, exAnalyzer = qa1, exData = d, exTx = None\<rparr>)"
    using run [OF new_analyzed agree(2), where tx = None and data = d] s1(1) by (force simp: newExecutor_def)
  obtain qa2 where q2: "analyzed ?qs qa2" "executeStatement su (Query 0 0 create_query [])
      \<lparr>exCache = s1, exAnalyzer = qa1, exData = d, exTx = Some d\<rparr>
      = Some (w, \<lparr>exCache = s1, exAnalyzer = qa2, exData = d, exTx = Some t\<rparr>)"
    using run [OF q1(1) agree(3), where tx = "Some d" and data = d] w by force
  obtain qa3 where q3: "analyzed ?qs qa3" "executeStatement su (Query 0 0 count_query [])
      \<lparr>exCache = s1, exAnalyzer = qa2, exData = d, exTx = Some t\<rparr>
      = Some (Some ?r, \<lparr>exCache = s2, exAnalyzer = qa3, exData = d, exTx = Some t\<rparr>)"
    using run [OF q2(1) agree(2), where tx = "Some t" and data = d] s2(1) by force
  obtain qa4 where q4: "executeStatement su (Query 0 0 count_query [])
      \<lparr>exCache = s2, exAnalyzer = qa3, exData = d', exTx = None\<rparr>
      = Some (Some ?r, \<lparr>exCache = s3, exAnalyzer = qa4, exData = d', exTx = None\<rparr>)"
    using run [OF q3(1) agree(2), where tx = None and data = d'] s3 by force
  show ?thesis
    using q1(2) q2(2) q3(2) q4 assms(5) by (simp del: executeStatement.simps(4) add: handleBegin_def handleCommit_def)
qed

theorem commit_leaves_stale_result_witness:
  shows "\<exists>ex. executeAll counting
      [Query 0 0 count_query [], BeginTx, Query 0 0 create_query [], Query 0 0 count_query [], CommitTx, Query 0 0 count_query []]
      (newExecutor 2 7) = Some ([Some 7, None, Some 7, Some 7, None, Some 7], ex) \<and> exData ex = 8 \<and> exTx ex = None"
  using commit_leaves_stale_result [of 2 counting 7 7 "Some 7" 8 8]
  by (simp add: counting_def counting_run_def count_query_facts create_query_facts)

text \<open>
  Claim C40. A write with labels drops only the cached results of queries that name one of them, and of queries
  without labels. So for a cacheable query \<open>q\<close> and a write \<open>u\<close> that both name labels, but none in common, a read
  of \<open>q\<close>, the write and \<open>q\<close> again within the time to live return the old result, for every executor, whatever
  the write does to what \<open>q\<close> reads: the labels of a query do not name all it reads. In the witness \<open>q\<close> asks what
  the neighbours of persons are and \<open>u\<close> changes the cities, which may be such neighbours.
\<close>

theorem label_invalidation_leaves_stale_result:
  assumes "0 < n" and "t2 - t1 \<le> suTtl su" and "cacheable q" and "\<not> returnsEarly (analyzeQuery q) False q"
    and "IsWriteQuery (analyzeQuery u)" and "\<not> returnsEarly (analyzeQuery u) False u"
    and "extractLabelsFromQuery q \<noteq> []" and "extractLabelsFromQuery u \<noteq> []"
    and "set (extractLabelsFromQuery q) \<inter> set (extractLabelsFromQuery u) = {}" and "normalizeQuery q \<noteq> normalizeQuery u"
    and "suRun su q p d = (Some r, d)" and "suRun su u pu d = (w, d')"
  shows "\<exists>ex. executeAll su [Query t0 t1 q p, Query tu tv u pu, Query t2 t3 q p] (newExecutor n d)
      = Some ([Some (suLimit su r), map_option (suLimit su) w, Some (suLimit su r)], ex) \<and> exData ex = d'"
proof -
  let ?qs = "[q, u]" and ?r = "suLimit su r" and ?k = "cacheKeyFNV (suPrint su) q p"
  have agree: "analyses_agree ?qs" "q \<in> set ?qs" "u \<in> set ?qs"
    using assms(10) by (auto simp: analyses_agree_def)
  have q: "\<not> IsWriteQuery (analyzeQuery q)" and u: "\<not> IsReadOnly (analyzeQuery u)"
    using assms(3,5) by (auto simp: cacheable_def)
  obtain s1 where s1: "cached su t0 t1 False q p (NewSmartQueryCache n, d) = Some (Some ?r, s1, d)"
      "held s1 = [?k \<mapsto> \<lparr>seResult = ?r, seTimestamp = t1, seTtl = suTtl su, seLabels = extractLabelsFromQuery q\<rparr>]" "sized_ok n s1"
    using first_cached [OF assms(3) q assms(4,1,11)] by blast
  let ?s2 = "InvalidateLabels (extractLabelsFromQuery u) s1"
  have w: "cached su tu tv False u pu (s1, d)
      = Some (map_option (suLimit su) w, ?s2, d')"
    using assms(5,6,8,12) u by (simp add: write_past_cache invalidateAfter_def)
  have "held ?s2 ?k = held s1 ?k"
    using InvalidateLabels_ok [of s1 "extractLabelsFromQuery u"] s1(2,3) assms(7,9)
    by (auto simp: sized_ok_def drops_def)
  then have a2: "answers t2 ?k ?r ?s2" using s1(2) assms(2) by (simp add: answers_def)
  obtain s3 where s3: "cached su t2 t3 False q p (?s2, d') = Some (Some ?r, s3, d')"
    using hit_cached [OF assms(3) a2] by blast
  note run = run_query [where su = su, OF _ agree(1)]
  obtain qa1 where q1: "analyzed ?qs qa1" "executeStatement su (Query t0 t1 q p) (newExecutor n d)
      = Some (Some ?r, \<lparr>exCache = s1, exAnalyzer = qa1, exData = d, exTx = None\<rparr>)"
    using run [OF new_analyzed agree(2), where tx = None and data = d] s1(1) by (force simp: newExecutor_def)
  obtain qa2 where q2: "analyzed ?qs qa2" "executeStatement su (Query tu tv u pu)
      \<lparr>exCache = s1, exAnalyzer = qa1, exData = d, exTx = None\<rparr>
      = Some (map_option (suLimit su) w, \<lparr>exCache = ?s2, exAnalyzer = qa2, exData = d', exTx = None\<rparr>)"
    using run [OF q1(1) agree(3), where tx = None and data = d] w by force
  obtain qa3 where "executeStatement su (Query t2 t3 q p)
      \<lparr>exCache = ?s2, exAnalyzer = qa2, exData = d', exTx = None\<rparr>
      = Some (Some ?r, \<lparr>exCache = s3, exAnalyzer = qa3, exData = d', exTx = None\<rparr>)"
    using run [OF q2(1) agree(2), where tx = None and data = d'] s3 by force
  then show ?thesis
    using q1(2) q2(2) by (simp del: executeStatement.simps(4))
qed

definition "neighbour_query = ''MATCH (p:Person)-->(c) RETURN c.size''"
definition "city_query = ''MATCH (c:City) SET c.size = 1''"

lemma neighbour_query_facts:
  "cacheable neighbour_query" "extractLabelsFromQuery neighbour_query = [''Person'']"
  "\<not> returnsEarly (analyzeQuery neighbour_query) False neighbour_query"
  by code_simp+

lemma city_query_facts:
  "IsWriteQuery (analyzeQuery city_query)" "extractLabelsFromQuery city_query = [''City'']"
  "\<not> returnsEarly (analyzeQuery city_query) False city_query"
  "normalizeQuery neighbour_query \<noteq> normalizeQuery city_query"
  by code_simp+

text \<open>The data are the size of a city that is a neighbour of a person.\<close>

definition city_run :: "string \<Rightarrow> int params \<Rightarrow> nat \<Rightarrow> nat option \<times> nat" where
  "city_run q p d = (if q = city_query then (Some 0, 1) else (Some d, d))"

theorem label_invalidation_leaves_stale_result_witness:
  shows "\<exists>ex. executeAll (counting\<lparr>suRun := city_run\<rparr>)
      [Query 0 1 neighbour_query [], Query 2 3 city_query [], Query 4 5 neighbour_query []] (newExecutor 2 5)
      = Some ([Some 5, Some 0, Some 5], ex) \<and> exData ex = 1 \<and> fst (city_run neighbour_query [] (exData ex)) = Some 1"
proof -
  let ?su = "counting\<lparr>suRun := city_run\<rparr>"
  have ne: "neighbour_query \<noteq> city_query" by code_simp
  have "\<exists>ex. executeAll ?su [Query 0 1 neighbour_query [], Query 2 3 city_query [], Query 4 5 neighbour_query []]
      (newExecutor 2 5) = Some ([Some (suLimit ?su 5), map_option (suLimit ?su) (Some 0), Some (suLimit ?su 5)], ex) \<and> exData ex = 1"
    by (rule label_invalidation_leaves_stale_result)
      (use ne in \<open>simp_all add: counting_def city_run_def neighbour_query_facts city_query_facts\<close>)
  then show ?thesis using ne by (auto simp: counting_def city_run_def)
qed

definition "wide_query = ''MATCH (n:P {s: 'a  b'}) RETURN n''"
definition "narrow_query = ''MATCH (n:P {s: 'a b'}) RETURN n''"

lemma same_key:
  "normalizeQuery (trimTrailingStatementDelimiters q) = normalizeQuery (trimTrailingStatementDelimiters q') \<Longrightarrow>
   cacheKeyFNV fmtv q p = cacheKeyFNV fmtv q' p"
  by (simp add: cacheKeyFNV_def)

lemma wide_query_facts:
  "cacheable wide_query" "\<not> IsWriteQuery (analyzeQuery wide_query)" "cacheable narrow_query"
  "\<not> returnsEarly (analyzeQuery wide_query) False wide_query"
  "normalizeQuery (trimTrailingStatementDelimiters wide_query) = normalizeQuery (trimTrailingStatementDelimiters narrow_query)"
  "wide_query \<noteq> narrow_query" "analyzeQuery wide_query = analyzeQuery narrow_query"
  by code_simp+

text \<open>
  White space inside a string literal is not part of the key: the queries for the nodes whose property
  is \<open>a\<close>, two blanks, \<open>b\<close> and for those where it is \<open>a\<close>, one blank, \<open>b\<close> share a key for all parameters, so for
  every executor the second one is answered with the result of the first.
\<close>

theorem literal_whitespace_shares_result:
  assumes "0 < n" and "0 \<le> suTtl su" and "suRun su wide_query p d = (Some r, d)"
  shows "\<exists>ex. executeAll su [Query 0 0 wide_query p, Query 0 0 narrow_query p] (newExecutor n d)
    = Some ([Some (suLimit su r), Some (suLimit su r)], ex)"
proof -
  let ?qs = "[wide_query, narrow_query]" and ?r = "suLimit su r" and ?k = "cacheKeyFNV (suPrint su) wide_query p"
  have agree: "analyses_agree ?qs" "wide_query \<in> set ?qs" "narrow_query \<in> set ?qs"
    using wide_query_facts(7) by (auto simp: analyses_agree_def)
  obtain s1 where s1: "cached su 0 0 False wide_query p (NewSmartQueryCache n, d) = Some (Some ?r, s1, d)"
      "held s1 = [?k \<mapsto> \<lparr>seResult = ?r, seTimestamp = 0, seTtl = suTtl su, seLabels = extractLabelsFromQuery wide_query\<rparr>]"
    using first_cached [OF wide_query_facts(1,2,4) assms(1,3)] by blast
  have "answers 0 ?k ?r s1" using s1(2) assms(2) by (simp add: answers_def)
  then have a1: "answers 0 (cacheKeyFNV (suPrint su) narrow_query p) ?r s1"
    using same_key [OF wide_query_facts(5)] by metis
  obtain s2 where s2: "cached su 0 0 False narrow_query p (s1, d) = Some (Some ?r, s2, d)"
    using hit_cached [OF wide_query_facts(3) a1] by blast
  note run = run_query [where su = su, OF _ agree(1)]
  obtain qa1 where q1: "analyzed ?qs qa1" "executeStatement su (Query 0 0 wide_query p) (newExecutor n d)
      = Some (Some ?r, \<lparr>exCache = s1, exAnalyzer = qa1, exData = d, exTx = None\<rparr>)"
    using run [OF new_analyzed agree(2), where tx = None and data = d] s1(1) by (force simp: newExecutor_def)
  obtain qa2 where "executeStatement su (Query 0 0 narrow_query p) \<lparr>exCache = s1, exAnalyzer = qa1, exData = d, exTx = None\<rparr>
      = Some (Some ?r, \<lparr>exCache = s2, exAnalyzer = qa2, exData = d, exTx = None\<rparr>)"
    using run [OF q1(1) agree(3), where tx = None and data = d] s2 by force
  then show ?thesis using q1(2) by (simp del: executeStatement.simps(4))
qed

definition wide_run :: "string \<Rightarrow> int params \<Rightarrow> nat \<Rightarrow> nat option \<times> nat" where
  "wide_run q p d = (Some (if q = wide_query then 2 else 1), d)"

theorem literal_whitespace_shares_result_witness:
  shows "\<exists>ex. executeAll (counting\<lparr>suRun := wide_run\<rparr>) [Query 0 0 wide_query [], Query 0 0 narrow_query []] (newExecutor 2 0)
    = Some ([Some 2, Some 2], ex)"
  using literal_whitespace_shares_result [of 2 "counting\<lparr>suRun := wide_run\<rparr>" "[]" 0 2]
  by (simp add: counting_def wide_run_def)

text \<open>A procedure call counts as a read as soon as it returns something, whatever the procedure does.\<close>

definition "drop_query = ''CALL gds.graph.drop('g') YIELD graphName RETURN graphName''"

lemma drop_call_counts_as_read: "cacheable drop_query" "\<not> IsWriteQuery (analyzeQuery drop_query)"
  by code_simp+

text \<open>The analyzer shares the analysis of texts that are equal up to white space, while the analysis itself finds
  keywords of two words only with one blank between them: after the second text the first one has no
  optional match either.\<close>

lemma analysis_depends_on_blanks:
  "let q = ''OPTIONAL MATCH (n) RETURN n'';
       qa = snd (Analyze (\<lambda>m. fst (hd m)) ''OPTIONAL  MATCH (n) RETURN n'' (NewQueryAnalyzer 1000))
   in HasOptionalMatch (analyzeQuery q) \<and> \<not> HasOptionalMatch (fst (Analyze (\<lambda>m. fst (hd m)) q qa))"
  by code_simp

text \<open>The plain cache forgets an expired entry but not its place in the list of recent use. So a full cache
  may evict that key, which is no longer held, and hold more entries than its capacity.\<close>

lemma plain_cache_exceeds_capacity:
  "let q = queryPut 0 ''b'' (2::int) 9 (queryPut 0 ''a'' 1 1 (NewQueryCache 2));
       q = queryPut 5 ''c'' 3 9 (snd (queryGet 5 ''a'' q));
       q = queryPut 6 ''d'' 4 9 q
   in qcMaxSize q = 2 \<and> length (qcCache q) = 3"
  by (simp add: queryPut_def queryGet_def NewQueryCache_def moveToFront_def evictOldest_def Let_def)

end
