(* ===== verification/Spec2Isabelle.thy ===== *)
theory Spec2Isabelle
  imports TxConflicts PackstreamProps RaftMatching LcProps WalDurable KwScanProps CyCacheProps
begin

text \<open>
  A verification development for NornicDB, a graph database written in Go.

  The program. Clients speak the Bolt protocol; their messages carry values in the PackStream format
  (\<^verbatim>\<open>pkg/bolt\<close>). Queries run as transactions of the storage engine (\<^verbatim>\<open>pkg/storage\<close>): nodes and
  edges are rows of an ordered key-value store, and every commit leaves a version of the rows it
  wrote, so that a transaction reads the data as they were when it began. A controller prunes old
  versions (\<^verbatim>\<open>pkg/storage/lifecycle\<close>). Write commands can be replicated to other servers by Raft
  (\<^verbatim>\<open>pkg/replication\<close>).

  Conventions (GoBase). A \<^verbatim>\<open>uint64\<close> or \<^verbatim>\<open>int64\<close> is a \<open>64 word\<close>, with signed reading by \<open>sint\<close>; a
  \<^verbatim>\<open>time.Time\<close> is its distance from the epoch in nanoseconds, an \<open>int\<close>. A struct is a record, an
  enumeration a datatype, a map an association list, an error return the left injection of a sum, a
  panic \<open>None\<close>. Definitions carry the names of the Go functions they translate. Code outside the
  repository (the key-value store Badger, clocks, the time-zone database) is given by what the code
  relies on: Badger as an ordered map with snapshots and an abort decision, the others as parameters.

  Versions and keys. MvccVersion models \<^verbatim>\<open>badger_mvcc_per_namespace.go\<close>, \<^verbatim>\<open>badger_helpers.go\<close> and
  \<^verbatim>\<open>wal_ids.go\<close>: the allocation of commit versions per database (saturating sequence, clamped clock),
  their order, the byte encoding of versions, heads and keys. It shows that versions of one database
  are ordered for the conflict check whatever the clock does, that key order is version order, and
  that the encodings are read back; \<open>allocated_version_can_regress\<close> shows what the clamp does not give.

  Rows and history. GraphStore has the records and the key space; MvccStore models \<^verbatim>\<open>badger_mvcc.go\<close>:
  heads, versions, archived bodies, tombstones, reads at a version, what a commit writes, pruning.
  MvccHistory is the specification: a row is a list of versioned states, newest first, and the
  keys \<open>represent\<close> it. Reads at a version return the state of the history at that version, a commit
  appends to it, pruning drops a prefix of the past that the retention options allow.

  Transactions. TxState, TxOps and TxCommit model \<^verbatim>\<open>badger_transaction.go\<close> and
  \<^verbatim>\<open>badger_transaction_snapshot_reads.go\<close>, as steps on the engine and the transaction: beginning,
  pinning to a database, buffered writes with their indexes, reads, conflict checks, commit, rollback.
  A commit has two phases,
  \<open>prepare\<close> (the checks, the version, what the commit writes) and \<open>publish\<close> (the commit of the key-value
  transaction); peers may commit between them. The key-value transaction records the keys that a
  statement reads through it (\<open>readKeys\<close>), which is what the store detects conflicts on; the keys read
  while a commit is materialized are not recorded, so the model promises less than the store there.
  TxHoare holds the rules that carry an assertion through a step; its locales \<open>track_frame\<close>,
  \<open>buffer_frame\<close>, \<open>reader_frame\<close>, \<open>bind_frame\<close>, \<open>session_frame\<close> and \<open>call_frame\<close> say what an assertion
  must survive so that every call keeps it, and are interpreted on the assertions the properties are
  about. TxTracking proves which keys the operations of a transaction have enrolled. TxProps, TxReads
  and TxConflicts prove isolation before the commit, refusal after the end, confinement to one
  database, reads of own writes, reads of the snapshot while peers commit, and that the first
  committer wins although validation and commit are two steps; two runs show a deletion of an edge
  that wins as the later one, and a label whose index entry an update loses. \<^verbatim>\<open>strings.ToLower\<close> is
  modelled on the letters of ASCII. The validation of schema constraints and the
  answers of the lifecycle controller are parameters (the record \<open>env\<close>).

  PackStream. Packstream models the encoder and the decoder of \<^verbatim>\<open>packstream.go\<close>; PackstreamProps
  shows that what is written is read back, by way of the locale \<open>item_codec\<close> interpreted for integers,
  strings and values, that a decoder stays in its buffer, and where the 16-bit lengths fail.

  Raft. Raft models a node of \<^verbatim>\<open>raft.go\<close>, one definition per stretch of code under a lock; RaftCluster
  runs nodes, messages and goroutines as tasks in any order. RaftNode and RaftLog hold the node's
  lemmas: terms and votes, the follower's store against the rule of the Raft paper, the conflict
  index, the commit index. RaftElection proves election safety for every interleaving, by the locale
  \<open>quorum_system\<close> interpreted for majorities; RaftIndex the integrity of indexes and the absence of
  panics; RaftMatching log matching for runs whose handlers are not interrupted between their locks.
  RaftTraces evaluates the runs that break these properties otherwise. The bounds of those theorems
  (\<open>2 ^ 63 - 1\<close> steps) keep 64-bit terms and indexes from wrapping; a step adds at most one to each.

  Lifecycle. LcReaders, LcPressure, LcPlan, LcApply, LcSchedule and LcManager model
  \<^verbatim>\<open>pkg/storage/lifecycle\<close>: registered readers and floors, the pressure bands with their windows,
  emergency mode, the plan of a cycle, its order and the budgets it is admitted in, the applier
  with its fences and back-off, the metrics and the cycle that joins them; GoFloat has the binary64
  arithmetic they use. The manager works against an interface: LcStore states it as the locale
  \<open>prune_storage\<close> and proves what a cycle does to a storage that keeps it; LcBadger models the calls
  of \<^verbatim>\<open>badger_lifecycle.go\<close> and interprets the locale on them. LcProps proves that a cycle keeps the
  reads above its floors and leaves no work behind, and shows by runs where floors between versions,
  failed deletes, late head writes and readers defeat it. LcSchedule proves that budgets named by
  databases bound nothing, because the scheduler takes the namespace from an entity's number.

  Write-ahead log. WalRecord models the records of \<^verbatim>\<open>wal_atomic_record.go\<close>, the readers of
  \<^verbatim>\<open>wal.go\<close> and the repair of \<^verbatim>\<open>wal_repair.go\<close> on the bytes of a file, with the Castagnoli checksum
  computed bit by bit; JSON is the parameter \<open>json\<close>. WalRecovery shows that a log cut off anywhere is
  repaired to its whole records, that one changed byte never goes unnoticed, and which entries the
  readers cannot handle. WalLog models the log as a directory of segments with a manifest
  (\<^verbatim>\<open>wal.go\<close>, \<^verbatim>\<open>wal_segments.go\<close>, \<^verbatim>\<open>wal_batch.go\<close>), where every system call may fail and files know
  what is on disk. WalDurable proves that acknowledged entries survive failing calls, crashes and
  restarts, what truncation and retention keep, and where an interrupted rotation or truncation loses
  entries.

  Cypher front end. KwScan models the keyword scanner (\<^verbatim>\<open>pkg/cypher/keyword_scan.go\<close> and
  \<^verbatim>\<open>findMultiWordKeywordIndex\<close>), KwScanProps shows that its specialised and cached loop is the general
  one, that keywords are found in code only (by an independent grammar of literals and comments), and
  that the search for two words is one scan. CyCache models the caches (\<^verbatim>\<open>cache.go\<close>, \<^verbatim>\<open>cache_policy.go\<close>,
  \<^verbatim>\<open>query_info.go\<close>) with their keys, the labels of a query, and the part of \<^verbatim>\<open>executor.go\<close> and
  \<^verbatim>\<open>transaction.go\<close> around the result cache and the cache of analyses; running a query, the limit on rows and
  the like are the parameters \<open>surroundings\<close>. CyCacheProps
  states a cache as the locale \<open>lossy_cache\<close>, an implementation of a map that may forget, interprets it
  on the result cache, and proves its consistency, that hits are current, and that the cache is
  invisible to statements outside of transactions under four conditions on what surrounds it; then that
  each of them can fail in this code, and what a commit in between does.
  Not modelled. Storage: the asynchronous engine, schema and constraint checks,
  the identifier dictionary and secondary indexes, scans. Replication: standby and multi-region
  modes, transport, codec. The parser and the clauses of Cypher, search and vector indexes, embeddings, model
  inference, the HTTP, GraphQL and Bolt servers, authentication, administration and the bindings:
  they are other subsystems, and the manifest lists each with its reason.
\<close>

end
